(* ===== verification/Prelude.thy ===== *)
theory Prelude
  imports Main "HOL-Library.Word" "HOL-Library.Monad_Syntax" "HOL-Library.While_Combinator"
begin

text \<open>
  Shared vocabulary of the development: machine types, little-endian numbers, the byte
  memory of a process with its page protections, and the generic lemmas on words, lists
  and memories that the components use.  The memory is an address-indexed map; a byte
  that is not mapped, or whose protection forbids the access, makes the access fail with
  \<open>None\<close>, which stands for the SIGSEGV the real access raises.
\<close>

unbundle bit_operations_syntax

section \<open>Machine types and rule collections\<close>

type_synonym byte = "8 word"
type_synonym u16 = "16 word"
type_synonym u32 = "32 word"
type_synonym addr = "64 word"
type_synonym cstr = "byte list"

text \<open>A string literal of the source as bytes.\<close>

definition cstring :: "string \<Rightarrow> cstr" where "cstring s = map of_char s"

named_theorems mem_simps \<open>reading a memory after a write\<close>
named_theorems le_simps \<open>little-endian encoding and decoding\<close>
named_theorems range_simps \<open>address ranges\<close>

section \<open>Little-endian numbers\<close>

primrec le_val :: "byte list \<Rightarrow> nat" where
  "le_val [] = 0"
| "le_val (b # bs) = unat b + 256 * le_val bs"

primrec le_enc :: "nat \<Rightarrow> nat \<Rightarrow> byte list" where
  "le_enc 0 v = []"
| "le_enc (Suc n) v = of_nat v # le_enc n (v div 256)"

section \<open>Process memory\<close>

definition PROT_READ :: u32 where "PROT_READ = 1"
definition PROT_WRITE :: u32 where "PROT_WRITE = 2"
definition PROT_EXEC :: u32 where "PROT_EXEC = 4"

record vm =
  vbyte :: "addr \<Rightarrow> byte option"
  vprot :: "addr \<Rightarrow> u32"

definition in_range :: "addr \<Rightarrow> addr \<Rightarrow> addr \<Rightarrow> bool" where
  "in_range s n a \<longleftrightarrow> a - s < n"

definition load8 :: "vm \<Rightarrow> addr \<Rightarrow> byte option" where
  "load8 m a = (if vprot m a AND PROT_READ \<noteq> 0 then vbyte m a else None)"

definition writable8 :: "vm \<Rightarrow> addr \<Rightarrow> bool" where
  "writable8 m a \<longleftrightarrow> vbyte m a \<noteq> None \<and> vprot m a AND PROT_WRITE \<noteq> 0"

primrec load_bytes :: "vm \<Rightarrow> addr \<Rightarrow> nat \<Rightarrow> byte list option" where
  "load_bytes m a 0 = Some []"
| "load_bytes m a (Suc n) =
     do { b \<leftarrow> load8 m a; bs \<leftarrow> load_bytes m (a + 1) n; Some (b # bs) }"

primrec writable_bytes :: "vm \<Rightarrow> addr \<Rightarrow> nat \<Rightarrow> bool" where
  "writable_bytes m a 0 = True"
| "writable_bytes m a (Suc n) = (writable8 m a \<and> writable_bytes m (a + 1) n)"

definition put_bytes :: "(addr \<Rightarrow> byte option) \<Rightarrow> addr \<Rightarrow> byte list \<Rightarrow> addr \<Rightarrow> byte option" where
  "put_bytes f a bs x = (if unat (x - a) < length bs then Some (bs ! unat (x - a)) else f x)"

definition store_bytes :: "vm \<Rightarrow> addr \<Rightarrow> byte list \<Rightarrow> vm option" where
  "store_bytes m a bs =
     (if writable_bytes m a (length bs) then Some (m\<lparr>vbyte := put_bytes (vbyte m) a bs\<rparr>)
      else None)"

definition load_word :: "nat \<Rightarrow> vm \<Rightarrow> addr \<Rightarrow> 'a::len word option" where
  "load_word n m a = map_option (\<lambda>bs. of_nat (le_val bs)) (load_bytes m a n)"

definition store_word :: "nat \<Rightarrow> vm \<Rightarrow> addr \<Rightarrow> 'a::len word \<Rightarrow> vm option" where
  "store_word n m a v = store_bytes m a (le_enc n (unat v))"

text \<open>A memory that holds the given bytes at an address, readable everywhere (for examples).\<close>

definition sample_vm :: "byte list \<Rightarrow> addr \<Rightarrow> vm" where
  "sample_vm bs a = \<lparr>vbyte = (\<lambda>x. if unat (x - a) < length bs then Some (bs ! unat (x - a)) else None),
     vprot = (\<lambda>_. PROT_READ)\<rparr>"

abbreviation load_u16 :: "vm \<Rightarrow> addr \<Rightarrow> u16 option" where "load_u16 \<equiv> load_word 2"
abbreviation load_u32 :: "vm \<Rightarrow> addr \<Rightarrow> u32 option" where "load_u32 \<equiv> load_word 4"
abbreviation load_u64 :: "vm \<Rightarrow> addr \<Rightarrow> addr option" where "load_u64 \<equiv> load_word 8"
abbreviation store_u16 :: "vm \<Rightarrow> addr \<Rightarrow> u16 \<Rightarrow> vm option" where "store_u16 \<equiv> store_word 2"
abbreviation store_u64 :: "vm \<Rightarrow> addr \<Rightarrow> addr \<Rightarrow> vm option" where "store_u64 \<equiv> store_word 8"

section \<open>Little-endian lemmas\<close>

lemma unat_byte_less [simp]: "unat (b :: byte) < 256"
  using unsigned_less [of b, where ?'a = nat] by simp

lemma length_le_enc [simp, le_simps]: "length (le_enc n v) = n"
  by (induction n arbitrary: v) auto

lemma le_val_le_enc [le_simps]: "le_val (le_enc n v) = v mod 256 ^ n"
proof (induction n arbitrary: v)
  case (Suc n)
  have "unat (of_nat v :: byte) = v mod 256"
    by (simp add: unat_of_nat)
  with Suc show ?case
    by (simp add: mod_mult2_eq)
qed simp

lemma le_enc_le_val [le_simps]: "le_enc (length bs) (le_val bs) = bs"
proof (induction bs)
  case (Cons b bs)
  have z: "(256 :: byte) = 0" by simp
  have "(of_nat (unat b + 256 * le_val bs) :: byte) = of_nat (unat b) + 256 * of_nat (le_val bs)"
    by simp
  also have "\<dots> = b" unfolding z by simp
  finally have "(of_nat (unat b + 256 * le_val bs) :: byte) = b" .
  then show ?case using Cons by simp
qed simp

lemma le_val_bound: "le_val bs < 256 ^ length bs"
proof (induction bs)
  case (Cons b bs)
  have "unat b < 256" by simp
  with Cons show ?case by (simp del: unat_byte_less)
qed simp

section \<open>Addresses as numbers\<close>

lemma unat_add_small: "unat (a :: addr) + unat b < 2 ^ 64 \<Longrightarrow> unat (a + b) = unat a + unat b"
  using unat_add_lem [of a b] by simp

lemma unat_plus_nat:
  assumes "unat (p :: addr) + c < 2 ^ 64"
  shows "unat (p + of_nat c) = unat p + c"
proof -
  have "unat (of_nat c :: addr) = c" using assms by (simp add: unat_of_nat)
  with assms show ?thesis by (simp add: unat_add_small)
qed

lemma unat_plus_numeral:
  "unat (p :: addr) + numeral n < 2 ^ 64 \<Longrightarrow> unat (p + numeral n) = unat p + numeral n"
  using unat_plus_nat [of p "numeral n"] by (simp only: of_nat_numeral)

lemma addr_offset_order:
  assumes "unat (p :: addr) < 2 ^ 63" "j < 2 ^ 62" "k < 2 ^ 62"
  shows "p + of_nat j \<le> p + of_nat k \<longleftrightarrow> j \<le> k" "p + of_nat j < p + of_nat k \<longleftrightarrow> j < k"
proof -
  have "unat (p + of_nat j) = unat p + j" "unat (p + of_nat k) = unat p + k"
    using assms by (intro unat_plus_nat; simp)+
  then show "p + of_nat j \<le> p + of_nat k \<longleftrightarrow> j \<le> k" "p + of_nat j < p + of_nat k \<longleftrightarrow> j < k"
    by (simp_all add: word_le_nat_alt word_less_nat_alt)
qed

section \<open>Memory lemmas\<close>

lemma put_bytes_in [mem_simps]:
  "unat (x - a) < length bs \<Longrightarrow> put_bytes f a bs x = Some (bs ! unat (x - a))"
  by (simp add: put_bytes_def)

lemma put_bytes_out [mem_simps]:
  "\<not> unat (x - a) < length bs \<Longrightarrow> put_bytes f a bs x = f x"
  by (simp add: put_bytes_def)

lemma load_bytes_numeral:
  "load_bytes m a (numeral n) =
     do { b \<leftarrow> load8 m a; bs \<leftarrow> load_bytes m (a + 1) (pred_numeral n); Some (b # bs) }"
  by (simp add: numeral_eq_Suc)

lemma load_bytes_length: "load_bytes m a n = Some bs \<Longrightarrow> length bs = n"
  by (induction n arbitrary: a bs) (auto split: bind_splits)

lemma load_bytes_nth:
  "load_bytes m a n = Some bs \<Longrightarrow> i < n \<Longrightarrow> load8 m (a + of_nat i) = Some (bs ! i)"
proof (induction n arbitrary: a bs i)
  case (Suc n)
  from Suc.prems obtain b cs where *: "load8 m a = Some b" "load_bytes m (a + 1) n = Some cs"
    "bs = b # cs" by (auto split: bind_splits)
  show ?case
  proof (cases i)
    case (Suc j)
    with * Suc.prems Suc.IH [of "a + 1" cs j] show ?thesis by (simp add: add.assoc)
  qed (use * in simp)
qed simp

lemma load_bytes_all:
  "(\<And>i. i < n \<Longrightarrow> load8 m (a + of_nat i) = Some (f i)) \<Longrightarrow> load_bytes m a n = Some (map f [0..<n])"
proof (induction n arbitrary: a f)
  case (Suc n)
  have "load8 m a = Some (f 0)" using Suc.prems [of 0] by simp
  moreover have "load_bytes m (a + 1) n = Some (map (\<lambda>i. f (Suc i)) [0..<n])"
    using Suc.prems [of "Suc i" for i] by (intro Suc.IH) (simp add: algebra_simps)
  moreover have "map f [0..<Suc n] = f 0 # map (\<lambda>i. f (Suc i)) [0..<n]"
    by (simp add: upt_conv_Cons map_Suc_upt [symmetric] del: upt_Suc)
  ultimately show ?case by simp
qed simp

lemma load_bytes_sub:
  assumes "load_bytes m p n = Some bs" "i + k \<le> n"
  shows "load_bytes m (p + of_nat i) k = Some (take k (drop i bs))"
proof -
  have len: "length bs = n" using load_bytes_length [OF assms(1)] .
  have "load8 m (p + of_nat i + of_nat j) = Some (bs ! (i + j))" if "j < k" for j
    using load_bytes_nth [OF assms(1), of "i + j"] that assms(2) by (simp add: add.assoc)
  then have "load_bytes m (p + of_nat i) k = Some (map (\<lambda>j. bs ! (i + j)) [0..<k])"
    by (rule load_bytes_all)
  also have "map (\<lambda>j. bs ! (i + j)) [0..<k] = take k (drop i bs)"
    using len assms(2) by (intro nth_equalityI) auto
  finally show ?thesis .
qed

lemma sample_vm_load8:
  "unat (x - a) < length bs \<Longrightarrow> load8 (sample_vm bs a) x = Some (bs ! unat (x - a))"
  by (simp add: sample_vm_def load8_def PROT_READ_def)

lemma load_bytes_cong:
  "(\<And>i. i < n \<Longrightarrow> load8 m (a + of_nat i) = load8 m' (a + of_nat i)) \<Longrightarrow>
   load_bytes m a n = load_bytes m' a n"
proof (induction n arbitrary: a)
  case (Suc n)
  have "load8 m a = load8 m' a" using Suc.prems [of 0] by simp
  moreover have "load_bytes m (a + 1) n = load_bytes m' (a + 1) n"
    using Suc.prems [of "Suc i" for i] by (intro Suc.IH) (simp add: algebra_simps)
  ultimately show ?case by simp
qed simp

lemma writable_bytes_iff:
  "writable_bytes m a n \<longleftrightarrow> (\<forall>i<n. writable8 m (a + of_nat i))"
proof (induction n arbitrary: a)
  case (Suc n)
  show ?case
    by (auto simp: Suc less_Suc_eq_0_disj algebra_simps)
qed simp

lemma writable_bytes_numeral:
  "writable_bytes m a (numeral n) \<longleftrightarrow> writable8 m a \<and> writable_bytes m (a + 1) (pred_numeral n)"
  by (simp add: numeral_eq_Suc)

lemma store_bytes_prot [mem_simps]: "store_bytes m a bs = Some m' \<Longrightarrow> vprot m' = vprot m"
  by (auto simp: store_bytes_def split: if_splits)

lemma store_bytes_vbyte:
  "store_bytes m a bs = Some m' \<Longrightarrow> vbyte m' = put_bytes (vbyte m) a bs"
  by (auto simp: store_bytes_def split: if_splits)

lemma load8_store_out:
  "store_bytes m a bs = Some m' \<Longrightarrow> \<not> unat (x - a) < length bs \<Longrightarrow> load8 m' x = load8 m x"
  by (simp add: load8_def store_bytes_prot store_bytes_vbyte put_bytes_out)


section \<open>Slots: aligned-size cells read and written as one value\<close>

definition rw_slot :: "nat \<Rightarrow> vm \<Rightarrow> addr \<Rightarrow> bool" where
  "rw_slot n m a \<longleftrightarrow>
     (\<forall>i<n. writable8 m (a + of_nat i) \<and> vprot m (a + of_nat i) AND PROT_READ \<noteq> 0)"

definition apart :: "nat \<Rightarrow> addr \<Rightarrow> addr \<Rightarrow> bool" where
  "apart n a b \<longleftrightarrow> n \<le> unat (b - a) \<and> n \<le> unat (a - b)"

primrec write_all :: "('m \<Rightarrow> addr \<Rightarrow> 'v \<Rightarrow> 'm option) \<Rightarrow> 'm \<Rightarrow> (addr \<times> 'v) list \<Rightarrow> 'm option" where
  "write_all wr m [] = Some m"
| "write_all wr m (x # xs) = do { m' \<leftarrow> wr m (fst x) (snd x); write_all wr m' xs }"

text \<open>
  The interface a table of slots offers its clients: an accessible slot takes a write, gives
  the written value back, and a write leaves every slot apart from it alone.
\<close>

locale slot_memory =
  fixes rd :: "'m \<Rightarrow> addr \<Rightarrow> 'v option"
    and wr :: "'m \<Rightarrow> addr \<Rightarrow> 'v \<Rightarrow> 'm option"
    and ok :: "'m \<Rightarrow> addr \<Rightarrow> bool"
    and sep :: "addr \<Rightarrow> addr \<Rightarrow> bool"
  assumes wr_ok: "ok m a \<Longrightarrow> \<exists>m'. wr m a v = Some m'"
    and rd_wr_same: "ok m a \<Longrightarrow> wr m a v = Some m' \<Longrightarrow> rd m' a = Some v"
    and rd_wr_sep: "wr m a v = Some m' \<Longrightarrow> sep a b \<Longrightarrow> rd m' b = rd m b"
    and ok_wr: "wr m a v = Some m' \<Longrightarrow> ok m' b = ok m b"
begin

lemma write_all_ok: "write_all wr m xs = Some m' \<Longrightarrow> ok m' b = ok m b"
  by (induction xs arbitrary: m) (auto split: bind_splits simp: ok_wr)

lemma write_all_frame:
  "write_all wr m xs = Some m' \<Longrightarrow> (\<And>x. x \<in> set xs \<Longrightarrow> sep (fst x) b) \<Longrightarrow> rd m' b = rd m b"
  by (induction xs arbitrary: m) (auto split: bind_splits simp: rd_wr_sep)

lemma write_all_total:
  "(\<And>x. x \<in> set xs \<Longrightarrow> ok m (fst x)) \<Longrightarrow> \<exists>m'. write_all wr m xs = Some m'"
proof (induction xs arbitrary: m)
  case (Cons x xs)
  obtain m1 where m1: "wr m (fst x) (snd x) = Some m1"
    using wr_ok [of m "fst x" "snd x"] Cons.prems by auto
  moreover have "\<exists>m'. write_all wr m1 xs = Some m'"
    using Cons.prems by (intro Cons.IH) (simp add: ok_wr [OF m1])
  ultimately show ?case by auto
qed simp

lemma write_all_read:
  assumes "write_all wr m xs = Some m'" "x \<in> set xs" "\<And>y. y \<in> set xs \<Longrightarrow> ok m (fst y)"
    and "sorted_wrt (\<lambda>x y. sep (fst x) (fst y) \<and> sep (fst y) (fst x)) xs"
  shows "rd m' (fst x) = Some (snd x)"
  using assms
proof (induction xs arbitrary: m)
  case (Cons y ys)
  from Cons.prems(1) obtain m1 where m1: "wr m (fst y) (snd y) = Some m1"
    and rest: "write_all wr m1 ys = Some m'" by (auto split: bind_splits)
  show ?case
  proof (cases "x \<in> set ys")
    case True
    with Cons.IH [OF rest] Cons.prems show ?thesis by (simp add: ok_wr [OF m1])
  next
    case False
    with Cons.prems have "x = y" by simp
    with Cons.prems write_all_frame [OF rest, of "fst y"] rd_wr_same [OF _ m1]
    show ?thesis by simp
  qed
qed simp

end

lemma rw_slot_writable: "rw_slot n m a \<Longrightarrow> writable_bytes m a n"
  by (simp add: rw_slot_def writable_bytes_iff)

lemma store_word_total: "rw_slot n m a \<Longrightarrow> \<exists>m'. store_word n m a v = Some m'"
  by (simp add: store_word_def store_bytes_def rw_slot_writable)

lemma slot_offset: "i < n \<Longrightarrow> n < 2 ^ 64 \<Longrightarrow> unat ((a + of_nat i) - (a :: addr)) = i"
  by (simp add: unat_of_nat take_bit_nat_eq_self)

lemma load_store_word_same:
  assumes "rw_slot n m a" "store_word n m a (v :: 'a::len word) = Some m'"
    and "2 ^ LENGTH('a) = (256 :: nat) ^ n" "n < 2 ^ 64"
  shows "load_word n m' a = Some v"
proof -
  from assms(2) have st: "store_bytes m a (le_enc n (unat v)) = Some m'"
    by (simp add: store_word_def)
  have "load8 m' (a + of_nat i) = Some (le_enc n (unat v) ! i)" if "i < n" for i
    using assms(1) that slot_offset [OF that assms(4), of a]
    by (simp add: load8_def store_bytes_prot [OF st] store_bytes_vbyte [OF st] rw_slot_def
        put_bytes_def)
  then have "load_bytes m' a n = Some (map ((!) (le_enc n (unat v))) [0..<n])"
    by (rule load_bytes_all)
  also have "map ((!) (le_enc n (unat v))) [0..<n] = le_enc n (unat v)"
    using map_nth [of "le_enc n (unat v)"] by simp
  finally show ?thesis
    using unsigned_less [of v, where ?'a = nat] assms(3)
    by (simp add: load_word_def le_val_le_enc)
qed

lemma apart_offset:
  assumes "apart n a b" "i < n"
  shows "\<not> unat ((b + of_nat i) - a) < n"
proof
  assume lt: "unat ((b + of_nat i) - a) < n"
  from assms(1) have n: "n \<le> unat (b - a)" "n \<le> unat (a - b)" by (auto simp: apart_def)
  have n64: "n < 2 ^ 64" using n(1) unsigned_less [of "b - a", where ?'a = nat] by simp
  define k where "k = unat ((b + of_nat i) - a)"
  have k: "(of_nat k :: addr) = (b + of_nat i) - a" by (simp add: k_def)
  have "k < i \<or> i \<le> k" by auto
  then show False
  proof
    assume "k < i"
    then have "(of_nat (i - k) :: addr) = a - b" using k by (simp add: of_nat_diff algebra_simps)
    then have "unat (a - b) = unat (of_nat (i - k) :: addr)" by simp
    also have "\<dots> \<le> i - k" by (simp add: unat_of_nat take_bit_nat_less_eq_self)
    finally show False using n(2) assms(2) by simp
  next
    assume "i \<le> k"
    then have "(of_nat (k - i) :: addr) = b - a" using k by (simp add: of_nat_diff algebra_simps)
    then have "unat (b - a) = unat (of_nat (k - i) :: addr)" by simp
    also have "\<dots> \<le> k - i" by (simp add: unat_of_nat take_bit_nat_less_eq_self)
    finally show False using n(1) lt by (simp add: k_def)
  qed
qed

lemma load_store_word_apart:
  assumes "store_word n m a v = Some m'" "apart n a b"
  shows "load_word n m' b = load_word n m b"
proof -
  from assms(1) have st: "store_bytes m a (le_enc n (unat v)) = Some m'"
    by (simp add: store_word_def)
  have "load_bytes m' b n = load_bytes m b n"
    using apart_offset [OF assms(2)] by (intro load_bytes_cong load8_store_out [OF st]) simp
  then show ?thesis by (simp add: load_word_def)
qed

lemma writable8_store: "store_bytes m a bs = Some m' \<Longrightarrow> writable8 m' x = writable8 m x"
proof -
  assume st: "store_bytes m a bs = Some m'"
  then have w: "writable_bytes m a (length bs)" by (auto simp: store_bytes_def split: if_splits)
  have "writable8 m x" if "unat (x - a) < length bs"
    using w [unfolded writable_bytes_iff, rule_format, OF that] by simp
  then show ?thesis
    using w by (auto simp: writable8_def store_bytes_vbyte [OF st] store_bytes_prot [OF st] put_bytes_def)
qed

lemma rw_slot_store: "store_word n m a v = Some m' \<Longrightarrow> rw_slot k m' b = rw_slot k m b"
  by (simp add: store_word_def rw_slot_def writable8_store store_bytes_prot)

interpretation slot64: slot_memory load_u64 store_u64 "rw_slot 8" "apart 8"
  by unfold_locales
    (auto intro: store_word_total load_store_word_same load_store_word_apart simp: rw_slot_store)


section \<open>Codecs: encodings with a streaming decoder\<close>

text \<open>
  Every wire and file format of the program is read by a decoder that consumes a prefix of a
  byte stream.  The contract is that the decoder undoes the encoder and leaves the rest of
  the stream; the client lemmas are that an encoding is uniquely decodable and that a list of
  encoded values is read back by repeated decoding.
\<close>

primrec decode_n :: "('b list \<Rightarrow> ('a \<times> 'b list) option) \<Rightarrow> nat \<Rightarrow> 'b list \<Rightarrow> ('a list \<times> 'b list) option" where
  "decode_n dec 0 p = Some ([], p)"
| "decode_n dec (Suc n) p =
     do { (x, p1) \<leftarrow> dec p; (xs, p2) \<leftarrow> decode_n dec n p1; Some (x # xs, p2) }"

locale codec =
  fixes enc :: "'a \<Rightarrow> 'b list" and dec :: "'b list \<Rightarrow> ('a \<times> 'b list) option"
  assumes dec_enc: "dec (enc x @ rest) = Some (x, rest)"
begin

lemma enc_inj: "enc x @ r = enc y @ s \<Longrightarrow> x = y \<and> r = s"
  by (metis dec_enc option.inject prod.inject)

lemma decode_n_enc: "decode_n dec (length xs) (concat (map enc xs) @ rest) = Some (xs, rest)"
  by (induction xs) (simp_all add: dec_enc)

lemma dec_enc_nil: "dec (enc x) = Some (x, [])"
  using dec_enc [of x "[]"] by simp

end

end
