(* ===== verification/Elf_Base.thy ===== *)
theory Elf_Base
  imports Prelude
begin

text \<open>
  The ELF vocabulary of the custom linker: the constants of \<open>linker/elf_compat.hpp\<close> and
  \<open>linker/reloc_arch.hpp\<close>, the page arithmetic and protection helpers of \<open>linker/linker.cpp\<close>,
  the ELF structures as records together with their readers from process memory, and the
  \<open>Image\<close> object of \<open>linker/linker.hpp\<close>.  The model is the LP64 build: \<open>ElfW(Addr)\<close> and
  \<open>size_t\<close> are 64-bit words.  A null pointer is the address 0.
\<close>

section \<open>Constants\<close>

datatype load_error = kNone | kUnsupported | kError

abbreviation PT_LOAD :: u32 where "PT_LOAD \<equiv> 1"
abbreviation PT_DYNAMIC :: u32 where "PT_DYNAMIC \<equiv> 2"
abbreviation PT_PHDR :: u32 where "PT_PHDR \<equiv> 6"
abbreviation PT_TLS :: u32 where "PT_TLS \<equiv> 7"
abbreviation PT_GNU_RELRO :: u32 where "PT_GNU_RELRO \<equiv> 0x6474e552"

abbreviation SHN_UNDEF :: u16 where "SHN_UNDEF \<equiv> 0"
abbreviation STB_WEAK :: byte where "STB_WEAK \<equiv> 2"
abbreviation STT_OBJECT :: byte where "STT_OBJECT \<equiv> 1"
abbreviation STT_FUNC :: byte where "STT_FUNC \<equiv> 2"

text \<open>The fallback definitions of \<open>elf_compat.hpp\<close>.\<close>

definition DT_RELR :: addr where "DT_RELR = 0x24"
definition DT_RELRSZ :: addr where "DT_RELRSZ = 0x23"
definition DT_ANDROID_RELR :: addr where "DT_ANDROID_RELR = 0x6fffe000"
definition DT_ANDROID_RELRSZ :: addr where "DT_ANDROID_RELRSZ = 0x6fffe001"
definition STT_GNU_IFUNC :: byte where "STT_GNU_IFUNC = 10"
definition PT_GNU_PROPERTY :: u32 where "PT_GNU_PROPERTY = 0x6474e553"
definition NT_GNU_PROPERTY_TYPE_0 :: u32 where "NT_GNU_PROPERTY_TYPE_0 = 5"
definition GNU_PROPERTY_AARCH64_FEATURE_1_AND :: u32 where
  "GNU_PROPERTY_AARCH64_FEATURE_1_AND = 0xc0000000"
definition GNU_PROPERTY_AARCH64_FEATURE_1_BTI :: u32 where
  "GNU_PROPERTY_AARCH64_FEATURE_1_BTI = 1"
definition PROT_BTI :: u32 where "PROT_BTI = 0x10"
definition DT_ANDROID_REL :: addr where "DT_ANDROID_REL = 0x6000000f"
definition DT_ANDROID_RELSZ :: addr where "DT_ANDROID_RELSZ = 0x60000010"
definition DT_ANDROID_RELA :: addr where "DT_ANDROID_RELA = 0x60000011"
definition DT_ANDROID_RELASZ :: addr where "DT_ANDROID_RELASZ = 0x60000012"

definition RELOC_R_TYPE :: "64 word \<Rightarrow> u32" where "RELOC_R_TYPE info = ucast info"
definition RELOC_R_SYM :: "64 word \<Rightarrow> u32" where "RELOC_R_SYM info = ucast (drop_bit 32 info)"
definition ELF_ST_TYPE :: "byte \<Rightarrow> byte" where "ELF_ST_TYPE info = info AND 0xf"
definition ELF_ST_BIND :: "byte \<Rightarrow> byte" where "ELF_ST_BIND info = drop_bit 4 info"

text \<open>The relocation types of the three 64-bit targets, normalised as in \<open>reloc_arch.hpp\<close>.\<close>

datatype arch = AArch64 | X86_64 | RiscV64

record reloc_table =
  RELOC_RELATIVE :: u32
  RELOC_GLOB_DAT :: u32
  RELOC_JUMP_SLOT :: u32
  RELOC_ABS :: u32
  RELOC_IRELATIVE :: u32
  RELOC_TLS_DTPMOD :: u32
  RELOC_TLS_DTPREL :: u32
  RELOC_TLS_TPREL :: u32
  RELOC_TLSDESC :: u32

definition reloc_aarch64 :: reloc_table where
  "reloc_aarch64 = \<lparr>RELOC_RELATIVE = 1027, RELOC_GLOB_DAT = 1025, RELOC_JUMP_SLOT = 1026,
     RELOC_ABS = 257, RELOC_IRELATIVE = 1032, RELOC_TLS_DTPMOD = 1028, RELOC_TLS_DTPREL = 1029,
     RELOC_TLS_TPREL = 1030, RELOC_TLSDESC = 1031\<rparr>"

definition reloc_x86_64 :: reloc_table where
  "reloc_x86_64 = \<lparr>RELOC_RELATIVE = 8, RELOC_GLOB_DAT = 6, RELOC_JUMP_SLOT = 7,
     RELOC_ABS = 1, RELOC_IRELATIVE = 37, RELOC_TLS_DTPMOD = 16, RELOC_TLS_DTPREL = 17,
     RELOC_TLS_TPREL = 18, RELOC_TLSDESC = 36\<rparr>"

definition reloc_riscv64 :: reloc_table where
  "reloc_riscv64 = \<lparr>RELOC_RELATIVE = 3, RELOC_GLOB_DAT = 2, RELOC_JUMP_SLOT = 5,
     RELOC_ABS = 2, RELOC_IRELATIVE = 58, RELOC_TLS_DTPMOD = 7, RELOC_TLS_DTPREL = 9,
     RELOC_TLS_TPREL = 11, RELOC_TLSDESC = 12\<rparr>"

primrec relocs :: "arch \<Rightarrow> reloc_table" where
  "relocs AArch64 = reloc_aarch64"
| "relocs X86_64 = reloc_x86_64"
| "relocs RiscV64 = reloc_riscv64"

definition IsTlsReloc :: "arch \<Rightarrow> u32 \<Rightarrow> bool" where
  "IsTlsReloc a ty \<longleftrightarrow> ty = RELOC_TLS_DTPMOD (relocs a) \<or> ty = RELOC_TLS_DTPREL (relocs a) \<or>
     ty = RELOC_TLS_TPREL (relocs a) \<or> ty = RELOC_TLSDESC (relocs a)"

section \<open>Page arithmetic and protections\<close>

definition PageSize :: "64 word \<Rightarrow> addr" where
  "PageSize sysconf_pagesize = (if 0 < sint sysconf_pagesize then sysconf_pagesize else 4096)"

definition PageStart :: "addr \<Rightarrow> addr \<Rightarrow> addr" where
  "PageStart a pg = a AND NOT (pg - 1)"

definition PageEnd :: "addr \<Rightarrow> addr \<Rightarrow> addr" where
  "PageEnd a pg = PageStart (a + pg - 1) pg"

definition AlignUp :: "addr \<Rightarrow> addr \<Rightarrow> addr" where
  "AlignUp v a = (v + a - 1) AND NOT (a - 1)"

definition ToProt :: "u32 \<Rightarrow> u32" where
  "ToProt p_flags =
     (if p_flags AND 4 \<noteq> 0 then PROT_READ else 0) OR
     (if p_flags AND 2 \<noteq> 0 then PROT_WRITE else 0) OR
     (if p_flags AND 1 \<noteq> 0 then PROT_EXEC else 0)"

section \<open>ELF structures\<close>

record ehdr =
  e_ident :: "byte list"
  e_type :: u16
  e_phoff :: addr
  e_phnum :: u16

record phdr =
  p_type :: u32
  p_flags :: u32
  p_offset :: addr
  p_vaddr :: addr
  p_filesz :: addr
  p_memsz :: addr
  p_align :: addr

record elf_sym =
  st_name :: u32
  st_info :: byte
  st_shndx :: u16
  st_value :: addr

text \<open>Fields of a structure held in a byte list (file contents) or in process memory.\<close>

definition field :: "byte list \<Rightarrow> nat \<Rightarrow> nat \<Rightarrow> 'a::len word" where
  "field bs off n = of_nat (le_val (take n (drop off bs)))"

definition ehdr_of :: "byte list \<Rightarrow> ehdr" where
  "ehdr_of bs = \<lparr>e_ident = take 16 bs, e_type = field bs 16 2, e_phoff = field bs 32 8,
     e_phnum = field bs 56 2\<rparr>"

definition phdr_of :: "byte list \<Rightarrow> phdr" where
  "phdr_of bs = \<lparr>p_type = field bs 0 4, p_flags = field bs 4 4, p_offset = field bs 8 8,
     p_vaddr = field bs 16 8, p_filesz = field bs 32 8, p_memsz = field bs 40 8,
     p_align = field bs 48 8\<rparr>"

definition load_phdr :: "vm \<Rightarrow> addr \<Rightarrow> phdr option" where
  "load_phdr m a = map_option phdr_of (load_bytes m a 56)"

definition sym_of :: "byte list \<Rightarrow> elf_sym" where
  "sym_of bs = \<lparr>st_name = field bs 0 4, st_info = field bs 4 1, st_shndx = field bs 6 2,
     st_value = field bs 8 8\<rparr>"

definition load_sym :: "vm \<Rightarrow> addr \<Rightarrow> elf_sym option" where
  "load_sym m a = map_option sym_of (load_bytes m a 24)"

text \<open>\<open>load_array rd m p n\<close> reads \<open>n\<close> elements of the given size from pointer \<open>p\<close>.\<close>

primrec load_array :: "(vm \<Rightarrow> addr \<Rightarrow> 'a option) \<Rightarrow> addr \<Rightarrow> vm \<Rightarrow> addr \<Rightarrow> nat \<Rightarrow> 'a list option" where
  "load_array rd sz m p 0 = Some []"
| "load_array rd sz m p (Suc n) =
     do { x \<leftarrow> rd m p; xs \<leftarrow> load_array rd sz m (p + sz) n; Some (x # xs) }"

section \<open>The image object\<close>

record image =
  im_name :: cstr
  map_start :: addr
  map_size :: addr
  load_bias :: addr
  im_phdr :: addr
  phnum :: nat
  strtab :: addr
  symtab :: addr
  gnu_bucket :: addr
  gnu_chain :: addr
  gnu_nbucket :: addr
  gnu_symndx :: u32
  gnu_maskwords :: u32
  gnu_shift2 :: u32
  gnu_bloom :: addr
  has_gnu_hash :: bool
  sysv_bucket :: addr
  sysv_chain :: addr
  sysv_nbucket :: addr
  sysv_nchain :: addr
  dynsym_count :: addr
  im_rela :: addr
  rela_count :: addr
  im_rel :: addr
  rel_count :: addr
  plt_rel :: addr
  plt_rel_size :: addr
  plt_is_rela :: bool
  android_rel :: addr
  android_rel_size :: addr
  android_is_rela :: bool
  im_relr :: addr
  relr_count :: addr
  init_func :: addr
  fini_func :: addr
  init_array :: addr
  init_array_count :: addr
  fini_array :: addr
  fini_array_count :: addr
  constructors_called :: bool
  wants_bti :: bool
  needed_names :: "cstr list"
  needed_handles :: "addr list"
  im_dynamic :: addr
  bind_now :: bool

definition new_image :: image where
  "new_image = \<lparr>im_name = [], map_start = 0, map_size = 0, load_bias = 0, im_phdr = 0, phnum = 0,
     strtab = 0, symtab = 0, gnu_bucket = 0, gnu_chain = 0, gnu_nbucket = 0, gnu_symndx = 0,
     gnu_maskwords = 0, gnu_shift2 = 0, gnu_bloom = 0, has_gnu_hash = False, sysv_bucket = 0,
     sysv_chain = 0, sysv_nbucket = 0, sysv_nchain = 0, dynsym_count = 0, im_rela = 0,
     rela_count = 0, im_rel = 0, rel_count = 0, plt_rel = 0, plt_rel_size = 0,
     plt_is_rela = True, android_rel = 0, android_rel_size = 0, android_is_rela = True,
     im_relr = 0, relr_count = 0, init_func = 0, fini_func = 0, init_array = 0,
     init_array_count = 0, fini_array = 0, fini_array_count = 0, constructors_called = False,
     wants_bti = False, needed_names = [], needed_handles = [], im_dynamic = 0,
     bind_now = False\<rparr>"

definition Contains :: "image \<Rightarrow> addr \<Rightarrow> bool" where
  "Contains img a \<longleftrightarrow> map_start img \<le> a \<and> a < map_start img + map_size img"


section \<open>Lemmas on pages\<close>

named_theorems page_simps \<open>page arithmetic at a power of two\<close>

lemma and_not_low_bits:
  "k < 64 \<Longrightarrow> unat ((a :: addr) AND NOT (2 ^ k - 1)) = unat a div 2 ^ k * 2 ^ k"
proof -
  have "a AND NOT (2 ^ k - 1) = push_bit k (drop_bit k a)"
    by (rule bit_word_eqI) (auto simp: bit_simps mask_eq_exp_minus_1 [symmetric])
  moreover have "push_bit k (drop_bit k a) + take_bit k a = a" by (rule bits_ident)
  ultimately have "a AND NOT (2 ^ k - 1) = a - take_bit k a" by (simp add: algebra_simps)
  moreover have "unat (take_bit k a) = unat a mod 2 ^ k"
    by (simp only: unsigned_take_bit_eq take_bit_nat_def)
  moreover have "unat (a - take_bit k a) = unat a - unat (take_bit k a)"
    by (rule unat_sub) (simp add: word_le_nat_alt unsigned_take_bit_eq take_bit_nat_less_eq_self)
  ultimately show ?thesis by (simp only: minus_mod_eq_div_mult)
qed

lemma PageStart_unat [page_simps]:
  "k < 64 \<Longrightarrow> unat (PageStart a (2 ^ k)) = unat a div 2 ^ k * 2 ^ k"
  by (simp add: PageStart_def and_not_low_bits)

lemma of_nat_unat: "of_nat (unat (a :: 'a::len word)) = a"
  by simp

lemma unat_pow2: "k < 64 \<Longrightarrow> unat (2 ^ k :: addr) = 2 ^ k"
proof -
  assume "k < 64"
  then have "(2 :: nat) ^ k < 2 ^ LENGTH(64)" by (intro power_strict_increasing) auto
  moreover have "(2 ^ k :: addr) = of_nat (2 ^ k)" by simp
  ultimately show ?thesis by (simp only: unat_of_nat mod_less)
qed

lemma PageEnd_unat [page_simps]:
  assumes "k < 64" "unat a + 2 ^ k \<le> 2 ^ 64"
  shows "unat (PageEnd a (2 ^ k)) = (unat a + (2 ^ k - 1)) div 2 ^ k * 2 ^ k"
proof -
  have "(of_nat (2 ^ k - 1) :: addr) = 2 ^ k - 1"
    by (subst of_nat_diff) auto
  then have eq: "a + 2 ^ k - 1 = of_nat (unat a + (2 ^ k - 1))"
    by (simp only: of_nat_add of_nat_unat add_diff_eq)
  have "unat a + (2 ^ k - 1) < 2 ^ 64"
    using assms(2) one_le_power [of "2 :: nat" k] by linarith
  then have "unat (a + 2 ^ k - 1) = unat a + (2 ^ k - 1)"
    unfolding eq by (simp only: unat_of_nat) (rule mod_less, simp)
  then show ?thesis by (simp only: PageEnd_def PageStart_unat [OF assms(1)])
qed

lemma AlignUp_unat [page_simps]:
  "k < 64 \<Longrightarrow> unat a + 2 ^ k \<le> 2 ^ 64 \<Longrightarrow>
   unat (AlignUp a (2 ^ k)) = (unat a + (2 ^ k - 1)) div 2 ^ k * 2 ^ k"
  using PageEnd_unat [of k a] by (simp only: AlignUp_def PageEnd_def PageStart_def)

lemma round_up_bounds:
  assumes "0 < c"
  shows "x \<le> (x + (c - 1)) div c * c" "(x + (c - 1)) div c * c < x + (c :: nat)"
proof -
  have "(x + (c - 1)) mod c < c" using assms by (rule mod_less_divisor)
  moreover have "(x + (c - 1)) div c * c + (x + (c - 1)) mod c = x + (c - 1)"
    by (rule div_mult_mod_eq)
  ultimately show "x \<le> (x + (c - 1)) div c * c" "(x + (c - 1)) div c * c < x + c"
    using assms by linarith+
qed

end
