(* ===== verification/Gnu_Property.thy ===== *)
theory Gnu_Property
  imports Elf_Base
begin

text \<open>
  \<open>GnuPropertyNoteHasBti\<close> of \<open>linker/linker.cpp\<close>: the walk over the notes of a
  PT_GNU_PROPERTY segment and over the properties of a GNU note, on process memory.  The two
  loops are partial functions: \<open>None\<close> is a faulting read or a walk that does not end.  The
  theorems show that neither happens on any segment contents, as long as the segment itself
  is readable.
\<close>

section \<open>Definitions\<close>

definition ReadU32 :: "vm \<Rightarrow> addr \<Rightarrow> u32 option" where
  "ReadU32 m p = load_u32 m p"

partial_function (option) bti_props :: "vm \<Rightarrow> addr \<Rightarrow> addr \<Rightarrow> bool option" where
  "bti_props m pp pend =
     (if pp + 8 \<le> pend then do {
        pr_type \<leftarrow> ReadU32 m pp;
        pr_datasz \<leftarrow> ReadU32 m (pp + 4);
        let pr_data = pp + 8;
        (if pr_data + ucast pr_datasz > pend then Some False
         else do {
           hit \<leftarrow> (if pr_type = GNU_PROPERTY_AARCH64_FEATURE_1_AND \<and> 4 \<le> pr_datasz
                   then do { v \<leftarrow> ReadU32 m pr_data;
                             Some (v AND GNU_PROPERTY_AARCH64_FEATURE_1_BTI \<noteq> 0) }
                   else Some False);
           (if hit then Some True
            else bti_props m (pr_data + AlignUp (ucast pr_datasz) 8) pend) }) }
      else Some False)"

definition gnu_name :: "byte list" where
  "gnu_name = [0x47, 0x4e, 0x55, 0]"

partial_function (option) bti_notes :: "vm \<Rightarrow> addr \<Rightarrow> addr \<Rightarrow> bool option" where
  "bti_notes m p end_ptr =
     (if p + 12 \<le> end_ptr then do {
        namesz \<leftarrow> ReadU32 m p;
        descsz \<leftarrow> ReadU32 m (p + 4);
        ntype \<leftarrow> ReadU32 m (p + 8);
        let name = p + 12;
        let desc = name + AlignUp (ucast namesz) 4;
        (if desc > end_ptr then Some False
         else do {
           gnu \<leftarrow> (if ntype = NT_GNU_PROPERTY_TYPE_0 \<and> namesz = 4
                   then map_option (\<lambda>bs. bs = gnu_name) (load_bytes m name 4)
                   else Some False);
           found \<leftarrow> (if gnu
                     then let pend = desc + ucast descsz
                          in bti_props m desc (if pend > end_ptr then end_ptr else pend)
                     else Some False);
           (if found then Some True
            else bti_notes m (desc + AlignUp (ucast descsz) 4) end_ptr) }) }
      else Some False)"

definition GnuPropertyNoteHasBti :: "vm \<Rightarrow> addr \<Rightarrow> addr \<Rightarrow> bool option" where
  "GnuPropertyNoteHasBti m note sz = bti_notes m note (note + sz)"

definition readable :: "vm \<Rightarrow> addr \<Rightarrow> addr \<Rightarrow> bool" where
  "readable m s e \<longleftrightarrow> (\<forall>a. s \<le> a \<and> a < e \<longrightarrow> load8 m a \<noteq> None)"


text \<open>The note a linker writes for an AArch64 feature word (reference for the functional property).\<close>

definition word_bytes :: "u32 \<Rightarrow> byte list" where
  "word_bytes v = le_enc 4 (unat v)"

definition bti_note :: "u32 \<Rightarrow> byte list" where
  "bti_note features = word_bytes 4 @ word_bytes 16 @ word_bytes NT_GNU_PROPERTY_TYPE_0 @ gnu_name @
     word_bytes GNU_PROPERTY_AARCH64_FEATURE_1_AND @ word_bytes 4 @ word_bytes features @ word_bytes 0"

section \<open>Every read stays inside the segment\<close>

lemma unat_ucast_u32: "unat (ucast (d :: u32) :: addr) = unat d" "unat d < 2 ^ 32"
  using unsigned_less [of d, where ?'a = nat] by (simp_all add: unsigned_ucast_eq take_bit_nat_eq_self)

lemma AlignUp_u32:
  fixes d :: u32
  assumes "k \<le> 3"
  shows "unat d \<le> unat (AlignUp (ucast d) (2 ^ k))" "unat (AlignUp (ucast d) (2 ^ k)) < unat d + 8"
proof -
  have k8: "(2 :: nat) ^ k \<le> 8" using power_increasing [OF assms, of "2 :: nat"] by simp
  have "unat (ucast d :: addr) + 2 ^ k \<le> 2 ^ 64"
    using k8 unat_ucast_u32 [of d] by simp
  then have eq: "unat (AlignUp (ucast d) (2 ^ k)) = (unat d + (2 ^ k - 1)) div 2 ^ k * 2 ^ k"
    using assms AlignUp_unat [of k "ucast d"] unat_ucast_u32 [of d] by simp
  show "unat d \<le> unat (AlignUp (ucast d) (2 ^ k))" "unat (AlignUp (ucast d) (2 ^ k)) < unat d + 8"
    using round_up_bounds [of "2 ^ k" "unat d"] k8 unfolding eq by simp_all
qed

lemma readable_load_bytes:
  assumes "readable m s e" "s \<le> p" "unat p + n \<le> unat e"
  shows "\<exists>bs. load_bytes m p n = Some bs"
proof -
  have e: "unat e < 2 ^ 64" using unsigned_less [of e, where ?'a = nat] by simp
  have "load8 m (p + of_nat i) = Some (the (load8 m (p + of_nat i)))" if "i < n" for i
  proof -
    have "unat (of_nat i :: addr) = i" using that assms(3) e by (simp add: unat_of_nat)
    then have "unat (p + of_nat i) = unat p + i"
      using that assms(3) e by (subst unat_add_small) auto
    then have "s \<le> p + of_nat i \<and> p + of_nat i < e"
      using assms(2,3) that by (simp add: word_le_nat_alt word_less_nat_alt)
    with assms(1) show ?thesis by (auto simp: readable_def)
  qed
  then have "load_bytes m p n = Some (map (\<lambda>i. the (load8 m (p + of_nat i))) [0..<n])"
    by (rule load_bytes_all)
  then show ?thesis by simp
qed

lemma readable_ReadU32:
  assumes "readable m s e" "s \<le> p" "unat p + 4 \<le> unat e"
  shows "\<exists>v. ReadU32 m p = Some v"
  using readable_load_bytes [OF assms] by (auto simp: ReadU32_def load_word_def)

lemma bti_props_total:
  assumes "readable m s pend" "unat pend < 2 ^ 63" "s \<le> pp" "unat pp < 2 ^ 63 + 16"
  shows "\<exists>b. bti_props m pp pend = Some b"
  using assms(3,4)
proof (induction "unat pend - unat pp" arbitrary: pp rule: less_induct)
  case less
  have p8: "unat (pp + 8) = unat pp + 8" "unat (pp + 4) = unat pp + 4"
    using less.prems(2) by (simp_all add: unat_plus_numeral)
  show ?case
  proof (cases "pp + 8 \<le> pend")
    case True
    then have le: "unat pp + 8 \<le> unat pend" using p8 by (simp add: word_le_nat_alt)
    obtain ty where ty: "ReadU32 m pp = Some ty"
      using readable_ReadU32 [OF assms(1) less.prems(1)] le by auto
    have "s \<le> pp + 4" "s \<le> pp + 8"
      using less.prems(1) p8 by (simp_all add: word_le_nat_alt)
    then obtain d where d: "ReadU32 m (pp + 4) = Some d"
      using readable_ReadU32 [OF assms(1), of "pp + 4"] le p8 by auto
    show ?thesis
    proof (cases "pp + 8 + ucast d > pend")
      case False
      have nx: "unat (pp + 8 + ucast d) = unat pp + 8 + unat d"
        using p8 less.prems(2) unat_ucast_u32 [of d] by (subst unat_add_small) auto
      then have dle: "unat pp + 8 + unat d \<le> unat pend"
        using False by (simp add: word_le_nat_alt not_less)
      have al: "unat (pp + 8 + AlignUp (ucast d) 8) = unat pp + 8 + unat (AlignUp (ucast d) 8)"
        using p8 less.prems(2) AlignUp_u32 [of 3 d] unat_ucast_u32 [of d]
        by (subst unat_add_small) auto
      have nxt: "\<exists>b. bti_props m (pp + 8 + AlignUp (ucast d) 8) pend = Some b"
        using al dle le assms(2) less.prems AlignUp_u32 [of 3 d]
        by (intro less.hyps) (auto simp: word_le_nat_alt)
      have "\<exists>v. ReadU32 m (pp + 8) = Some v" if "4 \<le> d"
        using that dle p8 \<open>s \<le> pp + 8\<close>
        by (intro readable_ReadU32 [OF assms(1)]) (auto simp: word_le_nat_alt)
      then show ?thesis
        using nxt by (subst bti_props.simps) (auto simp: True ty d False Let_def split: bind_split)
    qed (subst bti_props.simps, auto simp: True ty d Let_def)
  qed (subst bti_props.simps, auto)
qed


lemma bti_notes_total:
  assumes "readable m s e" "unat e < 2 ^ 63" "s \<le> p" "unat p < 2 ^ 63 + 2 ^ 33"
  shows "\<exists>b. bti_notes m p e = Some b"
  using assms(3,4)
proof (induction "unat e - unat p" arbitrary: p rule: less_induct)
  case less
  have ps: "unat (p + 4) = unat p + 4" "unat (p + 8) = unat p + 8" "unat (p + 12) = unat p + 12"
    using less.prems(2) by (simp_all add: unat_plus_numeral)
  show ?case
  proof (cases "p + 12 \<le> e")
    case True
    then have le: "unat p + 12 \<le> unat e" using ps by (simp add: word_le_nat_alt)
    have sp: "s \<le> p + 4" "s \<le> p + 8" "s \<le> p + 12"
      using less.prems(1) ps by (simp_all add: word_le_nat_alt)
    obtain nsz dsz ty where rd: "ReadU32 m p = Some nsz" "ReadU32 m (p + 4) = Some dsz"
      "ReadU32 m (p + 8) = Some ty"
      using readable_ReadU32 [OF assms(1) less.prems(1)] readable_ReadU32 [OF assms(1) sp(1)]
        readable_ReadU32 [OF assms(1) sp(2)] le ps by auto
    let ?desc = "p + 12 + AlignUp (ucast nsz) 4"
    show ?thesis
    proof (cases "?desc > e")
      case False
      have desc: "unat ?desc = unat p + 12 + unat (AlignUp (ucast nsz) 4)"
        using ps less.prems(2) AlignUp_u32 [of 2 nsz] unat_ucast_u32 [of nsz]
        by (subst unat_add_small) auto
      then have dle: "unat ?desc \<le> unat e" and sd: "s \<le> ?desc"
        using False less.prems(1) by (simp_all add: word_le_nat_alt not_less)
      have nx: "unat (?desc + AlignUp (ucast dsz) 4) = unat ?desc + unat (AlignUp (ucast dsz) 4)"
        using dle assms(2) AlignUp_u32 [of 2 dsz] unat_ucast_u32 [of dsz]
        by (subst unat_add_small) auto
      have rest: "\<exists>b. bti_notes m (?desc + AlignUp (ucast dsz) 4) e = Some b"
        using nx desc dle le assms(2) less.prems AlignUp_u32 [of 2 dsz] unat_ucast_u32 [of dsz]
        by (intro less.hyps) (auto simp: word_le_nat_alt)
      have name: "\<exists>bs. load_bytes m (p + 12) 4 = Some bs" if "nsz = 4"
      proof -
        have "unat (AlignUp (ucast (4 :: u32)) 4) = 4" by (simp add: AlignUp_def)
        with that desc dle ps show ?thesis
          by (intro readable_load_bytes [OF assms(1) sp(3)]) simp
      qed
      have props: "\<exists>b. bti_props m ?desc q = Some b" if "\<not> q > e" for q
      proof (rule bti_props_total [where s = s])
        show "readable m s q" using assms(1) that by (auto simp: readable_def not_less)
        show "unat q < 2 ^ 63" using assms(2) that by (simp add: word_le_nat_alt not_less)
      qed (use sd dle assms(2) in auto)
      show ?thesis
        using rest name props [of e] props [of "?desc + ucast dsz"]
        by (subst bti_notes.simps) (auto simp: True rd False Let_def split: bind_split)
    qed (subst bti_notes.simps, auto simp: True rd Let_def)
  qed (subst bti_notes.simps, auto)
qed

section \<open>Reading a canonical note\<close>

lemma ReadU32_sub:
  assumes "load_bytes m p n = Some bs" "i + 4 \<le> n" "take 4 (drop i bs) = word_bytes v"
  shows "ReadU32 m (p + of_nat i) = Some v"
  using load_bytes_sub [OF assms(1,2)] assms(3) unsigned_less [of v, where ?'a = nat]
  by (simp add: ReadU32_def load_word_def word_bytes_def le_val_le_enc)

lemma bti_note_fields:
  "take 4 (drop 0 (bti_note f)) = word_bytes 4" "take 4 (drop 4 (bti_note f)) = word_bytes 16"
  "take 4 (drop 8 (bti_note f)) = word_bytes NT_GNU_PROPERTY_TYPE_0"
  "take 4 (drop 12 (bti_note f)) = gnu_name"
  "take 4 (drop 16 (bti_note f)) = word_bytes GNU_PROPERTY_AARCH64_FEATURE_1_AND"
  "take 4 (drop 20 (bti_note f)) = word_bytes 4" "take 4 (drop 24 (bti_note f)) = word_bytes f"
  by (simp_all add: bti_note_def word_bytes_def gnu_name_def)

lemma bti_note_runs:
  assumes "load_bytes m note 32 = Some (bti_note f)" "unat note < 2 ^ 63"
  shows "GnuPropertyNoteHasBti m note 32 = Some (f AND GNU_PROPERTY_AARCH64_FEATURE_1_BTI \<noteq> 0)"
proof -
  note rd = ReadU32_sub [OF assms(1) _ bti_note_fields(1)] ReadU32_sub [OF assms(1) _ bti_note_fields(2)]
    ReadU32_sub [OF assms(1) _ bti_note_fields(3)] ReadU32_sub [OF assms(1) _ bti_note_fields(5)]
    ReadU32_sub [OF assms(1) _ bti_note_fields(6)] ReadU32_sub [OF assms(1) _ bti_note_fields(7)]
  have name: "load_bytes m (note + 12) 4 = Some gnu_name"
    using load_bytes_sub [OF assms(1), of 12 4] bti_note_fields(4) by simp
  have al: "AlignUp 4 4 = 4" "AlignUp 16 4 = 16" "AlignUp 4 8 = 8" by (simp_all add: AlignUp_def)
  note ord = addr_offset_order [OF assms(2), of 12 32, simplified]
    addr_offset_order [OF assms(2), of 24 32, simplified] addr_offset_order [OF assms(2), of 40 32, simplified]
    addr_offset_order [OF assms(2), of 44 32, simplified] addr_offset_order [OF assms(2), of 32 28, simplified]
    addr_offset_order [OF assms(2), of 32 16, simplified]
  have props: "bti_props m (note + 16) (note + 32) =
      Some (f AND GNU_PROPERTY_AARCH64_FEATURE_1_BTI \<noteq> 0)"
    using rd by (subst bti_props.simps, subst bti_props.simps) (simp add: al ord add.assoc Let_def)
  show ?thesis
    using rd name props unfolding GnuPropertyNoteHasBti_def
    by (subst bti_notes.simps, subst bti_notes.simps) (simp add: al ord add.assoc Let_def)
qed

section \<open>Properties\<close>

text \<open>
  C36: \<open>GnuPropertyNoteHasBti\<close> is memory-safe and terminates on any contents: when the bytes of
  the segment are readable (and the segment lies in the lower half of the address space),
  the walk reads nothing outside it and returns a verdict, whatever sizes and types the
  notes and properties claim.
\<close>

theorem bti_note_total:
  assumes "readable m note (note + sz)" "unat note + unat sz < 2 ^ 63"
  shows "\<exists>b. GnuPropertyNoteHasBti m note sz = Some b"
proof -
  have "unat (note + sz) = unat note + unat sz" using assms(2) by (intro unat_add_small) simp
  with assms show ?thesis
    unfolding GnuPropertyNoteHasBti_def by (intro bti_notes_total [where s = "note"]) auto
qed

theorem bti_note_total_witness:
  "readable (sample_vm (bti_note 3) 0x1000) 0x1000 (0x1000 + 32)
   \<and> (\<exists>b. GnuPropertyNoteHasBti (sample_vm (bti_note 3) 0x1000) 0x1000 32 = Some b)"
proof -
  have "length (bti_note 3) = 32" by (simp add: bti_note_def word_bytes_def gnu_name_def)
  then have "readable (sample_vm (bti_note 3) 0x1000) 0x1000 (0x1000 + 32)"
    by (auto simp: readable_def sample_vm_load8 word_le_nat_alt word_less_nat_alt unat_sub)
  then show ?thesis
    using bti_note_total [of "sample_vm (bti_note 3) 0x1000" "0x1000" 32] by simp
qed

text \<open>
  On the note a static linker writes for an AArch64 feature word, the verdict is the BTI
  bit of that word.
\<close>

theorem bti_note_verdict:
  assumes "load_bytes m note 32 = Some (bti_note f)" "unat note < 2 ^ 63"
  shows "GnuPropertyNoteHasBti m note 32 = Some (f AND GNU_PROPERTY_AARCH64_FEATURE_1_BTI \<noteq> 0)"
  using assms by (rule bti_note_runs)

theorem bti_note_verdict_witness:
  "GnuPropertyNoteHasBti (sample_vm (bti_note 3) 0x1000) 0x1000 32 = Some True"
proof -
  have "length (bti_note 3) = 32" by (simp add: bti_note_def word_bytes_def gnu_name_def)
  then have "load_bytes (sample_vm (bti_note 3) 0x1000) 0x1000 32 = Some (map ((!) (bti_note 3)) [0..<32])"
    by (intro load_bytes_all) (simp add: sample_vm_load8 unat_of_nat)
  moreover have "map ((!) (bti_note 3)) [0..<32] = bti_note 3"
    using map_nth [of "bti_note 3"] \<open>length _ = 32\<close> by simp
  ultimately show ?thesis
    using bti_note_verdict [of _ "0x1000" 3] by (simp add: GNU_PROPERTY_AARCH64_FEATURE_1_BTI_def)
qed

end
