(* ===== verification/Image_Map.thy ===== *)
theory Image_Map
  imports Gnu_Property
begin

text \<open>
  Mapping the segments of a module (\<open>linker/linker.cpp\<close>: \<open>PreadFull\<close> and
  \<open>Image::MapSegments\<close>).  The kernel is a parameter: the record \<open>sysenv\<close> holds the module
  file, the page size, where the reservation lands and which mprotect and MAP_FIXED calls
  succeed.  \<open>pread\<close> answers come from a script of replies (interrupted, failed, or a number of
  bytes); when the script is used up it delivers what was asked for.  The effects of the calls
  on the address space are modelled here.
\<close>

section \<open>Definitions\<close>

subsection \<open>The kernel and the linker state\<close>

record sysenv =
  se_pagesize :: "64 word"
  se_file :: "byte list"
  se_reserve :: "addr \<Rightarrow> addr option"
  se_mprotect :: "addr \<Rightarrow> addr \<Rightarrow> u32 \<Rightarrow> bool"
  se_mmap_fixed :: "addr \<Rightarrow> addr \<Rightarrow> bool"

datatype pread_reply = PrIntr | PrFail | PrBytes nat

definition map_anon :: "vm \<Rightarrow> addr \<Rightarrow> addr \<Rightarrow> u32 \<Rightarrow> vm" where
  "map_anon m s n prot = m\<lparr>vbyte := \<lambda>a. if in_range s n a then Some 0 else vbyte m a,
                           vprot := \<lambda>a. if in_range s n a then prot else vprot m a\<rparr>"

definition unmap :: "vm \<Rightarrow> addr \<Rightarrow> addr \<Rightarrow> vm" where
  "unmap m s n = m\<lparr>vbyte := \<lambda>a. if in_range s n a then None else vbyte m a\<rparr>"

definition protect :: "vm \<Rightarrow> addr \<Rightarrow> addr \<Rightarrow> u32 \<Rightarrow> vm" where
  "protect m s n prot = m\<lparr>vprot := \<lambda>a. if in_range s n a then prot else vprot m a\<rparr>"

text \<open>
  A private file mapping: bytes past the end of the file are zero up to the end of its last
  page and not accessible after that.
\<close>

definition file_byte :: "byte list \<Rightarrow> addr \<Rightarrow> nat \<Rightarrow> byte option" where
  "file_byte file pg i =
     (if i < length file then Some (file ! i)
      else if i < (length file + (unat pg - 1)) div unat pg * unat pg then Some 0 else None)"

definition map_file :: "byte list \<Rightarrow> addr \<Rightarrow> addr \<Rightarrow> vm \<Rightarrow> addr \<Rightarrow> addr \<Rightarrow> u32 \<Rightarrow> vm" where
  "map_file file pg off m s n prot =
     m\<lparr>vbyte := \<lambda>a. if in_range s n a then file_byte file pg (unat off + unat (a - s)) else vbyte m a,
       vprot := \<lambda>a. if in_range s n a then prot else vprot m a\<rparr>"

definition poke :: "vm \<Rightarrow> addr \<Rightarrow> byte list \<Rightarrow> vm" where
  "poke m a bs = m\<lparr>vbyte := put_bytes (vbyte m) a bs\<rparr>"

subsection \<open>PreadFull\<close>

text \<open>How many of the next bytes the kernel can copy to before it meets an unwritable one.\<close>

primrec writable_prefix :: "vm \<Rightarrow> addr \<Rightarrow> nat \<Rightarrow> nat" where
  "writable_prefix m a 0 = 0"
| "writable_prefix m a (Suc n) = (if writable8 m a then Suc (writable_prefix m (a + 1) n) else 0)"

lemma writable_prefix_le: "writable_prefix m a n \<le> n"
  by (induction n arbitrary: a) auto

function PreadFull :: "byte list \<Rightarrow> pread_reply list \<Rightarrow> vm \<Rightarrow> addr \<Rightarrow> nat \<Rightarrow> nat
    \<Rightarrow> bool \<times> vm \<times> pread_reply list" where
  "PreadFull file rs m p len off =
     (if len = 0 then (True, m, rs)
      else if rs \<noteq> [] \<and> hd rs = PrIntr then PreadFull file (tl rs) m p len off
      else if rs \<noteq> [] \<and> hd rs = PrFail then (False, m, tl rs)
      else let limit = (case rs of PrBytes k # _ \<Rightarrow> k | _ \<Rightarrow> len);
               avail = min limit (min len (length file - off));
               n = writable_prefix m p avail
           in if n = 0 then (False, m, tl rs)
              else PreadFull file (tl rs) (poke m p (take n (drop off file)))
                     (p + of_nat n) (len - n) (off + n))"
  by pat_completeness auto
termination
proof (relation "measures [\<lambda>(file, rs, m, p, len, off). length rs, \<lambda>(file, rs, m, p, len, off). len]")
qed auto

declare PreadFull.simps [simp del]

text \<open>The number of bytes one \<open>pread\<close> of the loop delivers.\<close>

definition pread_count :: "byte list \<Rightarrow> pread_reply list \<Rightarrow> vm \<Rightarrow> addr \<Rightarrow> nat \<Rightarrow> nat \<Rightarrow> nat" where
  "pread_count file rs m p len off =
     writable_prefix m p (min (case rs of PrBytes k # _ \<Rightarrow> k | _ \<Rightarrow> len) (min len (length file - off)))"

subsection \<open>MapSegments\<close>

record lstate =
  ls_vm :: vm
  ls_replies :: "pread_reply list"
  ls_err :: load_error
  ls_img :: image

text \<open>The first loop: maximal alignment, lowest and highest address of the loadable segments.\<close>

definition extent_step :: "phdr \<Rightarrow> addr \<times> addr \<times> addr \<Rightarrow> addr \<times> addr \<times> addr" where
  "extent_step ph acc = (case acc of (max_align, min_vaddr, max_vaddr) \<Rightarrow>
     if p_type ph \<noteq> PT_LOAD then acc
     else (if p_align ph > max_align then p_align ph else max_align,
           if p_vaddr ph < min_vaddr then p_vaddr ph else min_vaddr,
           if p_vaddr ph + p_memsz ph > max_vaddr then p_vaddr ph + p_memsz ph else max_vaddr))"

definition rw_prot :: u32 where "rw_prot = PROT_READ OR PROT_WRITE"

text \<open>The body of the second loop, for both strategies.\<close>

definition map_anonymous_seg :: "sysenv \<Rightarrow> addr \<Rightarrow> addr \<Rightarrow> phdr \<Rightarrow> vm \<Rightarrow> pread_reply list
    \<Rightarrow> bool \<times> vm \<times> pread_reply list" where
  "map_anonymous_seg env pg bias ph m rs =
     (let seg_start = bias + PageStart (p_vaddr ph) pg;
          seg_mem_end = bias + PageEnd (p_vaddr ph + p_memsz ph) pg in
      if \<not> se_mprotect env seg_start (seg_mem_end - seg_start) rw_prot then (False, m, rs)
      else let m1 = protect m seg_start (seg_mem_end - seg_start) rw_prot in
        if p_filesz ph > 0
        then PreadFull (se_file env) rs m1 (bias + p_vaddr ph) (unat (p_filesz ph)) (unat (p_offset ph))
        else (True, m1, rs))"

definition map_file_part :: "sysenv \<Rightarrow> addr \<Rightarrow> addr \<Rightarrow> phdr \<Rightarrow> vm \<Rightarrow> (bool \<times> vm) option" where
  "map_file_part env pg bias ph m =
     (let seg_start = bias + PageStart (p_vaddr ph) pg;
          seg_file_end = bias + p_vaddr ph + p_filesz ph;
          file_page_end = PageEnd seg_file_end pg in
      if p_filesz ph > 0 then
        (if \<not> se_mmap_fixed env seg_start (file_page_end - seg_start) then Some (False, m)
         else let m1 = map_file (se_file env) pg (PageStart (p_offset ph) pg) m seg_start
                         (file_page_end - seg_start) rw_prot in
           if p_memsz ph > p_filesz ph \<and> file_page_end > seg_file_end
           then do { m2 \<leftarrow> store_bytes m1 seg_file_end
                             (replicate (unat (file_page_end - seg_file_end)) 0);
                     Some (True, m2) }
           else Some (True, m1))
      else Some (True, m))"

definition map_file_seg :: "sysenv \<Rightarrow> addr \<Rightarrow> addr \<Rightarrow> phdr \<Rightarrow> vm \<Rightarrow> (bool \<times> vm) option" where
  "map_file_seg env pg bias ph m = do {
     (ok, m1) \<leftarrow> map_file_part env pg bias ph m;
     (if \<not> ok then Some (False, m1)
      else let file_page_end = PageEnd (bias + p_vaddr ph + p_filesz ph) pg;
               seg_mem_end = bias + PageEnd (p_vaddr ph + p_memsz ph) pg in
        if seg_mem_end > file_page_end
        then (if \<not> se_mmap_fixed env file_page_end (seg_mem_end - file_page_end) then Some (False, m1)
              else Some (True, map_anon m1 file_page_end (seg_mem_end - file_page_end) rw_prot))
        else Some (True, m1)) }"

fun map_loads :: "sysenv \<Rightarrow> bool \<Rightarrow> addr \<Rightarrow> addr \<Rightarrow> phdr list \<Rightarrow> vm \<Rightarrow> pread_reply list
    \<Rightarrow> (bool \<times> vm \<times> pread_reply list) option" where
  "map_loads env anonymous pg bias [] m rs = Some (True, m, rs)"
| "map_loads env anonymous pg bias (ph # phs) m rs =
     (if p_type ph \<noteq> PT_LOAD then map_loads env anonymous pg bias phs m rs
      else do {
        (ok, m', rs') \<leftarrow> (if anonymous then Some (map_anonymous_seg env pg bias ph m rs)
                         else do { (ok, m') \<leftarrow> map_file_seg env pg bias ph m; Some (ok, m', rs) });
        (if ok then map_loads env anonymous pg bias phs m' rs' else Some (False, m', rs')) })"

text \<open>Where the program headers are in the mapped image (0 when nowhere).\<close>

definition locate_phdr :: "addr \<Rightarrow> ehdr \<Rightarrow> phdr list \<Rightarrow> addr" where
  "locate_phdr bias eh phs =
     (let p = (case find (\<lambda>ph. p_type ph = PT_PHDR) phs of
                 Some ph \<Rightarrow> bias + p_vaddr ph | None \<Rightarrow> 0) in
      if p \<noteq> 0 then p
      else case find (\<lambda>ph. p_type ph = PT_LOAD \<and> p_offset ph \<le> e_phoff eh \<and>
                           e_phoff eh < p_offset ph + p_filesz ph) phs of
             Some ph \<Rightarrow> bias + p_vaddr ph + (e_phoff eh - p_offset ph)
           | None \<Rightarrow> 0)"

definition locate_bti :: "vm \<Rightarrow> addr \<Rightarrow> phdr list \<Rightarrow> bool option" where
  "locate_bti m bias phs =
     (case find (\<lambda>ph. p_type ph = PT_GNU_PROPERTY) phs of
        Some ph \<Rightarrow> GnuPropertyNoteHasBti m (bias + p_vaddr ph) (p_memsz ph)
      | None \<Rightarrow> Some False)"

text \<open>The reservation: over-reserve, align up, trim the slack on both sides.\<close>

definition reserve_aligned :: "vm \<Rightarrow> addr \<Rightarrow> addr \<Rightarrow> addr \<Rightarrow> vm \<times> addr" where
  "reserve_aligned m raw_addr span max_align =
     (let reserve = span + max_align;
          m0 = map_anon m raw_addr reserve 0;
          aligned = (raw_addr + max_align - 1) AND NOT (max_align - 1);
          m1 = (if aligned \<noteq> raw_addr then unmap m0 raw_addr (aligned - raw_addr) else m0);
          tail = aligned + span;
          raw_end = raw_addr + reserve;
          m2 = (if raw_end > tail then unmap m1 tail (raw_end - tail) else m1)
      in (m2, aligned))"

definition MapSegments :: "sysenv \<Rightarrow> ehdr \<Rightarrow> phdr list \<Rightarrow> bool \<Rightarrow> lstate \<Rightarrow> (bool \<times> lstate) option" where
  "MapSegments env eh phs anonymous st =
     (let pg = PageSize (se_pagesize env);
          (max_align, min0, max0) = fold extent_step phs (pg, - 1, 0) in
      if min0 = - 1 then Some (False, st\<lparr>ls_err := kError\<rparr>)
      else let min_vaddr = PageStart min0 pg; max_vaddr = PageEnd max0 pg; span = max_vaddr - min_vaddr in
        case se_reserve env (span + max_align) of
          None \<Rightarrow> Some (False, st\<lparr>ls_err := kError\<rparr>)
        | Some raw_addr \<Rightarrow>
            let (m2, aligned) = reserve_aligned (ls_vm st) raw_addr span max_align;
                bias = aligned - min_vaddr;
                img = (ls_img st)\<lparr>map_start := aligned, map_size := span, load_bias := bias\<rparr>
            in do {
              (ok, m3, rs) \<leftarrow> map_loads env anonymous pg bias phs m2 (ls_replies st);
              let st1 = st\<lparr>ls_vm := m3, ls_replies := rs, ls_img := img\<rparr>;
              (if \<not> ok then Some (False, st1\<lparr>ls_err := kError\<rparr>)
               else do {
                 bti \<leftarrow> locate_bti m3 bias phs;
                 Some (True, st1\<lparr>ls_img := img\<lparr>phnum := unat (e_phnum eh),
                                               im_phdr := locate_phdr bias eh phs,
                                               wants_bti := bti\<rparr>\<rparr>) }) })"


subsection \<open>Reference: what a mapped module must contain\<close>

definition loads :: "phdr list \<Rightarrow> phdr list" where
  "loads phs = filter (\<lambda>ph. p_type ph = PT_LOAD) phs"

definition seg_bytes :: "byte list \<Rightarrow> phdr \<Rightarrow> byte list" where
  "seg_bytes file ph = take (unat (p_filesz ph)) (drop (unat (p_offset ph)) file)"

definition seg_content :: "byte list \<Rightarrow> phdr \<Rightarrow> nat \<Rightarrow> byte" where
  "seg_content file ph x = (if x < unat (p_filesz ph) then file ! (unat (p_offset ph) + x) else 0)"

definition seg_ok :: "phdr \<Rightarrow> bool" where
  "seg_ok ph \<longleftrightarrow> unat (p_filesz ph) \<le> unat (p_memsz ph) \<and> unat (p_vaddr ph) + unat (p_memsz ph) \<le> 2 ^ 62"

definition segs_apart :: "phdr \<Rightarrow> phdr \<Rightarrow> bool" where
  "segs_apart p q \<longleftrightarrow> unat (p_vaddr p) + unat (p_memsz p) \<le> unat (p_vaddr q) \<or>
     unat (p_vaddr q) + unat (p_memsz q) \<le> unat (p_vaddr p)"

definition phdrs_ok :: "phdr list \<Rightarrow> bool" where
  "phdrs_ok phs \<longleftrightarrow> (\<forall>ph \<in> set (loads phs). seg_ok ph) \<and> sorted_wrt segs_apart (loads phs)"

text \<open>
  Page rounding on numbers, and the layout a file-backed mapping needs: file offsets congruent
  to addresses, file contents inside the file, and no two segments sharing a page.
\<close>

definition rdn :: "nat \<Rightarrow> nat \<Rightarrow> nat" where "rdn k u = u div 2 ^ k * 2 ^ k"
definition rup :: "nat \<Rightarrow> nat \<Rightarrow> nat" where "rup k u = (u + (2 ^ k - 1)) div 2 ^ k * 2 ^ k"

definition page_lo :: "nat \<Rightarrow> phdr \<Rightarrow> nat" where
  "page_lo k ph = rdn k (unat (p_vaddr ph))"

definition page_hi :: "nat \<Rightarrow> phdr \<Rightarrow> nat" where
  "page_hi k ph = rup k (unat (p_vaddr ph) + unat (p_memsz ph))"

definition pages_apart :: "nat \<Rightarrow> phdr \<Rightarrow> phdr \<Rightarrow> bool" where
  "pages_apart k p q \<longleftrightarrow> page_hi k p \<le> page_lo k q \<or> page_hi k q \<le> page_lo k p"

definition file_layout_ok :: "nat \<Rightarrow> byte list \<Rightarrow> phdr list \<Rightarrow> bool" where
  "file_layout_ok k file phs \<longleftrightarrow> sorted_wrt (pages_apart k) (loads phs) \<and>
     (\<forall>ph \<in> set (loads phs). unat (p_offset ph) mod 2 ^ k = unat (p_vaddr ph) mod 2 ^ k \<and>
        unat (p_offset ph) + unat (p_filesz ph) \<le> length file)"

text \<open>
  An image whose address \<open>bias + u\<close> grows linearly for the offsets \<open>lo..hi\<close>, starting at a page
  boundary.
\<close>

definition linear :: "nat \<Rightarrow> addr \<Rightarrow> nat \<Rightarrow> nat \<Rightarrow> bool" where
  "linear k bias lo hi \<longleftrightarrow> lo \<le> hi \<and> lo mod 2 ^ k = 0 \<and> unat (bias + of_nat lo) mod 2 ^ k = 0 \<and>
     (\<forall>u. lo \<le> u \<and> u \<le> hi \<longrightarrow> unat (bias + of_nat u) = unat (bias + of_nat lo) + (u - lo))"

text \<open>The geometry of one segment inside a linear image.\<close>

definition seg_inside :: "nat \<Rightarrow> nat \<Rightarrow> nat \<Rightarrow> phdr \<Rightarrow> bool" where
  "seg_inside k lo hi ph \<longleftrightarrow> seg_ok ph \<and> lo \<le> page_lo k ph \<and> page_hi k ph \<le> hi"

text \<open>What the theorem asks of the kernel: a reservation does not wrap around the address space.\<close>

definition reserve_ok :: "sysenv \<Rightarrow> bool" where
  "reserve_ok env \<longleftrightarrow> (\<forall>len raw. se_reserve env len = Some raw \<longrightarrow> unat raw + unat len < 2 ^ 64)"

subsection \<open>A sample module\<close>

text \<open>One loadable segment: 4 bytes of file, 8 bytes of memory, 4 KiB pages.\<close>

definition sample_env :: sysenv where
  "sample_env = \<lparr>se_pagesize = 4096, se_file = [1, 2, 3, 4, 5],
     se_reserve = (\<lambda>len. if len \<le> 0x100000 then Some 0x10000 else None),
     se_mprotect = (\<lambda>_ _ _. True), se_mmap_fixed = (\<lambda>_ _. True)\<rparr>"

definition sample_phdr :: phdr where
  "sample_phdr = \<lparr>p_type = PT_LOAD, p_flags = 6, p_offset = 0, p_vaddr = 0, p_filesz = 4,
     p_memsz = 8, p_align = 4096\<rparr>"

definition sample_ehdr :: ehdr where
  "sample_ehdr = \<lparr>e_ident = [], e_type = 3, e_phoff = 64, e_phnum = 1\<rparr>"

definition sample_lstate :: lstate where
  "sample_lstate = \<lparr>ls_vm = \<lparr>vbyte = (\<lambda>_. None), vprot = (\<lambda>_. 0)\<rparr>, ls_replies = [],
     ls_err = kNone, ls_img = new_image\<rparr>"

section \<open>Lemmas\<close>

subsection \<open>Ranges\<close>

lemma in_range_unat: "in_range s n a \<longleftrightarrow> unat (a - s) < unat n"
  by (simp add: in_range_def word_less_nat_alt)

lemma in_range_interval:
  "unat s + unat n \<le> 2 ^ 64 \<Longrightarrow> in_range s n a \<longleftrightarrow> unat s \<le> unat a \<and> unat a < unat s + unat n"
  using unsigned_less [of a, where ?'a = nat] unsigned_less [of s, where ?'a = nat]
  by (auto simp: in_range_unat unat_sub_if')

lemma unat_word_less: "unat (a :: addr) < 2 ^ 64"
  using unsigned_less [of a, where ?'a = nat] by simp

lemma put_put_bytes:
  assumes "length xs + length ys < 2 ^ 64"
  shows "put_bytes (put_bytes f p xs) (p + of_nat (length xs)) ys = put_bytes f p (xs @ ys)"
proof
  fix x
  let ?n = "length xs"
  have n: "unat (of_nat ?n :: addr) = ?n" using assms by (simp add: unat_of_nat)
  have eq: "x - (p + of_nat ?n) = (x - p) - of_nat ?n" by simp
  show "put_bytes (put_bytes f p xs) (p + of_nat ?n) ys x = put_bytes f p (xs @ ys) x"
    using assms unat_word_less [of "x - p"]
    unfolding put_bytes_def eq unat_sub_if' n by (auto simp: nth_append)
qed

lemma poke_poke:
  "length xs + length ys < 2 ^ 64 \<Longrightarrow>
   poke (poke m p xs) (p + of_nat (length xs)) ys = poke m p (xs @ ys)"
  by (simp add: poke_def put_put_bytes)

lemma poke_Nil [simp]: "poke m p [] = m"
  by (simp add: poke_def put_bytes_def [abs_def])

subsection \<open>PreadFull\<close>

lemma pread_count_le: "pread_count f rs m p len off \<le> len" "pread_count f rs m p len off \<le> length f - off"
  using writable_prefix_le [of m p "min (case rs of PrBytes k # _ \<Rightarrow> k | _ \<Rightarrow> len) (min len (length f - off))"]
  by (auto simp: pread_count_def)

lemma PreadFull_unfold:
  "PreadFull f rs m p len off =
     (if len = 0 then (True, m, rs)
      else if rs \<noteq> [] \<and> hd rs = PrIntr then PreadFull f (tl rs) m p len off
      else if rs \<noteq> [] \<and> hd rs = PrFail then (False, m, tl rs)
      else if pread_count f rs m p len off = 0 then (False, m, tl rs)
      else PreadFull f (tl rs) (poke m p (take (pread_count f rs m p len off) (drop off f)))
             (p + of_nat (pread_count f rs m p len off)) (len - pread_count f rs m p len off)
             (off + pread_count f rs m p len off))"
  by (subst PreadFull.simps) (simp only: Let_def pread_count_def)

lemma poke_take_split:
  assumes "n \<le> len" "n \<le> length f - off" "len < 2 ^ 64"
  shows "poke (poke m p (take n (drop off f))) (p + of_nat n) (take (len - n) (drop (off + n) f)) =
    poke m p (take len (drop off f))"
proof -
  have len: "length (take n (drop off f)) = n" using assms by simp
  have "take len (drop off f) = take n (drop off f) @ take (len - n) (drop (off + n) f)"
    using assms take_add [of n "len - n" "drop off f"] by (simp add: add.commute)
  moreover have "length (take n (drop off f)) + length (take (len - n) (drop (off + n) f)) < 2 ^ 64"
    using assms by simp
  then have "poke (poke m p (take n (drop off f))) (p + of_nat (length (take n (drop off f))))
      (take (len - n) (drop (off + n) f)) = poke m p (take n (drop off f) @ take (len - n) (drop (off + n) f))"
    by (rule poke_poke)
  ultimately show ?thesis unfolding len by simp
qed

lemma PreadFull_ok:
  assumes "PreadFull f rs m p len off = (True, m', rs')" "len < 2 ^ 64"
  shows "m' = poke m p (take len (drop off f)) \<and> (len = 0 \<or> off + len \<le> length f)"
  using assms
proof (induction "length rs + len" arbitrary: rs m p len off rule: less_induct)
  case less
  let ?n = "pread_count f rs m p len off"
  note unf = PreadFull_unfold [of f rs m p len off]
  consider (zero) "len = 0" | (intr) "len \<noteq> 0" "rs \<noteq> []" "hd rs = PrIntr"
    | (data) "len \<noteq> 0" "\<not> (rs \<noteq> [] \<and> hd rs = PrIntr)" by blast
  then show ?case
  proof cases
    case zero
    with less.prems unf show ?thesis by simp
  next
    case intr
    then have "length (tl rs) + len < length rs + len" by simp
    from less.hyps [OF this] less.prems unf intr show ?thesis by simp
  next
    case data
    with less.prems(1) unf have nz: "?n \<noteq> 0"
      and run: "PreadFull f (tl rs) (poke m p (take ?n (drop off f))) (p + of_nat ?n) (len - ?n) (off + ?n) =
        (True, m', rs')" by (auto split: if_splits)
    note le = pread_count_le [of f rs m p len off]
    have "length (tl rs) + (len - ?n) < length rs + len" using nz le(1) by (cases rs) auto
    from less.hyps [OF this run] less.prems(2) have
      "m' = poke m p (take len (drop off f)) \<and> (len - ?n = 0 \<or> off + ?n + (len - ?n) \<le> length f)"
      unfolding poke_take_split [OF le less.prems(2)] by linarith
    with le nz show ?thesis by linarith
  qed
qed

lemma writable_prefix_all: "writable_bytes m a n \<Longrightarrow> writable_prefix m a n = n"
  by (induction n arbitrary: a) auto

lemma PreadFull_plain:
  assumes "writable_bytes m p len" "off + len \<le> length file"
  shows "\<exists>m'. PreadFull file [] m p len off = (True, m', [])"
  using assms PreadFull_unfold [of "file" "[]" m p len off]
  by (simp add: pread_count_def writable_prefix_all PreadFull_unfold [of _ _ _ _ 0])


subsection \<open>The reservation\<close>

lemma AlignUp_bounds:
  assumes "j < 63" "unat a + 2 ^ j \<le> 2 ^ 64"
  shows "unat a \<le> unat (AlignUp a (2 ^ j))" "unat (AlignUp a (2 ^ j)) < unat a + 2 ^ j"
    and "unat (AlignUp a (2 ^ j)) mod 2 ^ j = 0"
  using round_up_bounds [of "2 ^ j" "unat a"] assms AlignUp_unat [of j a] by simp_all

lemma reserve_aligned_snd:
  "snd (reserve_aligned m raw span (2 ^ j)) = AlignUp raw (2 ^ j)"
  by (simp add: reserve_aligned_def Let_def AlignUp_def)

lemma reserve_aligned_vm:
  fixes m :: vm
  assumes "j < 63" "unat raw + unat span + 2 ^ j < 2 ^ 64"
  defines "aligned \<equiv> AlignUp raw (2 ^ j)" and "m2 \<equiv> fst (reserve_aligned m raw span (2 ^ j))"
  shows "vbyte m2 a =
     (if in_range aligned span a then Some 0
      else if in_range raw (span + 2 ^ j) a then None else vbyte m a)"
    and "\<not> in_range raw (span + 2 ^ j) a \<Longrightarrow> vprot m2 a = vprot m a"
proof -
  define T E where TE: "T = aligned + span" "E = raw + (span + 2 ^ j)"
  have al: "unat raw \<le> unat aligned" "unat aligned < unat raw + 2 ^ j"
    using AlignUp_bounds [of j raw] assms(1,2) unfolding aligned_def by simp_all
  have pj: "unat (2 ^ j :: addr) = 2 ^ j" using assms(1) by (intro unat_pow2) simp
  have res: "unat (span + 2 ^ j) = unat span + 2 ^ j" using assms(2) pj by (subst unat_add_small) auto
  have uT: "unat T = unat aligned + unat span"
    using assms(2) al unfolding TE by (intro unat_add_small) simp
  have uE: "unat E = unat raw + unat span + 2 ^ j"
    using assms(2) res unfolding TE by (subst unat_add_small) auto
  have "T < E" using uT uE al by (simp add: word_less_nat_alt)
  then have m2: "m2 = unmap (if aligned \<noteq> raw then unmap (map_anon m raw (span + 2 ^ j) 0) raw (aligned - raw)
      else map_anon m raw (span + 2 ^ j) 0) T (E - T)"
    unfolding m2_def aligned_def TE by (simp add: reserve_aligned_def Let_def AlignUp_def)
  have d1: "unat (aligned - raw) = unat aligned - unat raw"
    using al by (intro unat_sub) (simp add: word_le_nat_alt)
  have d2: "unat (E - T) = unat raw + 2 ^ j - unat aligned"
    using \<open>T < E\<close> uT uE by (subst unat_sub) auto
  have rng: "in_range raw (span + 2 ^ j) a \<longleftrightarrow> unat raw \<le> unat a \<and> unat a < unat raw + unat span + 2 ^ j"
    "in_range aligned span a \<longleftrightarrow> unat aligned \<le> unat a \<and> unat a < unat aligned + unat span"
    "in_range raw (aligned - raw) a \<longleftrightarrow> unat raw \<le> unat a \<and> unat a < unat aligned"
    "in_range T (E - T) a \<longleftrightarrow> unat aligned + unat span \<le> unat a \<and> unat a < unat raw + unat span + 2 ^ j"
    using assms(2) al res d1 d2 uT by (subst in_range_interval; force)+
  show "vbyte m2 a = (if in_range aligned span a then Some 0
      else if in_range raw (span + 2 ^ j) a then None else vbyte m a)"
    using al rng unfolding m2 by (cases "aligned = raw") (simp_all add: unmap_def map_anon_def)
  show "\<not> in_range raw (span + 2 ^ j) a \<Longrightarrow> vprot m2 a = vprot m a"
    unfolding m2 by (simp add: unmap_def map_anon_def)
qed


subsection \<open>The anonymous strategy\<close>

lemma loads_simps [simp]:
  "loads [] = []"
  "loads (ph # phs) = (if p_type ph = PT_LOAD then ph # loads phs else loads phs)"
  by (simp_all add: loads_def)

lemma map_anonymous_seg_ok:
  assumes "map_anonymous_seg env pg bias ph m rs = (True, m', rs')"
  shows "vbyte m' = put_bytes (vbyte m) (bias + p_vaddr ph) (seg_bytes (se_file env) ph)
    \<and> length (seg_bytes (se_file env) ph) = unat (p_filesz ph)"
proof (cases "p_filesz ph > 0")
  case True
  with assms have "PreadFull (se_file env) rs (protect m (bias + PageStart (p_vaddr ph) pg)
      (bias + PageEnd (p_vaddr ph + p_memsz ph) pg - (bias + PageStart (p_vaddr ph) pg)) rw_prot)
      (bias + p_vaddr ph) (unat (p_filesz ph)) (unat (p_offset ph)) = (True, m', rs')"
    by (auto simp: map_anonymous_seg_def Let_def split: if_splits)
  from PreadFull_ok [OF this unat_word_less] True show ?thesis
    by (auto simp: poke_def protect_def seg_bytes_def word_less_nat_alt)
next
  case False
  with assms show ?thesis
    by (auto simp: map_anonymous_seg_def Let_def seg_bytes_def put_bytes_def [abs_def] protect_def
        word_less_nat_alt split: if_splits)
qed

lemma map_loads_anon:
  assumes "map_loads env True pg bias phs m rs = Some (True, m', rs')"
  shows "vbyte m' = fold (\<lambda>ph f. put_bytes f (bias + p_vaddr ph) (seg_bytes (se_file env) ph)) (loads phs) (vbyte m)
    \<and> (\<forall>ph \<in> set (loads phs). length (seg_bytes (se_file env) ph) = unat (p_filesz ph))"
  using assms
proof (induction phs arbitrary: m rs)
  case (Cons ph phs)
  show ?case
  proof (cases "p_type ph = PT_LOAD")
    case True
    with Cons.prems obtain m1 rs1 where seg: "map_anonymous_seg env pg bias ph m rs = (True, m1, rs1)"
      and rest: "map_loads env True pg bias phs m1 rs1 = Some (True, m', rs')"
      by (auto split: prod.splits if_splits)
    from map_anonymous_seg_ok [OF seg] Cons.IH [OF rest] True show ?thesis by simp
  qed (use Cons in simp)
qed simp

lemma seg_offset:
  assumes "seg_ok p" "x < unat (p_memsz p)"
  shows "unat (p_vaddr p + of_nat x) = unat (p_vaddr p) + x"
  using assms by (intro unat_plus_nat) (simp add: seg_ok_def)

lemma apart_uncovered:
  assumes "seg_ok p" "seg_ok q" "segs_apart p q" "x < unat (p_memsz p)"
  shows "\<not> unat (bias + p_vaddr p + of_nat x - (bias + p_vaddr q)) < unat (p_filesz q)"
proof -
  define w where "w = p_vaddr p + of_nat x"
  have eq: "bias + p_vaddr p + of_nat x - (bias + p_vaddr q) = w - p_vaddr q" by (simp add: w_def)
  have "unat w = unat (p_vaddr p) + x" unfolding w_def using assms(1,4) by (rule seg_offset)
  then show ?thesis
    using assms unfolding eq unat_sub_if' seg_ok_def segs_apart_def by auto
qed

lemma fold_put_miss:
  "(\<And>q. q \<in> set qs \<Longrightarrow> \<not> unat (a - (bias + p_vaddr q)) < unat (p_filesz q)) \<Longrightarrow>
   fold (\<lambda>q f. put_bytes f (bias + p_vaddr q) (seg_bytes file q)) qs f a = f a"
  by (induction qs arbitrary: f) (auto simp: put_bytes_def seg_bytes_def)

lemma segs_apart_sym: "segs_apart p q \<longleftrightarrow> segs_apart q p"
  by (auto simp: segs_apart_def)

lemma fold_put_content:
  assumes "\<And>q. q \<in> set qs \<Longrightarrow> seg_ok q" "sorted_wrt segs_apart qs" "p \<in> set qs" "x < unat (p_memsz p)"
    and "length (seg_bytes file p) = unat (p_filesz p)" "f (bias + p_vaddr p + of_nat x) = Some 0"
  shows "fold (\<lambda>q f. put_bytes f (bias + p_vaddr q) (seg_bytes file q)) qs f (bias + p_vaddr p + of_nat x) =
    Some (seg_content file p x)"
proof -
  let ?a = "bias + p_vaddr p + of_nat x" and ?F = "\<lambda>q f. put_bytes f (bias + p_vaddr q) (seg_bytes file q)"
  obtain xs ys where qs: "qs = xs @ p # ys" using assms(3) by (auto dest: split_list)
  have miss: "\<not> unat (?a - (bias + p_vaddr q)) < unat (p_filesz q)" if "q \<in> set xs \<union> set ys" for q
    using that assms(1,2,4) segs_apart_sym unfolding qs
    by (intro apart_uncovered) (auto simp: sorted_wrt_append)
  have "fold ?F xs f ?a = Some 0" using fold_put_miss [of xs ?a bias "file" f] miss assms(6) by auto
  moreover have "fold ?F qs f ?a = ?F p (fold ?F xs f) ?a"
    using fold_put_miss [of ys ?a bias "file"] miss by (auto simp: qs)
  moreover have "x < 2 ^ 64" using assms(4) unat_word_less [of "p_memsz p"] by linarith
  then have "unat (?a - (bias + p_vaddr p)) = x" by (simp add: unat_of_nat)
  ultimately show ?thesis
    using assms(5) by (auto simp: put_bytes_def seg_content_def seg_bytes_def)
qed


subsection \<open>The extent of the loadable segments\<close>

lemma extent_fold_mono:
  "fold extent_step phs (al, lo, hi) = (al', lo', hi') \<Longrightarrow> al \<le> al' \<and> lo' \<le> lo \<and> hi \<le> hi'"
proof (induction phs arbitrary: al lo hi)
  case (Cons ph phs)
  obtain al1 lo1 hi1 where e: "extent_step ph (al, lo, hi) = (al1, lo1, hi1)" by (metis prod_cases3)
  then have "al \<le> al1 \<and> lo1 \<le> lo \<and> hi \<le> hi1" by (auto simp: extent_step_def split: if_splits)
  with Cons.IH [of al1 lo1 hi1] Cons.prems e show ?case by (auto intro: order_trans)
qed simp

lemma extent_fold_covers:
  assumes "fold extent_step phs (al, lo, hi) = (al', lo', hi')" "ph \<in> set (loads phs)"
  shows "lo' \<le> p_vaddr ph \<and> p_vaddr ph + p_memsz ph \<le> hi'"
  using assms
proof (induction phs arbitrary: al lo hi)
  case (Cons q phs)
  obtain al1 lo1 hi1 where e: "extent_step q (al, lo, hi) = (al1, lo1, hi1)" by (metis prod_cases3)
  then have run: "fold extent_step phs (al1, lo1, hi1) = (al', lo', hi')" using Cons.prems by simp
  show ?case
  proof (cases "ph \<in> set (loads phs)")
    case False
    then have "ph = q" "p_type q = PT_LOAD" using Cons.prems by (auto split: if_splits)
    then have "lo1 \<le> p_vaddr ph" "p_vaddr ph + p_memsz ph \<le> hi1"
      using e by (auto simp: extent_step_def split: if_splits)
    with extent_fold_mono [OF run] show ?thesis by (auto intro: order_trans)
  qed (use Cons.IH [OF run] in simp)
qed simp

text \<open>The upper end of the extent is 0 or the end of some loadable segment.\<close>

lemma extent_fold_hi:
  assumes "fold extent_step phs (al, lo, hi) = (al', lo', hi')"
  shows "hi' = hi \<or> (\<exists>ph \<in> set (loads phs). hi' = p_vaddr ph + p_memsz ph)"
  using assms
proof (induction phs arbitrary: al lo hi)
  case (Cons q phs)
  obtain al1 lo1 hi1 where e: "extent_step q (al, lo, hi) = (al1, lo1, hi1)" by (metis prod_cases3)
  then have "hi1 = hi \<or> (p_type q = PT_LOAD \<and> hi1 = p_vaddr q + p_memsz q)"
    by (auto simp: extent_step_def split: if_splits)
  with Cons.IH [of al1 lo1 hi1] Cons.prems e show ?case by auto
qed simp


subsection \<open>Rounding\<close>

lemma rdn_le: "rdn k u \<le> u"
  by (simp add: rdn_def)

lemma rup_ge: "u \<le> rup k u" and rup_less: "rup k u < u + 2 ^ k"
  using round_up_bounds [of "2 ^ k" u] by (simp_all add: rup_def)

lemma rup_mono: "u \<le> v \<Longrightarrow> rup k u \<le> rup k v"
  by (simp add: rup_def div_le_mono)

lemma rdn_mono: "u \<le> v \<Longrightarrow> rdn k u \<le> rdn k v"
  by (simp add: rdn_def div_le_mono)

lemma rup_shift: "rup k (c * 2 ^ k + y) = c * 2 ^ k + rup k y"
proof -
  have "c * 2 ^ k + y + (2 ^ k - 1) = (y + (2 ^ k - 1)) + c * 2 ^ k" by (simp only: ac_simps)
  then have "(c * 2 ^ k + y + (2 ^ k - 1)) div 2 ^ k = (y + (2 ^ k - 1)) div 2 ^ k + c"
    by (simp only:) simp
  then show ?thesis by (simp add: rup_def algebra_simps)
qed

lemma rup_minus: "d mod 2 ^ k = 0 \<Longrightarrow> d \<le> u \<Longrightarrow> rup k (u - d) = rup k u - d"
  using rup_shift [of k "d div 2 ^ k" "u - d"] by (simp add: mod_eq_0_iff_dvd)

lemma rdn_mod: "rdn k u mod 2 ^ k = 0" and rup_mod: "rup k u mod 2 ^ k = 0"
  by (simp_all add: rdn_def rup_def)

lemma rdn_minus_mod: "u - rdn k u = u mod 2 ^ k"
  by (simp add: rdn_def minus_div_mult_eq_mod)

lemma PageStart_word: "k < 64 \<Longrightarrow> PageStart a (2 ^ k) = of_nat (rdn k (unat a))"
  using PageStart_unat [of k a] by (metis of_nat_unat rdn_def)

lemma PageEnd_word:
  "k < 64 \<Longrightarrow> unat a + 2 ^ k \<le> 2 ^ 64 \<Longrightarrow> PageEnd a (2 ^ k) = of_nat (rup k (unat a))"
  using PageEnd_unat [of k a] by (metis of_nat_unat rup_def)

subsection \<open>Image offsets\<close>

lemma linearD:
  assumes "linear k bias lo hi"
  shows "lo \<le> hi" "lo mod 2 ^ k = 0" "unat (bias + of_nat lo) mod 2 ^ k = 0"
    and "lo \<le> u \<Longrightarrow> u \<le> hi \<Longrightarrow> unat (bias + of_nat u) = unat (bias + of_nat lo) + (u - lo)"
  using assms unfolding linear_def by blast+

lemma linear_unat:
  "linear k bias lo hi \<Longrightarrow> lo \<le> u \<Longrightarrow> u \<le> v \<Longrightarrow> v \<le> hi \<Longrightarrow>
   unat (bias + of_nat v) = unat (bias + of_nat u) + (v - u)"
  using linearD(4) [of k bias lo hi u] linearD(4) [of k bias lo hi v] by simp

lemma linear_diff:
  assumes "linear k bias lo hi" "lo \<le> u" "u \<le> v" "v \<le> hi"
  shows "unat (bias + of_nat v - (bias + of_nat u)) = v - u"
  using linear_unat [OF assms] by (subst unat_sub) (simp_all add: word_le_nat_alt)

lemma linear_less:
  assumes "linear k bias lo hi" "lo \<le> u" "u \<le> hi" "lo \<le> v" "v \<le> hi"
  shows "bias + of_nat u < bias + of_nat v \<longleftrightarrow> u < v"
  using assms linear_unat [OF assms(1), of u v] linear_unat [OF assms(1), of v u]
  by (cases "u \<le> v") (auto simp: word_less_nat_alt)

lemma linear_range:
  assumes "linear k bias lo hi" "lo \<le> s" "s \<le> e" "e \<le> hi" "lo \<le> u" "u \<le> hi"
  shows "in_range (bias + of_nat s) (bias + of_nat e - (bias + of_nat s)) (bias + of_nat u) \<longleftrightarrow> s \<le> u \<and> u < e"
proof -
  have d: "unat (bias + of_nat e - (bias + of_nat s)) = e - s"
    using assms by (intro linear_diff) auto
  have e: "unat (bias + of_nat e) = unat (bias + of_nat s) + (e - s)"
    using assms by (intro linear_unat) auto
  have "unat (bias + of_nat s) + unat (bias + of_nat e - (bias + of_nat s)) \<le> 2 ^ 64"
    unfolding d using e unat_word_less [of "bias + of_nat e"] by simp
  from in_range_interval [OF this] show ?thesis
    using assms linear_unat [OF assms(1), of s u] linear_unat [OF assms(1), of u s] unfolding d
    by (cases "s \<le> u") auto
qed

lemma page_below_top:
  assumes "n mod 2 ^ k = 0" "n < 2 ^ 64" "k < 64"
  shows "n + 2 ^ k \<le> (2 :: nat) ^ 64"
proof -
  have "(2 :: nat) ^ 64 = 2 ^ (64 - k) * 2 ^ k" using assms(3) by (simp flip: power_add)
  moreover from this assms have "n div 2 ^ k < 2 ^ (64 - k)"
    by (simp add: less_mult_imp_div_less)
  then have "(n div 2 ^ k + 1) * 2 ^ k \<le> 2 ^ (64 - k) * 2 ^ k" by (intro mult_le_mono1) simp
  ultimately show ?thesis using assms(1) by (simp add: mod_eq_0_iff_dvd)
qed

lemma linear_PageEnd:
  assumes "linear k bias lo hi" "k < 64" "lo \<le> u" "rup k u \<le> hi"
  shows "PageEnd (bias + of_nat u) (2 ^ k) = bias + of_nat (rup k u)"
proof -
  let ?a = "unat (bias + of_nat lo)"
  note lo = linearD(2,3) [OF assms(1)]
  have u: "unat (bias + of_nat u) = ?a + (u - lo)" "unat (bias + of_nat (rup k u)) = ?a + (rup k u - lo)"
    using assms(3,4) rup_ge [of u k] linearD(4) [OF assms(1), of u] linearD(4) [OF assms(1), of "rup k u"]
    by simp_all
  have "rup k (?a + (u - lo)) = ?a + rup k (u - lo)"
    using rup_shift [of k "?a div 2 ^ k" "u - lo"] lo(2) by (simp add: mod_eq_0_iff_dvd)
  also have "rup k (u - lo) = rup k u - lo" using lo(1) assms(3) by (rule rup_minus)
  finally have "rup k (unat (bias + of_nat u)) = unat (bias + of_nat (rup k u))" using u by simp
  moreover from this have "unat (bias + of_nat (rup k u)) mod 2 ^ k = 0"
    using rup_mod [of k "unat (bias + of_nat u)"] by simp
  then have "unat (bias + of_nat (rup k u)) + 2 ^ k \<le> 2 ^ 64"
    using assms(2) unat_word_less by (intro page_below_top) auto
  then have "unat (bias + of_nat u) + 2 ^ k \<le> 2 ^ 64"
    using u rup_ge [of u k] by linarith
  ultimately show ?thesis
    using PageEnd_word [OF assms(2)] by simp
qed


subsection \<open>The file-backed strategy\<close>

lemma page_words:
  assumes "k \<le> 60" "seg_ok ph"
  shows "PageStart (p_vaddr ph) (2 ^ k) = of_nat (page_lo k ph)"
    and "PageEnd (p_vaddr ph + p_memsz ph) (2 ^ k) = of_nat (page_hi k ph)"
proof -
  show "PageStart (p_vaddr ph) (2 ^ k) = of_nat (page_lo k ph)"
    using assms(1) by (simp add: PageStart_word page_lo_def)
  have "unat (p_vaddr ph + p_memsz ph) = unat (p_vaddr ph) + unat (p_memsz ph)"
    using assms(2) by (intro unat_add_small) (simp add: seg_ok_def)
  moreover have "(2 :: nat) ^ k \<le> 2 ^ 60" using assms(1) by (intro power_increasing) auto
  ultimately show "PageEnd (p_vaddr ph + p_memsz ph) (2 ^ k) = of_nat (page_hi k ph)"
    using assms by (subst PageEnd_word) (auto simp: page_hi_def seg_ok_def)
qed

lemma seg_order:
  assumes "seg_ok ph"
  defines "V \<equiv> unat (p_vaddr ph)" and "F \<equiv> unat (p_filesz ph)" and "M \<equiv> unat (p_memsz ph)"
  shows "page_lo k ph \<le> V" "V + F \<le> rup k (V + F)" "rup k (V + F) \<le> page_hi k ph" "V + M \<le> page_hi k ph"
    "F \<le> M"
  using assms(1) rdn_le [of k V] rup_ge [of "V + F" k] rup_ge [of "V + M" k] rup_mono [of "V + F" "V + M" k]
  unfolding seg_ok_def page_lo_def page_hi_def V_def F_def M_def by auto

lemma file_end_word:
  assumes "linear k bias lo hi" "k \<le> 60" "seg_inside k lo hi ph"
  shows "bias + p_vaddr ph + p_filesz ph = bias + of_nat (unat (p_vaddr ph) + unat (p_filesz ph))"
    and "PageEnd (bias + p_vaddr ph + p_filesz ph) (2 ^ k) =
      bias + of_nat (rup k (unat (p_vaddr ph) + unat (p_filesz ph)))"
proof -
  show eq: "bias + p_vaddr ph + p_filesz ph = bias + of_nat (unat (p_vaddr ph) + unat (p_filesz ph))"
    by (simp add: add.assoc)
  show "PageEnd (bias + p_vaddr ph + p_filesz ph) (2 ^ k) =
      bias + of_nat (rup k (unat (p_vaddr ph) + unat (p_filesz ph)))"
    unfolding eq using assms seg_order(1-4) [of ph k]
    by (intro linear_PageEnd [where lo = lo and hi = hi]) (auto simp: seg_inside_def)
qed


text \<open>What mapping one file-backed segment does to every byte of the image.\<close>

lemma map_file_part_bytes:
  assumes lin: "linear k bias lo hi" and k: "k \<le> 60" and ins: "seg_inside k lo hi ph"
    and run: "map_file_part env (2 ^ k) bias ph m = Some (True, m')" and u: "lo \<le> u" "u \<le> hi"
  defines "V \<equiv> unat (p_vaddr ph)" and "F \<equiv> unat (p_filesz ph)" and "M \<equiv> unat (p_memsz ph)"
  shows "vbyte m' (bias + of_nat u) =
     (if F = 0 then vbyte m (bias + of_nat u)
      else if V + F \<le> u \<and> u < rup k (V + F) \<and> F < M then Some 0
      else if page_lo k ph \<le> u \<and> u < rup k (V + F)
        then file_byte (se_file env) (2 ^ k) (rdn k (unat (p_offset ph)) + (u - page_lo k ph))
      else vbyte m (bias + of_nat u))"
proof -
  have ok: "seg_ok ph" and edge: "lo \<le> page_lo k ph" "page_hi k ph \<le> hi" using ins by (auto simp: seg_inside_def)
  note ord = seg_order(1-4) [OF ok, of k, folded V_def F_def M_def]
  let ?A = "\<lambda>v. bias + of_nat v" and ?S = "page_lo k ph" and ?FE = "rup k (V + F)"
  note w = file_end_word [OF lin k ins, folded V_def F_def] page_words(1) [OF k ok]
  let ?m1 = "map_file (se_file env) (2 ^ k) (PageStart (p_offset ph) (2 ^ k)) m (?A ?S) (?A ?FE - ?A ?S) rw_prot"
  have rng: "in_range (?A ?S) (?A ?FE - ?A ?S) (?A u) \<longleftrightarrow> ?S \<le> u \<and> u < ?FE"
    using ord edge u by (intro linear_range [OF lin]) auto
  have off: "unat (PageStart (p_offset ph) (2 ^ k)) = rdn k (unat (p_offset ph))"
    using k by (simp add: PageStart_unat rdn_def)
  have m1: "vbyte ?m1 (?A u) = (if ?S \<le> u \<and> u < ?FE
      then file_byte (se_file env) (2 ^ k) (rdn k (unat (p_offset ph)) + (u - ?S)) else vbyte m (?A u))"
    using rng off linear_diff [OF lin edge(1), of u] u by (simp add: map_file_def)
  have F0: "p_filesz ph > 0 \<longleftrightarrow> F \<noteq> 0" and MF: "p_memsz ph > p_filesz ph \<longleftrightarrow> F < M"
    by (simp_all add: F_def M_def word_less_nat_alt)
  have lt: "?A (V + F) < ?A ?FE \<longleftrightarrow> V + F < ?FE"
    using ord edge by (intro linear_less [OF lin]) auto
  have zero: "unat (?A u - ?A (V + F)) < unat (?A ?FE - ?A (V + F)) \<longleftrightarrow> V + F \<le> u \<and> u < ?FE"
    using linear_range [OF lin, of "V + F" ?FE u] ord edge u by (simp add: in_range_unat)
  note r = run [unfolded map_file_part_def Let_def w(2), unfolded w(1) w(3) F0 MF lt]
  show ?thesis
  proof (cases "F = 0 \<or> \<not> (F < M \<and> V + F < ?FE)")
    case True
    with r have "m' = (if F = 0 then m else ?m1)" by (auto split: if_splits)
    with m1 True show ?thesis by auto
  next
    case False
    with r have "store_bytes ?m1 (?A (V + F)) (replicate (unat (?A ?FE - ?A (V + F))) 0) = Some m'"
      by (simp only: if_True if_False simp_thms not_False_eq_True split: if_splits bind_splits) auto
    from store_bytes_vbyte [OF this] False show ?thesis
      using zero m1 by (auto simp: put_bytes_def)
  qed
qed


lemma map_file_seg_bytes:
  assumes lin: "linear k bias lo hi" and k: "k \<le> 60" and ins: "seg_inside k lo hi ph"
    and run: "map_file_seg env (2 ^ k) bias ph m = Some (True, m')" and u: "lo \<le> u" "u \<le> hi"
  defines "FE \<equiv> rup k (unat (p_vaddr ph) + unat (p_filesz ph))"
  obtains m1 where "map_file_part env (2 ^ k) bias ph m = Some (True, m1)"
    "vbyte m' (bias + of_nat u) =
      (if FE \<le> u \<and> u < page_hi k ph then Some 0 else vbyte m1 (bias + of_nat u))"
proof -
  have ok: "seg_ok ph" and edge: "lo \<le> page_lo k ph" "page_hi k ph \<le> hi" using ins by (auto simp: seg_inside_def)
  note ord = seg_order(1-4) [OF ok, of k]
  let ?A = "\<lambda>v. bias + of_nat v"
  have w: "PageEnd (bias + p_vaddr ph + p_filesz ph) (2 ^ k) = ?A FE"
    "PageEnd (p_vaddr ph + p_memsz ph) (2 ^ k) = of_nat (page_hi k ph)"
    unfolding FE_def using file_end_word(2) [OF lin k ins] page_words(2) [OF k ok] by simp_all
  have FE: "lo \<le> FE" "FE \<le> page_hi k ph" "FE \<le> hi" using ord edge by (auto simp: FE_def)
  have lt: "?A FE < ?A (page_hi k ph) \<longleftrightarrow> FE < page_hi k ph"
    using FE edge by (intro linear_less [OF lin]) auto
  have rng: "in_range (?A FE) (?A (page_hi k ph) - ?A FE) (?A u) \<longleftrightarrow> FE \<le> u \<and> u < page_hi k ph"
    using FE edge u by (intro linear_range [OF lin]) auto
  from run obtain m1 where m1: "map_file_part env (2 ^ k) bias ph m = Some (True, m1)"
    and m': "m' = (if ?A FE < ?A (page_hi k ph)
      then map_anon m1 (?A FE) (?A (page_hi k ph) - ?A FE) rw_prot else m1)"
    unfolding map_file_seg_def Let_def w by (auto split: bind_splits if_splits)
  show ?thesis
    using rng lt by (intro that [OF m1]) (auto simp: m' map_anon_def)
qed

lemma map_file_seg_frame:
  assumes lin: "linear k bias lo hi" and k: "k \<le> 60" and ins: "seg_inside k lo hi ph"
    and run: "map_file_seg env (2 ^ k) bias ph m = Some (True, m')" and u: "lo \<le> u" "u \<le> hi"
    and out: "\<not> (page_lo k ph \<le> u \<and> u < page_hi k ph)"
  shows "vbyte m' (bias + of_nat u) = vbyte m (bias + of_nat u)"
proof (rule map_file_seg_bytes [OF lin k ins run u])
  fix m1
  assume m1: "map_file_part env (2 ^ k) bias ph m = Some (True, m1)"
    and b: "vbyte m' (bias + of_nat u) =
      (if rup k (unat (p_vaddr ph) + unat (p_filesz ph)) \<le> u \<and> u < page_hi k ph then Some 0
       else vbyte m1 (bias + of_nat u))"
  show ?thesis
    using b out map_file_part_bytes [OF lin k ins m1 u] seg_order(1-4) [of ph k] ins
    by (auto simp: seg_inside_def)
qed

lemma file_index:
  assumes "unat (p_offset ph) mod 2 ^ k = unat (p_vaddr ph) mod 2 ^ k" "unat (p_vaddr ph) \<le> u"
  shows "rdn k (unat (p_offset ph)) + (u - page_lo k ph) = unat (p_offset ph) + (u - unat (p_vaddr ph))"
  using assms rdn_minus_mod [of "unat (p_offset ph)" k] rdn_minus_mod [of "unat (p_vaddr ph)" k]
    rdn_le [of k "unat (p_offset ph)"] rdn_le [of k "unat (p_vaddr ph)"]
  unfolding page_lo_def by linarith

lemma map_file_seg_content:
  assumes lin: "linear k bias lo hi" and k: "k \<le> 60" and ins: "seg_inside k lo hi ph"
    and run: "map_file_seg env (2 ^ k) bias ph m = Some (True, m')"
    and cong: "unat (p_offset ph) mod 2 ^ k = unat (p_vaddr ph) mod 2 ^ k"
    and inf: "unat (p_offset ph) + unat (p_filesz ph) \<le> length (se_file env)"
    and x: "x < unat (p_memsz ph)" and zero: "vbyte m (bias + p_vaddr ph + of_nat x) = Some 0"
  shows "vbyte m' (bias + p_vaddr ph + of_nat x) = Some (seg_content (se_file env) ph x)"
proof -
  let ?V = "unat (p_vaddr ph)" and ?F = "unat (p_filesz ph)"
  have A: "bias + p_vaddr ph + of_nat x = bias + of_nat (?V + x)" by (simp add: add.assoc)
  have ok: "seg_ok ph" using ins by (simp add: seg_inside_def)
  note ord = seg_order(1-4) [OF ok, of k]
  have u: "lo \<le> ?V + x" "?V + x \<le> hi" using ins x ord by (auto simp: seg_inside_def)
  note idx = file_index [OF cong, of "?V + x"]
  show ?thesis
  proof (rule map_file_seg_bytes [OF lin k ins run u])
    fix m1
    assume m1: "map_file_part env (2 ^ k) bias ph m = Some (True, m1)"
      and b: "vbyte m' (bias + of_nat (?V + x)) = (if rup k (?V + ?F) \<le> ?V + x \<and> ?V + x < page_hi k ph
        then Some 0 else vbyte m1 (bias + of_nat (?V + x)))"
    have F: "?V + x < rup k (?V + ?F)" if "x < ?F" using that ord by simp
    have H: "?V + x < page_hi k ph" using x ord by simp
    show ?thesis
      using b map_file_part_bytes [OF lin k ins m1 u] idx F H zero inf x ord(1) seg_order(5) [OF ok]
      unfolding A seg_content_def file_byte_def by auto
  qed
qed

lemma map_loads_file:
  assumes lin: "linear k bias lo hi" and k: "k \<le> 60"
    and run: "map_loads env False (2 ^ k) bias phs m rs = Some (True, m', rs')"
    and ins: "\<And>ph. ph \<in> set (loads phs) \<Longrightarrow> seg_inside k lo hi ph"
    and lay: "file_layout_ok k (se_file env) phs"
    and zero: "\<And>u ph. lo \<le> u \<Longrightarrow> u < hi \<Longrightarrow> ph \<in> set (loads phs) \<Longrightarrow> page_lo k ph \<le> u \<Longrightarrow>
      u < page_hi k ph \<Longrightarrow> vbyte m (bias + of_nat u) = Some 0"
  shows "(\<forall>ph \<in> set (loads phs). \<forall>x < unat (p_memsz ph).
      vbyte m' (bias + p_vaddr ph + of_nat x) = Some (seg_content (se_file env) ph x))
    \<and> (\<forall>u. lo \<le> u \<and> u < hi \<and> (\<forall>ph \<in> set (loads phs). \<not> (page_lo k ph \<le> u \<and> u < page_hi k ph)) \<longrightarrow>
      vbyte m' (bias + of_nat u) = vbyte m (bias + of_nat u))"
  using run ins lay zero
proof (induction phs arbitrary: m rs)
  case (Cons ph phs)
  show ?case
  proof (cases "p_type ph = PT_LOAD")
    case False
    with Cons show ?thesis by (simp add: file_layout_ok_def)
  next
    case load: True
    from Cons.prems(1) load obtain m1 where seg: "map_file_seg env (2 ^ k) bias ph m = Some (True, m1)"
      and rest: "map_loads env False (2 ^ k) bias phs m1 rs = Some (True, m', rs')"
      by (auto split: bind_splits if_splits)
    have insp: "seg_inside k lo hi ph" using Cons.prems(2) load by simp
    have apart: "pages_apart k ph q" if "q \<in> set (loads phs)" for q
      using Cons.prems(3) load that by (auto simp: file_layout_ok_def)
    have lay: "file_layout_ok k (se_file env) phs"
      and cong: "unat (p_offset ph) mod 2 ^ k = unat (p_vaddr ph) mod 2 ^ k"
      and inf: "unat (p_offset ph) + unat (p_filesz ph) \<le> length (se_file env)"
      using Cons.prems(3) load by (auto simp: file_layout_ok_def)
    note frame = map_file_seg_frame [OF lin k insp seg]
    have zero1: "vbyte m1 (bias + of_nat u) = Some 0"
      if "lo \<le> u" "u < hi" "q \<in> set (loads phs)" "page_lo k q \<le> u" "u < page_hi k q" for u q
      using frame [of u] apart [OF that(3)] that Cons.prems(4) [OF that(1,2) _ that(4,5)] load
      by (auto simp: pages_apart_def)
    have insr: "\<And>q. q \<in> set (loads phs) \<Longrightarrow> seg_inside k lo hi q" using Cons.prems(2) load by simp
    have IH: "(\<forall>q \<in> set (loads phs). \<forall>x < unat (p_memsz q).
        vbyte m' (bias + p_vaddr q + of_nat x) = Some (seg_content (se_file env) q x)) \<and>
      (\<forall>u. lo \<le> u \<and> u < hi \<and> (\<forall>q \<in> set (loads phs). \<not> (page_lo k q \<le> u \<and> u < page_hi k q)) \<longrightarrow>
        vbyte m' (bias + of_nat u) = vbyte m1 (bias + of_nat u))"
      by (rule Cons.IH [OF rest insr lay]) (assumption, rule zero1)
    have "vbyte m' (bias + p_vaddr ph + of_nat x) = Some (seg_content (se_file env) ph x)"
      if x: "x < unat (p_memsz ph)" for x
    proof -
      let ?u = "unat (p_vaddr ph) + x"
      have A: "bias + p_vaddr ph + of_nat x = bias + of_nat ?u" by (simp add: add.assoc)
      have u: "page_lo k ph \<le> ?u" "?u < page_hi k ph" "lo \<le> ?u" "?u < hi"
        using insp x seg_order(1-4) [of ph k] by (auto simp: seg_inside_def)
      have "\<not> (page_lo k q \<le> ?u \<and> ?u < page_hi k q)" if "q \<in> set (loads phs)" for q
        using apart [OF that] u by (auto simp: pages_apart_def)
      then have "vbyte m' (bias + of_nat ?u) = vbyte m1 (bias + of_nat ?u)" using IH u by blast
      moreover have "vbyte m (bias + of_nat ?u) = Some 0"
        using Cons.prems(4) [OF u(3,4), of ph] load u by simp
      ultimately show ?thesis
        using map_file_seg_content [OF lin k insp seg cong inf x] unfolding A by simp
    qed
    with IH frame load show ?thesis by auto
  qed
qed auto


subsection \<open>The whole mapping\<close>

lemma extent_fold_lo:
  assumes "fold extent_step phs (al, lo, hi) = (al', lo', hi')"
  shows "lo' = lo \<or> (\<exists>ph \<in> set (loads phs). lo' = p_vaddr ph)"
  using assms
proof (induction phs arbitrary: al lo hi)
  case (Cons q phs)
  obtain al1 lo1 hi1 where e: "extent_step q (al, lo, hi) = (al1, lo1, hi1)" by (metis prod_cases3)
  then have "lo1 = lo \<or> (p_type q = PT_LOAD \<and> lo1 = p_vaddr q)"
    by (auto simp: extent_step_def split: if_splits)
  with Cons.IH [of al1 lo1 hi1] Cons.prems e show ?case by auto
qed simp

lemma MapSegments_success:
  assumes "MapSegments env eh phs anonymous st = Some (True, st')"
    and "pg = PageSize (se_pagesize env)"
  obtains al lo hi raw m2 aligned rs' where
    "fold extent_step phs (pg, - 1, 0) = (al, lo, hi)" "lo \<noteq> - 1"
    "se_reserve env (PageEnd hi pg - PageStart lo pg + al) = Some raw"
    "reserve_aligned (ls_vm st) raw (PageEnd hi pg - PageStart lo pg) al = (m2, aligned)"
    "map_loads env anonymous pg (aligned - PageStart lo pg) phs m2 (ls_replies st) = Some (True, ls_vm st', rs')"
    "load_bias (ls_img st') = aligned - PageStart lo pg" "map_start (ls_img st') = aligned"
    "map_size (ls_img st') = PageEnd hi pg - PageStart lo pg"
  using assms
  by (auto simp: MapSegments_def Let_def split: prod.splits if_splits option.splits bind_splits)

lemma extent_geometry:
  assumes "phdrs_ok phs" "k \<le> 60" "fold extent_step phs (2 ^ k, - 1, 0) = (al, lo, hi)" "lo \<noteq> - 1"
  defines "L \<equiv> rdn k (unat lo)" and "H \<equiv> rup k (unat hi)"
  shows "L \<le> H" "H \<le> 2 ^ 62 + 2 ^ 60" "PageStart lo (2 ^ k) = of_nat L" "PageEnd hi (2 ^ k) = of_nat H"
    and "unat (PageEnd hi (2 ^ k) - PageStart lo (2 ^ k)) = H - L"
    and "\<And>ph. ph \<in> set (loads phs) \<Longrightarrow> seg_inside k L H ph"
proof -
  have ok: "seg_ok ph" if "ph \<in> set (loads phs)" for ph using assms(1) that by (auto simp: phdrs_ok_def)
  have sum: "unat (p_vaddr ph + p_memsz ph) = unat (p_vaddr ph) + unat (p_memsz ph)"
    if "ph \<in> set (loads phs)" for ph
    using ok [OF that] by (intro unat_add_small) (simp add: seg_ok_def)
  have cov: "unat lo \<le> unat (p_vaddr ph)" "unat (p_vaddr ph) + unat (p_memsz ph) \<le> unat hi"
    if "ph \<in> set (loads phs)" for ph
    using extent_fold_covers [OF assms(3) that] sum [OF that] by (auto simp: word_le_nat_alt)
  obtain ph0 where "ph0 \<in> set (loads phs)" using extent_fold_lo [OF assms(3)] assms(4) by auto
  then have "unat lo \<le> unat hi" using cov by fastforce
  then show LH: "L \<le> H" unfolding L_def H_def using rdn_le rup_ge order_trans by metis
  have k60: "(2 :: nat) ^ k \<le> 2 ^ 60" using assms(2) by (intro power_increasing) auto
  have hi: "unat hi \<le> 2 ^ 62"
    using extent_fold_hi [OF assms(3)] sum ok by (auto simp: seg_ok_def)
  then show H: "H \<le> 2 ^ 62 + 2 ^ 60" using rup_less [of k "unat hi"] k60 unfolding H_def by linarith
  show ps: "PageStart lo (2 ^ k) = of_nat L" using assms(2) by (simp add: PageStart_word L_def)
  show pe: "PageEnd hi (2 ^ k) = of_nat H" unfolding H_def using assms(2) hi k60 by (intro PageEnd_word) auto
  have "unat (of_nat H :: addr) = H" "unat (of_nat L :: addr) = L" using H LH by (simp_all add: unat_of_nat)
  then show "unat (PageEnd hi (2 ^ k) - PageStart lo (2 ^ k)) = H - L"
    unfolding ps pe using LH by (subst unat_sub) (simp_all add: word_le_nat_alt)
  show "seg_inside k L H ph" if "ph \<in> set (loads phs)" for ph
    using ok [OF that] cov [OF that] rdn_mono rup_mono
    by (simp add: seg_inside_def L_def H_def page_lo_def page_hi_def)
qed

lemma image_linear:
  assumes "k \<le> j" "unat aligned mod 2 ^ j = 0" "L \<le> H" "L mod 2 ^ k = 0" "unat aligned + (H - L) < 2 ^ 64"
  shows "linear k (aligned - of_nat L) L H"
proof -
  have "(2 :: nat) ^ k dvd 2 ^ j" using assms(1) by (rule le_imp_power_dvd)
  with assms(2) have al: "unat aligned mod 2 ^ k = 0" by (metis dvd_trans mod_eq_0_iff_dvd)
  have "unat (aligned - of_nat L + of_nat u) = unat aligned + (u - L)" if "L \<le> u" "u \<le> H" for u
  proof -
    have eq: "aligned - of_nat L + of_nat u = aligned + of_nat (u - L)" using that by (simp add: of_nat_diff)
    show ?thesis unfolding eq using that assms(5) by (intro unat_plus_nat) simp
  qed
  then show ?thesis using assms(3,4) al by (simp add: linear_def)
qed


lemma MapSegments_geometry:
  assumes pg: "PageSize (se_pagesize env) = 2 ^ k" "k \<le> 60"
    and al: "fst (fold extent_step phs (2 ^ k, - 1, 0)) = 2 ^ j" "k \<le> j" "j < 61"
    and ok: "phdrs_ok phs" "reserve_ok env"
    and run: "MapSegments env eh phs anonymous st = Some (True, st')"
  obtains L H m2 rs' where "linear k (load_bias (ls_img st')) L H"
    "\<And>ph. ph \<in> set (loads phs) \<Longrightarrow> seg_inside k L H ph"
    "\<And>u. L \<le> u \<Longrightarrow> u < H \<Longrightarrow> vbyte m2 (load_bias (ls_img st') + of_nat u) = Some 0"
    "\<And>u. L \<le> u \<Longrightarrow> u < H \<Longrightarrow>
       in_range (map_start (ls_img st')) (map_size (ls_img st')) (load_bias (ls_img st') + of_nat u)"
    "map_loads env anonymous (2 ^ k) (load_bias (ls_img st')) phs m2 (ls_replies st) =
       Some (True, ls_vm st', rs')"
proof -
  obtain lo hi raw m2 aligned rs' where
    ext: "fold extent_step phs (2 ^ k, - 1, 0) = (2 ^ j, lo, hi)" "lo \<noteq> - 1"
    and res: "se_reserve env (PageEnd hi (2 ^ k) - PageStart lo (2 ^ k) + 2 ^ j) = Some raw"
    and fit: "reserve_aligned (ls_vm st) raw (PageEnd hi (2 ^ k) - PageStart lo (2 ^ k)) (2 ^ j) = (m2, aligned)"
    and lds: "map_loads env anonymous (2 ^ k) (aligned - PageStart lo (2 ^ k)) phs m2 (ls_replies st) =
      Some (True, ls_vm st', rs')"
    and img: "load_bias (ls_img st') = aligned - PageStart lo (2 ^ k)" "map_start (ls_img st') = aligned"
      "map_size (ls_img st') = PageEnd hi (2 ^ k) - PageStart lo (2 ^ k)"
    using MapSegments_success [OF run pg(1) [symmetric]] al(1) by (metis fst_conv)
  define L H where LH: "L = rdn k (unat lo)" "H = rup k (unat hi)"
  note geo = extent_geometry [OF ok(1) pg(2) ext, folded LH]
  let ?span = "PageEnd hi (2 ^ k) - PageStart lo (2 ^ k)" and ?bias = "aligned - of_nat L"
  have p61: "(2 :: nat) ^ j \<le> 2 ^ 60" using al(3) by (intro power_increasing) auto
  have "unat (?span + 2 ^ j) = (H - L) + 2 ^ j"
    using geo(2,5) p61 al(3) by (subst unat_add_small) (simp_all add: unat_pow2)
  then have nowrap: "unat raw + unat ?span + 2 ^ j < 2 ^ 64"
    using ok(2) res geo(5) unfolding reserve_ok_def by fastforce
  have a: "aligned = AlignUp raw (2 ^ j)"
    using reserve_aligned_snd [of "ls_vm st" raw ?span j] fit by simp
  have ab: "unat aligned < unat raw + 2 ^ j" "unat aligned mod 2 ^ j = 0"
    using AlignUp_bounds [of j raw] al(3) nowrap unfolding a by auto
  have lin: "linear k ?bias L H"
    using al(2) ab geo(1,5) nowrap by (intro image_linear [where j = j]) (auto simp: LH rdn_mod)
  have inr: "in_range aligned ?span (?bias + of_nat u)" if "L \<le> u" "u < H" for u
    using linear_range [OF lin, of L H u] that geo(1,3,4) by simp
  have zero: "vbyte m2 (?bias + of_nat u) = Some 0" if "L \<le> u" "u < H" for u
    using reserve_aligned_vm(1) [of j raw ?span "ls_vm st" "?bias + of_nat u"] al(3) nowrap inr [OF that] fit
    by (simp add: a)
  show ?thesis
    using lin geo(3,6) zero inr lds img by (intro that [of L H m2 rs']) auto
qed

section \<open>Properties\<close>

text \<open>
  C1: \<open>MapSegments\<close> builds the image the ELF file describes, with either strategy: when it
  succeeds on well-formed program headers (loadable segments disjoint and within the lower
  address range, power-of-two alignments; for the file-backed strategy also page-congruent
  offsets and no shared pages), every byte of every loadable segment, at its biased address,
  is the corresponding file byte up to the file size and zero from there to the memory size,
  and lies inside the recorded mapping.
\<close>

theorem map_segments_contents:
  assumes pg: "PageSize (se_pagesize env) = 2 ^ k" "k \<le> 60"
    and al: "fst (fold extent_step phs (2 ^ k, - 1, 0)) = 2 ^ j" "k \<le> j" "j < 61"
    and ok: "phdrs_ok phs" "reserve_ok env" "anonymous \<or> file_layout_ok k (se_file env) phs"
    and run: "MapSegments env eh phs anonymous st = Some (True, st')"
    and ph: "ph \<in> set (loads phs)" "x < unat (p_memsz ph)"
  shows "vbyte (ls_vm st') (load_bias (ls_img st') + p_vaddr ph + of_nat x) =
      Some (seg_content (se_file env) ph x)
    \<and> in_range (map_start (ls_img st')) (map_size (ls_img st'))
      (load_bias (ls_img st') + p_vaddr ph + of_nat x)"
proof (rule MapSegments_geometry [OF pg al ok(1,2) run])
  fix L H m2 rs'
  let ?bias = "load_bias (ls_img st')" and ?u = "unat (p_vaddr ph) + x"
  assume lin: "linear k ?bias L H" and ins: "\<And>ph. ph \<in> set (loads phs) \<Longrightarrow> seg_inside k L H ph"
    and zero: "\<And>u. L \<le> u \<Longrightarrow> u < H \<Longrightarrow> vbyte m2 (?bias + of_nat u) = Some 0"
    and inr: "\<And>u. L \<le> u \<Longrightarrow> u < H \<Longrightarrow> in_range (map_start (ls_img st')) (map_size (ls_img st')) (?bias + of_nat u)"
    and lds: "map_loads env anonymous (2 ^ k) ?bias phs m2 (ls_replies st) = Some (True, ls_vm st', rs')"
  have A: "?bias + p_vaddr ph + of_nat x = ?bias + of_nat ?u" by (simp add: add.assoc)
  have u: "L \<le> ?u" "?u < H"
    using ins [OF ph(1)] ph(2) seg_order(1-4) [of ph k] by (auto simp: seg_inside_def)
  have "vbyte (ls_vm st') (?bias + p_vaddr ph + of_nat x) = Some (seg_content (se_file env) ph x)"
  proof (cases anonymous)
    case True
    from map_loads_anon [OF lds [unfolded True [THEN eqTrueI]]] ph(1)
    have fold: "vbyte (ls_vm st') = fold (\<lambda>ph f. put_bytes f (?bias + p_vaddr ph) (seg_bytes (se_file env) ph))
        (loads phs) (vbyte m2)" and len: "length (seg_bytes (se_file env) ph) = unat (p_filesz ph)" by auto
    show ?thesis
      unfolding fold using ok(1) ph len zero [OF u]
      by (intro fold_put_content) (simp_all only: phdrs_ok_def A)
  next
    case False
    with map_loads_file [OF lin pg(2) _ ins, of env phs m2] lds ok(3) ph zero show ?thesis by auto
  qed
  with inr [OF u] show ?thesis by (simp add: A)
qed


subsection \<open>The sample module maps\<close>

lemma sample_extent: "fold extent_step [sample_phdr] (4096, - 1, 0) = (4096, 0, 8)"
  by (simp add: extent_step_def sample_phdr_def word_gt_0)

lemma sample_maps:
  "\<exists>st'. MapSegments sample_env sample_ehdr [sample_phdr] True sample_lstate = Some (True, st')
     \<and> load_bias (ls_img st') = 0x10000"
proof -
  define m0 where "m0 = fst (reserve_aligned (ls_vm sample_lstate) 0x10000 4096 4096)"
  let ?m = "protect m0 0x10000 4096 rw_prot"
  have "writable_bytes ?m 0x10000 4"
    by (simp add: m0_def protect_def reserve_aligned_def Let_def map_anon_def unmap_def in_range_def
        writable8_def rw_prot_def PROT_READ_def PROT_WRITE_def writable_bytes_numeral sample_lstate_def)
  then obtain m' where rd: "PreadFull (se_file sample_env) [] ?m 0x10000 4 0 = (True, m', [])"
    using PreadFull_plain [of ?m "0x10000" 4 0 "se_file sample_env"] by (auto simp: sample_env_def)
  have pages: "PageStart 0 4096 = 0" "PageEnd 8 4096 = 4096" "PageSize (se_pagesize sample_env) = 4096"
    by (simp_all add: PageStart_def PageEnd_def PageSize_def sample_env_def)
  have res: "reserve_aligned (ls_vm sample_lstate) 0x10000 4096 4096 = (m0, 0x10000)"
    by (simp add: m0_def reserve_aligned_def Let_def)
  have seg: "map_anonymous_seg sample_env 4096 0x10000 sample_phdr m0 [] = (True, m', [])"
    using rd pages by (simp add: map_anonymous_seg_def sample_phdr_def sample_env_def)
  have se: "se_reserve sample_env 8192 = Some 0x10000" "ls_replies sample_lstate = []"
    "p_type sample_phdr = PT_LOAD" by (simp_all add: sample_env_def sample_lstate_def sample_phdr_def)
  show ?thesis
    unfolding MapSegments_def pages(3) sample_extent Let_def
    by (simp add: pages se res seg locate_bti_def PT_GNU_PROPERTY_def)
qed

theorem map_segments_contents_witness:
  "\<exists>st'. MapSegments sample_env sample_ehdr [sample_phdr] True sample_lstate = Some (True, st')
     \<and> vbyte (ls_vm st') 0x10003 = Some 4 \<and> vbyte (ls_vm st') 0x10004 = Some 0"
proof -
  obtain st' where st': "MapSegments sample_env sample_ehdr [sample_phdr] True sample_lstate = Some (True, st')"
    "load_bias (ls_img st') = 0x10000" using sample_maps by blast
  have pre: "PageSize (se_pagesize sample_env) = 2 ^ 12" "fst (fold extent_step [sample_phdr] (2 ^ 12, - 1, 0)) = 2 ^ 12"
    "phdrs_ok [sample_phdr]" "sample_phdr \<in> set (loads [sample_phdr])"
    using sample_extent by (simp_all add: PageSize_def sample_env_def phdrs_ok_def seg_ok_def sample_phdr_def)
  have res: "reserve_ok sample_env"
    by (auto simp: reserve_ok_def sample_env_def word_le_nat_alt split: if_splits)
  have "vbyte (ls_vm st') (0x10000 + p_vaddr sample_phdr + of_nat x) = Some (seg_content (se_file sample_env) sample_phdr x)"
    if "x < unat (p_memsz sample_phdr)" for x
    using map_segments_contents [OF pre(1) _ pre(2) _ _ pre(3) res _ st'(1) pre(4) that] st'(2) by simp
  from this [of 3] this [of 4] st'(1) show ?thesis
    by (auto simp: sample_phdr_def seg_content_def sample_env_def)
qed

end
