(* ===== verification/Elf_Hash.thy ===== *)
theory Elf_Hash
  imports Elf_Base
begin

text \<open>
  Symbol lookup of the custom linker (\<open>linker/linker.cpp\<close>): the two ELF hash functions, the
  GNU and System V hash table walks of \<open>LookupInImage\<close>, \<open>Image::Symbol\<close> and the reverse
  lookup \<open>Image::AddrToSym\<close>, over process memory.  A lookup is \<open>None\<close> when it faults, divides
  by zero, shifts out of range or never ends; \<open>Some None\<close> is the null result.
\<close>

section \<open>Definitions\<close>

subsection \<open>The hash functions\<close>

definition GnuHash :: "cstr \<Rightarrow> u32" where
  "GnuHash name = foldl (\<lambda>h c. h + (push_bit 5 h + ucast c)) 5381 name"

definition SysvHash :: "cstr \<Rightarrow> u32" where
  "SysvHash name = foldl (\<lambda>h c. let h = push_bit 4 h + ucast c; g = h AND 0xf0000000; h = h XOR g
                                in h XOR drop_bit 24 g) 0 name"

subsection \<open>Symbol table access\<close>

definition sym_at :: "addr \<Rightarrow> u32 \<Rightarrow> addr" where
  "sym_at tab n = tab + 24 * ucast n"

definition sym_name :: "vm \<Rightarrow> addr \<Rightarrow> u32 \<Rightarrow> u32 option" where
  "sym_name m tab n = load_u32 m (sym_at tab n)"

definition sym_info :: "vm \<Rightarrow> addr \<Rightarrow> u32 \<Rightarrow> byte option" where
  "sym_info m tab n = load8 m (sym_at tab n + 4)"

definition sym_shndx :: "vm \<Rightarrow> addr \<Rightarrow> u32 \<Rightarrow> u16 option" where
  "sym_shndx m tab n = load_u16 m (sym_at tab n + 6)"

definition sym_value :: "vm \<Rightarrow> addr \<Rightarrow> u32 \<Rightarrow> addr option" where
  "sym_value m tab n = load_u64 m (sym_at tab n + 8)"

text \<open>\<open>strcmp(p, name) == 0\<close> for a NUL-free \<open>name\<close>.\<close>

primrec strcmp_eq :: "vm \<Rightarrow> addr \<Rightarrow> cstr \<Rightarrow> bool option" where
  "strcmp_eq m p [] = do { b \<leftarrow> load8 m p; Some (b = 0) }"
| "strcmp_eq m p (c # cs) =
     do { b \<leftarrow> load8 m p; (if b = c then strcmp_eq m (p + 1) cs else Some False) }"

text \<open>The test shared by both walks: the symbol is defined here and has the name.\<close>

definition sym_matches :: "vm \<Rightarrow> addr \<Rightarrow> addr \<Rightarrow> u32 \<Rightarrow> cstr \<Rightarrow> bool option" where
  "sym_matches m symtab_ptr strtab_ptr n name = do {
     shndx \<leftarrow> sym_shndx m symtab_ptr n;
     (if shndx = SHN_UNDEF then Some False
      else do { st \<leftarrow> sym_name m symtab_ptr n; strcmp_eq m (strtab_ptr + ucast st) name }) }"

definition elem32 :: "vm \<Rightarrow> addr \<Rightarrow> addr \<Rightarrow> u32 option" where
  "elem32 m p i = load_u32 m (p + 4 * i)"

subsection \<open>Lookup\<close>

definition bloom_mask :: "u32 \<Rightarrow> u32 \<Rightarrow> addr" where
  "bloom_mask hash shift2 =
     push_bit (unat (hash mod 64)) 1 OR push_bit (unat (drop_bit (unat shift2) hash mod 64)) 1"

partial_function (option) gnu_walk :: "vm \<Rightarrow> image \<Rightarrow> cstr \<Rightarrow> u32 \<Rightarrow> u32 \<Rightarrow> u32 option option" where
  "gnu_walk m img name hash n = do {
     c \<leftarrow> elem32 m (gnu_chain img) (ucast n);
     hit \<leftarrow> (if c OR 1 = hash OR 1 then sym_matches m (symtab img) (strtab img) n name
             else Some False);
     (if hit then Some (Some n)
      else if c AND 1 = 0 then gnu_walk m img name hash (n + 1)
      else Some None) }"

partial_function (option) sysv_walk :: "vm \<Rightarrow> image \<Rightarrow> cstr \<Rightarrow> u32 \<Rightarrow> u32 option option" where
  "sysv_walk m img name n =
     (if n = 0 then Some None
      else do {
        hit \<leftarrow> sym_matches m (symtab img) (strtab img) n name;
        (if hit then Some (Some n)
         else do { n' \<leftarrow> elem32 m (sysv_chain img) (ucast n); sysv_walk m img name n' }) })"

definition lookup_gnu :: "vm \<Rightarrow> image \<Rightarrow> cstr \<Rightarrow> u32 option option" where
  "lookup_gnu m img name =
     (let hash = GnuHash name in
      if gnu_maskwords img = 0 \<or> 32 \<le> unat (gnu_shift2 img) then None
      else do {
        word \<leftarrow> load_u64 m (gnu_bloom img + 8 * ucast (hash div 64 mod gnu_maskwords img));
        let mask = bloom_mask hash (gnu_shift2 img);
        (if word AND mask \<noteq> mask then Some None
         else if gnu_nbucket img = 0 then None
         else do {
           n \<leftarrow> elem32 m (gnu_bucket img) (ucast hash mod gnu_nbucket img);
           (if n < gnu_symndx img then Some None else gnu_walk m img name hash n) }) })"

definition lookup_sysv :: "vm \<Rightarrow> image \<Rightarrow> cstr \<Rightarrow> u32 option option" where
  "lookup_sysv m img name =
     (if sysv_bucket img = 0 then Some None
      else if sysv_nbucket img = 0 then None
      else do {
        n \<leftarrow> elem32 m (sysv_bucket img) (ucast (SysvHash name) mod sysv_nbucket img);
        sysv_walk m img name n })"

definition LookupInImage :: "vm \<Rightarrow> image \<Rightarrow> cstr \<Rightarrow> u32 option option" where
  "LookupInImage m img name =
     (if has_gnu_hash img then lookup_gnu m img name else lookup_sysv m img name)"

text \<open>
  \<open>Image::Symbol\<close>; the argument \<open>resolver\<close> stands for calling a GNU ifunc resolver
  (\<open>CallIfuncResolver\<close>), whose code belongs to the loaded module.  Address 0 is null.
\<close>

definition CallIfuncResolver :: "(addr \<Rightarrow> addr) \<Rightarrow> addr \<Rightarrow> addr" where
  "CallIfuncResolver resolver resolver_addr = resolver resolver_addr"

definition Image_Symbol :: "(addr \<Rightarrow> addr) \<Rightarrow> vm \<Rightarrow> image \<Rightarrow> cstr \<Rightarrow> addr option" where
  "Image_Symbol resolver m img name = do {
     s \<leftarrow> LookupInImage m img name;
     (case s of
        None \<Rightarrow> Some 0
      | Some n \<Rightarrow> do {
          v \<leftarrow> sym_value m (symtab img) n;
          info \<leftarrow> sym_info m (symtab img) n;
          let a = load_bias img + v;
          Some (if ELF_ST_TYPE info = STT_GNU_IFUNC then CallIfuncResolver resolver a else a) }) }"

subsection \<open>Reverse lookup\<close>

text \<open>
  The loop of \<open>AddrToSym\<close> over symbol indices; the accumulator is the best name (its offset in
  the string table) and value so far.
\<close>

definition addr_step ::
  "vm \<Rightarrow> image \<Rightarrow> addr \<Rightarrow> u32 \<Rightarrow> (u32 \<times> addr) option \<Rightarrow> (u32 \<times> addr) option option" where
  "addr_step m img target i best = do {
     shndx \<leftarrow> sym_shndx m (symtab img) i;
     (if shndx = SHN_UNDEF then Some best
      else do {
        nm \<leftarrow> sym_name m (symtab img) i;
        (if nm = 0 then Some best
         else do {
           info \<leftarrow> sym_info m (symtab img) i;
           let t = ELF_ST_TYPE info;
           (if t \<noteq> STT_FUNC \<and> t \<noteq> STT_OBJECT \<and> t \<noteq> STT_GNU_IFUNC then Some best
            else do {
              v \<leftarrow> sym_value m (symtab img) i;
              (if v > target then Some best
               else if (case best of Some (_, bv) \<Rightarrow> v < bv | None \<Rightarrow> False) then Some best
               else Some (Some (nm, v))) }) }) }) }"

fun addr_loop ::
  "vm \<Rightarrow> image \<Rightarrow> addr \<Rightarrow> nat list \<Rightarrow> (u32 \<times> addr) option \<Rightarrow> (u32 \<times> addr) option option" where
  "addr_loop m img target [] best = Some best"
| "addr_loop m img target (i # is) best =
     do { best' \<leftarrow> addr_step m img target (of_nat i) best; addr_loop m img target is best' }"

text \<open>The result is the name pointer and \<open>*out_saddr\<close>.\<close>

definition AddrToSym :: "vm \<Rightarrow> image \<Rightarrow> addr \<Rightarrow> (addr \<times> addr) option option" where
  "AddrToSym m img a =
     (if a < map_start img \<or> a \<ge> map_start img + map_size img \<or> dynsym_count img = 0 then Some None
      else do {
        best \<leftarrow> addr_loop m img (a - load_bias img) [0..<unat (dynsym_count img)] None;
        Some (map_option (\<lambda>(nm, v). (strtab img + ucast nm, load_bias img + v)) best) })"


text \<open>A symbol the reverse lookup may report: defined, named, code or data, at or before the target.\<close>

definition addr_cand :: "vm \<Rightarrow> image \<Rightarrow> addr \<Rightarrow> u32 \<Rightarrow> u32 \<Rightarrow> addr \<Rightarrow> bool" where
  "addr_cand m img target i nm v \<longleftrightarrow>
     (\<exists>sh info. sym_shndx m (symtab img) i = Some sh \<and> sh \<noteq> SHN_UNDEF \<and>
        sym_name m (symtab img) i = Some nm \<and> nm \<noteq> 0 \<and> sym_info m (symtab img) i = Some info \<and>
        ELF_ST_TYPE info \<in> {STT_FUNC, STT_OBJECT, STT_GNU_IFUNC} \<and>
        sym_value m (symtab img) i = Some v \<and> v \<le> target)"

subsection \<open>What well-formed tables look like\<close>

text \<open>
  A symbol list gives for each index the name and whether the symbol is defined here.  The
  predicates say that memory holds these symbols, and that the hash tables index them the way
  a static linker builds them.
\<close>

type_synonym symbols = "(cstr \<times> bool) list"

definition str_at :: "vm \<Rightarrow> addr \<Rightarrow> cstr \<Rightarrow> bool" where
  "str_at m p s \<longleftrightarrow> load_bytes m p (Suc (length s)) = Some (s @ [0]) \<and> 0 \<notin> set s"

definition sym_rel :: "vm \<Rightarrow> image \<Rightarrow> u32 \<Rightarrow> cstr \<times> bool \<Rightarrow> bool" where
  "sym_rel m img n sd \<longleftrightarrow>
     (\<exists>sh. sym_shndx m (symtab img) n = Some sh \<and> (sh \<noteq> SHN_UNDEF \<longleftrightarrow> snd sd)) \<and>
     (\<exists>st. sym_name m (symtab img) n = Some st \<and> str_at m (strtab img + ucast st) (fst sd))"

definition symbols_at :: "vm \<Rightarrow> image \<Rightarrow> symbols \<Rightarrow> bool" where
  "symbols_at m img syms \<longleftrightarrow> length syms < 2 ^ 32 \<and>
     (\<forall>i<length syms. sym_rel m img (of_nat i) (syms ! i))"

definition exports :: "symbols \<Rightarrow> cstr \<Rightarrow> nat \<Rightarrow> bool" where
  "exports syms name i \<longleftrightarrow> i < length syms \<and> snd (syms ! i) \<and> fst (syms ! i) = name"

definition gnu_bucket_of :: "image \<Rightarrow> cstr \<Rightarrow> addr" where
  "gnu_bucket_of img name = ucast (GnuHash name) mod gnu_nbucket img"

text \<open>The run of symbols \<open>s..t\<close> a bucket points at.\<close>

definition gnu_run :: "vm \<Rightarrow> image \<Rightarrow> symbols \<Rightarrow> nat \<Rightarrow> nat \<Rightarrow> bool" where
  "gnu_run m img syms s t \<longleftrightarrow> s \<le> t \<and> t < length syms \<and>
     (\<forall>i. s \<le> i \<and> i \<le> t \<longrightarrow> (\<exists>c. elem32 m (gnu_chain img) (of_nat i) = Some c \<and>
        c OR 1 = GnuHash (fst (syms ! i)) OR 1 \<and> (c AND 1 = 0 \<longleftrightarrow> i \<noteq> t)))"

definition gnu_table_ok :: "vm \<Rightarrow> image \<Rightarrow> symbols \<Rightarrow> bool" where
  "gnu_table_ok m img syms \<longleftrightarrow>
     symbols_at m img syms \<and> gnu_maskwords img \<noteq> 0 \<and> unat (gnu_shift2 img) < 32 \<and> gnu_nbucket img \<noteq> 0 \<and>
     (\<forall>k < gnu_maskwords img. \<exists>w. load_u64 m (gnu_bloom img + 8 * ucast k) = Some w \<and>
        (\<forall>name i. exports syms name i \<and> GnuHash name div 64 mod gnu_maskwords img = k \<longrightarrow>
           w AND bloom_mask (GnuHash name) (gnu_shift2 img) = bloom_mask (GnuHash name) (gnu_shift2 img))) \<and>
     (\<forall>b < gnu_nbucket img. \<exists>n. elem32 m (gnu_bucket img) b = Some n \<and>
        (if n < gnu_symndx img then \<forall>name i. exports syms name i \<longrightarrow> gnu_bucket_of img name \<noteq> b
         else \<exists>t. gnu_run m img syms (unat n) t \<and>
           (\<forall>name i. exports syms name i \<and> gnu_bucket_of img name = b \<longrightarrow> unat n \<le> i \<and> i \<le> t)))"

text \<open>The chain of indices a System V bucket points at.\<close>

fun sysv_path :: "vm \<Rightarrow> image \<Rightarrow> symbols \<Rightarrow> u32 \<Rightarrow> nat list \<Rightarrow> bool" where
  "sysv_path m img syms n [] \<longleftrightarrow> n = 0"
| "sysv_path m img syms n (i # is) \<longleftrightarrow> n = of_nat i \<and> 0 < i \<and> i < length syms \<and>
     (\<exists>n'. elem32 m (sysv_chain img) (of_nat i) = Some n' \<and> sysv_path m img syms n' is)"

definition sysv_table_ok :: "vm \<Rightarrow> image \<Rightarrow> symbols \<Rightarrow> bool" where
  "sysv_table_ok m img syms \<longleftrightarrow>
     symbols_at m img syms \<and> sysv_bucket img \<noteq> 0 \<and> sysv_nbucket img \<noteq> 0 \<and>
     (\<forall>b < sysv_nbucket img. \<exists>n is. elem32 m (sysv_bucket img) b = Some n \<and> sysv_path m img syms n is \<and>
        (\<forall>name i. exports syms name i \<and> ucast (SysvHash name) mod sysv_nbucket img = b \<longrightarrow> i \<in> set is))"

subsection \<open>A sample module\<close>

text \<open>
  One exported function \<open>f\<close> at value 0x500: symbol table at 0x1000, strings at 0x1030, bloom word
  at 0x1038, GNU bucket and chain at 0x1040, System V bucket and chain at 0x1048.
\<close>

definition sample_mem :: vm where
  "sample_mem = \<lparr>vbyte = (\<lambda>_. Some 0)
     (0x1018 := Some 1, 0x101c := Some 0x12, 0x101e := Some 1, 0x1021 := Some 5, 0x1028 := Some 4,
      0x1031 := Some 0x66,
      0x1038 := Some 0xff, 0x1039 := Some 0xff, 0x103a := Some 0xff, 0x103b := Some 0xff,
      0x103c := Some 0xff, 0x103d := Some 0xff, 0x103e := Some 0xff, 0x103f := Some 0xff,
      0x1040 := Some 1, 0x1044 := Some 0x0b, 0x1045 := Some 0xb6, 0x1046 := Some 2,
      0x1048 := Some 1),
     vprot = (\<lambda>_. PROT_READ)\<rparr>"

definition sample_image :: image where
  "sample_image = new_image\<lparr>map_start := 0x1000, map_size := 0x1000, load_bias := 0x1000,
     symtab := 0x1000, strtab := 0x1030, has_gnu_hash := True, gnu_maskwords := 1,
     gnu_bloom := 0x1038, gnu_nbucket := 1, gnu_symndx := 1, gnu_bucket := 0x1040,
     gnu_chain := 0x1040, sysv_bucket := 0x1048, sysv_nbucket := 1, sysv_chain := 0x104c,
     sysv_nchain := 2, dynsym_count := 2\<rparr>"

definition sample_syms :: symbols where
  "sample_syms = [([], False), ([0x66], True)]"

section \<open>The lookup interface\<close>

text \<open>
  What a symbol index promises for a table that is in order: every lookup of a C string
  returns, a hit exports the name, and an exported name is hit.
\<close>

locale symbol_index =
  fixes ok :: "'t \<Rightarrow> symbols \<Rightarrow> bool" and look :: "'t \<Rightarrow> cstr \<Rightarrow> u32 option option"
  assumes returns: "ok t syms \<Longrightarrow> 0 \<notin> set name \<Longrightarrow> \<exists>r. look t name = Some r"
    and sound: "ok t syms \<Longrightarrow> 0 \<notin> set name \<Longrightarrow> look t name = Some (Some n) \<Longrightarrow>
      exports syms name (unat n)"
    and complete: "ok t syms \<Longrightarrow> 0 \<notin> set name \<Longrightarrow> exports syms name i \<Longrightarrow> look t name \<noteq> Some None"
begin

lemma unique_hit:
  assumes "ok t syms" "0 \<notin> set name" "exports syms name i"
    and "\<And>j. exports syms name j \<Longrightarrow> j = i"
  shows "\<exists>n. look t name = Some (Some n) \<and> unat n = i"
  using returns [OF assms(1,2)] sound [OF assms(1,2)] complete [OF assms(1-3)] assms(4)
  by (metis not_None_eq)

lemma miss_iff:
  assumes "ok t syms" "0 \<notin> set name"
  shows "look t name = Some None \<longleftrightarrow> (\<forall>i. \<not> exports syms name i)"
  using returns [OF assms] sound [OF assms] complete [OF assms] by (metis not_None_eq)

end

text \<open>Two indexes over the same symbols answer alike when exported names are unique.\<close>

locale symbol_indexes =
  a: symbol_index ok1 look1 + b: symbol_index ok2 look2
  for ok1 :: "'t \<Rightarrow> symbols \<Rightarrow> bool" and look1 and ok2 :: "'u \<Rightarrow> symbols \<Rightarrow> bool" and look2
begin

lemma agree:
  assumes "ok1 t syms" "ok2 u syms" "0 \<notin> set name"
    and "\<And>i j. exports syms name i \<Longrightarrow> exports syms name j \<Longrightarrow> i = j"
  shows "look1 t name = look2 u name"
proof (cases "\<exists>i. exports syms name i")
  case True
  then obtain i where "exports syms name i" by blast
  with a.unique_hit [OF assms(1,3)] b.unique_hit [OF assms(2,3)] assms(4) show ?thesis
    by (metis unsigned_word_eqI)
next
  case False
  with a.miss_iff [OF assms(1,3)] b.miss_iff [OF assms(2,3)] show ?thesis by simp
qed

end


section \<open>Lemmas\<close>

subsection \<open>Symbols\<close>

lemma strcmp_eq_str:
  "load_bytes m p (Suc (length s)) = Some (s @ [0]) \<Longrightarrow> 0 \<notin> set s \<Longrightarrow> 0 \<notin> set name \<Longrightarrow>
   strcmp_eq m p name = Some (s = name)"
proof (induction name arbitrary: p s)
  case Nil
  then show ?case by (cases s) (auto split: bind_splits)
next
  case (Cons c cs)
  show ?case
  proof (cases s)
    case Nil
    with Cons.prems show ?thesis by (auto split: bind_splits)
  next
    case (Cons d ds)
    with Cons.prems Cons.IH [of "p + 1" ds] show ?thesis by (auto split: bind_splits)
  qed
qed

lemma sym_matches_rel:
  "sym_rel m img n sd \<Longrightarrow> 0 \<notin> set name \<Longrightarrow>
   sym_matches m (symtab img) (strtab img) n name = Some (snd sd \<and> fst sd = name)"
  by (auto simp: sym_matches_def sym_rel_def str_at_def strcmp_eq_str)

lemma index_word:
  assumes "i < 2 ^ 32"
  shows "ucast (of_nat i :: u32) = (of_nat i :: addr)" "unat (of_nat i :: u32) = i"
proof -
  show u: "unat (of_nat i :: u32) = i" using assms by (simp add: unat_of_nat)
  have "(ucast (of_nat i :: u32) :: addr) = of_nat (unat (of_nat i :: u32))" by simp
  then show "ucast (of_nat i :: u32) = (of_nat i :: addr)" unfolding u .
qed

lemma symbols_match:
  assumes "symbols_at m img syms" "i < length syms" "0 \<notin> set name"
  shows "sym_matches m (symtab img) (strtab img) (of_nat i) name = Some (exports syms name i)"
  using assms sym_matches_rel [of m img "of_nat i" "syms ! i" name]
  by (simp add: symbols_at_def exports_def)

subsection \<open>The GNU table\<close>

lemma gnu_walk_run:
  assumes "symbols_at m img syms" "gnu_run m img syms s t" "0 \<notin> set name" "s \<le> n" "n \<le> t"
  shows "gnu_walk m img name (GnuHash name) (of_nat n) =
     Some (map_option of_nat (find (exports syms name) [n..<Suc t]))"
  using assms(4,5)
proof (induction "t - n" arbitrary: n)
  case 0
  then have "n = t" by simp
  obtain c where c: "elem32 m (gnu_chain img) (of_nat t) = Some c"
    "c OR 1 = GnuHash (fst (syms ! t)) OR 1" "c AND 1 \<noteq> 0"
    using assms(2) by (auto simp: gnu_run_def)
  have t: "t < length syms" "t < 2 ^ 32" using assms(1,2) by (auto simp: gnu_run_def symbols_at_def)
  have "\<not> exports syms name t" if "c OR 1 \<noteq> GnuHash name OR 1"
    using that c(2) by (auto simp: exports_def)
  then show ?case
    using c t symbols_match [OF assms(1) t(1) assms(3)] index_word [OF t(2)] \<open>n = t\<close>
    by (subst gnu_walk.simps) auto
next
  case (Suc k)
  then have n: "n < t" "n < length syms" "n < 2 ^ 32"
    using assms(1,2) by (auto simp: gnu_run_def symbols_at_def)
  obtain c where c: "elem32 m (gnu_chain img) (of_nat n) = Some c"
    "c OR 1 = GnuHash (fst (syms ! n)) OR 1" "c AND 1 = 0"
    using assms(2) Suc.prems n by (auto simp: gnu_run_def)
  have miss: "\<not> exports syms name n" if "c OR 1 \<noteq> GnuHash name OR 1"
    using that c(2) by (auto simp: exports_def)
  have "gnu_walk m img name (GnuHash name) (of_nat (Suc n)) =
      Some (map_option of_nat (find (exports syms name) [Suc n..<Suc t]))"
    using Suc n by (intro Suc.hyps) auto
  moreover have "[n..<Suc t] = n # [Suc n..<Suc t]" using n by (simp add: upt_conv_Cons)
  ultimately show ?case
    using c miss symbols_match [OF assms(1) n(2) assms(3)] index_word [OF n(3)]
    by (subst gnu_walk.simps) (auto simp: add.commute simp del: upt_Suc)
qed

lemma find_upt_sound: "find P [n..<Suc t] = Some i \<Longrightarrow> P i \<and> n \<le> i \<and> i \<le> t"
  by (auto simp: find_Some_iff nth_append split: if_splits)

lemma find_upt_complete: "P i \<Longrightarrow> n \<le> i \<Longrightarrow> i \<le> t \<Longrightarrow> find P [n..<Suc t] \<noteq> None"
  by (auto simp: find_None_iff less_Suc_eq_le simp del: upt_Suc)

text \<open>The three ways a lookup in an ordered table can go.\<close>

lemma lookup_gnu_cases:
  assumes "gnu_table_ok m img syms" "0 \<notin> set name"
  obtains (miss) "lookup_gnu m img name = Some None" "\<And>i. \<not> exports syms name i"
  | (run) s t where "lookup_gnu m img name = Some (map_option of_nat (find (exports syms name) [s..<Suc t]))"
    "t < length syms" "\<And>i. exports syms name i \<Longrightarrow> s \<le> i \<and> i \<le> t"
proof -
  let ?h = "GnuHash name" and ?mw = "gnu_maskwords img"
  let ?mask = "bloom_mask ?h (gnu_shift2 img)"
  have ok: "symbols_at m img syms" "?mw \<noteq> 0" "unat (gnu_shift2 img) < 32" "gnu_nbucket img \<noteq> 0"
    using assms(1) by (auto simp: gnu_table_ok_def)
  have "?h div 64 mod ?mw < ?mw" using ok(2) by (rule word_mod_less_divisor [OF word_neq_0_conv [THEN iffD1]])
  then obtain w where w: "load_u64 m (gnu_bloom img + 8 * ucast (?h div 64 mod ?mw)) = Some w"
    "\<And>i. exports syms name i \<Longrightarrow> w AND ?mask = ?mask"
    using assms(1) unfolding gnu_table_ok_def by blast
  have "gnu_bucket_of img name < gnu_nbucket img"
    unfolding gnu_bucket_of_def using ok(4) by (rule word_mod_less_divisor [OF word_neq_0_conv [THEN iffD1]])
  then obtain n where n: "elem32 m (gnu_bucket img) (gnu_bucket_of img name) = Some n"
    and b: "if n < gnu_symndx img then \<forall>nm i. exports syms nm i \<longrightarrow> gnu_bucket_of img nm \<noteq> gnu_bucket_of img name
      else \<exists>t. gnu_run m img syms (unat n) t \<and> (\<forall>nm i. exports syms nm i \<and>
        gnu_bucket_of img nm = gnu_bucket_of img name \<longrightarrow> unat n \<le> i \<and> i \<le> t)"
    using assms(1) unfolding gnu_table_ok_def by blast
  have unf: "lookup_gnu m img name = (if w AND ?mask \<noteq> ?mask then Some None
      else if n < gnu_symndx img then Some None else gnu_walk m img name ?h n)"
    using ok w(1) n by (simp add: lookup_gnu_def Let_def gnu_bucket_of_def)
  show ?thesis
  proof (cases "w AND ?mask \<noteq> ?mask \<or> n < gnu_symndx img")
    case True
    with w(2) b have "\<not> exports syms name i" for i by (metis (full_types))
    with True unf show ?thesis by (intro miss) auto
  next
    case False
    with b obtain t where t: "gnu_run m img syms (unat n) t"
      "\<And>i. exports syms name i \<Longrightarrow> unat n \<le> i \<and> i \<le> t" by auto
    then have "gnu_walk m img name ?h (of_nat (unat n)) =
        Some (map_option of_nat (find (exports syms name) [unat n..<Suc t]))"
      using gnu_walk_run [OF ok(1) t(1) assms(2), of "unat n"] by (auto simp: gnu_run_def)
    with False unf t show ?thesis by (intro run [of "unat n" t]) (auto simp: gnu_run_def)
  qed
qed

lemma lookup_gnu_returns:
  "gnu_table_ok m img syms \<Longrightarrow> 0 \<notin> set name \<Longrightarrow> \<exists>r. lookup_gnu m img name = Some r"
  by (elim lookup_gnu_cases) auto

lemma lookup_gnu_sound:
  assumes ok: "gnu_table_ok m img syms" and name: "0 \<notin> set name"
    and hit: "lookup_gnu m img name = Some (Some n)"
  shows "exports syms name (unat n)"
  using ok name
proof (cases rule: lookup_gnu_cases)
  case (run s t)
  with hit obtain j where j: "n = of_nat j" "find (exports syms name) [s..<Suc t] = Some j"
    by (auto simp del: upt_Suc)
  from find_upt_sound [OF j(2)] run(2) ok have "j < 2 ^ 32" "exports syms name j"
    by (auto simp: gnu_table_ok_def symbols_at_def)
  with j(1) index_word(2) [of j] show ?thesis by simp
qed (use hit in simp)

lemma lookup_gnu_complete:
  assumes ok: "gnu_table_ok m img syms" and name: "0 \<notin> set name" and ex: "exports syms name i"
  shows "lookup_gnu m img name \<noteq> Some None"
  using ok name
proof (cases rule: lookup_gnu_cases)
  case (run s t)
  with ex find_upt_complete [of "exports syms name" i s t] show ?thesis by (auto simp del: upt_Suc)
qed (use ex in simp)

interpretation gnu: symbol_index "\<lambda>(m, img). gnu_table_ok m img" "\<lambda>(m, img). lookup_gnu m img"
  by unfold_locales (auto intro: lookup_gnu_returns lookup_gnu_sound dest: lookup_gnu_complete)

subsection \<open>The System V table\<close>

lemma sysv_walk_run:
  assumes "symbols_at m img syms" "sysv_path m img syms n is" "0 \<notin> set name"
  shows "sysv_walk m img name n = Some (map_option of_nat (find (exports syms name) is))"
  using assms(2)
proof (induction "is" arbitrary: n)
  case Nil
  then show ?case by (subst sysv_walk.simps) simp
next
  case (Cons i "is")
  then obtain n' where i: "n = of_nat i" "0 < i" "i < length syms" "i < 2 ^ 32"
    "elem32 m (sysv_chain img) (of_nat i) = Some n'" "sysv_path m img syms n' is"
    using assms(1) by (auto simp: symbols_at_def)
  have "(of_nat i :: u32) \<noteq> 0" using i(2) index_word(2) [OF i(4)] by (metis less_irrefl unsigned_0)
  then show ?case
    using i Cons.IH [OF i(6)] symbols_match [OF assms(1) i(3) assms(3)] index_word(1) [OF i(4)]
    by (subst sysv_walk.simps) auto
qed

lemma sysv_path_bound: "sysv_path m img syms n is \<Longrightarrow> i \<in> set is \<Longrightarrow> i < length syms"
  by (induction "is" arbitrary: n) auto

lemma lookup_sysv_path:
  assumes "sysv_table_ok m img syms" "0 \<notin> set name"
  obtains n "is" where "lookup_sysv m img name = Some (map_option of_nat (find (exports syms name) is))"
    "sysv_path m img syms n is" "\<And>i. exports syms name i \<Longrightarrow> i \<in> set is"
proof -
  have ok: "symbols_at m img syms" "sysv_bucket img \<noteq> 0" "sysv_nbucket img \<noteq> 0"
    using assms(1) by (auto simp: sysv_table_ok_def)
  have "ucast (SysvHash name) mod sysv_nbucket img < sysv_nbucket img"
    using ok(3) by (rule word_mod_less_divisor [OF word_neq_0_conv [THEN iffD1]])
  then obtain n "is" where n: "elem32 m (sysv_bucket img) (ucast (SysvHash name) mod sysv_nbucket img) = Some n"
    "sysv_path m img syms n is" "\<And>i. exports syms name i \<Longrightarrow> i \<in> set is"
    using assms(1) unfolding sysv_table_ok_def by metis
  with ok sysv_walk_run [OF ok(1) n(2) assms(2)] show ?thesis
    by (intro that [OF _ n(2,3)]) (simp add: lookup_sysv_def)
qed

lemma lookup_sysv_sound:
  assumes ok: "sysv_table_ok m img syms" and name: "0 \<notin> set name"
    and hit: "lookup_sysv m img name = Some (Some n)"
  shows "exports syms name (unat n)"
  using ok name
proof (rule lookup_sysv_path)
  fix k "is"
  assume p: "lookup_sysv m img name = Some (map_option of_nat (find (exports syms name) is))"
    "sysv_path m img syms k is"
  with hit obtain j where j: "n = of_nat j" "find (exports syms name) is = Some j" by auto
  then have ex: "exports syms name j" "j < length syms"
    using sysv_path_bound [OF p(2)] by (auto simp: find_Some_iff)
  with ok have "j < 2 ^ 32" by (auto simp: sysv_table_ok_def symbols_at_def)
  with j(1) index_word(2) [of j] ex(1) show ?thesis by simp
qed

lemma lookup_sysv_complete:
  assumes "sysv_table_ok m img syms" "0 \<notin> set name" "exports syms name i"
  shows "lookup_sysv m img name \<noteq> Some None"
  using assms(1,2) by (rule lookup_sysv_path) (use assms(3) in \<open>auto simp: find_None_iff\<close>)

lemma lookup_sysv_returns:
  "sysv_table_ok m img syms \<Longrightarrow> 0 \<notin> set name \<Longrightarrow> \<exists>r. lookup_sysv m img name = Some r"
  by (elim lookup_sysv_path) auto

interpretation sysv: symbol_index "\<lambda>(m, img). sysv_table_ok m img" "\<lambda>(m, img). lookup_sysv m img"
  by unfold_locales (auto intro: lookup_sysv_returns lookup_sysv_sound dest: lookup_sysv_complete)

interpretation gnu_sysv: symbol_indexes
  "\<lambda>(m, img). gnu_table_ok m img" "\<lambda>(m, img). lookup_gnu m img"
  "\<lambda>(m, img). sysv_table_ok m img" "\<lambda>(m, img). lookup_sysv m img"
  by unfold_locales


subsection \<open>Reverse lookup\<close>

lemma addr_step_cases:
  assumes "addr_step m img target i best = Some best'"
  shows "(best' = best \<and> (\<forall>nm v. addr_cand m img target i nm v \<longrightarrow>
            (\<exists>bn bv. best = Some (bn, bv) \<and> v < bv))) \<or>
         (\<exists>nm v. best' = Some (nm, v) \<and> addr_cand m img target i nm v \<and>
            (\<forall>bn bv. best = Some (bn, bv) \<longrightarrow> bv \<le> v))"
  using assms unfolding addr_step_def
  by (auto simp: addr_cand_def Let_def not_less split: bind_splits if_splits option.splits)

lemma addr_loop_nearest:
  "addr_loop m img target is best = Some best' \<Longrightarrow>
   (case best' of
      None \<Rightarrow> best = None \<and> (\<forall>i \<in> set is. \<forall>nm v. \<not> addr_cand m img target (of_nat i) nm v)
    | Some (nm, v) \<Rightarrow>
        (best = Some (nm, v) \<or> (\<exists>i \<in> set is. addr_cand m img target (of_nat i) nm v)) \<and>
        (\<forall>bn bv. best = Some (bn, bv) \<longrightarrow> bv \<le> v) \<and>
        (\<forall>i \<in> set is. \<forall>nm' v'. addr_cand m img target (of_nat i) nm' v' \<longrightarrow> v' \<le> v))"
proof (induction "is" arbitrary: best)
  case Nil
  then show ?case by (auto split: option.splits)
next
  case (Cons i "is")
  then obtain b1 where b1: "addr_step m img target (of_nat i) best = Some b1"
    "addr_loop m img target is b1 = Some best'" by (auto split: bind_splits)
  have same: "addr_cand m img target j nm v \<Longrightarrow> addr_cand m img target j nm' v' \<Longrightarrow> v' = v" for j nm v nm' v'
    by (auto simp: addr_cand_def)
  from addr_step_cases [OF b1(1)] show ?case
  proof (elim disjE exE conjE)
    assume eq: "b1 = best" and skip: "\<forall>nm v. addr_cand m img target (of_nat i) nm v \<longrightarrow>
      (\<exists>bn bv. best = Some (bn, bv) \<and> v < bv)"
    from Cons.IH [OF b1(2)] skip show ?thesis
      unfolding eq by (cases best') (fastforce intro: less_imp_le order_trans)+
  next
    fix nm v
    assume new: "b1 = Some (nm, v)" "addr_cand m img target (of_nat i) nm v"
      and best: "\<forall>bn bv. best = Some (bn, bv) \<longrightarrow> bv \<le> v"
    from Cons.IH [OF b1(2)] obtain nm1 v1 where r: "best' = Some (nm1, v1)"
      "(nm, v) = (nm1, v1) \<or> (\<exists>i \<in> set is. addr_cand m img target (of_nat i) nm1 v1)" "v \<le> v1"
      "\<forall>i \<in> set is. \<forall>nm' v'. addr_cand m img target (of_nat i) nm' v' \<longrightarrow> v' \<le> v1"
      unfolding new by (cases best') auto
    have "v' \<le> v1" if "addr_cand m img target (of_nat i) nm' v'" for nm' v'
      using same [OF new(2) that] r(3) by simp
    with r new best show ?thesis by (auto intro: order_trans)
  qed
qed

subsection \<open>The sample module is in order\<close>

lemma sample_load8:
  "load8 sample_mem = (\<lambda>_. Some 0)
     (0x1018 := Some 1, 0x101c := Some 0x12, 0x101e := Some 1, 0x1021 := Some 5, 0x1028 := Some 4,
      0x1031 := Some 0x66,
      0x1038 := Some 0xff, 0x1039 := Some 0xff, 0x103a := Some 0xff, 0x103b := Some 0xff,
      0x103c := Some 0xff, 0x103d := Some 0xff, 0x103e := Some 0xff, 0x103f := Some 0xff,
      0x1040 := Some 1, 0x1044 := Some 0x0b, 0x1045 := Some 0xb6, 0x1046 := Some 2,
      0x1048 := Some 1)"
  by (rule ext) (simp add: load8_def sample_mem_def PROT_READ_def)

lemmas sample_eval = sample_load8 load_word_def load_bytes_numeral sym_at_def sym_shndx_def
  sym_name_def sym_info_def sym_value_def elem32_def

lemma sample_loads:
  "sym_shndx sample_mem 0x1000 0 = Some 0" "sym_shndx sample_mem 0x1000 1 = Some 1"
  "sym_name sample_mem 0x1000 0 = Some 0" "sym_name sample_mem 0x1000 1 = Some 1"
  "load8 sample_mem 0x1030 = Some 0" "load8 sample_mem 0x1031 = Some 0x66"
  "load8 sample_mem 0x1032 = Some 0"
  "load_u64 sample_mem 0x1038 = Some (- 1)" "elem32 sample_mem 0x1040 0 = Some 1"
  "elem32 sample_mem 0x1040 1 = Some 0x2b60b" "elem32 sample_mem 0x1048 0 = Some 1"
  "elem32 sample_mem 0x104c 1 = Some 0"
  by (simp_all add: sample_eval)

lemma sample_hash: "GnuHash [0x66] = 0x2b60b"
  by (simp add: GnuHash_def)

lemma sample_exports: "exports sample_syms name i \<longleftrightarrow> i = 1 \<and> name = [0x66]"
  by (auto simp: exports_def sample_syms_def less_Suc_eq numeral_2_eq_2)

lemma sample_symbols:
  assumes "symtab img = 0x1000" "strtab img = 0x1030"
  shows "symbols_at sample_mem img sample_syms"
  unfolding symbols_at_def sym_rel_def str_at_def sample_syms_def
  by (simp add: assms sample_loads less_Suc_eq)

lemma word_less_one: "(k :: 'a::len word) < 1 \<longleftrightarrow> k = 0"
  using word_less_1 by blast

lemma sample_gnu: "gnu_table_ok sample_mem sample_image sample_syms"
proof -
  have "gnu_run sample_mem sample_image sample_syms 1 1"
    by (auto simp: gnu_run_def sample_image_def sample_syms_def sample_loads sample_hash le_Suc_eq)
  then show ?thesis
    unfolding gnu_table_ok_def
    by (auto simp: sample_symbols sample_image_def sample_loads sample_exports word_less_one
        gnu_bucket_of_def new_image_def)
qed

lemma sample_sysv: "sysv_table_ok sample_mem (sample_image\<lparr>has_gnu_hash := False\<rparr>) sample_syms"
proof -
  have "sysv_path sample_mem (sample_image\<lparr>has_gnu_hash := False\<rparr>) sample_syms 1 [1]"
    by (simp add: sample_image_def sample_syms_def sample_loads)
  then show ?thesis
    unfolding sysv_table_ok_def
    by (auto simp: sample_symbols sample_image_def sample_loads sample_exports word_less_one new_image_def
        intro!: exI [of _ "[1]"])
qed

section \<open>Properties\<close>

text \<open>
  C6: Lookup in a module with an ordered GNU hash table: for every C string, \<open>LookupInImage\<close>
  returns (the bloom filter, bucket and chain reads stay in the tables and the walk ends); a
  hit is a defined symbol with that name, and it misses exactly when no defined symbol has
  the name.
\<close>

theorem lookup_gnu_correct:
  assumes "has_gnu_hash img" "gnu_table_ok m img syms" "0 \<notin> set name"
  shows "\<exists>r. LookupInImage m img name = Some r \<and>
    (case r of Some n \<Rightarrow> exports syms name (unat n) | None \<Rightarrow> \<forall>i. \<not> exports syms name i)"
  using assms gnu.returns [of "(m, img)" syms name] gnu.sound [of "(m, img)" syms name]
    gnu.miss_iff [of "(m, img)" syms name]
  by (auto simp: LookupInImage_def split: option.splits)

theorem lookup_gnu_correct_witness:
  "\<exists>r. LookupInImage sample_mem sample_image [0x66] = Some r \<and>
    (case r of Some n \<Rightarrow> exports sample_syms [0x66] (unat n) | None \<Rightarrow> \<forall>i. \<not> exports sample_syms [0x66] i)"
  by (rule lookup_gnu_correct [OF _ sample_gnu]) (simp_all add: sample_image_def)

text \<open>
  C24: The hash style of a module does not change what is found: if one image carries an ordered
  GNU table and another an ordered System V table over the same symbols, with exported names
  unique, \<open>LookupInImage\<close> returns the same symbol index (or null) in both for every C string.
\<close>

theorem lookup_tables_agree:
  assumes "has_gnu_hash img1" "gnu_table_ok m1 img1 syms"
    and "\<not> has_gnu_hash img2" "sysv_table_ok m2 img2 syms" "0 \<notin> set name"
    and "\<And>i j. exports syms name i \<Longrightarrow> exports syms name j \<Longrightarrow> i = j"
  shows "LookupInImage m1 img1 name = LookupInImage m2 img2 name"
  using gnu_sysv.agree [of "(m1, img1)" syms "(m2, img2)" name] assms by (simp add: LookupInImage_def)

theorem lookup_tables_agree_witness:
  "LookupInImage sample_mem sample_image [0x66] =
   LookupInImage sample_mem (sample_image\<lparr>has_gnu_hash := False\<rparr>) [0x66]"
  by (rule lookup_tables_agree [OF _ sample_gnu _ sample_sysv])
    (simp_all add: sample_image_def sample_exports)

text \<open>
  C35: \<open>AddrToSym\<close> reports the nearest symbol: its result is the name and runtime address of a
  defined, named code or data symbol whose value is at or before the address and is the
  largest among all such symbols; with no such symbol, or an address outside the image, the
  result is null.
\<close>

theorem addr_to_sym_nearest:
  assumes "AddrToSym m img a = Some r"
  shows "case r of
    None \<Rightarrow> \<not> Contains img a \<or>
      (\<forall>i < unat (dynsym_count img). \<forall>nm v. \<not> addr_cand m img (a - load_bias img) (of_nat i) nm v)
  | Some (name_ptr, saddr) \<Rightarrow> Contains img a \<and> (\<exists>i nm v. i < unat (dynsym_count img) \<and>
      addr_cand m img (a - load_bias img) (of_nat i) nm v \<and>
      name_ptr = strtab img + ucast nm \<and> saddr = load_bias img + v \<and>
      (\<forall>j < unat (dynsym_count img). \<forall>nm' v'.
         addr_cand m img (a - load_bias img) (of_nat j) nm' v' \<longrightarrow> v' \<le> v))"
proof (cases "a < map_start img \<or> a \<ge> map_start img + map_size img \<or> dynsym_count img = 0")
  case True
  with assms show ?thesis by (auto simp: AddrToSym_def Contains_def not_less)
next
  case False
  with assms obtain best where
    "addr_loop m img (a - load_bias img) [0..<unat (dynsym_count img)] None = Some best"
    "r = map_option (\<lambda>(nm, v). (strtab img + ucast nm, load_bias img + v)) best"
    by (auto simp: AddrToSym_def split: bind_splits)
  with addr_loop_nearest [OF this(1)] False show ?thesis
    by (cases best) (auto simp: Contains_def not_le not_less, blast)
qed


theorem addr_to_sym_nearest_witness:
  "AddrToSym sample_mem sample_image 0x1504 = Some (Some (0x1031, 0x1500))
   \<and> (\<nexists>j nm' v'. j < 2 \<and> addr_cand sample_mem sample_image 0x504 (of_nat j) nm' v' \<and> 0x500 < v')"
proof -
  have r: "AddrToSym sample_mem sample_image 0x1504 = Some (Some (0x1031, 0x1500))"
    by (simp add: AddrToSym_def sample_image_def new_image_def upt_rec addr_step_def sample_eval
        ELF_ST_TYPE_def)
  from addr_to_sym_nearest [OF r] show ?thesis
    using r by (auto simp: sample_image_def new_image_def not_less [symmetric])
qed

end
