(* ===== verification/Image_Dyn.thy ===== *)
theory Image_Dyn
  imports Image_Map Elf_Hash
begin

text \<open>
  The dynamic section of a mapped module (\<open>linker/linker.cpp\<close>: \<open>Image::ParseDynamic\<close>).  The
  section is read from process memory; \<open>None\<close> is a fault or a walk that never meets its end
  marker.  The lemmas show that the fields of the image depend only on the last entry of each
  tag, that text relocations are refused wherever they are announced, and that the symbol
  count derived from a GNU hash table covers every exported symbol.
\<close>

section \<open>Definitions\<close>

subsection \<open>Tags\<close>

definition DT_NULL :: addr where "DT_NULL = 0"
definition DT_NEEDED :: addr where "DT_NEEDED = 1"
definition DT_PLTRELSZ :: addr where "DT_PLTRELSZ = 2"
definition DT_HASH :: addr where "DT_HASH = 4"
definition DT_STRTAB :: addr where "DT_STRTAB = 5"
definition DT_SYMTAB :: addr where "DT_SYMTAB = 6"
definition DT_RELA :: addr where "DT_RELA = 7"
definition DT_RELASZ :: addr where "DT_RELASZ = 8"
definition DT_INIT :: addr where "DT_INIT = 12"
definition DT_FINI :: addr where "DT_FINI = 13"
definition DT_REL :: addr where "DT_REL = 17"
definition DT_RELSZ :: addr where "DT_RELSZ = 18"
definition DT_PLTREL :: addr where "DT_PLTREL = 20"
definition DT_TEXTREL :: addr where "DT_TEXTREL = 22"
definition DT_JMPREL :: addr where "DT_JMPREL = 23"
definition DT_INIT_ARRAY :: addr where "DT_INIT_ARRAY = 25"
definition DT_FINI_ARRAY :: addr where "DT_FINI_ARRAY = 26"
definition DT_INIT_ARRAYSZ :: addr where "DT_INIT_ARRAYSZ = 27"
definition DT_FINI_ARRAYSZ :: addr where "DT_FINI_ARRAYSZ = 28"
definition DT_FLAGS :: addr where "DT_FLAGS = 30"
definition DT_GNU_HASH :: addr where "DT_GNU_HASH = 0x6ffffef5"
definition DT_FLAGS_1 :: addr where "DT_FLAGS_1 = 0x6ffffffb"

definition DF_TEXTREL :: addr where "DF_TEXTREL = 4"
definition DF_BIND_NOW :: addr where "DF_BIND_NOW = 8"
definition DF_1_NOW :: addr where "DF_1_NOW = 1"

lemmas dt_defs = DT_NULL_def DT_NEEDED_def DT_PLTRELSZ_def DT_HASH_def DT_STRTAB_def DT_SYMTAB_def
  DT_RELA_def DT_RELASZ_def DT_INIT_def DT_FINI_def DT_REL_def DT_RELSZ_def DT_PLTREL_def
  DT_TEXTREL_def DT_JMPREL_def DT_INIT_ARRAY_def DT_FINI_ARRAY_def DT_INIT_ARRAYSZ_def
  DT_FINI_ARRAYSZ_def DT_FLAGS_def DT_GNU_HASH_def DT_FLAGS_1_def DT_RELR_def DT_RELRSZ_def
  DT_ANDROID_RELR_def DT_ANDROID_RELRSZ_def DT_ANDROID_REL_def DT_ANDROID_RELSZ_def
  DT_ANDROID_RELA_def DT_ANDROID_RELASZ_def

subsection \<open>The first pass\<close>

text \<open>The hash table headers.\<close>

definition read_gnu_hash :: "vm \<Rightarrow> addr \<Rightarrow> image \<Rightarrow> image option" where
  "read_gnu_hash m h img = do {
     nbucket \<leftarrow> load_u32 m h;
     symndx \<leftarrow> load_u32 m (h + 4);
     maskwords \<leftarrow> load_u32 m (h + 8);
     shift2 \<leftarrow> load_u32 m (h + 12);
     let bloom = h + 16;
     let bucket = bloom + 8 * ucast maskwords;
     Some (img\<lparr>gnu_nbucket := ucast nbucket, gnu_symndx := symndx, gnu_maskwords := maskwords,
       gnu_shift2 := shift2, gnu_bloom := bloom, gnu_bucket := bucket,
       gnu_chain := bucket + 4 * (ucast nbucket - ucast symndx), has_gnu_hash := True\<rparr>) }"

definition read_sysv_hash :: "vm \<Rightarrow> addr \<Rightarrow> image \<Rightarrow> image option" where
  "read_sysv_hash m h img = do {
     nbucket \<leftarrow> load_u32 m h;
     nchain \<leftarrow> load_u32 m (h + 4);
     Some (img\<lparr>sysv_nbucket := ucast nbucket, sysv_nchain := ucast nchain,
       sysv_bucket := h + 8, sysv_chain := h + 8 + 4 * ucast nbucket\<rparr>) }"

text \<open>
  One entry of the section: the image and \<open>plt_rel_type\<close> after it, or the refusal of text
  relocations.
\<close>

datatype dyn_result = DynGo image addr | DynRefuse image

definition dyn_entry :: "vm \<Rightarrow> addr \<Rightarrow> addr \<Rightarrow> image \<Rightarrow> addr \<Rightarrow> dyn_result option" where
  "dyn_entry m tag val img plt =
     (let bias = load_bias img; ptr = bias + val; go = (\<lambda>i. Some (DynGo i plt)) in
      if tag = DT_STRTAB then go (img\<lparr>strtab := ptr\<rparr>)
      else if tag = DT_SYMTAB then go (img\<lparr>symtab := ptr\<rparr>)
      else if tag = DT_GNU_HASH then map_option (\<lambda>i. DynGo i plt) (read_gnu_hash m ptr img)
      else if tag = DT_HASH then map_option (\<lambda>i. DynGo i plt) (read_sysv_hash m ptr img)
      else if tag = DT_RELA then go (img\<lparr>im_rela := ptr\<rparr>)
      else if tag = DT_RELASZ then go (img\<lparr>rela_count := val div 24\<rparr>)
      else if tag = DT_REL then go (img\<lparr>im_rel := ptr\<rparr>)
      else if tag = DT_RELSZ then go (img\<lparr>rel_count := val div 16\<rparr>)
      else if tag = DT_JMPREL then go (img\<lparr>plt_rel := ptr\<rparr>)
      else if tag = DT_PLTRELSZ then go (img\<lparr>plt_rel_size := val\<rparr>)
      else if tag = DT_PLTREL then Some (DynGo img val)
      else if tag = DT_ANDROID_RELA \<or> tag = DT_ANDROID_REL
        then go (img\<lparr>android_rel := ptr, android_is_rela := (tag = DT_ANDROID_RELA)\<rparr>)
      else if tag = DT_ANDROID_RELASZ \<or> tag = DT_ANDROID_RELSZ then go (img\<lparr>android_rel_size := val\<rparr>)
      else if tag = DT_RELR \<or> tag = DT_ANDROID_RELR then go (img\<lparr>im_relr := ptr\<rparr>)
      else if tag = DT_RELRSZ \<or> tag = DT_ANDROID_RELRSZ then go (img\<lparr>relr_count := val div 8\<rparr>)
      else if tag = DT_INIT then go (img\<lparr>init_func := ptr\<rparr>)
      else if tag = DT_FINI then go (img\<lparr>fini_func := ptr\<rparr>)
      else if tag = DT_INIT_ARRAY then go (img\<lparr>init_array := ptr\<rparr>)
      else if tag = DT_INIT_ARRAYSZ then go (img\<lparr>init_array_count := val div 8\<rparr>)
      else if tag = DT_FINI_ARRAY then go (img\<lparr>fini_array := ptr\<rparr>)
      else if tag = DT_FINI_ARRAYSZ then go (img\<lparr>fini_array_count := val div 8\<rparr>)
      else if tag = DT_FLAGS then
        (let i = (if val AND DF_BIND_NOW \<noteq> 0 then img\<lparr>bind_now := True\<rparr> else img) in
         if val AND DF_TEXTREL \<noteq> 0 then Some (DynRefuse i) else go i)
      else if tag = DT_FLAGS_1 then go (if val AND DF_1_NOW \<noteq> 0 then img\<lparr>bind_now := True\<rparr> else img)
      else if tag = DT_TEXTREL then Some (DynRefuse img)
      else go img)"

partial_function (option) dyn_loop :: "vm \<Rightarrow> addr \<Rightarrow> image \<Rightarrow> addr \<Rightarrow> dyn_result option" where
  "dyn_loop m d img plt = do {
     tag \<leftarrow> load_u64 m d;
     (if tag = DT_NULL then Some (DynGo img plt)
      else do {
        val \<leftarrow> load_u64 m (d + 8);
        r \<leftarrow> dyn_entry m tag val img plt;
        (case r of DynGo img' plt' \<Rightarrow> dyn_loop m (d + 16) img' plt' | DynRefuse img' \<Rightarrow> Some (DynRefuse img')) }) }"

subsection \<open>The symbol count and the needed libraries\<close>

primrec gnu_max_bucket :: "vm \<Rightarrow> image \<Rightarrow> nat list \<Rightarrow> u32 \<Rightarrow> u32 option" where
  "gnu_max_bucket m img [] max_idx = Some max_idx"
| "gnu_max_bucket m img (i # is) max_idx = do {
     b \<leftarrow> elem32 m (gnu_bucket img) (of_nat i);
     gnu_max_bucket m img is (if b > max_idx then b else max_idx) }"

partial_function (option) gnu_chain_end :: "vm \<Rightarrow> image \<Rightarrow> u32 \<Rightarrow> u32 option" where
  "gnu_chain_end m img idx = do {
     c \<leftarrow> elem32 m (gnu_chain img) (ucast idx);
     (if c AND 1 = 0 then gnu_chain_end m img (idx + 1) else Some idx) }"

definition derive_dynsym_count :: "vm \<Rightarrow> image \<Rightarrow> addr option" where
  "derive_dynsym_count m img =
     (if sysv_bucket img \<noteq> 0 then Some (sysv_nchain img)
      else if has_gnu_hash img \<and> gnu_nbucket img > 0 then do {
        max_idx \<leftarrow> gnu_max_bucket m img [0..<unat (gnu_nbucket img)] (gnu_symndx img);
        (if max_idx \<ge> gnu_symndx img then do {
           idx \<leftarrow> gnu_chain_end m img max_idx;
           Some (ucast (idx + 1)) }
         else Some (ucast (gnu_symndx img))) }
      else Some (dynsym_count img))"

partial_function (option) load_cstr :: "vm \<Rightarrow> addr \<Rightarrow> cstr option" where
  "load_cstr m p = do {
     b \<leftarrow> load8 m p;
     (if b = 0 then Some [] else do { s \<leftarrow> load_cstr m (p + 1); Some (b # s) }) }"

partial_function (option) needed_loop :: "vm \<Rightarrow> addr \<Rightarrow> addr \<Rightarrow> cstr list \<Rightarrow> cstr list option" where
  "needed_loop m str d names = do {
     tag \<leftarrow> load_u64 m d;
     (if tag = DT_NULL then Some names
      else if tag = DT_NEEDED then do {
        val \<leftarrow> load_u64 m (d + 8);
        s \<leftarrow> load_cstr m (str + val);
        needed_loop m str (d + 16) (names @ [s]) }
      else needed_loop m str (d + 16) names) }"

subsection \<open>ParseDynamic\<close>

definition mapped_phdrs :: "vm \<Rightarrow> image \<Rightarrow> phdr list option" where
  "mapped_phdrs m img = load_array load_phdr 56 m (im_phdr img) (phnum img)"

definition find_dynamic :: "image \<Rightarrow> phdr list \<Rightarrow> addr" where
  "find_dynamic img phs =
     foldl (\<lambda>d ph. if p_type ph = PT_DYNAMIC then load_bias img + p_vaddr ph else d) (im_dynamic img) phs"

definition ParseDynamic :: "lstate \<Rightarrow> (bool \<times> lstate) option" where
  "ParseDynamic st = do {
     let m = ls_vm st;
     phs \<leftarrow> mapped_phdrs m (ls_img st);
     let img = (ls_img st)\<lparr>im_dynamic := find_dynamic (ls_img st) phs\<rparr>;
     (if im_dynamic img = 0 then Some (False, st\<lparr>ls_img := img, ls_err := kError\<rparr>)
      else do {
        r \<leftarrow> dyn_loop m (im_dynamic img) img 0;
        (case r of
           DynRefuse i \<Rightarrow> Some (False, st\<lparr>ls_img := i, ls_err := kUnsupported\<rparr>)
         | DynGo i plt \<Rightarrow>
             if strtab i = 0 \<or> symtab i = 0 then Some (False, st\<lparr>ls_img := i, ls_err := kError\<rparr>)
             else do {
               n \<leftarrow> derive_dynsym_count m i;
               names \<leftarrow> needed_loop m (strtab i) (im_dynamic i) (needed_names i);
               Some (True, st\<lparr>ls_img := i\<lparr>plt_is_rela := (plt = DT_RELA), dynsym_count := n,
                                            needed_names := names\<rparr>\<rparr>) }) }) }"

subsection \<open>Reference: a dynamic section as a list of entries\<close>

type_synonym dyns = "(addr \<times> addr) list"

primrec dyn_at :: "vm \<Rightarrow> addr \<Rightarrow> dyns \<Rightarrow> bool" where
  "dyn_at m d [] \<longleftrightarrow> load_u64 m d = Some DT_NULL"
| "dyn_at m d (e # es) \<longleftrightarrow> fst e \<noteq> DT_NULL \<and> load_u64 m d = Some (fst e) \<and>
     load_u64 m (d + 8) = Some (snd e) \<and> dyn_at m (d + 16) es"

text \<open>The value of the last entry that has one of the tags, converted; \<open>old\<close> when there is none.\<close>

definition dyn_field :: "addr list \<Rightarrow> dyns \<Rightarrow> 'a \<Rightarrow> (addr \<Rightarrow> 'a) \<Rightarrow> 'a" where
  "dyn_field tags es old conv =
     (case find (\<lambda>e. fst e \<in> set tags) (rev es) of None \<Rightarrow> old | Some e \<Rightarrow> conv (snd e))"

definition has_textrel :: "dyns \<Rightarrow> bool" where
  "has_textrel es \<longleftrightarrow>
     (\<exists>e \<in> set es. fst e = DT_TEXTREL \<or> fst e = DT_FLAGS \<and> snd e AND DF_TEXTREL \<noteq> 0)"

definition hashes_readable :: "vm \<Rightarrow> addr \<Rightarrow> dyns \<Rightarrow> bool" where
  "hashes_readable m bias es \<longleftrightarrow>
     (\<forall>e \<in> set es. (fst e = DT_GNU_HASH \<longrightarrow> load_bytes m (bias + snd e) 16 \<noteq> None) \<and>
        (fst e = DT_HASH \<longrightarrow> load_bytes m (bias + snd e) 8 \<noteq> None))"

primrec dyn_run :: "vm \<Rightarrow> dyns \<Rightarrow> image \<Rightarrow> addr \<Rightarrow> dyn_result option" where
  "dyn_run m [] img plt = Some (DynGo img plt)"
| "dyn_run m (e # es) img plt = do {
     r \<leftarrow> dyn_entry m (fst e) (snd e) img plt;
     (case r of DynGo i p \<Rightarrow> dyn_run m es i p | DynRefuse i \<Rightarrow> Some (DynRefuse i)) }"

subsection \<open>A sample module\<close>

text \<open>
  One program header (PT_DYNAMIC) at 0x2000; a dynamic section at 0x2040 with a string table, a
  symbol table and, as its third entry, the given tag with value 1; the string \<open>a\<close> at offset 1 of
  the string table.
\<close>

definition dyn_mem :: "byte \<Rightarrow> vm" where
  "dyn_mem tag = \<lparr>vbyte = (\<lambda>_. Some 0)
     (0x2000 := Some 2, 0x2010 := Some 0x40, 0x2040 := Some 5, 0x2048 := Some 0x90,
      0x2050 := Some 6, 0x2058 := Some 0x98, 0x2060 := Some tag, 0x2068 := Some 1,
      0x2091 := Some 0x61),
     vprot = (\<lambda>_. PROT_READ)\<rparr>"

definition dyn_state :: "byte \<Rightarrow> lstate" where
  "dyn_state tag = \<lparr>ls_vm = dyn_mem tag, ls_replies = [], ls_err = kNone,
     ls_img = new_image\<lparr>load_bias := 0x2000, im_phdr := 0x2000, phnum := 1\<rparr>\<rparr>"

definition dyn_list :: "addr \<Rightarrow> dyns" where
  "dyn_list tag = [(5, 0x90), (6, 0x98), (tag, 1)]"

section \<open>Lemmas\<close>

subsection \<open>The first pass\<close>

lemma dyn_loop_run: "dyn_at m d es \<Longrightarrow> dyn_loop m d img plt = dyn_run m es img plt"
proof (induction es arbitrary: d img plt)
  case (Cons e es)
  then show ?case
    by (subst dyn_loop.simps) (auto simp: bind_eq_Some_conv split: dyn_result.splits intro!: Option.bind_cong)
qed (simp add: dyn_loop.simps)

lemma find_append: "find P (xs @ ys) = (case find P xs of None \<Rightarrow> find P ys | Some x \<Rightarrow> Some x)"
  by (induction xs) auto

lemma dyn_field_Nil [simp]: "dyn_field tags [] old conv = old"
  by (simp add: dyn_field_def)

lemma dyn_field_Cons:
  "dyn_field tags (e # es) old conv = dyn_field tags es (if fst e \<in> set tags then conv (snd e) else old) conv"
  by (simp add: dyn_field_def find_append split: option.splits)

lemma read_gnu_hash_Some:
  "read_gnu_hash m h img = Some img' \<Longrightarrow> \<exists>nb sx mw s2. load_u32 m h = Some nb \<and> load_u32 m (h + 4) = Some sx \<and>
     load_u32 m (h + 8) = Some mw \<and> load_u32 m (h + 12) = Some s2 \<and>
     img' = img\<lparr>gnu_nbucket := ucast nb, gnu_symndx := sx, gnu_maskwords := mw,
       gnu_shift2 := s2, gnu_bloom := h + 16, gnu_bucket := h + 16 + 8 * ucast mw,
       gnu_chain := h + 16 + 8 * ucast mw + 4 * (ucast nb - ucast sx), has_gnu_hash := True\<rparr>"
  by (auto simp: read_gnu_hash_def bind_eq_Some_conv Let_def)

lemma read_sysv_hash_Some:
  "read_sysv_hash m h img = Some img' \<Longrightarrow> \<exists>nb nc. load_u32 m h = Some nb \<and> load_u32 m (h + 4) = Some nc \<and>
     img' = img\<lparr>sysv_nbucket := ucast nb, sysv_nchain := ucast nc,
       sysv_bucket := h + 8, sysv_chain := h + 8 + 4 * ucast nb\<rparr>"
  by (auto simp: read_sysv_hash_def bind_eq_Some_conv)

lemma read_gnu_hash_keeps:
  "read_gnu_hash m h img = Some img' \<Longrightarrow>
     load_bias img' = load_bias img \<and> strtab img' = strtab img \<and>
     symtab img' = symtab img \<and> im_rela img' = im_rela img \<and>
     rela_count img' = rela_count img \<and> im_rel img' = im_rel img \<and>
     rel_count img' = rel_count img \<and> plt_rel img' = plt_rel img \<and>
     plt_rel_size img' = plt_rel_size img \<and> android_rel img' = android_rel img \<and>
     android_rel_size img' = android_rel_size img \<and> im_relr img' = im_relr img \<and>
     relr_count img' = relr_count img \<and> init_func img' = init_func img \<and>
     fini_func img' = fini_func img \<and> init_array img' = init_array img \<and>
     fini_array img' = fini_array img \<and> init_array_count img' = init_array_count img \<and>
     fini_array_count img' = fini_array_count img \<and> needed_names img' = needed_names img \<and>
     im_dynamic img' = im_dynamic img"
  by (drule read_gnu_hash_Some) auto

lemma read_sysv_hash_keeps:
  "read_sysv_hash m h img = Some img' \<Longrightarrow>
     load_bias img' = load_bias img \<and> strtab img' = strtab img \<and>
     symtab img' = symtab img \<and> im_rela img' = im_rela img \<and>
     rela_count img' = rela_count img \<and> im_rel img' = im_rel img \<and>
     rel_count img' = rel_count img \<and> plt_rel img' = plt_rel img \<and>
     plt_rel_size img' = plt_rel_size img \<and> android_rel img' = android_rel img \<and>
     android_rel_size img' = android_rel_size img \<and> im_relr img' = im_relr img \<and>
     relr_count img' = relr_count img \<and> init_func img' = init_func img \<and>
     fini_func img' = fini_func img \<and> init_array img' = init_array img \<and>
     fini_array img' = fini_array img \<and> init_array_count img' = init_array_count img \<and>
     fini_array_count img' = fini_array_count img \<and> needed_names img' = needed_names img \<and>
     im_dynamic img' = im_dynamic img"
  by (drule read_sysv_hash_Some) auto

lemma if_Some_E:
  "(if c then x else y) = Some z \<Longrightarrow> (c \<Longrightarrow> x = Some z \<Longrightarrow> P) \<Longrightarrow> (\<not> c \<Longrightarrow> y = Some z \<Longrightarrow> P) \<Longrightarrow> P"
  by (simp split: if_splits)

text \<open>What one accepted entry does to the pointer and size fields.\<close>

lemma dyn_entry_step:
  assumes "dyn_entry m t v img plt = Some (DynGo img' plt')"
  shows "load_bias img' = load_bias img \<and>
     strtab img' = (if t \<in> set [DT_STRTAB] then load_bias img + v else strtab img) \<and>
     symtab img' = (if t \<in> set [DT_SYMTAB] then load_bias img + v else symtab img) \<and>
     im_rela img' = (if t \<in> set [DT_RELA] then load_bias img + v else im_rela img) \<and>
     rela_count img' = (if t \<in> set [DT_RELASZ] then v div 24 else rela_count img) \<and>
     im_rel img' = (if t \<in> set [DT_REL] then load_bias img + v else im_rel img) \<and>
     rel_count img' = (if t \<in> set [DT_RELSZ] then v div 16 else rel_count img) \<and>
     plt_rel img' = (if t \<in> set [DT_JMPREL] then load_bias img + v else plt_rel img) \<and>
     plt_rel_size img' = (if t \<in> set [DT_PLTRELSZ] then v else plt_rel_size img) \<and>
     android_rel img' = (if t \<in> set [DT_ANDROID_RELA, DT_ANDROID_REL] then load_bias img + v else android_rel img) \<and>
     android_rel_size img' = (if t \<in> set [DT_ANDROID_RELASZ, DT_ANDROID_RELSZ] then v else android_rel_size img) \<and>
     im_relr img' = (if t \<in> set [DT_RELR, DT_ANDROID_RELR] then load_bias img + v else im_relr img) \<and>
     relr_count img' = (if t \<in> set [DT_RELRSZ, DT_ANDROID_RELRSZ] then v div 8 else relr_count img) \<and>
     init_func img' = (if t \<in> set [DT_INIT] then load_bias img + v else init_func img) \<and>
     fini_func img' = (if t \<in> set [DT_FINI] then load_bias img + v else fini_func img) \<and>
     init_array img' = (if t \<in> set [DT_INIT_ARRAY] then load_bias img + v else init_array img) \<and>
     fini_array img' = (if t \<in> set [DT_FINI_ARRAY] then load_bias img + v else fini_array img) \<and>
     init_array_count img' = (if t \<in> set [DT_INIT_ARRAYSZ] then v div 8 else init_array_count img) \<and>
     fini_array_count img' = (if t \<in> set [DT_FINI_ARRAYSZ] then v div 8 else fini_array_count img) \<and>
     plt' = (if t \<in> set [DT_PLTREL] then v else plt) \<and>
     needed_names img' = needed_names img \<and>
     im_dynamic img' = im_dynamic img"
  using assms unfolding dyn_entry_def Let_def dt_defs
  by (elim if_Some_E disjE)
    (clarsimp dest!: read_gnu_hash_keeps read_sysv_hash_keeps split: if_splits; fail)+

lemma dyn_run_Cons_go:
  "dyn_run m (e # es) img plt = Some (DynGo img' plt') \<Longrightarrow>
     \<exists>i p. dyn_entry m (fst e) (snd e) img plt = Some (DynGo i p) \<and> dyn_run m es i p = Some (DynGo img' plt')"
  by (cases "dyn_entry m (fst e) (snd e) img plt"; cases "the (dyn_entry m (fst e) (snd e) img plt)") auto

text \<open>Each field holds the value of the last entry that sets it.\<close>

lemma dyn_run_fields:
  assumes "dyn_run m es img plt = Some (DynGo img' plt')"
  shows "strtab img' = dyn_field [DT_STRTAB] es (strtab img) ((+) (load_bias img)) \<and>
     symtab img' = dyn_field [DT_SYMTAB] es (symtab img) ((+) (load_bias img)) \<and>
     im_rela img' = dyn_field [DT_RELA] es (im_rela img) ((+) (load_bias img)) \<and>
     rela_count img' = dyn_field [DT_RELASZ] es (rela_count img) (\<lambda>v. v div 24) \<and>
     im_rel img' = dyn_field [DT_REL] es (im_rel img) ((+) (load_bias img)) \<and>
     rel_count img' = dyn_field [DT_RELSZ] es (rel_count img) (\<lambda>v. v div 16) \<and>
     plt_rel img' = dyn_field [DT_JMPREL] es (plt_rel img) ((+) (load_bias img)) \<and>
     plt_rel_size img' = dyn_field [DT_PLTRELSZ] es (plt_rel_size img) (\<lambda>v. v) \<and>
     plt' = dyn_field [DT_PLTREL] es plt (\<lambda>v. v) \<and>
     android_rel img' =
      dyn_field [DT_ANDROID_RELA, DT_ANDROID_REL] es (android_rel img) ((+) (load_bias img)) \<and>
     android_rel_size img' =
      dyn_field [DT_ANDROID_RELASZ, DT_ANDROID_RELSZ] es (android_rel_size img) (\<lambda>v. v) \<and>
     im_relr img' = dyn_field [DT_RELR, DT_ANDROID_RELR] es (im_relr img) ((+) (load_bias img)) \<and>
     relr_count img' = dyn_field [DT_RELRSZ, DT_ANDROID_RELRSZ] es (relr_count img) (\<lambda>v. v div 8) \<and>
     init_func img' = dyn_field [DT_INIT] es (init_func img) ((+) (load_bias img)) \<and>
     fini_func img' = dyn_field [DT_FINI] es (fini_func img) ((+) (load_bias img)) \<and>
     init_array img' = dyn_field [DT_INIT_ARRAY] es (init_array img) ((+) (load_bias img)) \<and>
     fini_array img' = dyn_field [DT_FINI_ARRAY] es (fini_array img) ((+) (load_bias img)) \<and>
     init_array_count img' = dyn_field [DT_INIT_ARRAYSZ] es (init_array_count img) (\<lambda>v. v div 8) \<and>
     fini_array_count img' = dyn_field [DT_FINI_ARRAYSZ] es (fini_array_count img) (\<lambda>v. v div 8) \<and>
     needed_names img' = needed_names img \<and>
     im_dynamic img' = im_dynamic img"
  using assms
proof (induction es arbitrary: img plt)
  case (Cons e es)
  obtain i p where e: "dyn_entry m (fst e) (snd e) img plt = Some (DynGo i p)"
    and rest: "dyn_run m es i p = Some (DynGo img' plt')"
    using dyn_run_Cons_go [OF Cons.prems] by blast
  show ?case
    using Cons.IH [OF rest] dyn_entry_step [OF e] by (simp only: dyn_field_Cons)
qed simp

subsection \<open>Text relocations\<close>

lemma load_u32_sub:
  "load_bytes m a n \<noteq> None \<Longrightarrow> i + 4 \<le> n \<Longrightarrow> \<exists>w. load_u32 m (a + of_nat i) = Some w"
  using load_bytes_sub [of m a n _ i 4] by (auto simp: load_word_def)

lemma read_gnu_hash_total: "load_bytes m h 16 \<noteq> None \<Longrightarrow> \<exists>i. read_gnu_hash m h img = Some i"
  using load_u32_sub [of m h 16 0] load_u32_sub [of m h 16 4] load_u32_sub [of m h 16 8]
    load_u32_sub [of m h 16 12]
  by (auto simp: read_gnu_hash_def Let_def)

lemma read_sysv_hash_total: "load_bytes m h 8 \<noteq> None \<Longrightarrow> \<exists>i. read_sysv_hash m h img = Some i"
  using load_u32_sub [of m h 8 0] load_u32_sub [of m h 8 4] by (auto simp: read_sysv_hash_def)

lemma dyn_entry_go:
  assumes "hashes_readable m (load_bias img) [e]" "\<not> has_textrel [e]"
  shows "\<exists>i p. dyn_entry m (fst e) (snd e) img plt = Some (DynGo i p)"
  using assms read_gnu_hash_total [of m "load_bias img + snd e" img]
    read_sysv_hash_total [of m "load_bias img + snd e" img]
  by (auto simp: dyn_entry_def Let_def hashes_readable_def has_textrel_def)

lemma dyn_entry_refuse:
  "has_textrel [e] \<Longrightarrow> \<exists>i. dyn_entry m (fst e) (snd e) img plt = Some (DynRefuse i)"
  by (auto simp: has_textrel_def dyn_entry_def Let_def dt_defs)

lemma dyn_run_textrel:
  assumes "hashes_readable m (load_bias img) es"
  shows "if has_textrel es then \<exists>i. dyn_run m es img plt = Some (DynRefuse i)
         else \<exists>i p. dyn_run m es img plt = Some (DynGo i p)"
  using assms
proof (induction es arbitrary: img plt)
  case (Cons e es)
  have split: "has_textrel (e # es) \<longleftrightarrow> has_textrel [e] \<or> has_textrel es" by (auto simp: has_textrel_def)
  show ?case
  proof (cases "has_textrel [e]")
    case True
    with dyn_entry_refuse [OF True, of m img plt] split show ?thesis by auto
  next
    case False
    from Cons.prems have "hashes_readable m (load_bias img) [e]" by (simp add: hashes_readable_def)
    from dyn_entry_go [OF this False] obtain i p
      where e: "dyn_entry m (fst e) (snd e) img plt = Some (DynGo i p)" by blast
    have "load_bias i = load_bias img" using dyn_entry_step [OF e] by simp
    with Cons.prems have "hashes_readable m (load_bias i) es" by (simp add: hashes_readable_def)
    from Cons.IH [OF this, of p] e split False show ?thesis by (auto split: if_splits)
  qed
qed (simp add: has_textrel_def)

subsection \<open>The needed libraries\<close>

lemma str_at_Nil: "str_at m p [] \<longleftrightarrow> load8 m p = Some 0"
  by (auto simp: str_at_def bind_eq_Some_conv)

lemma str_at_Cons: "str_at m p (b # s) \<longleftrightarrow> load8 m p = Some b \<and> b \<noteq> 0 \<and> str_at m (p + 1) s"
  using load_bytes.simps(2) [of m p "Suc (length s)"]
  by (auto simp: str_at_def bind_eq_Some_conv simp del: load_bytes.simps)

lemma load_cstr_str_at: "load_cstr m p = Some s \<Longrightarrow> str_at m p s"
proof (erule load_cstr.raw_induct [of "\<lambda>m p s. str_at m p s", rotated])
  fix f m p s
  assume "\<And>m p s. f m p = Some s \<Longrightarrow> str_at m p s"
    and "do { b \<leftarrow> load8 m p; (if b = 0 then Some [] else do { s \<leftarrow> f m (p + 1); Some (b # s) }) } = Some s"
  then show "str_at m p s"
    by (auto simp: bind_eq_Some_conv str_at_Nil str_at_Cons split: if_splits)
qed

lemma needed_loop_names:
  assumes "dyn_at m d es" "needed_loop m str d names = Some names'"
  shows "\<exists>ns. names' = names @ ns \<and>
    list_all2 (\<lambda>e s. str_at m (str + snd e) s) (filter (\<lambda>e. fst e = DT_NEEDED) es) ns"
  using assms
proof (induction es arbitrary: d names)
  case (Cons e es)
  show ?case
  proof (cases "fst e = DT_NEEDED")
    case True
    with Cons.prems obtain x where x: "load_cstr m (str + snd e) = Some x"
      and rest: "needed_loop m str (d + 16) (names @ [x]) = Some names'"
      by (subst (asm) needed_loop.simps) (auto simp: bind_eq_Some_conv)
    from Cons.IH [OF _ rest] Cons.prems(1) True load_cstr_str_at [OF x] show ?thesis by auto
  next
    case False
    with Cons.prems have rest: "needed_loop m str (d + 16) names = Some names'"
      by (subst (asm) needed_loop.simps) (auto simp: bind_eq_Some_conv)
    from Cons.IH [OF _ rest] Cons.prems(1) False show ?thesis by auto
  qed
qed (simp add: needed_loop.simps)

subsection \<open>The symbol count of a GNU hash table\<close>

lemma gnu_max_bucket_max:
  assumes "\<And>i. i \<in> set is \<Longrightarrow> elem32 m (gnu_bucket img) (of_nat i) = Some (b i)"
  shows "\<exists>r. gnu_max_bucket m img is mx = Some r \<and> mx \<le> r \<and> (\<forall>i \<in> set is. b i \<le> r) \<and>
    (r = mx \<or> (\<exists>i \<in> set is. r = b i))"
  using assms
proof (induction "is" arbitrary: mx)
  case (Cons i "is")
  let ?mx = "if b i > mx then b i else mx"
  obtain r where r: "gnu_max_bucket m img is ?mx = Some r" "?mx \<le> r" "\<forall>j \<in> set is. b j \<le> r"
    "r = ?mx \<or> (\<exists>j \<in> set is. r = b j)"
    using Cons.IH [of ?mx] Cons.prems by auto
  with Cons.prems [of i] show ?case by (auto split: if_splits)
qed simp

lemma gnu_chain_end_step:
  assumes "elem32 m (gnu_chain img) (of_nat i) = Some c" "i < 2 ^ 32"
  shows "gnu_chain_end m img (of_nat i) =
    (if c AND 1 = 0 then gnu_chain_end m img (of_nat (Suc i)) else Some (of_nat i))"
proof -
  have "(of_nat i + 1 :: u32) = of_nat (Suc i)" by (simp add: add.commute)
  with assms show ?thesis
    by (subst gnu_chain_end.simps) (simp only: index_word(1) bind.bind_lunit)
qed

lemma gnu_run_at:
  "gnu_run m img syms s t \<Longrightarrow> s \<le> i \<Longrightarrow> i \<le> t \<Longrightarrow>
     \<exists>c. elem32 m (gnu_chain img) (of_nat i) = Some c \<and> (c AND 1 = 0 \<longleftrightarrow> i \<noteq> t)"
  unfolding gnu_run_def by blast

lemma gnu_chain_end_run:
  assumes "gnu_run m img syms s t" "length syms < 2 ^ 32" "s \<le> i" "i \<le> t"
  shows "gnu_chain_end m img (of_nat i) = Some (of_nat t)"
  using assms(3,4)
proof (induction "t - i" arbitrary: i)
  case (0 i)
  then obtain c where "elem32 m (gnu_chain img) (of_nat i) = Some c" "c AND 1 \<noteq> 0"
    using gnu_run_at [OF assms(1), of i] by auto
  moreover have "i = t" "i < 2 ^ 32" using 0 assms by (simp_all add: gnu_run_def)
  ultimately show ?case using gnu_chain_end_step by metis
next
  case (Suc n i)
  then obtain c where "elem32 m (gnu_chain img) (of_nat i) = Some c" "c AND 1 = 0"
    using gnu_run_at [OF assms(1), of i] by auto
  moreover have "i < 2 ^ 32" using Suc assms by (simp add: gnu_run_def)
  moreover have "gnu_chain_end m img (of_nat (Suc i)) = Some (of_nat t)"
    using Suc by (intro Suc.hyps(1)) auto
  ultimately show ?case using gnu_chain_end_step by metis
qed

lemma gnu_runs_nested:
  assumes "gnu_run m img syms s t" "gnu_run m img syms n t'" "n \<le> s"
  shows "t' \<le> t"
proof (rule ccontr)
  assume "\<not> t' \<le> t"
  with assms have "s \<le> t" "n \<le> t" "t \<le> t'" "t \<noteq> t'" by (auto simp: gnu_run_def)
  with assms(1,2) show False unfolding gnu_run_def by (metis option.inject le_refl)
qed

lemma gnu_bucket_bound: "gnu_nbucket img \<noteq> 0 \<Longrightarrow> unat (gnu_bucket_of img name) < unat (gnu_nbucket img)"
  by (simp add: gnu_bucket_of_def unat_mod unat_gt_0)

lemma derive_gnu_count:
  assumes ok: "gnu_table_ok m img syms" and e0: "exports syms name0 i0"
    and kind: "has_gnu_hash img" "sysv_bucket img = 0"
  shows "\<exists>c. derive_dynsym_count m img = Some c \<and> unat c \<le> length syms \<and>
    (\<forall>name i. exports syms name i \<longrightarrow> i < unat c)"
proof -
  define b where "b i = the (elem32 m (gnu_bucket img) (of_nat i))" for i
  have len: "length syms < 2 ^ 32" and nb: "gnu_nbucket img \<noteq> 0"
    using ok by (auto simp: gnu_table_ok_def symbols_at_def)
  have idx: "(of_nat k :: addr) < gnu_nbucket img" if "k < unat (gnu_nbucket img)" for k
    using that unsigned_less [of "gnu_nbucket img", where ?'a = nat]
    by (simp add: word_less_nat_alt unat_of_nat take_bit_nat_eq_self)
  have bucket: "elem32 m (gnu_bucket img) (of_nat k) = Some (b k) \<and>
      (if b k < gnu_symndx img then \<forall>name i. exports syms name i \<longrightarrow> gnu_bucket_of img name \<noteq> of_nat k
       else \<exists>t. gnu_run m img syms (unat (b k)) t \<and>
         (\<forall>name i. exports syms name i \<and> gnu_bucket_of img name = of_nat k \<longrightarrow> unat (b k) \<le> i \<and> i \<le> t))"
    if "k < unat (gnu_nbucket img)" for k
    using ok idx [OF that] unfolding gnu_table_ok_def b_def by fastforce
  have slot: "\<exists>k. k < unat (gnu_nbucket img) \<and> gnu_bucket_of img name = of_nat k" for name
    using nb gnu_bucket_bound [of img name] by (intro exI [of _ "unat (gnu_bucket_of img name)"]) simp
  have run: "\<exists>k t. k < unat (gnu_nbucket img) \<and> gnu_symndx img \<le> b k \<and> gnu_run m img syms (unat (b k)) t \<and> i \<le> t"
    if "exports syms name i" for name i
    using slot [of name] bucket that by (metis not_le)
  obtain r where r: "gnu_max_bucket m img [0..<unat (gnu_nbucket img)] (gnu_symndx img) = Some r"
    "gnu_symndx img \<le> r" "\<And>k. k < unat (gnu_nbucket img) \<Longrightarrow> b k \<le> r"
    "r = gnu_symndx img \<or> (\<exists>k < unat (gnu_nbucket img). r = b k)"
    using gnu_max_bucket_max [of "[0..<unat (gnu_nbucket img)]" m img b "gnu_symndx img"] bucket
    by (metis atLeastLessThan_iff le0 set_upt)
  obtain k where k: "k < unat (gnu_nbucket img)" "r = b k"
    using r(2-4) run [OF e0] by (metis order_antisym)
  obtain t where t: "gnu_run m img syms (unat r) t"
    using bucket [OF k(1)] k(2) r(2) by (auto simp: not_le [symmetric])
  have small: "Suc t \<le> length syms" "Suc t < 2 ^ 32" using t len by (auto simp: gnu_run_def)
  have "gnu_chain_end m img (of_nat (unat r)) = Some (of_nat t)"
    using t len by (intro gnu_chain_end_run) (auto simp: gnu_run_def)
  with r(1,2) kind nb have "derive_dynsym_count m img = Some (ucast (of_nat (Suc t) :: u32))"
    by (simp add: derive_dynsym_count_def word_gt_0 add.commute)
  moreover have "unat (ucast (of_nat (Suc t) :: u32) :: addr) = Suc t"
    using small(2) by (subst index_word(1)) (simp_all add: unat_of_nat take_bit_nat_eq_self del: of_nat_Suc)
  moreover have "i \<le> t" if e: "exports syms name i" for name i
  proof -
    obtain k' t' where "k' < unat (gnu_nbucket img)" "gnu_run m img syms (unat (b k')) t'" "i \<le> t'"
      using run [OF e] by blast
    with gnu_runs_nested [OF t] r(3) show ?thesis by (meson order_trans word_le_nat_alt)
  qed
  ultimately show ?thesis using small(1) by (metis less_Suc_eq_le)
qed

lemma ParseDynamic_True:
  assumes "ParseDynamic st = Some (True, st')"
  shows "\<exists>phs j plt n names. mapped_phdrs (ls_vm st) (ls_img st) = Some phs \<and>
    (let d = find_dynamic (ls_img st) phs in
       dyn_loop (ls_vm st) d ((ls_img st)\<lparr>im_dynamic := d\<rparr>) 0 = Some (DynGo j plt)) \<and>
    strtab j \<noteq> 0 \<and> symtab j \<noteq> 0 \<and>
    needed_loop (ls_vm st) (strtab j) (im_dynamic j) (needed_names j) = Some names \<and>
    st' = st\<lparr>ls_img := j\<lparr>plt_is_rela := (plt = DT_RELA), dynsym_count := n, needed_names := names\<rparr>\<rparr>"
proof -
  from assms obtain phs r where phs: "mapped_phdrs (ls_vm st) (ls_img st) = Some phs"
    and r: "dyn_loop (ls_vm st) (find_dynamic (ls_img st) phs)
      ((ls_img st)\<lparr>im_dynamic := find_dynamic (ls_img st) phs\<rparr>) 0 = Some r"
    by (auto simp: ParseDynamic_def Let_def bind_eq_Some_conv split: if_splits)
  with assms show ?thesis
    by (cases r) (auto simp: ParseDynamic_def Let_def bind_eq_Some_conv split: if_splits)
qed

text \<open>The GNU table does not depend on the System V one.\<close>

lemma gnu_table_ok_sysv [simp]: "gnu_table_ok m (img\<lparr>sysv_bucket := x\<rparr>) = gnu_table_ok m img"
proof -
  have "gnu_run m (img\<lparr>sysv_bucket := x\<rparr>) = gnu_run m img" "sym_rel m (img\<lparr>sysv_bucket := x\<rparr>) = sym_rel m img"
    "gnu_bucket_of (img\<lparr>sysv_bucket := x\<rparr>) = gnu_bucket_of img"
    by (simp_all add: fun_eq_iff gnu_run_def sym_rel_def gnu_bucket_of_def)
  then show ?thesis by (intro ext) (simp add: gnu_table_ok_def symbols_at_def)
qed

subsection \<open>The sample module\<close>

lemmas dyn_eval = load_word_def load_bytes_numeral load8_def dyn_mem_def PROT_READ_def

lemma dyn_sample_at:
  "tag = 1 \<or> tag = 22 \<Longrightarrow> dyn_at (dyn_mem tag) 0x2040 (dyn_list (ucast tag))"
  by (auto simp: dyn_list_def dyn_eval DT_NULL_def)

lemma dyn_sample_phdrs:
  "\<exists>ph. mapped_phdrs (dyn_mem tag) (ls_img (dyn_state tag)) = Some [ph] \<and>
     find_dynamic (ls_img (dyn_state tag)) [ph] = 0x2040"
  by (simp add: mapped_phdrs_def dyn_state_def load_phdr_def dyn_eval phdr_of_def field_def
      find_dynamic_def new_image_def)

lemma dyn_sample_parses: "\<exists>st'. ParseDynamic (dyn_state 1) = Some (True, st')"
proof -
  obtain ph where ph: "mapped_phdrs (dyn_mem 1) (ls_img (dyn_state 1)) = Some [ph]"
    "find_dynamic (ls_img (dyn_state 1)) [ph] = 0x2040" using dyn_sample_phdrs by blast
  let ?img = "(ls_img (dyn_state 1))\<lparr>im_dynamic := 0x2040\<rparr>"
  have loop: "dyn_loop (dyn_mem 1) 0x2040 ?img 0 = dyn_run (dyn_mem 1) (dyn_list 1) ?img 0"
    using dyn_sample_at [of 1] by (intro dyn_loop_run) simp
  have str: "load_cstr (dyn_mem 1) 0x2091 = Some [0x61]"
    by (simp add: load_cstr.simps [where p = "0x2091"] load_cstr.simps [where p = "0x2092"] dyn_eval)
  have needed: "needed_loop (dyn_mem 1) 0x2090 0x2040 [] = Some [[0x61]]"
    using str
    by (simp add: needed_loop.simps [where d = "0x2040"] needed_loop.simps [where d = "0x2050"]
        needed_loop.simps [where d = "0x2060"] needed_loop.simps [where d = "0x2070"] dt_defs dyn_eval)
  show ?thesis
    using ph loop needed
    by (simp add: ParseDynamic_def dyn_state_def dyn_list_def dyn_entry_def dt_defs Let_def new_image_def
        derive_dynsym_count_def)
qed

section \<open>Properties\<close>



text \<open>
  a module that announces text relocations, by a DT_TEXTREL entry or by the flag in DT_FLAGS,
  anywhere in its dynamic section, is refused as unsupported (so that the caller can fall back to
  the system linker) and the memory is left as it was.
\<close>

theorem textrel_refused:
  assumes "mapped_phdrs (ls_vm st) (ls_img st) = Some phs" "find_dynamic (ls_img st) phs \<noteq> 0"
    and "dyn_at (ls_vm st) (find_dynamic (ls_img st) phs) es"
    and "hashes_readable (ls_vm st) (load_bias (ls_img st)) es" "has_textrel es"
  shows "\<exists>st'. ParseDynamic st = Some (False, st') \<and> ls_err st' = kUnsupported \<and> ls_vm st' = ls_vm st"
proof -
  let ?i = "(ls_img st)\<lparr>im_dynamic := find_dynamic (ls_img st) phs\<rparr>"
  obtain i where "dyn_run (ls_vm st) es ?i 0 = Some (DynRefuse i)"
    using dyn_run_textrel [of "ls_vm st" ?i es 0] assms(4,5) by auto
  then show ?thesis
    using assms(1,2) dyn_loop_run [OF assms(3), of ?i 0] by (simp add: ParseDynamic_def Let_def)
qed

theorem textrel_refused_witness:
  "\<exists>st'. ParseDynamic (dyn_state 22) = Some (False, st') \<and> ls_err st' = kUnsupported"
proof -
  obtain ph where ph: "mapped_phdrs (dyn_mem 22) (ls_img (dyn_state 22)) = Some [ph]"
    "find_dynamic (ls_img (dyn_state 22)) [ph] = 0x2040" using dyn_sample_phdrs by blast
  with textrel_refused [of "dyn_state 22" "[ph]" "dyn_list 22"] dyn_sample_at [of 22] show ?thesis
    by (auto simp: dyn_state_def dyn_list_def has_textrel_def hashes_readable_def dt_defs)
qed

text \<open>
  when the only hash table is a GNU one that is in order and some symbol is exported, the
  symbol count derived from its buckets and chains covers every exported symbol and does not run
  past the symbol table.
\<close>

theorem dynsym_count_covers:
  assumes "gnu_table_ok m img syms" "exports syms name0 i0" "has_gnu_hash img" "sysv_bucket img = 0"
  shows "\<exists>c. derive_dynsym_count m img = Some c \<and> unat c \<le> length syms \<and>
    (\<forall>name i. exports syms name i \<longrightarrow> i < unat c)"
  by (rule derive_gnu_count [OF assms])

theorem dynsym_count_covers_witness:
  "\<exists>c. derive_dynsym_count sample_mem (sample_image\<lparr>sysv_bucket := 0\<rparr>) = Some c \<and> unat c = 2"
proof -
  have "gnu_table_ok sample_mem (sample_image\<lparr>sysv_bucket := 0\<rparr>) sample_syms"
    using sample_gnu by simp
  then have "\<exists>c. derive_dynsym_count sample_mem (sample_image\<lparr>sysv_bucket := 0\<rparr>) = Some c \<and>
      unat c \<le> length sample_syms \<and> (\<forall>name i. exports sample_syms name i \<longrightarrow> i < unat c)"
    by (rule dynsym_count_covers [of _ _ _ "[0x66]" 1])
      (simp_all add: exports_def sample_syms_def sample_image_def)
  moreover have "exports sample_syms [0x66] 1" by (simp add: exports_def sample_syms_def)
  ultimately show ?thesis by (force simp: sample_syms_def)
qed

text \<open>
  a GNU hash table without any hashed symbol (every bucket empty) makes the count read the
  word after the last bucket, which is not part of the table; when that word is not readable the
  load crashes instead of counting \<open>symndx\<close> symbols, the answer of the unreachable branch.
\<close>

theorem empty_gnu_table_overreads:
  assumes "has_gnu_hash img" "sysv_bucket img = 0" "0 < gnu_nbucket img"
    and "gnu_chain img = gnu_bucket img + 4 * (gnu_nbucket img - ucast (gnu_symndx img))"
    and "\<And>i. i < unat (gnu_nbucket img) \<Longrightarrow> elem32 m (gnu_bucket img) (of_nat i) = Some 0"
    and "load_u32 m (gnu_bucket img + 4 * gnu_nbucket img) = None"
  shows "derive_dynsym_count m img = None"
proof -
  obtain r where r: "gnu_max_bucket m img [0..<unat (gnu_nbucket img)] (gnu_symndx img) = Some r"
    "gnu_symndx img \<le> r" "r = gnu_symndx img \<or> r = 0"
    using gnu_max_bucket_max [of "[0..<unat (gnu_nbucket img)]" m img "\<lambda>_. 0" "gnu_symndx img"]
      assms(5) by auto
  then have "r = gnu_symndx img" by auto
  moreover have "gnu_chain_end m img (gnu_symndx img) = None"
    using assms(4,6) by (subst gnu_chain_end.simps) (simp add: elem32_def algebra_simps)
  ultimately show ?thesis using r(1) assms(1-3) by (simp add: derive_dynsym_count_def)
qed

theorem empty_gnu_table_overreads_witness:
  "derive_dynsym_count (sample_vm [0, 0, 0, 0] 0x1000) (new_image\<lparr>has_gnu_hash := True,
     gnu_nbucket := 1, gnu_symndx := 1, gnu_bucket := 0x1000, gnu_chain := 0x1000\<rparr>) = None"
  by (rule empty_gnu_table_overreads)
    (simp_all add: new_image_def elem32_def load_word_def load_bytes_numeral load8_def sample_vm_def PROT_READ_def)

end
