(* ===== verification/Packed_Reloc.thy ===== *)
theory Packed_Reloc
  imports Prelude
begin

text \<open>
  The compressed relocation streams of \<open>linker/relocate.cpp\<close>: signed LEB128 numbers, the
  APS2 (packed Android) stream and the RELR table.  The emit callbacks of the source are
  modelled by the list of calls they receive, in order.  A shift by 64 or more, which C++
  leaves undefined, is the outcome \<open>Undef\<close>; a loop that never ends is \<open>Diverges\<close>.  The
  64-bit additions wrap.
\<close>

section \<open>Definitions\<close>

datatype 'a outcome = Returns 'a | Undef | Diverges

type_synonym reloc = "addr \<times> 64 word \<times> 64 word"

text \<open>\<open>ReadSleb128\<close>: the remaining bytes stand for the pair of pointers \<open>p\<close>, \<open>end\<close>.\<close>

fun sleb_loop :: "64 word \<Rightarrow> nat \<Rightarrow> byte list \<Rightarrow> (64 word \<times> byte list) option" where
  "sleb_loop v shift [] = Some (v, [])"
| "sleb_loop v shift (b # p) =
     (if 64 \<le> shift then None
      else let v' = v OR push_bit shift (ucast (b AND 0x7f)); shift' = shift + 7
           in if b AND 0x80 \<noteq> 0 then sleb_loop v' shift' p
              else Some (if shift' < 64 \<and> b AND 0x40 \<noteq> 0 then v' OR (- push_bit shift' 1) else v', p))"

definition ReadSleb128 :: "byte list \<Rightarrow> (64 word \<times> byte list) option" where
  "ReadSleb128 p = sleb_loop 0 0 p"

definition kGroupedByInfo :: "64 word" where "kGroupedByInfo = 1"
definition kGroupedByOffsetDelta :: "64 word" where "kGroupedByOffsetDelta = 2"
definition kGroupedByAddend :: "64 word" where "kGroupedByAddend = 4"
definition kGroupHasAddend :: "64 word" where "kGroupHasAddend = 8"

text \<open>The locals of \<open>ForEachPackedReloc\<close> that live across groups, and the calls of \<open>emit\<close>.\<close>

record aps2_state =
  ap_rest :: "byte list"
  ap_idx :: "64 word"
  ap_offset :: addr
  ap_info :: "64 word"
  ap_addend :: "64 word"
  ap_out :: "reloc list"

definition read_if :: "bool \<Rightarrow> 64 word \<Rightarrow> byte list \<Rightarrow> (64 word \<times> byte list) option" where
  "read_if c d p = (if c then ReadSleb128 p else Some (d, p))"

text \<open>The inner loop: one iteration per relocation of the group.\<close>

primrec aps2_entries :: "nat \<Rightarrow> 64 word \<Rightarrow> addr \<Rightarrow> aps2_state \<Rightarrow> aps2_state option" where
  "aps2_entries 0 flags group_delta st = Some st"
| "aps2_entries (Suc n) flags group_delta st = do {
     (d, p) \<leftarrow> read_if (flags AND kGroupedByOffsetDelta = 0) group_delta (ap_rest st);
     (info, p) \<leftarrow> read_if (flags AND kGroupedByInfo = 0) (ap_info st) p;
     (a, p) \<leftarrow> read_if (flags AND kGroupHasAddend \<noteq> 0 \<and> flags AND kGroupedByAddend = 0) 0 p;
     let r_offset = ap_offset st + d; r_addend = ap_addend st + a in
     aps2_entries n flags group_delta
       (st\<lparr>ap_rest := p, ap_offset := r_offset, ap_info := info, ap_addend := r_addend,
           ap_out := ap_out st @ [(r_offset, info, r_addend)]\<rparr>) }"

text \<open>The body of the outer loop: a group header and its relocations.\<close>

definition aps2_group :: "aps2_state \<Rightarrow> aps2_state option" where
  "aps2_group st = do {
     (group_size, p) \<leftarrow> ReadSleb128 (ap_rest st);
     (flags, p) \<leftarrow> ReadSleb128 p;
     (group_delta, p) \<leftarrow> read_if (flags AND kGroupedByOffsetDelta \<noteq> 0) 0 p;
     (r_info, p) \<leftarrow> read_if (flags AND kGroupedByInfo \<noteq> 0) (ap_info st) p;
     let has_addend = flags AND kGroupHasAddend \<noteq> 0;
     (a, p) \<leftarrow> read_if (has_addend \<and> flags AND kGroupedByAddend \<noteq> 0) 0 p;
     let r_addend = (if has_addend then ap_addend st + a else 0);
     st' \<leftarrow> aps2_entries (nat (sint group_size)) flags group_delta
              (st\<lparr>ap_rest := p, ap_info := r_info, ap_addend := r_addend\<rparr>);
     Some (st'\<lparr>ap_idx := ap_idx st' + group_size\<rparr>) }"

definition aps2_more :: "64 word \<Rightarrow> aps2_state option \<Rightarrow> bool" where
  "aps2_more n_total s = (case s of None \<Rightarrow> False | Some st \<Rightarrow> sint (ap_idx st) < sint n_total)"

definition aps2_loop :: "64 word \<Rightarrow> aps2_state \<Rightarrow> aps2_state option option" where
  "aps2_loop n_total st =
     while_option (aps2_more n_total) (\<lambda>s. Option.bind s aps2_group) (Some st)"

definition aps2_magic :: "byte list" where
  "aps2_magic = [0x41, 0x50, 0x53, 0x32]"

definition ForEachPackedReloc :: "byte list \<Rightarrow> (bool \<times> reloc list) outcome" where
  "ForEachPackedReloc stream =
     (if length stream < 4 \<or> take 4 stream \<noteq> aps2_magic then Returns (False, [])
      else case do { (n_total, p) \<leftarrow> ReadSleb128 (drop 4 stream);
                     (r_offset, p) \<leftarrow> ReadSleb128 p;
                     Some (n_total, r_offset, p) } of
        None \<Rightarrow> Undef
      | Some (n_total, r_offset, p) \<Rightarrow>
          (case aps2_loop n_total \<lparr>ap_rest = p, ap_idx = 0, ap_offset = r_offset, ap_info = 0,
                                ap_addend = 0, ap_out = []\<rparr> of
             None \<Rightarrow> Diverges
           | Some None \<Rightarrow> Undef
           | Some (Some st) \<Rightarrow> Returns (True, ap_out st)))"

text \<open>\<open>ForEachRelr\<close>: the loop over the bits of a bitmap entry, then the loop over entries.\<close>

function relr_bits :: "addr \<Rightarrow> 64 word \<Rightarrow> addr list" where
  "relr_bits where1 bits =
     (if bits = 0 then []
      else (if bits AND 1 \<noteq> 0 then [where1] else []) @ relr_bits (where1 + 8) (drop_bit 1 bits))"
  by pat_completeness auto
termination
proof (relation "measure (\<lambda>(w, b). unat b)")
  fix w :: addr and bits :: "64 word"
  assume "bits \<noteq> 0"
  then have "unat bits div 2 < unat bits" by (simp add: unat_gt_0)
  then show "((w + 8, drop_bit 1 bits), (w, bits)) \<in> measure (\<lambda>(w, b). unat b)"
    by (simp add: drop_bit_Suc unat_div)
qed simp

fun relr_loop :: "addr \<Rightarrow> addr \<Rightarrow> 64 word list \<Rightarrow> addr list" where
  "relr_loop load_bias base [] = []"
| "relr_loop load_bias base (entry # table) =
     (if entry AND 1 = 0
      then (load_bias + entry) # relr_loop load_bias (load_bias + entry + 8) table
      else relr_bits base (drop_bit 1 entry) @ relr_loop load_bias (base + 8 * 63) table)"

definition ForEachRelr :: "64 word list \<Rightarrow> addr \<Rightarrow> addr list" where
  "ForEachRelr table load_bias = relr_loop load_bias 0 table"

section \<open>The reference encoders\<close>

text \<open>Signed LEB128 of an integer: seven bits at a time, the last byte's bit 6 the sign.\<close>

function sleb_encode :: "int \<Rightarrow> byte list" where
  "sleb_encode x =
     (if - 64 \<le> x \<and> x < 64 then [word_of_int (x mod 128)]
      else word_of_int (x mod 128 + 128) # sleb_encode (x div 128))"
  by pat_completeness auto
termination
  by (relation "measure (\<lambda>x. nat \<bar>x\<bar>)") auto

abbreviation sleb_word :: "64 word \<Rightarrow> byte list" where
  "sleb_word w \<equiv> sleb_encode (sint w)"

text \<open>
  The meaning of an APS2 stream, independent of its bytes: a list of groups, each with an
  optional shared offset delta, an optional shared info word and an addend mode.  The
  accumulator holds offset, info and addend, and is carried through the whole stream.
\<close>

datatype addend_mode = NoAddend | SharedAddend "64 word" | EachAddend

record group_spec =
  gs_delta :: "64 word option"
  gs_info :: "64 word option"
  gs_mode :: addend_mode
  gs_entries :: "(64 word \<times> 64 word \<times> 64 word) list"

fun entries_meaning :: "group_spec \<Rightarrow> reloc \<Rightarrow> (64 word \<times> 64 word \<times> 64 word) list \<Rightarrow> reloc list" where
  "entries_meaning g acc [] = []"
| "entries_meaning g (off, info, add) ((d, i, a) # es) =
     (let acc = (off + (case gs_delta g of Some d' \<Rightarrow> d' | None \<Rightarrow> d),
                 (case gs_info g of Some i' \<Rightarrow> i' | None \<Rightarrow> i),
                 (if gs_mode g = EachAddend then add + a else add))
      in acc # entries_meaning g acc es)"

definition group_start :: "group_spec \<Rightarrow> reloc \<Rightarrow> reloc" where
  "group_start g acc = (case acc of (off, info, add) \<Rightarrow>
     (off, (case gs_info g of Some i \<Rightarrow> i | None \<Rightarrow> info),
      (case gs_mode g of NoAddend \<Rightarrow> 0 | SharedAddend a \<Rightarrow> add + a | EachAddend \<Rightarrow> add)))"

definition group_meaning :: "group_spec \<Rightarrow> reloc \<Rightarrow> reloc list" where
  "group_meaning g acc = entries_meaning g (group_start g acc) (gs_entries g)"

fun stream_meaning :: "reloc \<Rightarrow> group_spec list \<Rightarrow> reloc list" where
  "stream_meaning acc [] = []"
| "stream_meaning acc (g # gs) =
     (let rs = group_meaning g acc in rs @ stream_meaning (last (group_start g acc # rs)) gs)"

definition group_flags :: "group_spec \<Rightarrow> 64 word" where
  "group_flags g = (if gs_info g = None then 0 else 1) OR (if gs_delta g = None then 0 else 2) OR
     (case gs_mode g of NoAddend \<Rightarrow> 0 | SharedAddend _ \<Rightarrow> 12 | EachAddend \<Rightarrow> 8)"

definition entry_bytes :: "group_spec \<Rightarrow> 64 word \<times> 64 word \<times> 64 word \<Rightarrow> byte list" where
  "entry_bytes g e = (case e of (d, i, a) \<Rightarrow>
     (if gs_delta g = None then sleb_word d else []) @
     (if gs_info g = None then sleb_word i else []) @
     (if gs_mode g = EachAddend then sleb_word a else []))"

definition group_bytes :: "group_spec \<Rightarrow> byte list" where
  "group_bytes g = sleb_word (of_nat (length (gs_entries g))) @ sleb_word (group_flags g) @
     (case gs_delta g of Some d \<Rightarrow> sleb_word d | None \<Rightarrow> []) @
     (case gs_info g of Some i \<Rightarrow> sleb_word i | None \<Rightarrow> []) @
     (case gs_mode g of SharedAddend a \<Rightarrow> sleb_word a | _ \<Rightarrow> []) @
     concat (map (entry_bytes g) (gs_entries g))"

definition stream_bytes :: "addr \<Rightarrow> group_spec list \<Rightarrow> byte list" where
  "stream_bytes off gs = aps2_magic @
     sleb_word (of_nat (sum_list (map (length \<circ> gs_entries) gs))) @ sleb_word off @
     concat (map group_bytes gs)"

text \<open>Any relocation list as one ungrouped group of deltas.\<close>

definition pack_group :: "reloc list \<Rightarrow> group_spec" where
  "pack_group rs = \<lparr>gs_delta = None, gs_info = None, gs_mode = EachAddend,
     gs_entries = map2 (\<lambda>(o0, i0, a0) (o1, i1, a1). (o1 - o0, i1, a1 - a0)) ((0, 0, 0) # butlast rs) rs\<rparr>"

text \<open>The running offset, info and addend of the decoder.\<close>

definition acc_of :: "aps2_state \<Rightarrow> reloc" where
  "acc_of st = (ap_offset st, ap_info st, ap_addend st)"

text \<open>
  A RELR run: an address entry and the bitmap entries that follow it.  Bit \<open>i + 1\<close> of the
  \<open>k\<close>-th bitmap stands for the word \<open>1 + 63 * k + i\<close> after the address.
\<close>

definition relr_slots :: "addr \<Rightarrow> 64 word \<Rightarrow> addr list" where
  "relr_slots base entry = map (\<lambda>i. base + 8 * of_nat i) (filter (\<lambda>i. bit entry (Suc i)) [0..<63])"

fun relr_bitmaps_meaning :: "addr \<Rightarrow> 64 word list \<Rightarrow> addr list" where
  "relr_bitmaps_meaning base [] = []"
| "relr_bitmaps_meaning base (e # es) = relr_slots base e @ relr_bitmaps_meaning (base + 8 * 63) es"

definition relr_meaning :: "addr \<Rightarrow> (64 word \<times> 64 word list) list \<Rightarrow> addr list" where
  "relr_meaning load_bias runs =
     concat (map (\<lambda>(a, es). (load_bias + a) # relr_bitmaps_meaning (load_bias + a + 8) es) runs)"

definition relr_table :: "(64 word \<times> 64 word list) list \<Rightarrow> 64 word list" where
  "relr_table runs = concat (map (\<lambda>(a, es). a # es) runs)"

declare sleb_encode.simps [simp del] relr_bits.simps [simp del]


section \<open>Signed LEB128\<close>

text \<open>The flag bits of a LEB128 byte, checked on each of the 128 digits.\<close>

lemma sleb_digits:
  "list_all (\<lambda>d. (word_of_int d :: byte) AND 0x80 = 0
     \<and> ucast ((word_of_int d :: byte) AND 0x7f) = (word_of_int d :: 64 word)
     \<and> ((word_of_int d :: byte) AND 0x40 \<noteq> 0 \<longleftrightarrow> 64 \<le> d)
     \<and> (word_of_int (d + 128) :: byte) AND 0x80 \<noteq> 0
     \<and> ucast ((word_of_int (d + 128) :: byte) AND 0x7f) = (word_of_int d :: 64 word))
   [0..127]"
  by code_simp

lemma sleb_digit:
  assumes "0 \<le> d" "d < 128"
  shows "(word_of_int d :: byte) AND 0x80 = 0"
    and "ucast ((word_of_int d :: byte) AND 0x7f) = (word_of_int d :: 64 word)"
    and "(word_of_int d :: byte) AND 0x40 \<noteq> 0 \<longleftrightarrow> 64 \<le> d"
    and "(word_of_int (d + 128) :: byte) AND 0x80 \<noteq> 0"
    and "ucast ((word_of_int (d + 128) :: byte) AND 0x7f) = (word_of_int d :: 64 word)"
  using sleb_digits assms by (simp_all add: list_all_iff)

lemma or_shifted_digit:
  fixes v :: "64 word"
  assumes "unat v < 2 ^ k"
  shows "v OR push_bit k w = v + push_bit k w"
proof -
  have "v = take_bit k v"
    using assms by (metis take_bit_nat_eq_self unsigned_take_bit_eq unsigned_word_eqI)
  then have "v AND push_bit k w = 0"
    by (intro bit_word_eqI) (metis bit_and_iff bit_push_bit_iff bit_take_bit_iff bit_0_eq bot_apply bot_bool_def linorder_not_le)
  then show ?thesis by (simp add: disjunctive_add_eq_or)
qed

lemma add_shifted_digit_less:
  fixes v :: "64 word"
  assumes "unat v < 2 ^ k" "k + 7 < 64" "0 \<le> d" "d < 128"
  shows "unat (v + push_bit k (word_of_int d)) < 2 ^ (k + 7)"
proof -
  have "nat d \<le> 127" using assms(3,4) by simp
  then have "nat d * 2 ^ k \<le> 127 * 2 ^ k" by (rule mult_le_mono1)
  with assms(1) have "unat v + nat d * 2 ^ k < 2 ^ k + 127 * 2 ^ k" by (rule add_less_le_mono)
  then have s: "unat v + nat d * 2 ^ k < 2 ^ (k + 7)" by (simp add: power_add)
  have "v + push_bit k (word_of_int d) = of_nat (unat v + nat d * 2 ^ k)"
    using assms(3) by (simp add: push_bit_eq_mult)
  then have "unat (v + push_bit k (word_of_int d)) \<le> unat v + nat d * 2 ^ k"
    by (simp only: unat_of_nat mod_less_eq_dividend)
  with s show ?thesis by simp
qed

lemma word_shift_split:
  "push_bit k (word_of_int (x mod 128)) + push_bit (k + 7) (word_of_int (x div 128)) =
   (push_bit k (word_of_int x) :: 64 word)"
proof -
  have "word_of_int (x mod 128) + 128 * word_of_int (x div 128) =
        (word_of_int (x mod 128 + 128 * (x div 128)) :: 64 word)"
    by (simp only: of_int_add of_int_mult of_int_numeral)
  also have "\<dots> = word_of_int x" by simp
  finally have "word_of_int x = word_of_int (x mod 128) + (128 :: 64 word) * word_of_int (x div 128)"
    by simp
  then show ?thesis
    by (simp only: push_bit_eq_mult power_add) (simp add: algebra_simps)
qed

lemma sleb_loop_encode:
  assumes "unat v < 2 ^ k" "k < 64" "- (2 ^ (63 - k)) \<le> x" "x < 2 ^ (63 - k)"
  shows "sleb_loop v k (sleb_encode x @ rest) = Some (v + push_bit k (word_of_int x), rest)"
  using assms
proof (induction x arbitrary: v k rule: sleb_encode.induct)
  case (1 x)
  let ?d = "x mod 128"
  let ?w = "push_bit k (word_of_int ?d) :: 64 word"
  note dig = sleb_digit [of ?d]
  show ?case
  proof (cases "- 64 \<le> x \<and> x < 64")
    case True
    then have neg: "64 \<le> ?d \<longleftrightarrow> x < 0" and q: "x div 128 = (if x < 0 then - 1 else 0)"
      by presburger+
    have "v + ?w + (if k + 7 < 64 \<and> x < 0 then push_bit (k + 7) (- 1) else 0) =
          v + push_bit k (word_of_int x)"
      using word_shift_split [of k x] q by (auto simp: add.assoc)
    moreover have "(v + ?w) OR push_bit (k + 7) (- 1) = v + ?w + push_bit (k + 7) (- 1)"
      if "k + 7 < 64"
      using 1 that by (intro or_shifted_digit add_shifted_digit_less) auto
    ultimately show ?thesis
      using True 1 dig neg
      by (auto simp: sleb_encode.simps [of x] Let_def or_shifted_digit minus_exp_eq_not_mask split: if_splits)
  next
    case False
    have k: "k + 7 < 64"
    proof (rule ccontr)
      assume "\<not> k + 7 < 64"
      then have "(2::int) ^ (63 - k) \<le> 2 ^ 6" by (intro power_increasing) auto
      with False 1 show False by auto
    qed
    then have "63 - k = (63 - (k + 7)) + 7" by simp
    then have p: "(2::int) ^ (63 - k) = 2 ^ (63 - (k + 7)) * 128" by (simp only: power_add) simp
    have "- (2 ^ (63 - (k + 7))) \<le> x div 128" "x div 128 < 2 ^ (63 - (k + 7))"
      using 1(4,5) p by auto
    with 1 False k have "sleb_loop (v + ?w) (k + 7) (sleb_encode (x div 128) @ rest) =
        Some (v + ?w + push_bit (k + 7) (word_of_int (x div 128)), rest)"
      by (intro 1(1)) (auto intro: add_shifted_digit_less)
    moreover from False have "sleb_encode x = word_of_int (?d + 128) # sleb_encode (x div 128)"
      by (auto simp: sleb_encode.simps [of x])
    ultimately show ?thesis
      using 1(2,3) dig word_shift_split [of k x]
      by (simp add: Let_def or_shifted_digit add.assoc)
  qed
qed


text \<open>
  An encoded 64-bit number is read back, and only its own bytes are consumed.
\<close>

lemma ReadSleb128_encode: "ReadSleb128 (sleb_encode (sint w) @ rest) = Some (w, rest)"
  using sleb_loop_encode [of 0 0 "sint w" rest] sint_greater_eq [of w] sint_lt [of w]
  by (simp add: ReadSleb128_def)

interpretation sleb: codec "\<lambda>w :: 64 word. sleb_encode (sint w)" ReadSleb128
  by unfold_locales (rule ReadSleb128_encode)

lemma ReadSleb128_nil [simp]: "ReadSleb128 [] = Some (0, [])"
  by (simp add: ReadSleb128_def)

section \<open>The APS2 stream\<close>

lemma group_flags_tests:
  "group_flags g AND kGroupedByInfo = 0 \<longleftrightarrow> gs_info g = None"
  "group_flags g AND kGroupedByOffsetDelta = 0 \<longleftrightarrow> gs_delta g = None"
  "group_flags g AND kGroupHasAddend = 0 \<longleftrightarrow> gs_mode g = NoAddend"
  "group_flags g AND kGroupedByAddend = 0 \<longleftrightarrow> gs_mode g = NoAddend \<or> gs_mode g = EachAddend"
  by (cases "gs_mode g"; cases "gs_info g"; cases "gs_delta g";
      simp add: group_flags_def kGroupedByInfo_def kGroupedByOffsetDelta_def kGroupHasAddend_def
        kGroupedByAddend_def)+

lemma read_if_sleb [simp]:
  "read_if True d (sleb_word w @ rest) = Some (w, rest)" "read_if False d p = Some (d, p)"
  by (simp_all add: read_if_def ReadSleb128_encode)

lemma acc_of_idx [simp]: "acc_of (st\<lparr>ap_idx := k\<rparr>) = acc_of st"
  by (simp add: acc_of_def)

lemma aps2_entries_meaning:
  assumes "ap_rest st = concat (map (entry_bytes g) es) @ rest"
    and "gs_delta g = None \<or> gs_delta g = Some gd"
    and "\<And>i. gs_info g = Some i \<Longrightarrow> ap_info st = i"
  shows "\<exists>st'. aps2_entries (length es) (group_flags g) gd st = Some st'
     \<and> ap_rest st' = rest \<and> ap_idx st' = ap_idx st
     \<and> ap_out st' = ap_out st @ entries_meaning g (acc_of st) es
     \<and> acc_of st' = last (acc_of st # entries_meaning g (acc_of st) es)"
  using assms
proof (induction es arbitrary: st)
  case (Cons e es)
  obtain d i a where e: "e = (d, i, a)" by (cases e)
  let ?off = "ap_offset st + (case gs_delta g of Some d' \<Rightarrow> d' | None \<Rightarrow> d)"
  let ?info = "case gs_info g of Some i' \<Rightarrow> i' | None \<Rightarrow> i"
  let ?add = "if gs_mode g = EachAddend then ap_addend st + a else ap_addend st"
  let ?st = "st\<lparr>ap_rest := concat (map (entry_bytes g) es) @ rest, ap_offset := ?off,
    ap_info := ?info, ap_addend := ?add, ap_out := ap_out st @ [(?off, ?info, ?add)]\<rparr>"
  have step: "aps2_entries (length (e # es)) (group_flags g) gd st =
      aps2_entries (length es) (group_flags g) gd ?st"
    using Cons.prems e
    by (cases "gs_mode g"; cases "gs_info g"; cases "gs_delta g")
      (simp_all add: entry_bytes_def [of g "(d, i, a)"] group_flags_tests Let_def)
  obtain st' where "aps2_entries (length es) (group_flags g) gd ?st = Some st'"
    "ap_rest st' = rest" "ap_idx st' = ap_idx ?st"
    "ap_out st' = ap_out ?st @ entries_meaning g (acc_of ?st) es"
    "acc_of st' = last (acc_of ?st # entries_meaning g (acc_of ?st) es)"
    using Cons.IH [of ?st] Cons.prems by auto
  then show ?case
    using step e by (simp add: acc_of_def Let_def)
qed simp

lemma sint_small_nat: "n < 2 ^ 63 \<Longrightarrow> sint (of_nat n :: 64 word) = int n"
  by (simp add: signed_of_nat signed_take_bit_int_eq_self)

lemma aps2_group_meaning:
  assumes "ap_rest st = group_bytes g @ rest" "length (gs_entries g) < 2 ^ 63"
  shows "\<exists>st'. aps2_group st = Some st' \<and> ap_rest st' = rest
     \<and> ap_idx st' = ap_idx st + of_nat (length (gs_entries g))
     \<and> ap_out st' = ap_out st @ group_meaning g (acc_of st)
     \<and> acc_of st' = last (group_start g (acc_of st) # group_meaning g (acc_of st))"
proof -
  let ?gd = "case gs_delta g of Some d \<Rightarrow> d | None \<Rightarrow> 0"
  let ?st = "st\<lparr>ap_rest := concat (map (entry_bytes g) (gs_entries g)) @ rest,
    ap_info := (case gs_info g of Some i \<Rightarrow> i | None \<Rightarrow> ap_info st),
    ap_addend := (case gs_mode g of NoAddend \<Rightarrow> 0 | SharedAddend a \<Rightarrow> ap_addend st + a
                  | EachAddend \<Rightarrow> ap_addend st)\<rparr>"
  have start: "acc_of ?st = group_start g (acc_of st)"
    by (simp add: acc_of_def group_start_def)
  have "\<exists>st'. aps2_entries (length (gs_entries g)) (group_flags g) ?gd ?st = Some st'
    \<and> ap_rest st' = rest \<and> ap_idx st' = ap_idx ?st
    \<and> ap_out st' = ap_out ?st @ entries_meaning g (acc_of ?st) (gs_entries g)
    \<and> acc_of st' = last (acc_of ?st # entries_meaning g (acc_of ?st) (gs_entries g))"
    by (rule aps2_entries_meaning) (auto split: option.splits)
  then obtain st' where
    st': "aps2_entries (length (gs_entries g)) (group_flags g) ?gd ?st = Some st'"
    "ap_rest st' = rest" "ap_idx st' = ap_idx ?st"
    "ap_out st' = ap_out ?st @ entries_meaning g (acc_of ?st) (gs_entries g)"
    "acc_of st' = last (acc_of ?st # entries_meaning g (acc_of ?st) (gs_entries g))" by blast
  have len: "nat (sint (of_nat (length (gs_entries g)) :: 64 word)) = length (gs_entries g)"
    using assms(2) by (simp add: sint_small_nat)
  have "aps2_group st = do { st' \<leftarrow> aps2_entries (length (gs_entries g)) (group_flags g) ?gd ?st;
      Some (st'\<lparr>ap_idx := ap_idx st' + of_nat (length (gs_entries g))\<rparr>) }"
    using assms
    by (cases "gs_mode g"; cases "gs_info g"; cases "gs_delta g")
      (simp_all add: aps2_group_def group_bytes_def ReadSleb128_encode group_flags_tests Let_def
        len)
  with st' show ?thesis
    unfolding start group_meaning_def by auto
qed

lemma aps2_loop_step:
  "sint (ap_idx st) < sint n_total \<Longrightarrow> aps2_group st = Some st' \<Longrightarrow>
   aps2_loop n_total st = aps2_loop n_total st'"
  by (simp add: aps2_loop_def aps2_more_def while_option_unfold [of _ _ "Some st"])

lemma aps2_loop_stop:
  "\<not> sint (ap_idx st) < sint n_total \<Longrightarrow> aps2_loop n_total st = Some (Some st)"
  by (simp add: aps2_loop_def aps2_more_def while_option_unfold [of _ _ "Some st"])

lemma aps2_loop_meaning:
  assumes "ap_rest st = concat (map group_bytes gs)" "ap_idx st = of_nat k"
    and "k + sum_list (map (length \<circ> gs_entries) gs) = n" "n < 2 ^ 63"
    and "\<And>g. g \<in> set gs \<Longrightarrow> gs_entries g \<noteq> []"
  shows "\<exists>st'. aps2_loop (of_nat n) st = Some (Some st')
    \<and> ap_out st' = ap_out st @ stream_meaning (acc_of st) gs"
  using assms
proof (induction gs arbitrary: st k)
  case Nil
  then show ?case by (auto simp: aps2_loop_stop)
next
  case (Cons g gs)
  then have lt: "length (gs_entries g) < 2 ^ 63" "0 < length (gs_entries g)" by auto
  obtain st1 where st1: "aps2_group st = Some st1" "ap_rest st1 = concat (map group_bytes gs)"
    "ap_idx st1 = of_nat (k + length (gs_entries g))"
    "ap_out st1 = ap_out st @ group_meaning g (acc_of st)"
    "acc_of st1 = last (group_start g (acc_of st) # group_meaning g (acc_of st))"
    using aps2_group_meaning [of st g "concat (map group_bytes gs)"] Cons.prems lt by auto
  have "k < n" using Cons.prems(3) lt(2) by (simp del: length_greater_0_conv)
  then have "sint (ap_idx st) < sint (of_nat n :: 64 word)"
    using Cons.prems(2,4) by (simp add: sint_small_nat)
  then have "aps2_loop (of_nat n) st = aps2_loop (of_nat n) st1"
    using st1(1) by (rule aps2_loop_step)
  moreover obtain st' where "aps2_loop (of_nat n) st1 = Some (Some st')"
    "ap_out st' = ap_out st1 @ stream_meaning (acc_of st1) gs"
    using Cons.IH [of st1 "k + length (gs_entries g)"] st1 Cons.prems by auto
  ultimately show ?case
    using st1 by (simp add: Let_def)
qed


lemma ForEachPackedReloc_run:
  assumes "ReadSleb128 p = Some (t, p1)" "ReadSleb128 p1 = Some (off, p2)"
  shows "ForEachPackedReloc (aps2_magic @ p) =
     (case aps2_loop t \<lparr>ap_rest = p2, ap_idx = 0, ap_offset = off, ap_info = 0,
                        ap_addend = 0, ap_out = []\<rparr> of
        None \<Rightarrow> Diverges | Some None \<Rightarrow> Undef | Some (Some st) \<Rightarrow> Returns (True, ap_out st))"
  using assms by (simp add: ForEachPackedReloc_def aps2_magic_def)

lemma ForEachPackedReloc_stream:
  assumes "\<And>g. g \<in> set gs \<Longrightarrow> gs_entries g \<noteq> []"
    and "sum_list (map (length \<circ> gs_entries) gs) < 2 ^ 63"
  shows "ForEachPackedReloc (stream_bytes off gs) = Returns (True, stream_meaning (off, 0, 0) gs)"
proof -
  let ?st = "\<lparr>ap_rest = concat (map group_bytes gs), ap_idx = 0, ap_offset = off, ap_info = 0,
    ap_addend = 0, ap_out = []\<rparr>"
  obtain st' where "aps2_loop (of_nat (sum_list (map (length \<circ> gs_entries) gs))) ?st = Some (Some st')"
    "ap_out st' = stream_meaning (off, 0, 0) gs"
    using aps2_loop_meaning [of ?st gs 0] assms by (auto simp: acc_of_def)
  then show ?thesis
    unfolding stream_bytes_def
    by (subst ForEachPackedReloc_run) (auto simp: ReadSleb128_encode)
qed

lemma map2_shift_length [simp]: "length (map2 f (x # butlast ys) ys) = length ys"
  by (cases ys) auto

lemma pack_meaning:
  "entries_meaning g (o0, i0, a0)
     (map2 (\<lambda>(o0, i0, a0) (o1, i1, a1). (o1 - o0, i1, a1 - a0)) ((o0, i0, a0) # butlast rs) rs) = rs"
  if "gs_delta g = None" "gs_info g = None" "gs_mode g = EachAddend"
proof (induction rs arbitrary: o0 i0 a0)
  case (Cons r rs)
  obtain o1 i1 a1 where r: "r = (o1, i1, a1)" by (cases r)
  show ?case
    using that Cons [of o1 i1 a1] by (cases rs) (auto simp: r Let_def)
qed simp

lemma aps2_stuck:
  assumes "ap_rest st = []" "sint (ap_idx st) < sint n_total"
  shows "aps2_loop n_total st = None"
proof -
  have step: "\<exists>st'. Option.bind s aps2_group = Some st' \<and> ap_rest st' = [] \<and> ap_idx st' = ap_idx st"
    if "s = Some st1" "ap_rest st1 = []" "ap_idx st1 = ap_idx st" for s st1
    using that by (simp add: aps2_group_def read_if_def Let_def)
  have "\<exists>st'. ((\<lambda>s. Option.bind s aps2_group) ^^ k) (Some st) = Some st'
      \<and> ap_rest st' = [] \<and> ap_idx st' = ap_idx st" for k
    by (induction k) (use assms step in auto)
  then have "aps2_more n_total (((\<lambda>s. Option.bind s aps2_group) ^^ k) (Some st))" for k
    using assms(2) by (smt (verit) aps2_more_def option.simps(5))
  then show ?thesis by (simp add: aps2_loop_def while_option_def)
qed

section \<open>RELR\<close>

lemma relr_bits_reference:
  "take_bit n bits = bits \<Longrightarrow>
   relr_bits a bits = map (\<lambda>i. a + 8 * of_nat i) (filter (bit bits) [0..<n])"
proof (induction n arbitrary: a bits)
  case 0
  then show ?case by (simp add: relr_bits.simps)
next
  case (Suc n)
  let ?h = "drop_bit 1 bits"
  have "take_bit n ?h = drop_bit 1 (take_bit (Suc n) bits)" by (simp add: drop_bit_take_bit)
  then have IH: "relr_bits (a + 8) ?h = map (\<lambda>i. a + 8 + 8 * of_nat i) (filter (bit ?h) [0..<n])"
    using Suc by simp
  have tail: "map (\<lambda>i. a + 8 * of_nat i) (filter (bit bits) (map Suc [0..<n])) =
      map (\<lambda>i. a + 8 + 8 * of_nat i) (filter (bit ?h) [0..<n])"
    by (simp add: filter_map comp_def bit_drop_bit_eq algebra_simps)
  show ?case
  proof (cases "bits = 0")
    case True
    then show ?thesis by (simp add: relr_bits.simps)
  next
    case False
    have "[0..<Suc n] = 0 # map Suc [0..<n]" by (simp add: map_Suc_upt upt_conv_Cons del: upt_Suc)
    then show ?thesis
      using False IH tail by (simp add: relr_bits.simps [of a bits] bit_0 and_one_eq odd_iff_mod_2_eq_one del: upt_Suc drop_bit_Suc)
  qed
qed

lemma relr_bits_entry: "relr_bits base (drop_bit (Suc 0) entry) = relr_slots base entry"
proof -
  have "take_bit 63 (drop_bit (Suc 0) entry) = drop_bit (Suc 0) entry"
    by (simp add: take_bit_drop_bit take_bit_word_eq_self del: drop_bit_Suc)
  then show ?thesis
    by (simp add: relr_bits_reference relr_slots_def bit_drop_bit_eq comp_def cong: filter_cong)
qed

lemma relr_loop_bitmaps:
  "(\<And>e. e \<in> set es \<Longrightarrow> e AND 1 \<noteq> 0) \<Longrightarrow>
   \<exists>base'. relr_loop load_bias base (es @ rest) =
     relr_bitmaps_meaning base es @ relr_loop load_bias base' rest"
proof (induction es arbitrary: base)
  case (Cons e es)
  then obtain base' where "relr_loop load_bias (base + 8 * 63) (es @ rest) =
      relr_bitmaps_meaning (base + 8 * 63) es @ relr_loop load_bias base' rest"
    by (metis list.set_intros(2))
  with Cons.prems [of e] show ?case by (auto simp: relr_bits_entry)
qed auto

lemma relr_loop_runs:
  assumes "\<And>a es. (a, es) \<in> set runs \<Longrightarrow> a AND 1 = 0 \<and> (\<forall>e \<in> set es. e AND 1 \<noteq> 0)"
  shows "relr_loop load_bias base (relr_table runs) = relr_meaning load_bias runs"
  using assms
proof (induction runs arbitrary: base)
  case (Cons r runs)
  obtain a es where r: "r = (a, es)" by (cases r)
  have odd: "e \<in> set es \<Longrightarrow> e AND 1 \<noteq> 0" for e using Cons.prems [of a es] r by auto
  obtain base' where "relr_loop load_bias (load_bias + a + 8) (es @ relr_table runs) =
      relr_bitmaps_meaning (load_bias + a + 8) es @ relr_loop load_bias base' (relr_table runs)"
    using relr_loop_bitmaps [OF odd, of es] by metis
  moreover have "relr_loop load_bias base' (relr_table runs) = relr_meaning load_bias runs"
    using Cons by (metis list.set_intros(2))
  ultimately show ?case
    using Cons.prems [of a es] r by (simp add: relr_table_def relr_meaning_def)
qed (simp add: relr_table_def relr_meaning_def)

section \<open>Properties\<close>

text \<open>
  C23: \<open>ForEachPackedReloc\<close> decodes every well-formed APS2 stream: for any groups (each with at
  least one relocation, fewer than $2^{63}$ in all) whose numbers are signed-LEB128 encoded,
  it returns true after emitting exactly the relocations the groups mean, in order, with
  offset, info and addend carried through the whole stream and the addend reset by a group
  without addends.
\<close>

theorem packed_stream_decodes:
  assumes "\<And>g. g \<in> set gs \<Longrightarrow> gs_entries g \<noteq> []"
    and "sum_list (map (length \<circ> gs_entries) gs) < 2 ^ 63"
  shows "ForEachPackedReloc (stream_bytes off gs) = Returns (True, stream_meaning (off, 0, 0) gs)"
  using assms by (rule ForEachPackedReloc_stream)

theorem packed_stream_decodes_witness:
  "ForEachPackedReloc (stream_bytes 0x1000
     [\<lparr>gs_delta = Some 8, gs_info = Some 0x403, gs_mode = EachAddend,
       gs_entries = [(0, 0, 0x20), (0, 0, 0x30)]\<rparr>,
      \<lparr>gs_delta = None, gs_info = None, gs_mode = NoAddend, gs_entries = [(0x18, 0x700000401, 0)]\<rparr>])
   = Returns (True, [(0x1008, 0x403, 0x20), (0x1010, 0x403, 0x50), (0x1028, 0x700000401, 0)])"
  by (subst packed_stream_decodes)
    (auto simp: group_meaning_def group_start_def Let_def)

text \<open>
  C10: Every relocation list survives packing: encoding the list as one group of deltas and
  walking it with \<open>ForEachPackedReloc\<close> emits the same list.
\<close>

theorem packed_roundtrip:
  assumes "rs \<noteq> []" "length rs < 2 ^ 63"
  shows "ForEachPackedReloc (stream_bytes 0 [pack_group rs]) = Returns (True, rs)"
proof -
  have "gs_entries (pack_group rs) \<noteq> []"
    using assms(1) by (cases rs) (auto simp: pack_group_def)
  moreover have "group_meaning (pack_group rs) (0, 0, 0) = rs"
    using pack_meaning [of "pack_group rs" 0 0 0 rs]
    by (simp add: group_meaning_def group_start_def pack_group_def)
  ultimately show ?thesis
    using assms(2) ForEachPackedReloc_stream [of "[pack_group rs]" 0]
    by (simp add: pack_group_def Let_def)
qed

theorem packed_roundtrip_witness:
  "ForEachPackedReloc (stream_bytes 0 [pack_group [(0x2000, 0x403, 0x10), (0x1ff8, 0x408, 0)]])
   = Returns (True, [(0x2000, 0x403, 0x10), (0x1ff8, 0x408, 0)])"
  by (rule packed_roundtrip) auto

text \<open>
  A packed stream that ends right after its header while its relocation count is positive
  makes \<open>ForEachPackedReloc\<close> loop forever: the number reader returns 0 at the end of the
  input, so every further group is empty and the index never reaches the count.
\<close>

theorem packed_truncated_diverges:
  assumes "0 < sint n"
  shows "ForEachPackedReloc (aps2_magic @ sleb_word n @ sleb_word off) = Diverges"
  using assms aps2_stuck [of "\<lparr>ap_rest = [], ap_idx = 0, ap_offset = off, ap_info = 0,
    ap_addend = 0, ap_out = []\<rparr>" n]
  by (subst ForEachPackedReloc_run [OF ReadSleb128_encode sleb.dec_enc_nil]) simp

theorem packed_truncated_diverges_witness:
  "0 < sint (1 :: 64 word) \<and> ForEachPackedReloc (aps2_magic @ sleb_word 1 @ sleb_word 0x1000) = Diverges"
  using packed_truncated_diverges [of 1 "0x1000"] by simp

text \<open>
  \<open>ForEachRelr\<close> visits exactly the words a RELR table means: each even entry's own address,
  then for each odd entry the words its set bits select among the 63 following ones.
\<close>

theorem relr_table_decodes:
  assumes "\<And>a es. (a, es) \<in> set runs \<Longrightarrow> a AND 1 = 0 \<and> (\<forall>e \<in> set es. e AND 1 \<noteq> 0)"
  shows "ForEachRelr (relr_table runs) load_bias = relr_meaning load_bias runs"
  unfolding ForEachRelr_def using assms by (rule relr_loop_runs)

theorem relr_table_decodes_witness:
  "ForEachRelr (relr_table [(0x1000, [0x5, 0x3]), (0x3000, [])]) 0x7000 =
   [0x8000, 0x8010, 0x8008 + 8 * 63, 0xa000]"
  by (subst relr_table_decodes) (auto simp: relr_meaning_def relr_slots_def upt_rec)

end
