(* ===== verification/Image_Reloc.thy ===== *)
theory Image_Reloc
  imports Image_Dyn Packed_Reloc
begin

text \<open>
  Symbol resolution and relocation of a mapped module (\<open>linker/linker.cpp\<close>:
  \<open>Image::ResolveSymbol\<close>, \<open>Image::Relocate\<close>; \<open>linker/interpose.cpp\<close>: \<open>InterposeLookup\<close>).  The
  system linker and the ifunc resolvers are the record \<open>dlenv\<close>.  The RELR table and the packed
  stream are read before the relocations they hold are applied; the plain tables are read entry
  by entry from the memory the earlier relocations left.  \<open>None\<close> is a fault or no return.
\<close>

section \<open>Definitions\<close>

subsection \<open>The system linker and symbol resolution\<close>

record dlenv =
  dl_noload :: "cstr \<Rightarrow> addr"
  dl_open :: "cstr \<Rightarrow> addr"
  dl_sym :: "addr \<Rightarrow> cstr \<Rightarrow> addr"
  dl_default :: "cstr \<Rightarrow> addr"
  dl_resolver :: "addr \<Rightarrow> addr"
  MyIteratePhdr_fn :: addr
  MyDladdr_fn :: addr
  MyDlsym_fn :: addr
  MyDlclose_fn :: addr

definition kTable :: "dlenv \<Rightarrow> (cstr \<times> addr) list" where
  "kTable env = [(cstring ''dl_iterate_phdr'', MyIteratePhdr_fn env), (cstring ''dladdr'', MyDladdr_fn env),
     (cstring ''dlsym'', MyDlsym_fn env), (cstring ''dlclose'', MyDlclose_fn env)]"

definition InterposeLookup :: "dlenv \<Rightarrow> cstr \<Rightarrow> addr" where
  "InterposeLookup env name =
     (case find (\<lambda>e. fst e = name) (kTable env) of Some e \<Rightarrow> snd e | None \<Rightarrow> 0)"

primrec resolve_needed :: "dlenv \<Rightarrow> cstr \<Rightarrow> addr list \<Rightarrow> addr" where
  "resolve_needed env name [] = 0"
| "resolve_needed env name (h # hs) =
     (if h = 0 then resolve_needed env name hs
      else if dl_sym env h name \<noteq> 0 then dl_sym env h name
      else resolve_needed env name hs)"

text \<open>The result is the address and \<open>*is_weak_undef\<close>.\<close>

definition ResolveSymbol :: "dlenv \<Rightarrow> vm \<Rightarrow> image \<Rightarrow> cstr \<Rightarrow> (addr \<times> bool) option" where
  "ResolveSymbol env m img name =
     (if InterposeLookup env name \<noteq> 0 then Some (InterposeLookup env name, False)
      else do {
        self \<leftarrow> Image_Symbol (dl_resolver env) m img name;
        (if self \<noteq> 0 then Some (self, False)
         else if resolve_needed env name (needed_handles img) \<noteq> 0
           then Some (resolve_needed env name (needed_handles img), False)
         else if dl_default env name \<noteq> 0 then Some (dl_default env name, False)
         else Some (0, True)) })"

subsection \<open>One relocation\<close>

record rstate =
  rv_vm :: vm
  rv_err :: load_error
  rv_ok :: bool

definition reloc_fail :: "load_error \<Rightarrow> rstate \<Rightarrow> rstate" where
  "reloc_fail e s = s\<lparr>rv_err := e, rv_ok := False\<rparr>"

definition reloc_store :: "rstate \<Rightarrow> addr \<Rightarrow> addr \<Rightarrow> rstate option" where
  "reloc_store s p v = map_option (\<lambda>m. s\<lparr>rv_vm := m\<rparr>) (store_u64 (rv_vm s) p v)"

text \<open>The value of the symbol a relocation names; \<open>Some None\<close> when it cannot be resolved.\<close>

definition reloc_symbol :: "dlenv \<Rightarrow> image \<Rightarrow> vm \<Rightarrow> u32 \<Rightarrow> addr option option" where
  "reloc_symbol env img m n = do {
     shndx \<leftarrow> sym_shndx m (symtab img) n;
     (if shndx \<noteq> SHN_UNDEF then do {
        v \<leftarrow> sym_value m (symtab img) n;
        info \<leftarrow> sym_info m (symtab img) n;
        let a = load_bias img + v;
        Some (Some (if ELF_ST_TYPE info = STT_GNU_IFUNC then CallIfuncResolver (dl_resolver env) a else a)) }
      else do {
        st \<leftarrow> sym_name m (symtab img) n;
        name \<leftarrow> load_cstr m (strtab img + ucast st);
        (resolved, _) \<leftarrow> ResolveSymbol env m img name;
        (if resolved = 0 then do {
           info \<leftarrow> sym_info m (symtab img) n;
           Some (if ELF_ST_BIND info = STB_WEAK then Some 0 else None) }
         else Some (Some resolved)) }) }"

definition apply_reloc :: "dlenv \<Rightarrow> arch \<Rightarrow> image \<Rightarrow> reloc \<Rightarrow> rstate \<Rightarrow> rstate option" where
  "apply_reloc env a img r s = (case r of (off, info, addend) \<Rightarrow>
     let ty = RELOC_R_TYPE info; p = load_bias img + off; t = relocs a in
     if p < map_start img \<or> p \<ge> map_start img + map_size img then Some (reloc_fail kError s)
     else if ty = 0 then Some s
     else if IsTlsReloc a ty then Some (reloc_fail kUnsupported s)
     else if ty = RELOC_RELATIVE t then reloc_store s p (load_bias img + addend)
     else if ty = RELOC_IRELATIVE t
       then reloc_store s p (CallIfuncResolver (dl_resolver env) (load_bias img + addend))
     else do {
       sv \<leftarrow> reloc_symbol env img (rv_vm s) (RELOC_R_SYM info);
       (case sv of
          None \<Rightarrow> Some (reloc_fail kError s)
        | Some v \<Rightarrow>
            if ty = RELOC_JUMP_SLOT t then reloc_store s p v
            else if ty = RELOC_GLOB_DAT t
              then reloc_store s p (if RELOC_ABS t = RELOC_GLOB_DAT t then v + addend else v)
            else if ty = RELOC_ABS t then reloc_store s p (v + addend)
            else Some (reloc_fail kUnsupported s)) })"

subsection \<open>The tables\<close>

definition open_needed :: "dlenv \<Rightarrow> cstr list \<Rightarrow> addr list" where
  "open_needed env names =
     map (\<lambda>n. if dl_noload env n = 0 then dl_open env n else dl_noload env n) names"

primrec relr_apply :: "addr \<Rightarrow> addr list \<Rightarrow> vm \<Rightarrow> vm option" where
  "relr_apply bias [] m = Some m"
| "relr_apply bias (p # ps) m = do {
     w \<leftarrow> load_u64 m p;
     m' \<leftarrow> store_u64 m p (w + bias);
     relr_apply bias ps m' }"

primrec apply_all :: "dlenv \<Rightarrow> arch \<Rightarrow> image \<Rightarrow> reloc list \<Rightarrow> rstate \<Rightarrow> rstate option" where
  "apply_all env a img [] s = Some s"
| "apply_all env a img (r # rs) s = do { s' \<leftarrow> apply_reloc env a img r s; apply_all env a img rs s' }"

primrec rela_loop :: "dlenv \<Rightarrow> arch \<Rightarrow> image \<Rightarrow> nat \<Rightarrow> addr \<Rightarrow> rstate \<Rightarrow> rstate option" where
  "rela_loop env a img 0 p s = Some s"
| "rela_loop env a img (Suc n) p s =
     (if \<not> rv_ok s then Some s
      else do {
        off \<leftarrow> load_u64 (rv_vm s) p;
        info \<leftarrow> load_u64 (rv_vm s) (p + 8);
        addend \<leftarrow> load_u64 (rv_vm s) (p + 16);
        s' \<leftarrow> apply_reloc env a img (off, info, addend) s;
        rela_loop env a img n (p + 24) s' })"

primrec rel_loop :: "dlenv \<Rightarrow> arch \<Rightarrow> image \<Rightarrow> nat \<Rightarrow> addr \<Rightarrow> rstate \<Rightarrow> rstate option" where
  "rel_loop env a img 0 p s = Some s"
| "rel_loop env a img (Suc n) p s =
     (if \<not> rv_ok s then Some s
      else do {
        off \<leftarrow> load_u64 (rv_vm s) p;
        info \<leftarrow> load_u64 (rv_vm s) (p + 8);
        addend \<leftarrow> load_u64 (rv_vm s) (load_bias img + off);
        s' \<leftarrow> apply_reloc env a img (off, info, addend) s;
        rel_loop env a img n (p + 16) s' })"

definition relocate_relr :: "image \<Rightarrow> rstate \<Rightarrow> rstate option" where
  "relocate_relr img s =
     (if im_relr img \<noteq> 0 \<and> relr_count img > 0 then do {
        table \<leftarrow> load_array load_u64 8 (rv_vm s) (im_relr img) (unat (relr_count img));
        m \<leftarrow> relr_apply (load_bias img) (ForEachRelr table (load_bias img)) (rv_vm s);
        Some (s\<lparr>rv_vm := m\<rparr>) }
      else Some s)"

definition relocate_packed :: "dlenv \<Rightarrow> arch \<Rightarrow> image \<Rightarrow> rstate \<Rightarrow> rstate option" where
  "relocate_packed env a img s =
     (if android_rel img \<noteq> 0 \<and> android_rel_size img > 0 then do {
        bytes \<leftarrow> load_bytes (rv_vm s) (android_rel img) (unat (android_rel_size img));
        (case ForEachPackedReloc bytes of
           Returns (good, rs) \<Rightarrow> do {
             s' \<leftarrow> apply_all env a img rs s;
             Some (if good then s' else reloc_fail kError s') }
         | Undef \<Rightarrow> None
         | Diverges \<Rightarrow> None) }
      else Some s)"

definition relocate_plt :: "dlenv \<Rightarrow> arch \<Rightarrow> image \<Rightarrow> rstate \<Rightarrow> rstate option" where
  "relocate_plt env a img s =
     (if plt_rel img \<noteq> 0 \<and> plt_rel_size img > 0 \<and> rv_ok s then
        (if plt_is_rela img then rela_loop env a img (unat (plt_rel_size img div 24)) (plt_rel img) s
         else rel_loop env a img (unat (plt_rel_size img div 16)) (plt_rel img) s)
      else Some s)"

definition Relocate :: "dlenv \<Rightarrow> arch \<Rightarrow> lstate \<Rightarrow> (bool \<times> lstate) option" where
  "Relocate env a st =
     (let img = (ls_img st)\<lparr>needed_handles := needed_handles (ls_img st) @
                                open_needed env (needed_names (ls_img st))\<rparr>;
          out = (\<lambda>s. (rv_ok s, st\<lparr>ls_vm := rv_vm s, ls_err := rv_err s, ls_img := img\<rparr>))
      in do {
        s1 \<leftarrow> relocate_relr img \<lparr>rv_vm = ls_vm st, rv_err = ls_err st, rv_ok = True\<rparr>;
        s2 \<leftarrow> relocate_packed env a img s1;
        (if \<not> rv_ok s2 then Some (out s2)
         else do {
           s3 \<leftarrow> rela_loop env a img (unat (rela_count img)) (im_rela img) s2;
           s4 \<leftarrow> rel_loop env a img (unat (rel_count img)) (im_rel img) s3;
           s5 \<leftarrow> relocate_plt env a img s4;
           Some (out s5) }) })"

subsection \<open>Reference: what a relocation may change\<close>

text \<open>
  From \<open>s\<close> to \<open>s'\<close> no protection changed, no byte outside the image and the seven bytes after it
  changed, and a state that is not good carries an error.
\<close>

definition confined :: "image \<Rightarrow> rstate \<Rightarrow> rstate \<Rightarrow> bool" where
  "confined img s s' \<longleftrightarrow> vprot (rv_vm s') = vprot (rv_vm s) \<and>
     (\<forall>x. \<not> in_range (map_start img) (map_size img + 7) x \<longrightarrow> vbyte (rv_vm s') x = vbyte (rv_vm s) x) \<and>
     (rv_ok s \<or> rv_err s \<noteq> kNone \<longrightarrow> rv_ok s' \<or> rv_err s' \<noteq> kNone)"

text \<open>A RELA table in memory, and a table of base-relative relocations that is safe to apply.\<close>

primrec rela_at :: "vm \<Rightarrow> addr \<Rightarrow> reloc list \<Rightarrow> bool" where
  "rela_at m p [] \<longleftrightarrow> True"
| "rela_at m p (r # rs) \<longleftrightarrow> load_u64 m p = Some (fst r) \<and> load_u64 m (p + 8) = Some (fst (snd r)) \<and>
     load_u64 m (p + 16) = Some (snd (snd r)) \<and> rela_at m (p + 24) rs"

definition slot_of :: "image \<Rightarrow> reloc \<Rightarrow> addr" where
  "slot_of img r = load_bias img + fst r"

definition relative_ok :: "arch \<Rightarrow> image \<Rightarrow> vm \<Rightarrow> reloc \<Rightarrow> bool" where
  "relative_ok a img m r \<longleftrightarrow> RELOC_R_TYPE (fst (snd r)) = RELOC_RELATIVE (relocs a) \<and>
     Contains img (slot_of img r) \<and> rw_slot 8 m (slot_of img r)"

definition table_clear :: "image \<Rightarrow> addr \<Rightarrow> nat \<Rightarrow> reloc list \<Rightarrow> bool" where
  "table_clear img p n rs \<longleftrightarrow> (\<forall>r \<in> set rs. \<forall>j < 3 * n. apart 8 (slot_of img r) (p + 8 * of_nat j))"

definition relative_writes :: "image \<Rightarrow> reloc list \<Rightarrow> (addr \<times> addr) list" where
  "relative_writes img rs = map (\<lambda>r. (slot_of img r, load_bias img + snd (snd r))) rs"

definition slots_apart :: "addr list \<Rightarrow> bool" where
  "slots_apart ps \<longleftrightarrow> sorted_wrt (apart 8) ps"

subsection \<open>A sample module\<close>

text \<open>
  An image of 0x100 bytes at 0x1000 in writable memory, with one RELA entry at 0x1080 (RELATIVE on
  x86-64, offset 0x10, addend 0x20) and one RELR word at 0x10c0 (offset 0x30).
\<close>

definition rel_mem :: vm where
  "rel_mem = \<lparr>vbyte = (\<lambda>_. Some 0)(0x1080 := Some 0x10, 0x1088 := Some 8, 0x1090 := Some 0x20, 0x10c0 := Some 0x30),
     vprot = (\<lambda>_. 3)\<rparr>"

definition rel_image :: image where
  "rel_image = new_image\<lparr>map_start := 0x1000, map_size := 0x100, load_bias := 0x1000,
     im_rela := 0x1080, rela_count := 1\<rparr>"

definition rel_state :: lstate where
  "rel_state = \<lparr>ls_vm = rel_mem, ls_replies = [], ls_err = kNone, ls_img = rel_image\<rparr>"

definition no_dl :: dlenv where
  "no_dl = \<lparr>dl_noload = (\<lambda>_. 0), dl_open = (\<lambda>_. 0), dl_sym = (\<lambda>_ _. 0), dl_default = (\<lambda>_. 0),
     dl_resolver = (\<lambda>a. a), MyIteratePhdr_fn = 0x71, MyDladdr_fn = 0x72, MyDlsym_fn = 0x73, MyDlclose_fn = 0x74\<rparr>"

section \<open>Lemmas\<close>

subsection \<open>Confinement\<close>

lemma confined_refl [simp]: "confined img s s"
  by (simp add: confined_def)

lemma confined_trans: "confined img s s' \<Longrightarrow> confined img s' s'' \<Longrightarrow> confined img s s''"
  unfolding confined_def by auto

lemma confined_fail: "e \<noteq> kNone \<Longrightarrow> confined img s (reloc_fail e s)"
  by (simp add: confined_def reloc_fail_def)

lemma contains_offset:
  assumes "\<not> (p < map_start img \<or> p \<ge> map_start img + map_size img)"
  shows "unat (p - map_start img) < unat (map_size img)"
  using assms by (simp add: not_less not_le) unat_arith

lemma slot_in_range:
  assumes "unat (p - s) < n" "n + 7 < 2 ^ 64" "unat (x - p) < 8"
  shows "unat ((x :: addr) - s) < n + 7"
proof -
  have "x - s = (p - s) + (x - p)" by simp
  then have "unat (x - s) = (unat (p - s) + unat (x - p)) mod 2 ^ 64"
    using unat_word_ariths(1) [of "p - s" "x - p"] by simp
  then have "unat (x - s) \<le> unat (p - s) + unat (x - p)" by simp
  with assms show ?thesis by simp
qed

lemma confined_store:
  assumes p: "\<not> (p < map_start img \<or> p \<ge> map_start img + map_size img)"
    and sz: "unat (map_size img) + 7 < 2 ^ 64" and st: "reloc_store s p v = Some s'"
  shows "confined img s s'"
proof -
  from st obtain m where m: "store_bytes (rv_vm s) p (le_enc 8 (unat v)) = Some m" "s' = s\<lparr>rv_vm := m\<rparr>"
    by (auto simp: reloc_store_def store_word_def)
  have "vbyte m x = vbyte (rv_vm s) x" if "\<not> in_range (map_start img) (map_size img + 7) x" for x
  proof -
    have "unat (map_size img + 7) = unat (map_size img) + 7" using sz by (simp add: unat_plus_numeral)
    with that slot_in_range [OF contains_offset [OF p] sz, of x] have "\<not> unat (x - p) < 8"
      by (auto simp: in_range_unat)
    then show ?thesis by (simp add: store_bytes_vbyte [OF m(1)] put_bytes_out)
  qed
  then show ?thesis by (simp add: confined_def m(2) store_bytes_prot [OF m(1)])
qed

text \<open>What a relocation does: nothing, a failure with a reason, or a store into the image.\<close>

lemma apply_reloc_outcome:
  assumes "apply_reloc env a img (off, info, addend) s = Some s'"
  shows "s' = s \<or> (\<exists>e. e \<noteq> kNone \<and> s' = reloc_fail e s) \<or>
    \<not> (load_bias img + off < map_start img \<or> load_bias img + off \<ge> map_start img + map_size img) \<and>
    (\<exists>v. reloc_store s (load_bias img + off) v = Some s')"
proof (cases "reloc_symbol env img (rv_vm s) (RELOC_R_SYM info)")
  case None
  with assms show ?thesis
    unfolding apply_reloc_def Let_def prod.case by (elim if_Some_E) auto
next
  case (Some sv)
  have e: "kError \<noteq> kNone" "kUnsupported \<noteq> kNone" by simp_all
  from Some assms e show ?thesis
    unfolding apply_reloc_def Let_def prod.case
    by (cases sv) (elim if_Some_E; simp only: bind.bind_lunit option.case; (elim if_Some_E)?; blast)+
qed

lemma apply_confined:
  assumes "apply_reloc env a img r s = Some s'" "unat (map_size img) + 7 < 2 ^ 64"
  shows "confined img s s'"
  using apply_reloc_outcome [of env a img "fst r" "fst (snd r)" "snd (snd r)" s s'] assms
  by (auto simp: confined_fail intro: confined_store)

lemma confined_to:
  "apply_reloc env a img r s = Some s' \<Longrightarrow> unat (map_size img) + 7 < 2 ^ 64 \<longrightarrow> confined img s s'"
  using apply_confined by blast

subsection \<open>Relations every table respects\<close>

text \<open>
  A preorder on relocation states that single relocations and the failure of a packed table
  respect is respected by every table and by the whole pass.
\<close>

locale reloc_relation =
  fixes env :: dlenv and a :: arch and img :: image and R :: "rstate \<Rightarrow> rstate \<Rightarrow> bool"
  assumes R_refl: "R s s"
    and R_trans: "R s t \<Longrightarrow> R t u \<Longrightarrow> R s u"
    and R_apply: "apply_reloc env a img r s = Some s' \<Longrightarrow> R s s'"
    and R_fail: "R s (reloc_fail kError s)"
begin

lemma all_R: "apply_all env a img rs s = Some s' \<Longrightarrow> R s s'"
proof (induction rs arbitrary: s)
  case (Cons r rs)
  then obtain s1 where "apply_reloc env a img r s = Some s1" "apply_all env a img rs s1 = Some s'"
    by (auto simp: bind_eq_Some_conv)
  then show ?case using R_trans [OF R_apply Cons.IH] by blast
qed (simp add: R_refl)

lemma rela_R: "rela_loop env a img n p s = Some s' \<Longrightarrow> R s s'"
proof (induction n arbitrary: p s)
  case (Suc n)
  show ?case
  proof (cases "rv_ok s")
    case True
    with Suc.prems obtain r s1 where "apply_reloc env a img r s = Some s1"
      "rela_loop env a img n (p + 24) s1 = Some s'" by (auto simp: bind_eq_Some_conv)
    then show ?thesis using R_trans [OF R_apply Suc.IH] by blast
  qed (use Suc.prems R_refl in simp)
qed (simp add: R_refl)

lemma rel_R: "rel_loop env a img n p s = Some s' \<Longrightarrow> R s s'"
proof (induction n arbitrary: p s)
  case (Suc n)
  show ?case
  proof (cases "rv_ok s")
    case True
    with Suc.prems obtain r s1 where "apply_reloc env a img r s = Some s1"
      "rel_loop env a img n (p + 16) s1 = Some s'" by (auto simp: bind_eq_Some_conv)
    then show ?thesis using R_trans [OF R_apply Suc.IH] by blast
  qed (use Suc.prems R_refl in simp)
qed (simp add: R_refl)

lemma packed_R:
  assumes "relocate_packed env a img s = Some s'"
  shows "R s s'"
proof (cases "android_rel img \<noteq> 0 \<and> android_rel_size img > 0")
  case True
  with assms obtain bytes where "(case ForEachPackedReloc bytes of
      Returns (good, rs) \<Rightarrow> do {
        s' \<leftarrow> apply_all env a img rs s; Some (if good then s' else reloc_fail kError s') }
    | Undef \<Rightarrow> None | Diverges \<Rightarrow> None) = Some s'"
    by (auto simp: relocate_packed_def bind_eq_Some_conv)
  then obtain good rs s1 where "apply_all env a img rs s = Some s1" "s' = (if good then s1 else reloc_fail kError s1)"
    by (cases "ForEachPackedReloc bytes") (auto simp: bind_eq_Some_conv)
  then show ?thesis using all_R R_trans [OF all_R R_fail] by auto
qed (use assms R_refl in \<open>auto simp: relocate_packed_def\<close>)

lemma plt_R: "relocate_plt env a img s = Some s' \<Longrightarrow> R s s'"
  by (auto simp: relocate_plt_def R_refl split: if_splits dest: rela_R rel_R)

lemma relocate_R:
  assumes img: "img = (ls_img st)\<lparr>needed_handles := needed_handles (ls_img st) @ open_needed env (needed_names (ls_img st))\<rparr>"
    and run: "Relocate env a st = Some (good, st')"
  shows "\<exists>s1 s. relocate_relr img \<lparr>rv_vm = ls_vm st, rv_err = ls_err st, rv_ok = True\<rparr> = Some s1 \<and> R s1 s \<and>
    good = rv_ok s \<and> ls_vm st' = rv_vm s \<and> ls_err st' = rv_err s \<and> ls_img st' = img"
proof -
  from run obtain s1 s2 where
    s1: "relocate_relr img \<lparr>rv_vm = ls_vm st, rv_err = ls_err st, rv_ok = True\<rparr> = Some s1"
    and s2: "relocate_packed env a img s1 = Some s2"
    by (auto simp: Relocate_def img [symmetric] Let_def bind_eq_Some_conv)
  show ?thesis
  proof (cases "rv_ok s2")
    case True
    with run s1 s2 obtain s3 s4 s5 where
      r: "rela_loop env a img (unat (rela_count img)) (im_rela img) s2 = Some s3"
      "rel_loop env a img (unat (rel_count img)) (im_rel img) s3 = Some s4" "relocate_plt env a img s4 = Some s5"
      and out: "good = rv_ok s5" "st' = st\<lparr>ls_vm := rv_vm s5, ls_err := rv_err s5, ls_img := img\<rparr>"
      by (auto simp: Relocate_def img [symmetric] Let_def bind_eq_Some_conv)
    have "R s1 s5" using packed_R [OF s2] rela_R [OF r(1)] rel_R [OF r(2)] plt_R [OF r(3)] by (meson R_trans)
    with s1 out show ?thesis by auto
  next
    case False
    with run s1 s2 packed_R [OF s2] show ?thesis by (auto simp: Relocate_def img [symmetric] Let_def)
  qed
qed

end

interpretation confined: reloc_relation env a img "\<lambda>s s'. unat (map_size img) + 7 < 2 ^ 64 \<longrightarrow> confined img s s'"
  for env a img
  by unfold_locales (auto intro: confined_trans confined_fail dest: confined_to)

subsection \<open>Tables of relative relocations\<close>

lemma rela_at_store:
  assumes "store_u64 m q v = Some m'" "\<And>j. j < 3 * length rs \<Longrightarrow> apart 8 q (p + 8 * of_nat j)"
  shows "rela_at m' p rs = rela_at m p rs"
  using assms(2)
proof (induction rs arbitrary: p)
  case (Cons r rs)
  have "apart 8 q p" "apart 8 q (p + 8)" "apart 8 q (p + 16)"
    using Cons.prems [of 0] Cons.prems [of 1] Cons.prems [of 2] by simp_all
  moreover have "apart 8 q (p + 24 + 8 * of_nat j)" if "j < 3 * length rs" for j
    using Cons.prems [of "j + 3"] that by (simp add: algebra_simps)
  ultimately show ?case using Cons.IH [of "p + 24"] by (simp add: slot64.rd_wr_sep [OF assms(1)])
qed simp

lemma relative_type:
  "RELOC_RELATIVE (relocs a) \<noteq> 0" "\<not> IsTlsReloc a (RELOC_RELATIVE (relocs a))"
  by (cases a; simp add: IsTlsReloc_def reloc_aarch64_def reloc_x86_64_def reloc_riscv64_def)+

lemma apply_relative:
  assumes "relative_ok a img m r" "rv_vm s = m"
  shows "apply_reloc env a img r s = reloc_store s (slot_of img r) (load_bias img + snd (snd r))"
  using assms relative_type [of a]
  by (auto simp: apply_reloc_def relative_ok_def slot_of_def Contains_def not_less not_le Let_def
      split: prod.splits)

lemma rela_loop_relative:
  assumes "rela_at m p rs" "\<And>r. r \<in> set rs \<Longrightarrow> relative_ok a img m r" "table_clear img p (length rs) rs"
    and "rv_ok s" "rv_vm s = m"
  shows "rela_loop env a img (length rs) p s =
    map_option (\<lambda>m'. s\<lparr>rv_vm := m'\<rparr>) (write_all store_u64 m (relative_writes img rs))"
  using assms
proof (induction rs arbitrary: p m s)
  case Nil
  then show ?case by (cases s) (simp add: relative_writes_def)
next
  case (Cons r rs)
  have rw: "rw_slot 8 m (slot_of img r)" using Cons.prems(2) [of r] by (simp add: relative_ok_def)
  obtain m1 where m1: "store_u64 m (slot_of img r) (load_bias img + snd (snd r)) = Some m1"
    using slot64.wr_ok [OF rw] by blast
  let ?s = "s\<lparr>rv_vm := m1\<rparr>"
  have clear: "apart 8 (slot_of img q) (p + 24 + 8 * of_nat j)"
    if "q \<in> set (r # rs)" "j < 3 * length rs" for q j
  proof -
    have "p + 24 + 8 * of_nat j = p + 8 * of_nat (j + 3)" by (simp add: algebra_simps)
    moreover have "j + 3 < 3 * length (r # rs)" using that(2) by simp
    ultimately show ?thesis using Cons.prems(3) that(1) unfolding table_clear_def by metis
  qed
  have "rela_loop env a img (length rs) (p + 24) ?s =
      map_option (\<lambda>m'. ?s\<lparr>rv_vm := m'\<rparr>) (write_all store_u64 m1 (relative_writes img rs))"
  proof (rule Cons.IH)
    show "rela_at m1 (p + 24) rs"
      using Cons.prems(1) rela_at_store [OF m1, of rs "p + 24"] clear [of r] by simp
    show "relative_ok a img m1 q" if "q \<in> set rs" for q
      using Cons.prems(2) [of q] that by (simp add: relative_ok_def slot64.ok_wr [OF m1])
    show "table_clear img (p + 24) (length rs) rs" using clear by (simp add: table_clear_def)
  qed (use Cons.prems in simp_all)
  moreover have "apply_reloc env a img r s = Some ?s"
    using apply_relative [OF Cons.prems(2) Cons.prems(5)] m1 Cons.prems(5) by (simp add: reloc_store_def)
  ultimately show ?case
    using Cons.prems(1,4,5) m1 by (simp add: relative_writes_def)
qed

subsection \<open>RELR\<close>

lemma apart_sym: "apart n p q = apart n q p"
  by (auto simp: apart_def)

lemma rw_slot_load64: "rw_slot 8 m p \<Longrightarrow> \<exists>w. load_u64 m p = Some w"
proof -
  assume rw: "rw_slot 8 m p"
  have "load_bytes m p 8 = Some (map (\<lambda>i. the (load8 m (p + of_nat i))) [0..<8])"
    using rw by (intro load_bytes_all) (auto simp: rw_slot_def writable8_def load8_def)
  then show ?thesis by (simp add: load_word_def)
qed

lemma relr_apply_frame:
  "relr_apply bias ps m = Some m' \<Longrightarrow> (\<And>p. p \<in> set ps \<Longrightarrow> apart 8 p q) \<Longrightarrow> load_u64 m' q = load_u64 m q"
  by (induction ps arbitrary: m) (auto simp: bind_eq_Some_conv slot64.rd_wr_sep)

lemma relr_apply_slots:
  assumes "\<And>p. p \<in> set ps \<Longrightarrow> rw_slot 8 m p" "slots_apart ps"
  shows "\<exists>m'. relr_apply bias ps m = Some m' \<and>
    (\<forall>p \<in> set ps. load_u64 m' p = map_option (\<lambda>w. w + bias) (load_u64 m p))"
  using assms
proof (induction ps arbitrary: m)
  case (Cons p ps)
  have rw: "rw_slot 8 m p" using Cons.prems(1) by simp
  obtain w m1 where w: "load_u64 m p = Some w" and m1: "store_u64 m p (w + bias) = Some m1"
    using rw_slot_load64 [OF rw] slot64.wr_ok [OF rw] by blast
  have ap: "apart 8 p q" if "q \<in> set ps" for q using Cons.prems(2) that by (simp add: slots_apart_def)
  have "rw_slot 8 m1 q" if "q \<in> set ps" for q using Cons.prems(1) that by (simp add: slot64.ok_wr [OF m1])
  moreover have "slots_apart ps" using Cons.prems(2) by (simp add: slots_apart_def)
  ultimately obtain m' where m': "relr_apply bias ps m1 = Some m'"
    "\<forall>q \<in> set ps. load_u64 m' q = map_option (\<lambda>w. w + bias) (load_u64 m1 q)"
    using Cons.IH [of m1] by blast
  have "load_u64 m' p = load_u64 m1 p"
    using relr_apply_frame [OF m'(1)] ap apart_sym by blast
  then have "load_u64 m' p = Some (w + bias)" using slot64.rd_wr_same [OF rw m1] by simp
  with w m1 m' ap show ?case by (auto simp: slot64.rd_wr_sep [OF m1])
qed simp

subsection \<open>The sample module\<close>

lemmas rel_eval = load_word_def load_bytes_numeral load8_def rel_mem_def PROT_READ_def

lemma rel_rw [simp]: "rw_slot n rel_mem p"
  by (simp add: rw_slot_def writable8_def rel_mem_def PROT_READ_def PROT_WRITE_def)

lemma rel_table: "rela_at rel_mem 0x1080 [(0x10, 8, 0x20)]"
  by (simp add: rel_eval)

lemma rel_entry:
  "relative_ok X86_64 rel_image rel_mem (0x10, 8, 0x20)" "slot_of rel_image (0x10, 8, 0x20) = 0x1010"
  by (simp_all add: relative_ok_def slot_of_def rel_image_def Contains_def RELOC_R_TYPE_def reloc_x86_64_def)

lemma rel_clear: "table_clear rel_image 0x1080 1 [(0x10, 8, 0x20)]"
  by (auto simp: table_clear_def rel_entry(2) apart_def less_Suc_eq numeral_3_eq_3)

lemma le_enc_second: "le_enc 8 v ! 1 = of_nat (v div 256)"
proof -
  have "(8 :: nat) = Suc (Suc 6)" by simp
  then show ?thesis by (simp only: le_enc.simps One_nat_def nth_Cons_Suc nth_Cons_0)
qed

section \<open>Properties\<close>

text \<open>
  C2: relocating a module without a RELR table, whatever its relocation tables contain and whether
  it succeeds or not, changes no page protection and no byte outside the image and the seven bytes
  after it; and when it fails it says why.
\<close>

theorem relocate_confined:
  assumes "Relocate env a st = Some (good, st')" "relr_count (ls_img st) = 0"
    and "unat (map_size (ls_img st)) + 7 < 2 ^ 64"
  shows "vprot (ls_vm st') = vprot (ls_vm st) \<and>
    (\<forall>x. \<not> in_range (map_start (ls_img st)) (map_size (ls_img st) + 7) x \<longrightarrow>
       vbyte (ls_vm st') x = vbyte (ls_vm st) x) \<and>
    (good \<or> ls_err st' \<noteq> kNone)"
proof -
  define img where "img = (ls_img st)\<lparr>needed_handles := needed_handles (ls_img st) @
    open_needed env (needed_names (ls_img st))\<rparr>"
  let ?s0 = "\<lparr>rv_vm = ls_vm st, rv_err = ls_err st, rv_ok = True\<rparr>"
  have img: "map_start img = map_start (ls_img st)" "map_size img = map_size (ls_img st)"
    "relr_count img = 0" using assms(2) by (simp_all add: img_def)
  have relr: "relocate_relr img ?s0 = Some ?s0" by (simp add: relocate_relr_def img)
  obtain s where s: "confined img ?s0 s"
    and st': "good = rv_ok s" "ls_vm st' = rv_vm s" "ls_err st' = rv_err s"
    using confined.relocate_R [OF img_def assms(1)] relr assms(3) by (auto simp: img)
  from s show ?thesis by (auto simp: confined_def img st')
qed

theorem relocate_confined_witness:
  "\<exists>good st'. Relocate no_dl X86_64 rel_state = Some (good, st') \<and> vprot (ls_vm st') = vprot rel_mem \<and>
     vbyte (ls_vm st') 0x1107 = Some 0"
proof -
  have "\<exists>good st'. Relocate no_dl X86_64 rel_state = Some (good, st')"
    using rela_loop_relative [OF rel_table, of X86_64 rel_image
        "\<lparr>rv_vm = rel_mem, rv_err = kNone, rv_ok = True\<rparr>" no_dl] rel_entry rel_clear
      slot64.write_all_total [of "relative_writes rel_image [(0x10, 8, 0x20)]" rel_mem]
    by (auto simp: Relocate_def rel_state_def rel_image_def new_image_def open_needed_def Let_def
        relocate_relr_def relocate_packed_def relocate_plt_def)
  then obtain good st' where "Relocate no_dl X86_64 rel_state = Some (good, st')" by blast
  with relocate_confined [OF this] show ?thesis
    by (auto simp: rel_state_def rel_image_def new_image_def in_range_def rel_mem_def)
qed

text \<open>
  C25: a module whose relocations are a RELA table of base-relative entries, with slots inside the
  image, accessible, pairwise disjoint and disjoint from the table, is relocated: every slot ends
  up holding load bias plus addend, and every 8-byte cell disjoint from the slots keeps its value.
\<close>

theorem relocate_relative_table:
  assumes img: "img = ls_img st" "relr_count img = 0" "android_rel_size img = 0" "rel_count img = 0"
      "plt_rel_size img = 0" "unat (rela_count img) = length rs"
    and table: "rela_at (ls_vm st) (im_rela img) rs" "table_clear img (im_rela img) (length rs) rs"
    and slots: "\<And>r. r \<in> set rs \<Longrightarrow> relative_ok a img (ls_vm st) r" "slots_apart (map (slot_of img) rs)"
  shows "\<exists>st'. Relocate env a st = Some (True, st') \<and>
    (\<forall>r \<in> set rs. load_u64 (ls_vm st') (slot_of img r) = Some (load_bias img + snd (snd r))) \<and>
    (\<forall>q. (\<forall>r \<in> set rs. apart 8 (slot_of img r) q) \<longrightarrow> load_u64 (ls_vm st') q = load_u64 (ls_vm st) q)"
proof -
  define img' where "img' = img\<lparr>needed_handles := needed_handles img @ open_needed env (needed_names img)\<rparr>"
  let ?s0 = "\<lparr>rv_vm = ls_vm st, rv_err = ls_err st, rv_ok = True\<rparr>"
  have same: "slot_of img' = slot_of img" "load_bias img' = load_bias img"
    "relative_writes img' rs = relative_writes img rs"
    by (simp_all add: fun_eq_iff slot_of_def img'_def relative_writes_def)
  have pre: "relative_ok a img' (ls_vm st) r" if "r \<in> set rs" for r
    using slots(1) [OF that] by (simp add: relative_ok_def same Contains_def) (simp add: img'_def)
  have clear: "table_clear img' (im_rela img) (length rs) rs" using table(2) by (simp add: table_clear_def same)
  have fst: "fst ` set (relative_writes img rs) = slot_of img ` set rs" by (force simp: relative_writes_def)
  have ok: "rw_slot 8 (ls_vm st) (fst x)" if "x \<in> set (relative_writes img rs)" for x
    using that slots(1) by (auto simp: relative_writes_def relative_ok_def)
  obtain m' where m': "write_all store_u64 (ls_vm st) (relative_writes img rs) = Some m'"
    using slot64.write_all_total [of "relative_writes img rs" "ls_vm st"] ok by blast
  have "rela_loop env a img' (length rs) (im_rela img) ?s0 = Some (?s0\<lparr>rv_vm := m'\<rparr>)"
    using rela_loop_relative [OF table(1) pre clear, of ?s0 env] m' by (simp add: same)
  then have run: "Relocate env a st = Some (True, st\<lparr>ls_vm := m', ls_img := img'\<rparr>)"
    using img by (simp add: Relocate_def Let_def img'_def relocate_relr_def relocate_packed_def relocate_plt_def)
  have srt: "sorted_wrt (\<lambda>x y. apart 8 (fst x) (fst y) \<and> apart 8 (fst y) (fst x)) (relative_writes img rs)"
    using slots(2) by (simp add: slots_apart_def relative_writes_def sorted_wrt_map apart_sym)
  have "load_u64 m' (slot_of img r) = Some (load_bias img + snd (snd r))" if "r \<in> set rs" for r
    using slot64.write_all_read [OF m' _ ok srt, of "(slot_of img r, load_bias img + snd (snd r))"] that
    by (force simp: relative_writes_def)
  moreover have "load_u64 m' q = load_u64 (ls_vm st) q" if "\<forall>r \<in> set rs. apart 8 (slot_of img r) q" for q
    using slot64.write_all_frame [OF m', of q] that by (force simp: relative_writes_def)
  ultimately show ?thesis using run by auto
qed

theorem relocate_relative_table_witness:
  "\<exists>st'. Relocate no_dl X86_64 rel_state = Some (True, st') \<and> load_u64 (ls_vm st') 0x1010 = Some 0x1020"
proof -
  let ?img = "rel_image" and ?rs = "[(0x10, 8, 0x20)]"
  have "\<exists>st'. Relocate no_dl X86_64 rel_state = Some (True, st') \<and>
    (\<forall>r \<in> set ?rs. load_u64 (ls_vm st') (slot_of ?img r) = Some (load_bias ?img + snd (snd r))) \<and>
    (\<forall>q. (\<forall>r \<in> set ?rs. apart 8 (slot_of ?img r) q) \<longrightarrow> load_u64 (ls_vm st') q = load_u64 (ls_vm rel_state) q)"
    using rel_table rel_clear rel_entry
    by (intro relocate_relative_table) (auto simp: rel_state_def rel_image_def new_image_def slots_apart_def)
  then show ?thesis by (auto simp: rel_entry(2)) (auto simp: rel_image_def)
qed

text \<open>
  applying a RELR table whose slots are accessible and pairwise disjoint adds the load bias to
  each slot exactly once.
\<close>

theorem relr_relocates_once:
  assumes "im_relr img \<noteq> 0" "0 < relr_count img"
    and "load_array load_u64 8 (rv_vm s) (im_relr img) (unat (relr_count img)) = Some table"
    and "\<And>p. p \<in> set (ForEachRelr table (load_bias img)) \<Longrightarrow> rw_slot 8 (rv_vm s) p"
    and "slots_apart (ForEachRelr table (load_bias img))"
  shows "\<exists>s'. relocate_relr img s = Some s' \<and> rv_ok s' = rv_ok s \<and>
    (\<forall>p \<in> set (ForEachRelr table (load_bias img)).
       load_u64 (rv_vm s') p = map_option (\<lambda>w. w + load_bias img) (load_u64 (rv_vm s) p))"
  using relr_apply_slots [OF assms(4,5), of "load_bias img"] assms(1-3) by (auto simp: relocate_relr_def)

theorem relr_relocates_once_witness:
  "\<exists>s'. relocate_relr (rel_image\<lparr>im_relr := 0x10c0, relr_count := 1\<rparr>)
       \<lparr>rv_vm = rel_mem, rv_err = kNone, rv_ok = True\<rparr> = Some s' \<and> load_u64 (rv_vm s') 0x1030 = Some 0x1000"
proof -
  let ?img = "rel_image\<lparr>im_relr := 0x10c0, relr_count := 1\<rparr>"
  let ?s = "\<lparr>rv_vm = rel_mem, rv_err = kNone, rv_ok = True\<rparr>"
  have table: "load_array load_u64 8 rel_mem 0x10c0 1 = Some [0x30]" by (simp add: rel_eval)
  have slots: "ForEachRelr [0x30] 0x1000 = [0x1030]" by (simp add: ForEachRelr_def)
  have "\<exists>s'. relocate_relr ?img ?s = Some s' \<and> rv_ok s' = rv_ok ?s \<and>
    (\<forall>p \<in> set (ForEachRelr [0x30] (load_bias ?img)).
       load_u64 (rv_vm s') p = map_option (\<lambda>w. w + load_bias ?img) (load_u64 (rv_vm ?s) p))"
    using table by (intro relr_relocates_once) (simp_all add: rel_image_def slots slots_apart_def)
  then show ?thesis by (auto simp: rel_image_def slots rel_eval)
qed

text \<open>
  the range check of a relocation looks at the first byte of the slot only.  A base-relative
  relocation of the last byte of the image is accepted and overwrites the bytes after the image:
  the first of them takes the second byte of the value.
\<close>

theorem reloc_straddles_end:
  assumes "relative_ok a img (rv_vm s) r" "slot_of img r + 1 = map_start img + map_size img"
  shows "\<exists>s'. apply_reloc env a img r s = Some s' \<and> rv_ok s' = rv_ok s \<and>
    \<not> Contains img (map_start img + map_size img) \<and>
    vbyte (rv_vm s') (map_start img + map_size img) =
      Some (of_nat (unat (load_bias img + snd (snd r)) div 256))"
proof -
  let ?v = "load_bias img + snd (snd r)"
  have "rw_slot 8 (rv_vm s) (slot_of img r)" using assms(1) by (simp add: relative_ok_def)
  then obtain m where m: "store_u64 (rv_vm s) (slot_of img r) ?v = Some m" using slot64.wr_ok by blast
  then have "vbyte m (slot_of img r + 1) = Some (le_enc 8 (unat ?v) ! 1)"
    by (simp add: store_word_def store_bytes_vbyte put_bytes_def)
  also have "le_enc 8 (unat ?v) ! 1 = of_nat (unat ?v div 256)"
    by (rule le_enc_second)
  finally show ?thesis
    using apply_relative [OF assms(1) refl, of env] m assms(2) by (simp add: reloc_store_def Contains_def)
qed

theorem reloc_straddles_end_witness:
  "\<exists>s'. apply_reloc no_dl X86_64 rel_image (0xff, 8, 0x20) \<lparr>rv_vm = rel_mem, rv_err = kNone, rv_ok = True\<rparr> = Some s' \<and>
     rv_ok s' \<and> vbyte (rv_vm s') 0x1100 = Some 0x10"
proof -
  have "relative_ok X86_64 rel_image rel_mem (0xff, 8, 0x20)"
    by (simp add: relative_ok_def slot_of_def rel_image_def Contains_def RELOC_R_TYPE_def reloc_x86_64_def)
  with reloc_straddles_end [of X86_64 rel_image "\<lparr>rv_vm = rel_mem, rv_err = kNone, rv_ok = True\<rparr>" "(0xff, 8, 0x20)" no_dl]
  show ?thesis by (auto simp: rel_image_def slot_of_def)
qed

text \<open>
  an undefined symbol named by a jump slot is bound to the linker's override when the name is
  interposed, whatever the module and the libraries define; otherwise, when nobody defines it, a
  weak reference becomes null and a strong one fails the load without touching memory.
\<close>

theorem undefined_reference_binding:
  assumes slot: "Contains img (load_bias img + off)" "RELOC_R_TYPE info = RELOC_JUMP_SLOT (relocs a)"
    and sym: "n = RELOC_R_SYM info" "sym_shndx (rv_vm s) (symtab img) n = Some SHN_UNDEF"
      "sym_name (rv_vm s) (symtab img) n = Some st" "sym_info (rv_vm s) (symtab img) n = Some i"
      "load_cstr (rv_vm s) (strtab img + ucast st) = Some name"
  shows "(InterposeLookup env name \<noteq> 0 \<longrightarrow>
      apply_reloc env a img (off, info, addend) s = reloc_store s (load_bias img + off) (InterposeLookup env name)) \<and>
    (ResolveSymbol env (rv_vm s) img name = Some (0, True) \<longrightarrow>
      apply_reloc env a img (off, info, addend) s =
        (if ELF_ST_BIND i = STB_WEAK then reloc_store s (load_bias img + off) 0 else Some (reloc_fail kError s)))"
proof -
  have ty: "RELOC_JUMP_SLOT (relocs a) \<noteq> 0" "\<not> IsTlsReloc a (RELOC_JUMP_SLOT (relocs a))"
    "RELOC_JUMP_SLOT (relocs a) \<noteq> RELOC_RELATIVE (relocs a)" "RELOC_JUMP_SLOT (relocs a) \<noteq> RELOC_IRELATIVE (relocs a)"
    by (cases a; simp add: IsTlsReloc_def reloc_aarch64_def reloc_x86_64_def reloc_riscv64_def)+
  have "apply_reloc env a img (off, info, addend) s = do {
       sv \<leftarrow> reloc_symbol env img (rv_vm s) n;
       (case sv of None \<Rightarrow> Some (reloc_fail kError s) | Some v \<Rightarrow> reloc_store s (load_bias img + off) v) }"
    using slot sym(1) ty by (auto simp: apply_reloc_def Contains_def Let_def)
  then show ?thesis using sym by (simp add: reloc_symbol_def) (simp add: ResolveSymbol_def)
qed

theorem undefined_reference_binding_witness:
  "apply_reloc no_dl X86_64 (rel_image\<lparr>symtab := 0x1000, strtab := 0x1000\<rparr>) (0x10, 7, 0)
     \<lparr>rv_vm = rel_mem, rv_err = kNone, rv_ok = True\<rparr> =
   Some \<lparr>rv_vm = rel_mem, rv_err = kError, rv_ok = False\<rparr>"
proof -
  let ?img = "rel_image\<lparr>symtab := 0x1000, strtab := 0x1000\<rparr>"
  let ?s = "\<lparr>rv_vm = rel_mem, rv_err = kNone, rv_ok = True\<rparr>"
  have sym: "sym_shndx rel_mem 0x1000 0 = Some SHN_UNDEF" "sym_name rel_mem 0x1000 0 = Some 0"
    "sym_info rel_mem 0x1000 0 = Some 0" "load_cstr rel_mem 0x1000 = Some []"
    by (simp_all add: sym_shndx_def sym_name_def sym_info_def sym_at_def rel_eval load_cstr.simps [where p = "0x1000"])
  have res: "ResolveSymbol no_dl rel_mem ?img [] = Some (0, True)"
    by (simp add: ResolveSymbol_def InterposeLookup_def kTable_def cstring_def Image_Symbol_def LookupInImage_def
        lookup_sysv_def rel_image_def new_image_def no_dl_def)
  have "(InterposeLookup no_dl [] \<noteq> 0 \<longrightarrow>
      apply_reloc no_dl X86_64 ?img (0x10, 7, 0) ?s = reloc_store ?s (load_bias ?img + 0x10) (InterposeLookup no_dl [])) \<and>
    (ResolveSymbol no_dl (rv_vm ?s) ?img [] = Some (0, True) \<longrightarrow>
      apply_reloc no_dl X86_64 ?img (0x10, 7, 0) ?s =
        (if ELF_ST_BIND 0 = STB_WEAK then reloc_store ?s (load_bias ?img + 0x10) 0 else Some (reloc_fail kError ?s)))"
    by (rule undefined_reference_binding [where n = 0 and st = 0])
      (simp_all add: sym RELOC_R_TYPE_def RELOC_R_SYM_def reloc_x86_64_def Contains_def rel_image_def)
  with res show ?thesis by (simp add: ELF_ST_BIND_def reloc_fail_def)
qed

end
