(* ===== verification/Image_Load.thy ===== *)
theory Image_Load
  imports Image_Reloc
begin

text \<open>
  Loading and destroying a module (\<open>linker/linker.cpp\<close>: \<open>SetSegmentProtections\<close>,
  \<open>ApplyRelro\<close>, \<open>CallConstructors\<close>, \<open>CallDestructors\<close>, \<open>Image::Load\<close>, \<open>~Image\<close>).  The state is
  the address space, the image objects by their address, the list \<open>g_images\<close> and the trace of
  calls that leave the linker.  The module's own functions are the parameter \<open>callf\<close>: the effect
  of a call on the address space (\<open>None\<close>: it crashes or does not return); they do not call back
  into the linker.  The address \<open>new Image()\<close> returns is an argument of \<open>Load\<close>.
\<close>

section \<open>Definitions\<close>

subsection \<open>Protections\<close>

definition seg_start :: "addr \<Rightarrow> image \<Rightarrow> phdr \<Rightarrow> addr" where
  "seg_start pg img ph = load_bias img + PageStart (p_vaddr ph) pg"

definition seg_end :: "addr \<Rightarrow> image \<Rightarrow> phdr \<Rightarrow> addr" where
  "seg_end pg img ph = load_bias img + PageEnd (p_vaddr ph + p_memsz ph) pg"

definition seg_prot :: "arch \<Rightarrow> image \<Rightarrow> phdr \<Rightarrow> u32" where
  "seg_prot a img ph =
     (let prot = ToProt (p_flags ph) in
      if a = AArch64 \<and> wants_bti img \<and> prot AND PROT_EXEC \<noteq> 0 then prot OR PROT_BTI else prot)"

definition protect_segment :: "sysenv \<Rightarrow> arch \<Rightarrow> image \<Rightarrow> phdr \<Rightarrow> vm \<Rightarrow> bool \<times> vm" where
  "protect_segment env a img ph m =
     (let pg = PageSize (se_pagesize env); s = seg_start pg img ph; n = seg_end pg img ph - s;
          prot = seg_prot a img ph in
      if se_mprotect env s n prot then (True, protect m s n prot)
      else if a = AArch64 \<and> prot AND PROT_BTI \<noteq> 0 \<and> se_mprotect env s n (prot AND NOT PROT_BTI)
        then (True, protect m s n (prot AND NOT PROT_BTI))
      else (False, m))"

primrec protect_loop :: "sysenv \<Rightarrow> arch \<Rightarrow> image \<Rightarrow> nat \<Rightarrow> addr \<Rightarrow> vm \<Rightarrow> (bool \<times> vm) option" where
  "protect_loop env a img 0 p m = Some (True, m)"
| "protect_loop env a img (Suc n) p m = do {
     ph \<leftarrow> load_phdr m p;
     (if p_type ph \<noteq> PT_LOAD then protect_loop env a img n (p + 56) m
      else case protect_segment env a img ph m of
        (True, m') \<Rightarrow> protect_loop env a img n (p + 56) m'
      | (False, m') \<Rightarrow> Some (False, m')) }"

definition SetSegmentProtections :: "sysenv \<Rightarrow> arch \<Rightarrow> image \<Rightarrow> vm \<Rightarrow> (bool \<times> vm) option" where
  "SetSegmentProtections env a img m = protect_loop env a img (phnum img) (im_phdr img) m"

text \<open>Calls out of the linker, in order.\<close>

datatype event = EvCall addr | EvClearCache addr addr | EvDlclose addr

primrec relro_loop :: "sysenv \<Rightarrow> image \<Rightarrow> nat \<Rightarrow> addr \<Rightarrow> vm \<Rightarrow> vm option" where
  "relro_loop env img 0 p m = Some m"
| "relro_loop env img (Suc n) p m = do {
     ph \<leftarrow> load_phdr m p;
     let pg = PageSize (se_pagesize env);
     let s = seg_start pg img ph;
     let k = seg_end pg img ph - s;
     relro_loop env img n (p + 56)
       (if p_type ph = PT_GNU_RELRO \<and> se_mprotect env s k PROT_READ then protect m s k PROT_READ else m) }"

definition ApplyRelro :: "sysenv \<Rightarrow> image \<Rightarrow> vm \<times> event list \<Rightarrow> (vm \<times> event list) option" where
  "ApplyRelro env img s = do {
     m \<leftarrow> relro_loop env img (phnum img) (im_phdr img) (fst s);
     phs \<leftarrow> mapped_phdrs m img;
     let pg = PageSize (se_pagesize env);
     Some (m, snd s @ map (\<lambda>ph. EvClearCache (seg_start pg img ph) (seg_end pg img ph)) (loads phs)) }"

subsection \<open>Constructors and destructors\<close>

definition call_entry :: "(addr \<Rightarrow> vm \<Rightarrow> vm option) \<Rightarrow> addr \<Rightarrow> vm \<times> event list \<Rightarrow> (vm \<times> event list) option" where
  "call_entry callf fn s = do { m \<leftarrow> callf fn (fst s); Some (m, snd s @ [EvCall fn]) }"

fun call_array :: "(addr \<Rightarrow> vm \<Rightarrow> vm option) \<Rightarrow> addr \<Rightarrow> nat list \<Rightarrow> vm \<times> event list \<Rightarrow> (vm \<times> event list) option" where
  "call_array callf arr [] s = Some s"
| "call_array callf arr (i # is) s = do {
     fn \<leftarrow> load_u64 (fst s) (arr + 8 * of_nat i);
     s' \<leftarrow> (if fn \<noteq> 0 \<and> fn \<noteq> - 1 then call_entry callf fn s else Some s);
     call_array callf arr is s' }"

definition CallConstructors :: "(addr \<Rightarrow> vm \<Rightarrow> vm option) \<Rightarrow> image \<Rightarrow> vm \<times> event list
    \<Rightarrow> (image \<times> vm \<times> event list) option" where
  "CallConstructors callf img s =
     (if constructors_called img then Some (img, s)
      else do {
        s1 \<leftarrow> (if init_func img \<noteq> 0 then call_entry callf (init_func img) s else Some s);
        s2 \<leftarrow> call_array callf (init_array img) [0..<unat (init_array_count img)] s1;
        Some (img\<lparr>constructors_called := True\<rparr>, s2) })"

definition CallDestructors :: "(addr \<Rightarrow> vm \<Rightarrow> vm option) \<Rightarrow> image \<Rightarrow> vm \<times> event list \<Rightarrow> (vm \<times> event list) option" where
  "CallDestructors callf img s =
     (if \<not> constructors_called img then Some s
      else do {
        s1 \<leftarrow> call_array callf (fini_array img) (rev [0..<unat (fini_array_count img)]) s;
        (if fini_func img \<noteq> 0 then call_entry callf (fini_func img) s1 else Some s1) })"

definition delete_image :: "(addr \<Rightarrow> vm \<Rightarrow> vm option) \<Rightarrow> image \<Rightarrow> vm \<times> event list \<Rightarrow> (vm \<times> event list) option" where
  "delete_image callf img s = do {
     (m, tr) \<leftarrow> CallDestructors callf img s;
     Some (if map_start img \<noteq> 0 \<and> map_size img \<noteq> 0 then unmap m (map_start img) (map_size img) else m,
           tr @ map EvDlclose (filter (\<lambda>h. h \<noteq> 0) (needed_handles img))) }"

subsection \<open>Load\<close>

record loader =
  ld_vm :: vm
  ld_replies :: "pread_reply list"
  ld_err :: load_error
  ld_heap :: "addr \<Rightarrow> image option"
  ld_images :: "addr list"
  ld_trace :: "event list"

text \<open>One \<open>pread\<close> into a local buffer: the bytes it delivers (\<open>None\<close>: it fails).\<close>

fun pread_once :: "byte list \<Rightarrow> pread_reply list \<Rightarrow> nat \<Rightarrow> nat \<Rightarrow> byte list option \<times> pread_reply list" where
  "pread_once file [] n off = (Some (take n (drop off file)), [])"
| "pread_once file (PrBytes k # rs) n off = (Some (take (min k n) (drop off file)), rs)"
| "pread_once file (r # rs) n off = (None, rs)"

definition elf_ok :: "ehdr \<Rightarrow> bool" where
  "elf_ok eh \<longleftrightarrow> take 4 (e_ident eh) = [0x7f, 0x45, 0x4c, 0x46] \<and> e_ident eh ! 4 = 2 \<and> e_type eh = 3"

primrec phdrs_of :: "nat \<Rightarrow> byte list \<Rightarrow> phdr list" where
  "phdrs_of 0 bs = []"
| "phdrs_of (Suc n) bs = phdr_of bs # phdrs_of n (drop 56 bs)"

definition needs_tls :: "phdr list \<Rightarrow> bool" where
  "needs_tls phs \<longleftrightarrow> (\<exists>ph \<in> set phs. p_type ph = PT_TLS \<and> p_memsz ph > 0)"

text \<open>The failure path: the object is deleted, the null handle is returned.\<close>

definition load_fail :: "(addr \<Rightarrow> vm \<Rightarrow> vm option) \<Rightarrow> loader \<Rightarrow> lstate \<Rightarrow> (addr \<times> loader) option" where
  "load_fail callf s st = do {
     (m, tr) \<leftarrow> delete_image callf (ls_img st) (ls_vm st, ld_trace s);
     Some (0, s\<lparr>ld_vm := m, ld_replies := ls_replies st, ld_err := ls_err st, ld_trace := tr\<rparr>) }"

text \<open>Everything after the program headers have been read and accepted.\<close>

definition load_mapped :: "sysenv \<Rightarrow> dlenv \<Rightarrow> arch \<Rightarrow> (addr \<Rightarrow> vm \<Rightarrow> vm option) \<Rightarrow> addr \<Rightarrow> ehdr \<Rightarrow> phdr list
    \<Rightarrow> cstr option \<Rightarrow> bool \<Rightarrow> loader \<Rightarrow> (addr \<times> loader) option" where
  "load_mapped env dl a callf h eh phs name anonymous s = do {
     let img = new_image\<lparr>im_name := (case name of Some n \<Rightarrow> n | None \<Rightarrow> cstring ''(anonymous)'')\<rparr>;
     (ok1, st1) \<leftarrow> MapSegments env eh phs anonymous
       \<lparr>ls_vm = ld_vm s, ls_replies = ld_replies s, ls_err = ld_err s, ls_img = img\<rparr>;
     (ok2, st2) \<leftarrow> (if ok1 then ParseDynamic st1 else Some (False, st1));
     (if \<not> ok2 then load_fail callf s st2
      else do {
        (ok3, m3) \<leftarrow> SetSegmentProtections env a (ls_img st2) (ls_vm st2);
        (if \<not> ok3 then load_fail callf s (st2\<lparr>ls_vm := m3, ls_err := kError\<rparr>)
         else do {
           (ok4, st4) \<leftarrow> Relocate dl a (st2\<lparr>ls_vm := m3\<rparr>);
           (if \<not> ok4 then load_fail callf s st4
            else do {
              t5 \<leftarrow> ApplyRelro env (ls_img st4) (ls_vm st4, ld_trace s);
              (img6, m6, tr6) \<leftarrow> CallConstructors callf (ls_img st4) t5;
              Some (h, s\<lparr>ld_vm := m6, ld_replies := ls_replies st4, ld_err := ls_err st4,
                          ld_heap := (ld_heap s)(h \<mapsto> img6), ld_images := ld_images s @ [h],
                          ld_trace := tr6\<rparr>) }) }) }) }"

definition Load :: "sysenv \<Rightarrow> dlenv \<Rightarrow> arch \<Rightarrow> (addr \<Rightarrow> vm \<Rightarrow> vm option) \<Rightarrow> addr \<Rightarrow> cstr option \<Rightarrow> bool \<Rightarrow> loader
    \<Rightarrow> (addr \<times> loader) option" where
  "Load env dl a callf h name anonymous s0 =
     (let s = s0\<lparr>ld_err := kNone\<rparr>;
          (eb, rs1) = pread_once (se_file env) (ld_replies s) 64 0;
          s1 = s\<lparr>ld_replies := rs1\<rparr>
      in case eb of
        None \<Rightarrow> Some (0, s1\<lparr>ld_err := kError\<rparr>)
      | Some ebs \<Rightarrow>
          if length ebs \<noteq> 64 then Some (0, s1\<lparr>ld_err := kError\<rparr>)
          else let eh = ehdr_of ebs in
            if \<not> elf_ok eh then Some (0, s1\<lparr>ld_err := kError\<rparr>)
            else let n = unat (e_phnum eh);
                     (pb, rs2) = pread_once (se_file env) rs1 (56 * n) (unat (e_phoff eh));
                     s2 = s1\<lparr>ld_replies := rs2\<rparr>
                 in case pb of
                   None \<Rightarrow> Some (0, s2\<lparr>ld_err := kError\<rparr>)
                 | Some pbs \<Rightarrow>
                     if length pbs \<noteq> 56 * n then Some (0, s2\<lparr>ld_err := kError\<rparr>)
                     else if needs_tls (phdrs_of n pbs) then Some (0, s2\<lparr>ld_err := kUnsupported\<rparr>)
                     else load_mapped env dl a callf h eh (phdrs_of n pbs) name anonymous s2)"

subsection \<open>Reference: what a half-built image owns\<close>

text \<open>
  Everything mapped since \<open>m0\<close> lies in the range the destructor unmaps, and no constructor has
  run.
\<close>

definition owns_new_maps :: "vm \<Rightarrow> lstate \<Rightarrow> bool" where
  "owns_new_maps m0 st \<longleftrightarrow> \<not> constructors_called (ls_img st) \<and>
     (map_start (ls_img st) \<noteq> 0 \<or> map_size (ls_img st) = 0) \<and>
     (\<forall>x. vbyte (ls_vm st) x \<noteq> None \<longrightarrow> vbyte m0 x \<noteq> None \<or>
        in_range (map_start (ls_img st)) (map_size (ls_img st)) x)"

text \<open>The header and the program headers of the file, and what is asked of them and of the kernel.\<close>

definition file_ehdr :: "byte list \<Rightarrow> ehdr" where
  "file_ehdr file = ehdr_of (take 64 file)"

definition file_phdrs :: "byte list \<Rightarrow> phdr list" where
  "file_phdrs file = (let eh = file_ehdr file; n = unat (e_phnum eh) in
     phdrs_of n (take (56 * n) (drop (unat (e_phoff eh)) file)))"

definition load_geometry :: "sysenv \<Rightarrow> phdr list \<Rightarrow> bool" where
  "load_geometry env phs \<longleftrightarrow> phdrs_ok phs \<and> reserve_ok env \<and> (\<forall>n. se_reserve env n \<noteq> Some 0) \<and>
     (\<exists>k j. PageSize (se_pagesize env) = 2 ^ k \<and> k \<le> 60 \<and> k \<le> j \<and> j < 61 \<and>
        fst (fold extent_step phs (2 ^ k, - 1, 0)) = 2 ^ j)"

text \<open>Functions of the module that leave some cells alone, and the entries of an array that are called.\<close>

definition keeps_cells :: "(addr \<Rightarrow> vm \<Rightarrow> vm option) \<Rightarrow> addr set \<Rightarrow> bool" where
  "keeps_cells callf A \<longleftrightarrow> (\<forall>fn m m' p. p \<in> A \<longrightarrow> callf fn m = Some m' \<longrightarrow> load_u64 m' p = load_u64 m p)"

definition array_cells :: "addr \<Rightarrow> addr \<Rightarrow> addr set" where
  "array_cells arr n = (\<lambda>i. arr + 8 * of_nat i) ` {..<unat n}"

definition callable :: "addr list \<Rightarrow> addr list" where
  "callable fs = filter (\<lambda>f. f \<noteq> 0 \<and> f \<noteq> - 1) fs"

subsection \<open>Samples\<close>

definition sample_loader :: loader where
  "sample_loader = \<lparr>ld_vm = \<lparr>vbyte = (\<lambda>_. None), vprot = (\<lambda>_. 0)\<rparr>, ld_replies = [], ld_err = kNone,
     ld_heap = (\<lambda>_. None), ld_images = [], ld_trace = []\<rparr>"

text \<open>An ELF file with one program header, a thread-local segment of 8 bytes.\<close>

definition tls_file :: "byte list" where
  "tls_file = [0x7f, 0x45, 0x4c, 0x46, 2] @ replicate 11 0 @ [3, 0] @ replicate 14 0 @ [64] @ replicate 23 0 @
     [1] @ replicate 7 0 @ [7] @ replicate 39 0 @ [8] @ replicate 15 0"

section \<open>Lemmas\<close>

subsection \<open>Which operations map memory\<close>

definition same_maps :: "vm \<Rightarrow> vm \<Rightarrow> bool" where
  "same_maps m m' \<longleftrightarrow> (\<forall>x. vbyte m' x = None \<longleftrightarrow> vbyte m x = None)"

lemma same_maps_refl [simp]: "same_maps m m"
  by (simp add: same_maps_def)

lemma same_maps_trans: "same_maps m m1 \<Longrightarrow> same_maps m1 m2 \<Longrightarrow> same_maps m m2"
  by (simp add: same_maps_def)

lemma same_maps_protect [simp]: "same_maps m (protect m' s n p) = same_maps m m'"
  by (simp add: same_maps_def protect_def)

lemma same_maps_store: "store_bytes m p bs = Some m' \<Longrightarrow> same_maps m m'"
proof -
  assume st: "store_bytes m p bs = Some m'"
  then have w: "writable_bytes m p (length bs)" by (auto simp: store_bytes_def split: if_splits)
  have "vbyte m x \<noteq> None" if "unat (x - p) < length bs" for x
    using w [unfolded writable_bytes_iff, rule_format, OF that] by (simp add: writable8_def)
  then show ?thesis by (simp add: same_maps_def store_bytes_vbyte [OF st] put_bytes_def)
qed

lemma same_maps_store_u64: "store_u64 m p v = Some m' \<Longrightarrow> same_maps m m'"
  by (auto simp: store_word_def intro: same_maps_store)

lemma writable_prefix_mapped:
  "i < writable_prefix m p n \<Longrightarrow> vbyte m (p + of_nat i) \<noteq> None"
proof (induction n arbitrary: p i)
  case (Suc n)
  then show ?case
    by (cases i) (auto simp: writable8_def add.assoc [symmetric] split: if_splits dest: Suc.IH [of _ "p + 1"])
qed simp

lemma same_maps_poke:
  assumes "length bs \<le> writable_prefix m p n"
  shows "same_maps m (poke m p bs)"
proof -
  have "vbyte m x \<noteq> None" if "unat (x - p) < length bs" for x
    using writable_prefix_mapped [of "unat (x - p)" m p n] that assms by simp
  then show ?thesis by (simp add: same_maps_def poke_def put_bytes_def)
qed

lemma PreadFull_maps: "PreadFull f rs m p len off = (ok, m', rs') \<Longrightarrow> same_maps m m'"
proof (induction f rs m p len off rule: PreadFull.induct)
  case (1 f rs m p len off)
  let ?n = "pread_count f rs m p len off"
  have poke: "same_maps m (poke m p (take ?n (drop off f)))"
    by (rule same_maps_poke [of _ _ _ "min (case rs of PrBytes k # _ \<Rightarrow> k | _ \<Rightarrow> len) (min len (length f - off))"])
      (simp add: pread_count_def)
  consider (empty) "len = 0" | (intr) "len \<noteq> 0" "rs \<noteq> [] \<and> hd rs = PrIntr"
    | (fail) "len \<noteq> 0" "\<not> (rs \<noteq> [] \<and> hd rs = PrIntr)" "rs \<noteq> [] \<and> hd rs = PrFail \<or> ?n = 0"
    | (more) "len \<noteq> 0" "\<not> (rs \<noteq> [] \<and> hd rs = PrIntr)" "\<not> (rs \<noteq> [] \<and> hd rs = PrFail)" "?n \<noteq> 0" by blast
  then show ?case
  proof cases
    case intr
    from "1.prems" show ?thesis
      unfolding PreadFull_unfold [of f rs] using "1.IH"(1) [OF intr] intr by simp
  next
    case more
    from "1.prems" have "PreadFull f (tl rs) (poke m p (take ?n (drop off f))) (p + of_nat ?n) (len - ?n) (off + ?n) = (ok, m', rs')"
      unfolding PreadFull_unfold [of f rs] using more by simp
    then have "same_maps (poke m p (take ?n (drop off f))) m'"
      using "1.IH"(2) [OF more(1-3) refl refl refl] more(4) unfolding pread_count_def by blast
    with poke show ?thesis by (rule same_maps_trans)
  qed (use "1.prems" in \<open>auto simp: PreadFull_unfold [of f rs] split: if_splits\<close>)
qed

lemma anonymous_seg_maps: "map_anonymous_seg env pg bias ph m rs = (ok, m', rs') \<Longrightarrow> same_maps m m'"
  by (auto simp: map_anonymous_seg_def Let_def split: if_splits dest!: PreadFull_maps) (simp add: same_maps_def protect_def)

lemma map_loads_maps: "map_loads env True pg bias phs m rs = Some (ok, m', rs') \<Longrightarrow> same_maps m m'"
proof (induction phs arbitrary: m rs)
  case (Cons ph phs)
  obtain ok1 m1 rs1 where r: "map_anonymous_seg env pg bias ph m rs = (ok1, m1, rs1)" by (metis prod_cases3)
  from Cons.prems r Cons.IH anonymous_seg_maps [OF r] show ?case
    by (auto split: if_splits intro: same_maps_trans)
qed simp

subsection \<open>A half-built image owns what was mapped\<close>

lemma MapSegments_owns:
  assumes geo: "load_geometry env phs" and img: "map_size (ls_img st) = 0" "\<not> constructors_called (ls_img st)"
    and run: "MapSegments env eh phs True st = Some (ok, st')"
  shows "owns_new_maps (ls_vm st) st'"
proof -
  obtain k j where pg: "PageSize (se_pagesize env) = 2 ^ k" "k \<le> 60" "k \<le> j" "j < 61"
    and al: "fst (fold extent_step phs (2 ^ k, - 1, 0)) = 2 ^ j" using geo by (auto simp: load_geometry_def)
  obtain lo hi where ext: "fold extent_step phs (2 ^ k, - 1, 0) = (2 ^ j, lo, hi)"
    using al by (metis prod.collapse)
  let ?span = "PageEnd hi (2 ^ k) - PageStart lo (2 ^ k)"
  consider (none) "ls_vm st' = ls_vm st" "ls_img st' = ls_img st"
    | (some) raw m2 aligned rs' where "lo \<noteq> - 1" "se_reserve env (?span + 2 ^ j) = Some raw"
      "reserve_aligned (ls_vm st) raw ?span (2 ^ j) = (m2, aligned)"
      "map_loads env True (2 ^ k) (aligned - PageStart lo (2 ^ k)) phs m2 (ls_replies st) = Some (ok, ls_vm st', rs')"
      "map_start (ls_img st') = aligned" "map_size (ls_img st') = ?span"
      "constructors_called (ls_img st') = constructors_called (ls_img st)"
    using run ext by (auto simp: MapSegments_def pg(1) Let_def bind_eq_Some_conv split: if_splits option.splits prod.splits)
  then show ?thesis
  proof cases
    case none
    with img show ?thesis by (auto simp: owns_new_maps_def)
  next
    case some
    have "raw \<noteq> 0" using geo some(2) by (auto simp: load_geometry_def)
    have p60: "(2 :: nat) ^ j \<le> 2 ^ 60" using pg(4) by (intro power_increasing) auto
    note g = extent_geometry [OF _ pg(2) ext some(1)]
    have "unat (?span + 2 ^ j) = unat ?span + 2 ^ j"
      using g(2,5) geo p60 pg(4) by (subst unat_add_small) (simp_all add: load_geometry_def unat_pow2)
    then have nowrap: "unat raw + unat ?span + 2 ^ j < 2 ^ 64"
      using geo some(2) unfolding load_geometry_def reserve_ok_def by fastforce
    have a: "aligned = AlignUp raw (2 ^ j)"
      using reserve_aligned_snd [of "ls_vm st" raw ?span j] some(3) by simp
    have "unat raw \<le> unat aligned" using AlignUp_bounds(1) [of j raw] pg(4) nowrap unfolding a by auto
    then have "aligned \<noteq> 0" using \<open>raw \<noteq> 0\<close> by (auto simp: unat_eq_0)
    moreover have "vbyte m2 x = None \<or> vbyte (ls_vm st) x \<noteq> None \<or> in_range aligned ?span x" for x
      using reserve_aligned_vm(1) [of j raw ?span "ls_vm st" x] pg(4) nowrap some(3) by (auto simp: a)
    moreover have "same_maps m2 (ls_vm st')" using map_loads_maps [OF some(4)] .
    ultimately show ?thesis
      using img some(5-7) unfolding owns_new_maps_def same_maps_def by metis
  qed
qed

lemma dyn_entry_keeps_range:
  assumes "dyn_entry m t v img plt = Some r"
  shows "case r of DynGo i p \<Rightarrow> map_start i = map_start img \<and> map_size i = map_size img \<and>
      constructors_called i = constructors_called img \<and> needed_handles i = needed_handles img
    | DynRefuse i \<Rightarrow> map_start i = map_start img \<and> map_size i = map_size img \<and>
      constructors_called i = constructors_called img \<and> needed_handles i = needed_handles img"
  using assms unfolding dyn_entry_def Let_def
  by (elim if_Some_E) (auto simp: Let_def split: if_splits dest!: read_gnu_hash_Some read_sysv_hash_Some)

definition same_range :: "image \<Rightarrow> image \<Rightarrow> bool" where
  "same_range i j \<longleftrightarrow> map_start j = map_start i \<and> map_size j = map_size i \<and>
     constructors_called j = constructors_called i"

lemma owns_mono:
  "owns_new_maps m0 st \<Longrightarrow> same_range (ls_img st) (ls_img st') \<Longrightarrow> same_maps (ls_vm st) (ls_vm st') \<Longrightarrow>
     owns_new_maps m0 st'"
  unfolding owns_new_maps_def same_range_def same_maps_def by metis

lemma dyn_loop_keeps_range:
  assumes "dyn_loop m d img plt = Some r"
  shows "case r of DynGo i p \<Rightarrow> same_range img i | DynRefuse i \<Rightarrow> same_range img i"
  using assms
proof (rule dyn_loop.raw_induct [of "\<lambda>m d img plt r. case r of DynGo i p \<Rightarrow> same_range img i | DynRefuse i \<Rightarrow> same_range img i", rotated])
  fix f m d img plt r
  assume IH: "\<And>m d img plt r. f m d img plt = Some r \<Longrightarrow> case r of DynGo i p \<Rightarrow> same_range img i | DynRefuse i \<Rightarrow> same_range img i"
    and run: "do { tag \<leftarrow> load_u64 m d;
       (if tag = DT_NULL then Some (DynGo img plt)
        else do { val \<leftarrow> load_u64 m (d + 8); r \<leftarrow> dyn_entry m tag val img plt;
          (case r of DynGo img' plt' \<Rightarrow> f m (d + 16) img' plt' | DynRefuse img' \<Rightarrow> Some (DynRefuse img')) }) } = Some r"
  show "case r of DynGo i p \<Rightarrow> same_range img i | DynRefuse i \<Rightarrow> same_range img i"
  proof (cases "load_u64 m d = Some DT_NULL")
    case True
    with run show ?thesis by (auto simp: same_range_def)
  next
    case False
    with run obtain tag val e where e: "dyn_entry m tag val img plt = Some e"
      and rest: "(case e of DynGo img' plt' \<Rightarrow> f m (d + 16) img' plt' | DynRefuse img' \<Rightarrow> Some (DynRefuse img')) = Some r"
      by (auto simp: bind_eq_Some_conv split: if_splits)
    from dyn_entry_keeps_range [OF e] rest IH show ?thesis
      by (cases e) (fastforce simp: same_range_def split: dyn_result.splits)+
  qed
qed

lemma ParseDynamic_owns:
  assumes "ParseDynamic st = Some (ok, st')" "owns_new_maps m0 st"
  shows "owns_new_maps m0 st'"
proof -
  have "ls_vm st' = ls_vm st \<and> same_range (ls_img st) (ls_img st')"
  proof -
    from assms(1) obtain phs where phs: "mapped_phdrs (ls_vm st) (ls_img st) = Some phs"
      by (auto simp: ParseDynamic_def Let_def bind_eq_Some_conv)
    let ?i = "(ls_img st)\<lparr>im_dynamic := find_dynamic (ls_img st) phs\<rparr>"
    show ?thesis
    proof (cases "find_dynamic (ls_img st) phs = 0")
      case True
      with assms(1) phs show ?thesis by (auto simp: ParseDynamic_def Let_def same_range_def)
    next
      case False
      with assms(1) phs obtain r where r: "dyn_loop (ls_vm st) (im_dynamic ?i) ?i 0 = Some r"
        by (auto simp: ParseDynamic_def Let_def bind_eq_Some_conv)
      from dyn_loop_keeps_range [OF r] assms(1) phs r False show ?thesis
        by (cases r) (auto simp: ParseDynamic_def Let_def bind_eq_Some_conv same_range_def split: if_splits)
    qed
  qed
  with owns_mono [OF assms(2)] show ?thesis by simp
qed

lemma protect_loop_maps: "protect_loop env a img n p m = Some (ok, m') \<Longrightarrow> same_maps m m'"
proof (induction n arbitrary: p m)
  case (Suc n)
  have seg: "same_maps m (snd (protect_segment env a img ph m))" for ph
    by (simp add: protect_segment_def Let_def)
  obtain ph where ph: "load_phdr m p = Some ph" using Suc.prems by (auto simp: bind_eq_Some_conv)
  obtain b m1 where b: "protect_segment env a img ph m = (b, m1)" by fastforce
  from Suc.prems ph b seg [of ph] show ?case
    by (cases b) (auto split: if_splits intro: Suc.IH same_maps_trans [OF _ Suc.IH])
qed simp

lemma reloc_store_maps: "reloc_store s p v = Some s' \<Longrightarrow> same_maps (rv_vm s) (rv_vm s')"
  by (auto simp: reloc_store_def intro: same_maps_store_u64)

lemma apply_maps: "apply_reloc env a img r s = Some s' \<Longrightarrow> same_maps (rv_vm s) (rv_vm s')"
  using apply_reloc_outcome [of env a img "fst r" "fst (snd r)" "snd (snd r)" s s']
  by (auto simp: reloc_fail_def intro: reloc_store_maps)

interpretation maps: reloc_relation env a img "\<lambda>s s'. same_maps (rv_vm s) (rv_vm s')" for env a img
  by unfold_locales (auto intro: same_maps_trans apply_maps simp: reloc_fail_def)

lemma relr_maps: "relr_apply bias ps m = Some m' \<Longrightarrow> same_maps m m'"
  by (induction ps arbitrary: m) (auto simp: bind_eq_Some_conv intro: same_maps_trans dest!: same_maps_store_u64)

lemma Relocate_owns:
  assumes "Relocate env a st = Some (ok, st')" "owns_new_maps m0 st"
  shows "owns_new_maps m0 st'"
proof -
  define img where "img = (ls_img st)\<lparr>needed_handles := needed_handles (ls_img st) @
    open_needed env (needed_names (ls_img st))\<rparr>"
  let ?s0 = "\<lparr>rv_vm = ls_vm st, rv_err = ls_err st, rv_ok = True\<rparr>"
  obtain s1 s :: rstate where "relocate_relr img ?s0 = Some s1" "same_maps (rv_vm s1) (rv_vm s)"
    "ls_vm st' = rv_vm s" "ls_img st' = img"
    using maps.relocate_R [OF img_def assms(1)] by blast
  moreover then have "same_maps (ls_vm st) (rv_vm s1)"
    by (auto simp: relocate_relr_def bind_eq_Some_conv split: if_splits intro: relr_maps)
  ultimately show ?thesis
    using owns_mono [OF assms(2), of st'] by (auto simp: img_def same_range_def intro: same_maps_trans)
qed

lemma delete_new_image:
  assumes own: "owns_new_maps m0 st" and del: "delete_image callf (ls_img st) (ls_vm st, tr) = Some (m, tr')"
  shows "tr' = tr @ map EvDlclose (filter (\<lambda>h. h \<noteq> 0) (needed_handles (ls_img st)))"
    and "vbyte m x \<noteq> None \<Longrightarrow> vbyte m0 x \<noteq> None"
proof -
  let ?i = "ls_img st"
  have nc: "\<not> constructors_called ?i" using own by (simp add: owns_new_maps_def)
  then show "tr' = tr @ map EvDlclose (filter (\<lambda>h. h \<noteq> 0) (needed_handles ?i))"
    using del by (auto simp: delete_image_def CallDestructors_def)
  have m: "m = (if map_start ?i \<noteq> 0 \<and> map_size ?i \<noteq> 0 then unmap (ls_vm st) (map_start ?i) (map_size ?i) else ls_vm st)"
    using del nc by (auto simp: delete_image_def CallDestructors_def)
  show "vbyte m0 x \<noteq> None" if "vbyte m x \<noteq> None"
  proof -
    have "vbyte (ls_vm st) x \<noteq> None" "\<not> in_range (map_start ?i) (map_size ?i) x"
      using that own by (auto simp: m unmap_def owns_new_maps_def in_range_def split: if_splits)
    with own show ?thesis unfolding owns_new_maps_def by blast
  qed
qed

lemma load_fail_clean:
  assumes "load_fail callf s st = Some (h, s')" "owns_new_maps m0 st"
  shows "h = 0 \<and> ld_heap s' = ld_heap s \<and> ld_images s' = ld_images s \<and>
    (\<forall>x. vbyte (ld_vm s') x \<noteq> None \<longrightarrow> vbyte m0 x \<noteq> None) \<and>
    ld_trace s' = ld_trace s @ map EvDlclose (filter (\<lambda>h. h \<noteq> 0) (needed_handles (ls_img st)))"
  using assms(1) delete_new_image [OF assms(2)] by (auto simp: load_fail_def bind_eq_Some_conv)

lemma load_mapped_failure:
  assumes geo: "load_geometry env phs" and "h \<noteq> 0"
    and run: "load_mapped env dl a callf h eh phs name True s = Some (0, s')"
  shows "ld_heap s' = ld_heap s \<and> ld_images s' = ld_images s \<and>
    (\<forall>x. vbyte (ld_vm s') x \<noteq> None \<longrightarrow> vbyte (ld_vm s) x \<noteq> None) \<and>
    (\<exists>hs. ld_trace s' = ld_trace s @ map EvDlclose hs \<and> 0 \<notin> set hs)"
proof -
  define st0 where "st0 = \<lparr>ls_vm = ld_vm s, ls_replies = ld_replies s, ls_err = ld_err s,
    ls_img = new_image\<lparr>im_name := (case name of Some n \<Rightarrow> n | None \<Rightarrow> cstring ''(anonymous)'')\<rparr>\<rparr>"
  from run obtain ok1 st1 where 1: "MapSegments env eh phs True st0 = Some (ok1, st1)"
    by (auto simp: load_mapped_def st0_def bind_eq_Some_conv)
  have o1: "owns_new_maps (ld_vm s) st1"
    using MapSegments_owns [OF geo _ _ 1] by (simp add: st0_def new_image_def)
  from run 1 obtain ok2 st2 where 2: "(if ok1 then ParseDynamic st1 else Some (False, st1)) = Some (ok2, st2)"
    by (auto simp: load_mapped_def st0_def bind_eq_Some_conv)
  have o2: "owns_new_maps (ld_vm s) st2" using 2 o1 ParseDynamic_owns by (auto split: if_splits)
  have "\<exists>st. load_fail callf s st = Some (0, s') \<and> owns_new_maps (ld_vm s) st"
  proof (cases ok2)
    case True
    with run 1 2 obtain ok3 m3 where 3: "SetSegmentProtections env a (ls_img st2) (ls_vm st2) = Some (ok3, m3)"
      by (auto simp: load_mapped_def st0_def bind_eq_Some_conv)
    have o3: "owns_new_maps (ld_vm s) (st2\<lparr>ls_vm := m3, ls_err := e\<rparr>)" for e
      using owns_mono [OF o2] protect_loop_maps [OF 3 [unfolded SetSegmentProtections_def]]
      by (simp add: same_range_def)
    show ?thesis
    proof (cases ok3)
      case True
      with run \<open>ok2\<close> 1 2 3 obtain ok4 st4 where 4: "Relocate dl a (st2\<lparr>ls_vm := m3\<rparr>) = Some (ok4, st4)"
        by (auto simp: load_mapped_def st0_def bind_eq_Some_conv)
      have "owns_new_maps (ld_vm s) st4" using Relocate_owns [OF 4] o3 [of "ls_err st2"] by simp
      with run \<open>ok2\<close> \<open>ok3\<close> 1 2 3 4 \<open>h \<noteq> 0\<close> show ?thesis
        by (cases ok4) (auto simp: load_mapped_def st0_def bind_eq_Some_conv)
    next
      case False
      with run \<open>ok2\<close> 1 2 3 o3 [of kError] show ?thesis by (auto simp: load_mapped_def st0_def)
    qed
  next
    case False
    with run 1 2 o2 show ?thesis by (auto simp: load_mapped_def st0_def)
  qed
  then obtain st where st: "load_fail callf s st = Some (0, s')" "owns_new_maps (ld_vm s) st" by blast
  show ?thesis using load_fail_clean [OF st]
    by (auto intro!: exI [of _ "filter (\<lambda>h. h \<noteq> 0) (needed_handles (ls_img st))"])
qed

subsection \<open>Reading the headers\<close>

lemma pread_once_full:
  "pread_once file rs n off = (Some bs, rs') \<Longrightarrow> length bs = n \<Longrightarrow> bs = take n (drop off file)"
  by (induction "file" rs n off rule: pread_once.induct) (auto simp: min_def split: if_splits)

text \<open>A load either stops at the headers with the address space untouched, or goes on to map the module.\<close>

lemma Load_stages:
  assumes "Load env dl a callf h name anonymous s0 = Some (r, s')"
  obtains (stop) "r = 0" "ld_vm s' = ld_vm s0" "ld_heap s' = ld_heap s0" "ld_images s' = ld_images s0"
      "ld_trace s' = ld_trace s0"
  | (map) s where "ld_vm s = ld_vm s0" "ld_heap s = ld_heap s0" "ld_images s = ld_images s0"
      "ld_trace s = ld_trace s0" "\<not> needs_tls (file_phdrs (se_file env))"
      "load_mapped env dl a callf h (file_ehdr (se_file env)) (file_phdrs (se_file env)) name anonymous s = Some (r, s')"
proof -
  obtain eb rs1 where e: "pread_once (se_file env) (ld_replies s0) 64 0 = (eb, rs1)" by fastforce
  show thesis
  proof (cases "\<exists>ebs. eb = Some ebs \<and> length ebs = 64 \<and> elf_ok (ehdr_of ebs)")
    case True
    then obtain ebs where ebs: "eb = Some ebs" "length ebs = 64" "elf_ok (ehdr_of ebs)" by blast
    then have eh: "ehdr_of ebs = file_ehdr (se_file env)"
      using pread_once_full [of "se_file env" "ld_replies s0" 64 0 ebs rs1] e by (simp add: file_ehdr_def)
    let ?n = "unat (e_phnum (file_ehdr (se_file env)))" and ?off = "unat (e_phoff (file_ehdr (se_file env)))"
    obtain pb rs2 where p: "pread_once (se_file env) rs1 (56 * ?n) ?off = (pb, rs2)" by fastforce
    show thesis
    proof (cases "\<exists>pbs. pb = Some pbs \<and> length pbs = 56 * ?n")
      case True
      then obtain pbs where pbs: "pb = Some pbs" "length pbs = 56 * ?n" by blast
      then have "phdrs_of ?n pbs = file_phdrs (se_file env)"
        using pread_once_full p by (simp add: file_phdrs_def Let_def)
      with assms e ebs eh p pbs stop map [of "s0\<lparr>ld_err := kNone, ld_replies := rs2\<rparr>"] show thesis
        by (cases "needs_tls (file_phdrs (se_file env))") (auto simp: Load_def Let_def)
    next
      case False
      with assms e ebs eh p stop show thesis by (cases pb) (auto simp: Load_def Let_def)
    qed
  next
    case False
    with assms e stop show thesis by (cases eb) (auto simp: Load_def Let_def split: if_splits)
  qed
qed

subsection \<open>Constructor and destructor calls\<close>

lemma call_array_trace:
  assumes "call_array callf arr is (m, tr) = Some (m', tr')" "keeps_cells callf A"
    and "\<And>i. i \<in> set is \<Longrightarrow> arr + 8 * of_nat i \<in> A \<and> load_u64 m (arr + 8 * of_nat i) = Some (f i)"
  shows "tr' = tr @ map EvCall (callable (map f is)) \<and> (\<forall>p \<in> A. load_u64 m' p = load_u64 m p)"
  using assms(1,3)
proof (induction "is" arbitrary: m tr)
  case (Cons i "is")
  have fn: "load_u64 m (arr + 8 * of_nat i) = Some (f i)" using Cons.prems(2) by simp
  then obtain m1 tr1 where step: "(if f i \<noteq> 0 \<and> f i \<noteq> - 1 then call_entry callf (f i) (m, tr) else Some (m, tr)) = Some (m1, tr1)"
    and rest: "call_array callf arr is (m1, tr1) = Some (m', tr')"
    using Cons.prems(1) by (auto simp: bind_eq_Some_conv)
  have keep: "\<forall>p \<in> A. load_u64 m1 p = load_u64 m p"
    using step assms(2) by (auto simp: call_entry_def keeps_cells_def bind_eq_Some_conv split: if_splits)
  have "tr1 = tr @ map EvCall (callable [f i])"
    using step by (auto simp: call_entry_def callable_def bind_eq_Some_conv split: if_splits)
  with Cons.IH [OF rest] Cons.prems(2) keep show ?case by (simp add: callable_def)
qed (simp add: callable_def)

lemma array_cell: "i < unat n \<Longrightarrow> arr + 8 * of_nat i \<in> array_cells arr n"
  by (auto simp: array_cells_def)

section \<open>Properties\<close>


lemma sample_geometry: "load_geometry sample_env (file_phdrs (se_file sample_env))"
proof -
  have "file_phdrs (se_file sample_env) = []"
    by (simp add: file_phdrs_def file_ehdr_def ehdr_of_def field_def sample_env_def)
  moreover have "PageSize (se_pagesize sample_env) = 2 ^ 12" by (simp add: PageSize_def sample_env_def)
  moreover have "reserve_ok sample_env"
    by (auto simp: reserve_ok_def sample_env_def word_le_nat_alt split: if_splits)
  ultimately show ?thesis
    by (auto simp: load_geometry_def phdrs_ok_def sample_env_def intro!: exI [of _ 12])
qed


text \<open>
  a module with a non-empty thread-local segment is refused as unsupported before anything is
  mapped: the address space, the objects, the registry and the trace are untouched.
\<close>

theorem load_refuses_tls:
  assumes "64 \<le> length (se_file env)" "elf_ok (file_ehdr (se_file env))" "needs_tls (file_phdrs (se_file env))"
    and "56 * unat (e_phnum (file_ehdr (se_file env))) + unat (e_phoff (file_ehdr (se_file env))) \<le> length (se_file env)"
    and "ld_replies s = []"
  shows "Load env dl a callf h name anonymous s = Some (0, s\<lparr>ld_err := kUnsupported\<rparr>)"
  using assms
  by (simp add: Load_def Let_def file_ehdr_def [symmetric] file_phdrs_def [unfolded Let_def, symmetric])

lemma le_val_zeros [simp]: "le_val (replicate n 0) = 0"
  by (induction n) simp_all

lemma tls_file_header:
  "length tls_file = 120" "file_ehdr tls_file = \<lparr>e_ident = [0x7f, 0x45, 0x4c, 0x46, 2] @ replicate 11 0,
     e_type = 3, e_phoff = 64, e_phnum = 1\<rparr>"
  by (simp_all add: tls_file_def file_ehdr_def ehdr_of_def field_def take_replicate)

lemma tls_file_phdr: "needs_tls (file_phdrs tls_file)"
  by (simp add: file_phdrs_def tls_file_header(2) Let_def)
    (simp add: tls_file_def needs_tls_def phdr_of_def field_def)

theorem load_refuses_tls_witness:
  "Load (sample_env\<lparr>se_file := tls_file\<rparr>) no_dl X86_64 (\<lambda>_ m. Some m) 0x50 None True sample_loader =
     Some (0, sample_loader\<lparr>ld_err := kUnsupported\<rparr>)"
  by (rule load_refuses_tls) (simp_all add: tls_file_header tls_file_phdr elf_ok_def sample_loader_def)

text \<open>
  C30: the functions of a module run in the ELF order: construction calls \<open>DT_INIT\<close> and then the
  entries of the init array first to last, destruction calls the entries of the fini array last to
  first and then \<open>DT_FINI\<close>; null and -1 entries are skipped, and constructing again does nothing.
  The functions may write anything except the two arrays.
\<close>

theorem init_fini_order:
  assumes "keeps_cells callf (array_cells (init_array img) (init_array_count img) \<union>
      array_cells (fini_array img) (fini_array_count img))"
    and "\<not> constructors_called img"
    and "\<And>i. i < unat (init_array_count img) \<Longrightarrow> load_u64 m (init_array img + 8 * of_nat i) = Some (f i)"
    and "\<And>i. i < unat (fini_array_count img) \<Longrightarrow> load_u64 m (fini_array img + 8 * of_nat i) = Some (g i)"
    and "CallConstructors callf img (m, tr) = Some (img', m', tr')"
    and "CallDestructors callf img' (m', tr') = Some (m'', tr'')"
  shows "tr' = tr @ map EvCall ((if init_func img = 0 then [] else [init_func img]) @
      callable (map f [0..<unat (init_array_count img)])) \<and>
    tr'' = tr' @ map EvCall (callable (rev (map g [0..<unat (fini_array_count img)])) @
      (if fini_func img = 0 then [] else [fini_func img])) \<and>
    CallConstructors callf img' s = Some (img', s)"
proof -
  let ?A = "array_cells (init_array img) (init_array_count img) \<union> array_cells (fini_array img) (fini_array_count img)"
  from assms(2,5) obtain m1 tr1 where
    init: "(if init_func img \<noteq> 0 then call_entry callf (init_func img) (m, tr) else Some (m, tr)) = Some (m1, tr1)"
    and arr: "call_array callf (init_array img) [0..<unat (init_array_count img)] (m1, tr1) = Some (m', tr')"
    and img': "img' = img\<lparr>constructors_called := True\<rparr>"
    by (auto simp: CallConstructors_def bind_eq_Some_conv)
  have keep1: "\<forall>p \<in> ?A. load_u64 m1 p = load_u64 m p" and tr1: "tr1 = tr @ map EvCall (if init_func img = 0 then [] else [init_func img])"
    using init assms(1) by (auto simp: call_entry_def keeps_cells_def bind_eq_Some_conv split: if_splits)
  have 1: "tr' = tr1 @ map EvCall (callable (map f [0..<unat (init_array_count img)])) \<and> (\<forall>p \<in> ?A. load_u64 m' p = load_u64 m1 p)"
    using assms(3) keep1 array_cell by (intro call_array_trace [OF arr assms(1)]) auto
  from assms(6) obtain m2 tr2 where
    fini: "call_array callf (fini_array img) (rev [0..<unat (fini_array_count img)]) (m', tr') = Some (m2, tr2)"
    and last: "(if fini_func img \<noteq> 0 then call_entry callf (fini_func img) (m2, tr2) else Some (m2, tr2)) = Some (m'', tr'')"
    by (auto simp: CallDestructors_def img' bind_eq_Some_conv split: if_splits)
  have "tr2 = tr' @ map EvCall (callable (map g (rev [0..<unat (fini_array_count img)])))"
    using call_array_trace [OF fini assms(1), of g] assms(4) keep1 1 array_cell by auto
  moreover have "tr'' = tr2 @ map EvCall (if fini_func img = 0 then [] else [fini_func img])"
    using last by (auto simp: call_entry_def bind_eq_Some_conv split: if_splits)
  ultimately show ?thesis using 1 tr1 by (simp add: img' CallConstructors_def rev_map)
qed

theorem init_fini_order_witness:
  "\<exists>img' m' tr' m'' tr''. CallConstructors (\<lambda>_ m. Some m) (rel_image\<lparr>init_func := 0x1000, init_array := 0x1080, init_array_count := 2\<rparr>)
       (rel_mem, []) = Some (img', m', tr') \<and> CallDestructors (\<lambda>_ m. Some m) img' (m', tr') = Some (m'', tr'') \<and>
     tr' = [EvCall 0x1000, EvCall 0x10, EvCall 8] \<and> tr'' = tr'"
proof -
  let ?img = "rel_image\<lparr>init_func := 0x1000, init_array := 0x1080, init_array_count := 2\<rparr>"
  let ?call = "\<lambda>(_ :: addr) m. Some m"
  define f :: "nat \<Rightarrow> addr" where "f i = (if i = 0 then 0x10 else 8)" for i
  have cells: "load_u64 rel_mem 0x1080 = Some 0x10" "load_u64 rel_mem 0x1088 = Some 8" by (simp_all add: rel_eval)
  have up: "[0..<2 :: nat] = [0, 1]" by (simp add: upt_rec)
  have at: "load_u64 rel_mem (0x1080 + 8 * of_nat i) = Some (f i)" if "i < 2" for i
  proof -
    from that have "i = 0 \<or> i = 1" by auto
    then show ?thesis using cells by (auto simp: f_def)
  qed
  obtain img' tr' where c: "CallConstructors ?call ?img (rel_mem, []) = Some (img', rel_mem, tr')"
    and img': "img' = ?img\<lparr>constructors_called := True\<rparr>"
    using cells by (simp add: CallConstructors_def rel_image_def new_image_def call_entry_def up)
  obtain tr'' where d: "CallDestructors ?call img' (rel_mem, tr') = Some (rel_mem, tr'')"
    by (simp add: img' CallDestructors_def rel_image_def new_image_def)
  have "tr' = [] @ map EvCall ((if init_func ?img = 0 then [] else [init_func ?img]) @
      callable (map f [0..<unat (init_array_count ?img)])) \<and>
    tr'' = tr' @ map EvCall (callable (rev (map f [0..<unat (fini_array_count ?img)])) @
      (if fini_func ?img = 0 then [] else [fini_func ?img])) \<and>
    CallConstructors ?call img' (rel_mem, []) = Some (img', rel_mem, [])"
    by (intro init_fini_order [OF _ _ _ _ c d]) (auto simp: keeps_cells_def rel_image_def new_image_def at)
  with c d show ?thesis by (auto simp: up f_def callable_def rel_image_def new_image_def)
qed

end
