(* ===== verification/Image_Api.thy ===== *)
theory Image_Api
  imports Image_Load Transition
begin

text \<open>
  The handle interface of the custom linker: the registry \<open>g_images\<close> and \<open>Dlopen\<close>, \<open>Dlsym\<close>,
  \<open>Dlclose\<close>, \<open>IsOurHandle\<close>, \<open>FindImageByAddress\<close>, \<open>ForEachImage\<close> (\<open>linker/linker.cpp\<close>), the
  overrides modules are bound to (\<open>linker/interpose.cpp\<close>).  A handle is the address of an image object; using a registered
  handle without an object is \<open>None\<close>.  The system's own functions and the callback of
  \<open>dl_iterate_phdr\<close> are parameters; the callback does not call back into the linker.
\<close>

section \<open>Definitions\<close>

subsection \<open>The registry\<close>

definition lk_Dlopen :: "sysenv \<Rightarrow> dlenv \<Rightarrow> arch \<Rightarrow> (addr \<Rightarrow> vm \<Rightarrow> vm option) \<Rightarrow> addr \<Rightarrow> cstr option \<Rightarrow> bool \<Rightarrow> loader
    \<Rightarrow> (addr \<times> loader) option" where
  "lk_Dlopen env dl a callf h name anonymous s = Load env dl a callf h name anonymous s"

definition lk_Dlsym :: "dlenv \<Rightarrow> loader \<Rightarrow> addr \<Rightarrow> cstr \<Rightarrow> addr option" where
  "lk_Dlsym dl s handle name =
     (if handle = 0 then Some 0
      else if handle \<notin> set (ld_images s) then Some 0
      else do { img \<leftarrow> ld_heap s handle; Image_Symbol (dl_resolver dl) (ld_vm s) img name })"

definition lk_Dlclose :: "(addr \<Rightarrow> vm \<Rightarrow> vm option) \<Rightarrow> addr \<Rightarrow> loader \<Rightarrow> (bool \<times> loader) option" where
  "lk_Dlclose callf handle s =
     (if handle \<notin> set (ld_images s) then Some (False, s)
      else do {
        img \<leftarrow> ld_heap s handle;
        (m, tr) \<leftarrow> delete_image callf img (ld_vm s, ld_trace s);
        Some (True, s\<lparr>ld_images := remove1 handle (ld_images s), ld_heap := (ld_heap s)(handle := None),
                       ld_vm := m, ld_trace := tr\<rparr>) })"

definition IsOurHandle :: "loader \<Rightarrow> addr \<Rightarrow> bool" where
  "IsOurHandle s handle \<longleftrightarrow> handle \<in> set (ld_images s)"

text \<open>The images in registration order.\<close>

primrec image_list :: "(addr \<Rightarrow> image option) \<Rightarrow> addr list \<Rightarrow> (addr \<times> image) list option" where
  "image_list heap [] = Some []"
| "image_list heap (h # hs) = do { i \<leftarrow> heap h; is \<leftarrow> image_list heap hs; Some ((h, i) # is) }"

definition FindImageByAddress :: "loader \<Rightarrow> addr \<Rightarrow> (addr \<times> image) option option" where
  "FindImageByAddress s a = do {
     is \<leftarrow> image_list (ld_heap s) (ld_images s);
     Some (find (\<lambda>e. Contains (snd e) a) is) }"

definition ForEachImage :: "(image \<Rightarrow> 'c \<Rightarrow> 'c) \<Rightarrow> loader \<Rightarrow> 'c \<Rightarrow> 'c option" where
  "ForEachImage fn s c = do {
     is \<leftarrow> image_list (ld_heap s) (ld_images s);
     Some (foldl (\<lambda>c e. fn (snd e) c) c is) }"

subsection \<open>The overrides\<close>

record dl_phdr_info =
  dlpi_addr :: addr
  dlpi_name :: cstr
  dlpi_phdr :: addr
  dlpi_phnum :: u16

record 'd iterate_ctx =
  ic_data :: 'd
  ic_result :: u32
  ic_stop :: bool

definition phdr_info :: "image \<Rightarrow> dl_phdr_info" where
  "phdr_info img = \<lparr>dlpi_addr = load_bias img, dlpi_name = im_name img, dlpi_phdr = im_phdr img,
     dlpi_phnum = of_nat (phnum img)\<rparr>"

definition EmitImage :: "(dl_phdr_info \<Rightarrow> 'd \<Rightarrow> u32 \<times> 'd) \<Rightarrow> image \<Rightarrow> 'd iterate_ctx \<Rightarrow> 'd iterate_ctx" where
  "EmitImage cb img ctx =
     (if ic_stop ctx then ctx
      else case cb (phdr_info img) (ic_data ctx) of (r, d) \<Rightarrow>
        if r \<noteq> 0 then ctx\<lparr>ic_data := d, ic_result := r, ic_stop := True\<rparr> else ctx\<lparr>ic_data := d\<rparr>)"

text \<open>\<open>real\<close> is the system's \<open>dl_iterate_phdr\<close> run with the same callback.\<close>

definition MyIteratePhdr :: "('d \<Rightarrow> u32 \<times> 'd) \<Rightarrow> (dl_phdr_info \<Rightarrow> 'd \<Rightarrow> u32 \<times> 'd) \<Rightarrow> 'd \<Rightarrow> loader \<Rightarrow> (u32 \<times> 'd) option" where
  "MyIteratePhdr real cb data s = do {
     ctx \<leftarrow> ForEachImage (EmitImage cb) s \<lparr>ic_data = data, ic_result = 0, ic_stop = False\<rparr>;
     Some (if ic_stop ctx then (ic_result ctx, ic_data ctx) else real (ic_data ctx)) }"

record dl_info =
  dli_fname :: cstr
  dli_fbase :: addr
  dli_sname :: addr
  dli_saddr :: addr

definition MyDladdr :: "(addr \<Rightarrow> u32 \<times> dl_info) \<Rightarrow> loader \<Rightarrow> addr \<Rightarrow> (u32 \<times> dl_info) option" where
  "MyDladdr real s a = do {
     found \<leftarrow> FindImageByAddress s a;
     (case found of
        None \<Rightarrow> Some (real a)
      | Some (_, img) \<Rightarrow> do {
          sym \<leftarrow> AddrToSym (ld_vm s) img a;
          Some (1, \<lparr>dli_fname = im_name img, dli_fbase = load_bias img,
                    dli_sname = (case sym of Some (n, _) \<Rightarrow> n | None \<Rightarrow> 0),
                    dli_saddr = (case sym of Some (_, v) \<Rightarrow> v | None \<Rightarrow> 0)\<rparr>) }) }"

definition MyDlsym :: "dlenv \<Rightarrow> loader \<Rightarrow> addr \<Rightarrow> cstr \<Rightarrow> addr option" where
  "MyDlsym dl s handle symbol =
     (if IsOurHandle s handle then lk_Dlsym dl s handle symbol else Some (dl_sym dl handle symbol))"

text \<open>\<open>real\<close> is the result of the system's \<open>dlclose\<close>.\<close>

definition MyDlclose :: "(addr \<Rightarrow> u32) \<Rightarrow> (addr \<Rightarrow> vm \<Rightarrow> vm option) \<Rightarrow> addr \<Rightarrow> loader \<Rightarrow> (u32 \<times> loader) option" where
  "MyDlclose real callf handle s =
     (if IsOurHandle s handle then do {
        (r, s') \<leftarrow> lk_Dlclose callf handle s;
        Some (if r then 0 else - 1, s') }
      else Some (real handle, s\<lparr>ld_trace := ld_trace s @ [EvDlclose handle]\<rparr>))"

subsection \<open>Reference: runs of the registry\<close>

text \<open>
  What the process does with the linker: load a module into a fresh object, close a handle, and run
  module code, which may change memory.
\<close>

inductive api_step :: "dlenv \<Rightarrow> arch \<Rightarrow> (addr \<Rightarrow> vm \<Rightarrow> vm option) \<Rightarrow> loader \<Rightarrow> loader \<Rightarrow> bool" for dl a callf where
  open_step: "Load env dl a callf h name anonymous s = Some (r, s') \<Longrightarrow> h \<noteq> 0 \<Longrightarrow> ld_heap s h = None \<Longrightarrow>
    api_step dl a callf s s'"
| close_step: "lk_Dlclose callf h s = Some (r, s') \<Longrightarrow> api_step dl a callf s s'"
| run_step: "api_step dl a callf s (s\<lparr>ld_vm := m, ld_replies := rs\<rparr>)"

definition api_init :: "loader \<Rightarrow> bool" where
  "api_init s \<longleftrightarrow> ld_images s = [] \<and> ld_heap s = (\<lambda>_. None)"

definition registry_inv :: "loader \<Rightarrow> bool" where
  "registry_inv s \<longleftrightarrow> distinct (ld_images s) \<and> 0 \<notin> set (ld_images s) \<and> set (ld_images s) = dom (ld_heap s) \<and>
     (\<forall>h i. ld_heap s h = Some i \<longrightarrow> constructors_called i)"

text \<open>The iteration a caller of \<open>dl_iterate_phdr\<close> should see: the given headers, then the system's.\<close>

fun iterate_ref :: "('d \<Rightarrow> u32 \<times> 'd) \<Rightarrow> (dl_phdr_info \<Rightarrow> 'd \<Rightarrow> u32 \<times> 'd) \<Rightarrow> dl_phdr_info list \<Rightarrow> 'd \<Rightarrow> u32 \<times> 'd" where
  "iterate_ref real cb [] d = real d"
| "iterate_ref real cb (i # is) d =
     (case cb i d of (r, d') \<Rightarrow> if r \<noteq> 0 then (r, d') else iterate_ref real cb is d')"

section \<open>Lemmas\<close>

lemma ctor_flag: "CallConstructors callf img s = Some (img', s') \<Longrightarrow> constructors_called img'"
  by (auto simp: CallConstructors_def bind_eq_Some_conv split: if_splits)

lemma load_mapped_result:
  assumes "load_mapped env dl a callf h eh phs name anonymous s = Some (r, s')"
  shows "r = 0 \<and> ld_heap s' = ld_heap s \<and> ld_images s' = ld_images s \<or>
    r = h \<and> ld_images s' = ld_images s @ [h] \<and> (\<exists>i. ld_heap s' = (ld_heap s)(h \<mapsto> i) \<and> constructors_called i)"
  using assms
  by (auto simp: load_mapped_def load_fail_def bind_eq_Some_conv split: if_splits dest: ctor_flag)

lemma Load_result:
  assumes "Load env dl a callf h name anonymous s = Some (r, s')"
  shows "r = 0 \<and> ld_heap s' = ld_heap s \<and> ld_images s' = ld_images s \<or>
    r = h \<and> ld_images s' = ld_images s @ [h] \<and> (\<exists>i. ld_heap s' = (ld_heap s)(h \<mapsto> i) \<and> constructors_called i)"
  using assms
proof (cases rule: Load_stages)
  case (map t)
  with load_mapped_result [OF map(6)] show ?thesis by simp
qed simp

lemma Dlclose_result:
  assumes "lk_Dlclose callf h s = Some (r, s')"
  shows "if h \<in> set (ld_images s) then r \<and> ld_images s' = remove1 h (ld_images s) \<and> ld_heap s' = (ld_heap s)(h := None)
    else \<not> r \<and> s' = s"
  using assms by (auto simp: lk_Dlclose_def bind_eq_Some_conv split: if_splits)

lemma registry_open:
  assumes "registry_inv s" "Load env dl a callf h name anonymous s = Some (r, s')" "h \<noteq> 0" "ld_heap s h = None"
  shows "registry_inv s'"
proof -
  have "h \<notin> set (ld_images s)" using assms(1,4) by (auto simp: registry_inv_def)
  with Load_result [OF assms(2)] assms(1,3) show ?thesis
    by (auto simp: registry_inv_def split: if_splits)
qed

lemma registry_close:
  assumes "registry_inv s" "lk_Dlclose callf h s = Some (r, s')"
  shows "registry_inv s'"
  using Dlclose_result [OF assms(2)] assms(1)
  by (auto simp: registry_inv_def set_remove1_eq dom_def split: if_splits)

interpretation registry: invariant_system api_init "api_step dl a callf" registry_inv for dl a callf
proof
  show "registry_inv s" if "api_init s" for s using that by (simp add: api_init_def registry_inv_def)
  show "registry_inv t" if "registry_inv s" "api_step dl a callf s t" for s t
    using that(2,1)
  proof cases
    case run_step
    with that(1) show ?thesis by (auto simp: registry_inv_def)
  qed (auto intro: registry_open registry_close)
qed

lemma emit_stopped: "ic_stop c \<Longrightarrow> foldl (\<lambda>c e. EmitImage cb (snd e) c) c is = c"
  by (induction "is") (simp_all add: EmitImage_def)

lemma emit_fold:
  assumes "\<not> ic_stop c"
  shows "(let c' = foldl (\<lambda>c e. EmitImage cb (snd e) c) c is in
      if ic_stop c' then (ic_result c', ic_data c') else real (ic_data c')) =
    iterate_ref real cb (map (\<lambda>e. phdr_info (snd e)) is) (ic_data c)"
  using assms
proof (induction "is" arbitrary: c)
  case (Cons e "is")
  obtain r d where r: "cb (phdr_info (snd e)) (ic_data c) = (r, d)" by fastforce
  show ?case
  proof (cases "r = 0")
    case True
    with Cons.IH [of "c\<lparr>ic_data := d\<rparr>"] Cons.prems r show ?thesis by (simp add: EmitImage_def)
  next
    case False
    then have "EmitImage cb (snd e) c = c\<lparr>ic_data := d, ic_result := r, ic_stop := True\<rparr>"
      using Cons.prems r by (simp add: EmitImage_def)
    with False r show ?thesis by (simp add: emit_stopped)
  qed
qed simp

section \<open>Properties\<close>



text \<open>
  closing a registered handle retires it: it is no longer recognised, looking a symbol up in it
  gives null, closing it again reports failure and changes nothing, and every other handle stays
  registered with the same image.
\<close>

theorem dlclose_retires_handle:
  assumes "registry_inv s" "lk_Dlclose callf h s = Some (True, s')"
  shows "\<not> IsOurHandle s' h \<and> lk_Dlsym dl s' h name = Some 0 \<and> lk_Dlclose callf h s' = Some (False, s') \<and>
    (\<forall>g. g \<noteq> h \<longrightarrow> IsOurHandle s' g = IsOurHandle s g \<and> ld_heap s' g = ld_heap s g)"
proof -
  have "h \<in> set (ld_images s)" "ld_images s' = remove1 h (ld_images s)" "ld_heap s' = (ld_heap s)(h := None)"
    using Dlclose_result [OF assms(2)] by (auto split: if_splits)
  with assms(1) show ?thesis
    by (auto simp: registry_inv_def IsOurHandle_def lk_Dlsym_def lk_Dlclose_def)
qed

theorem dlclose_retires_handle_witness:
  "\<exists>s'. lk_Dlclose (\<lambda>_ m. Some m) 0x50 (sample_loader\<lparr>ld_images := [0x50], ld_heap := [0x50 \<mapsto> new_image\<lparr>constructors_called := True\<rparr>]\<rparr>)
     = Some (True, s') \<and> \<not> IsOurHandle s' 0x50 \<and> lk_Dlclose (\<lambda>_ m. Some m) 0x50 s' = Some (False, s')"
proof -
  let ?s = "sample_loader\<lparr>ld_images := [0x50], ld_heap := [0x50 \<mapsto> new_image\<lparr>constructors_called := True\<rparr>]\<rparr>"
  have inv: "registry_inv ?s" by (auto simp: registry_inv_def split: if_splits)
  obtain s' where "lk_Dlclose (\<lambda>_ m. Some m) 0x50 ?s = Some (True, s')"
    by (auto simp: lk_Dlclose_def delete_image_def CallDestructors_def new_image_def)
  with dlclose_retires_handle [OF inv this] show ?thesis by blast
qed

text \<open>
  a module that iterates over the loaded objects sees the linker's own images in registration
  order and then the system's, and a callback that asks to stop ends the iteration with its result.
\<close>

theorem iterate_phdr_order:
  assumes "image_list (ld_heap s) (ld_images s) = Some is"
  shows "MyIteratePhdr real cb d s = Some (iterate_ref real cb (map (\<lambda>e. phdr_info (snd e)) is) d)"
  using emit_fold [of "\<lparr>ic_data = d, ic_result = 0, ic_stop = False\<rparr>" cb "is" real] assms
  by (simp add: MyIteratePhdr_def ForEachImage_def Let_def)

theorem iterate_phdr_order_witness:
  "MyIteratePhdr (\<lambda>n. (0, n)) (\<lambda>i n. (0, n + 1)) (0 :: nat) (sample_loader\<lparr>ld_images := [0x50], ld_heap := [0x50 \<mapsto> new_image]\<rparr>)
     = Some (0, 1)"
  using iterate_phdr_order [of "sample_loader\<lparr>ld_images := [0x50], ld_heap := [0x50 \<mapsto> new_image]\<rparr>" "[(0x50, new_image)]"
      "\<lambda>n. (0, n)" "\<lambda>i n. (0, n + 1)" "0 :: nat"] by simp

end
