(* ===== verification/Cfi_Shadow.thy ===== *)
theory Cfi_Shadow
  imports Prelude
begin

text \<open>
  The cross-DSO CFI shadow of \<open>linker/cfi.cpp\<close>: \<open>CfiMarkUncheckedRange\<close> turns the invalid
  shadow slots that cover a range into unchecked ones.  The shadow is process memory, read and
  written through 16-bit slots; \<open>None\<close> is a faulting access or a loop that does not end.
\<close>

section \<open>Definitions\<close>

definition kCfiShadowGranularity :: nat where "kCfiShadowGranularity = 18"
definition kCfiInvalidShadow :: u16 where "kCfiInvalidShadow = 0"
definition kCfiUncheckedShadow :: u16 where "kCfiUncheckedShadow = 1"

definition CfiShadowByteOffset :: "addr \<Rightarrow> addr" where
  "CfiShadowByteOffset a = push_bit 1 (drop_bit kCfiShadowGranularity a)"

partial_function (option) cfi_mark_loop :: "vm \<Rightarrow> addr \<Rightarrow> addr \<Rightarrow> nat \<Rightarrow> (vm \<times> nat) option" where
  "cfi_mark_loop m p dst_end changed =
     (if p < dst_end then do {
        v \<leftarrow> load_u16 m p;
        (if v = kCfiInvalidShadow
         then do { m' \<leftarrow> store_u16 m p kCfiUncheckedShadow;
                   cfi_mark_loop m' (p + 2) dst_end (changed + 1) }
         else cfi_mark_loop m (p + 2) dst_end changed) }
      else Some (m, changed))"

definition CfiMarkUncheckedRange :: "vm \<Rightarrow> addr \<Rightarrow> addr \<Rightarrow> addr \<Rightarrow> addr \<Rightarrow> (vm \<times> nat) option" where
  "CfiMarkUncheckedRange m shadow_start shadow_end base sz =
     (if sz = 0 then Some (m, 0)
      else let last = base + sz - 1;
               dst = shadow_start + CfiShadowByteOffset base;
               dst_end = shadow_start + CfiShadowByteOffset last + 2
           in if dst < shadow_start \<or> dst_end > shadow_end \<or> dst_end \<le> dst then Some (m, 0)
              else cfi_mark_loop m dst dst_end 0)"

definition shadow_slot :: "addr \<Rightarrow> addr \<Rightarrow> addr" where
  "shadow_slot shadow_start a = shadow_start + CfiShadowByteOffset a"

definition marked :: "u16 \<Rightarrow> u16" where
  "marked v = (if v = kCfiInvalidShadow then kCfiUncheckedShadow else v)"

text \<open>The range does not wrap and its slots lie inside the shadow.\<close>

definition cover_fits :: "addr \<Rightarrow> addr \<Rightarrow> addr \<Rightarrow> addr \<Rightarrow> bool" where
  "cover_fits shadow_start shadow_end base sz \<longleftrightarrow> sz \<noteq> 0 \<and> unat base + unat sz \<le> 2 ^ 64 \<and>
     unat shadow_start + unat (base + sz - 1) div 262144 * 2 + 2 \<le> unat shadow_end"

text \<open>An all-zero accessible memory (for examples).\<close>

definition zero_vm :: vm where
  "zero_vm = \<lparr>vbyte = (\<lambda>_. Some 0), vprot = (\<lambda>_. PROT_READ OR PROT_WRITE)\<rparr>"

section \<open>Lemmas\<close>

lemma zero_vm_rw: "rw_slot n zero_vm a"
  by (simp add: rw_slot_def zero_vm_def writable8_def PROT_READ_def PROT_WRITE_def)


interpretation slot16: slot_memory load_u16 store_u16 "rw_slot 2" "apart 2"
  by unfold_locales
    (auto intro: store_word_total load_store_word_same load_store_word_apart simp: rw_slot_store)

lemma rw_slot_load: "rw_slot 2 m a \<Longrightarrow> \<exists>v. load_u16 m a = Some v"
  by (auto simp: load_word_def rw_slot_def load8_def writable8_def numeral_2_eq_2 less_Suc_eq_0_disj
      split: bind_splits)

lemma marked_valid: "marked v \<noteq> kCfiInvalidShadow"
  by (simp add: marked_def kCfiUncheckedShadow_def kCfiInvalidShadow_def)

lemma apart_next_slots:
  assumes "unat p + 2 * Suc k \<le> 2 ^ 64" "i < k"
  shows "apart 2 p (p + 2 + 2 * of_nat i)"
proof -
  have e: "p + 2 + 2 * of_nat i = p + of_nat (2 + 2 * i)" by simp
  have u: "unat (p + of_nat (2 + 2 * i)) = unat p + (2 + 2 * i)"
    using assms by (intro unat_plus_nat) simp
  have "2 \<le> unat (p + of_nat (2 + 2 * i) - p)" "2 \<le> unat (p - (p + of_nat (2 + 2 * i)))"
    using assms unfolding unat_sub_if' u by auto
  then show ?thesis by (simp add: apart_def e del: of_nat_add of_nat_mult)
qed

lemma cfi_mark_step:
  assumes "rw_slot 2 m p" "p < e"
  obtains m1 v where "load_u16 m p = Some v" "load_u16 m1 p = Some (marked v)"
    "\<And>b. apart 2 p b \<Longrightarrow> load_u16 m1 b = load_u16 m b" "\<And>b. rw_slot 2 m1 b = rw_slot 2 m b"
    "\<And>c. cfi_mark_loop m p e c =
       cfi_mark_loop m1 (p + 2) e (c + (if v = kCfiInvalidShadow then 1 else 0))"
proof -
  obtain v where v: "load_u16 m p = Some v" using rw_slot_load assms(1) by auto
  show ?thesis
  proof (cases "v = kCfiInvalidShadow")
    case True
    obtain m1 where st: "store_u16 m p kCfiUncheckedShadow = Some m1"
      using slot16.wr_ok [OF assms(1)] by blast
    show ?thesis
    proof (rule that [OF v, of m1])
      show "load_u16 m1 p = Some (marked v)"
        using slot16.rd_wr_same [OF assms(1) st] True by (simp add: marked_def)
      show "cfi_mark_loop m p e c =
          cfi_mark_loop m1 (p + 2) e (c + (if v = kCfiInvalidShadow then 1 else 0))" for c
        using assms(2) v st True by (subst cfi_mark_loop.simps) simp
    qed (use slot16.rd_wr_sep [OF st] slot16.ok_wr [OF st] in auto)
  next
    case False
    show ?thesis
      using v False assms(2)
      by (intro that [OF v, of m]; (subst cfi_mark_loop.simps)?; simp add: marked_def)
  qed
qed

lemma count_from_zero:
  "length (filter P [0..<Suc k]) = (if P 0 then 1 else 0) + length (filter (\<lambda>i. P (Suc i)) [0..<k])"
proof -
  have "[0..<Suc k] = 0 # map Suc [0..<k]" by (simp add: map_Suc_upt upt_conv_Cons del: upt_Suc)
  then show ?thesis by (simp add: filter_map comp_def del: upt_Suc)
qed

lemma slot_Suc: "p + 2 * of_nat (Suc i) = (p + 2 :: addr) + 2 * of_nat i"
  by (simp add: algebra_simps)

text \<open>The slots \<open>p\<close>, \<open>p + 2\<close>, \<dots> of a loop over \<open>k\<close> slots.\<close>

lemma cfi_mark_loop_run:
  assumes "unat p + 2 * k \<le> 2 ^ 64 - 1" "\<And>i. i < k \<Longrightarrow> rw_slot 2 m (p + 2 * of_nat i)"
  shows "\<exists>m'. cfi_mark_loop m p (p + 2 * of_nat k) c =
       Some (m', c + length (filter (\<lambda>i. load_u16 m (p + 2 * of_nat i) = Some kCfiInvalidShadow) [0..<k]))
     \<and> (\<forall>i<k. load_u16 m' (p + 2 * of_nat i) = map_option marked (load_u16 m (p + 2 * of_nat i)))
     \<and> (\<forall>b. (\<forall>i<k. apart 2 (p + 2 * of_nat i) b) \<longrightarrow> load_u16 m' b = load_u16 m b)
     \<and> (\<forall>b. rw_slot 2 m' b = rw_slot 2 m b)"
  using assms
proof (induction k arbitrary: m p c)
  case 0
  show ?case by (subst cfi_mark_loop.simps) auto
next
  case (Suc k)
  have p2: "unat (p + 2) = unat p + 2" using Suc.prems(1) by (intro unat_plus_numeral) simp
  have "unat (p + of_nat (2 * Suc k)) = unat p + 2 * Suc k"
    using Suc.prems(1) by (intro unat_plus_nat) simp
  then have lt: "p < p + 2 * of_nat (Suc k)" by (simp add: word_less_nat_alt)
  have rw: "rw_slot 2 m p" using Suc.prems(2) [of 0] by simp
  obtain m1 v where v: "load_u16 m p = Some v" "load_u16 m1 p = Some (marked v)"
    and frame: "\<And>b. apart 2 p b \<Longrightarrow> load_u16 m1 b = load_u16 m b"
    and ok: "\<And>b. rw_slot 2 m1 b = rw_slot 2 m b"
    and step: "\<And>c. cfi_mark_loop m p (p + 2 * of_nat (Suc k)) c =
       cfi_mark_loop m1 (p + 2) (p + 2 * of_nat (Suc k)) (c + (if v = kCfiInvalidShadow then 1 else 0))"
    by (rule cfi_mark_step [OF rw lt]) (rule that)
  have sep: "apart 2 p (p + 2 + 2 * of_nat i)" if "i < k" for i
    using Suc.prems(1) that by (intro apart_next_slots [where k = k]) auto
  have prem: "unat (p + 2) + 2 * k \<le> 2 ^ 64 - 1" "\<And>i. i < k \<Longrightarrow> rw_slot 2 m1 (p + 2 + 2 * of_nat i)"
    using Suc.prems(1) p2 Suc.prems(2) [of "Suc i" for i] by (auto simp: ok slot_Suc simp del: of_nat_Suc)
  let ?c1 = "c + (if v = kCfiInvalidShadow then 1 else 0)"
  from Suc.IH [OF prem, of ?c1] obtain m' where
    run: "cfi_mark_loop m1 (p + 2) (p + 2 + 2 * of_nat k) ?c1 = Some (m', ?c1 +
        length (filter (\<lambda>i. load_u16 m1 (p + 2 + 2 * of_nat i) = Some kCfiInvalidShadow) [0..<k]))"
    and slots: "\<forall>i<k. load_u16 m' (p + 2 + 2 * of_nat i) = map_option marked (load_u16 m1 (p + 2 + 2 * of_nat i))"
    and out: "\<forall>b. (\<forall>i<k. apart 2 (p + 2 + 2 * of_nat i) b) \<longrightarrow> load_u16 m' b = load_u16 m1 b"
    and ok': "\<forall>b. rw_slot 2 m' b = rw_slot 2 m1 b" by blast
  have "filter (\<lambda>i. load_u16 m1 (p + 2 + 2 * of_nat i) = Some kCfiInvalidShadow) [0..<k] =
      filter (\<lambda>i. load_u16 m (p + 2 + 2 * of_nat i) = Some kCfiInvalidShadow) [0..<k]"
    using frame sep by (intro filter_cong) auto
  then have "cfi_mark_loop m p (p + 2 * of_nat (Suc k)) c =
      Some (m', c + length (filter (\<lambda>i. load_u16 m (p + 2 * of_nat i) = Some kCfiInvalidShadow) [0..<Suc k]))"
    using step run v by (simp add: count_from_zero slot_Suc del: of_nat_Suc upt_Suc)
  moreover have "load_u16 m' p = Some (marked v)" using out sep v by (auto simp: apart_def)
  then have "\<forall>i<Suc k. load_u16 m' (p + 2 * of_nat i) = map_option marked (load_u16 m (p + 2 * of_nat i))"
    using slots frame sep v by (auto simp: less_Suc_eq_0_disj slot_Suc simp del: of_nat_Suc)
  moreover have "load_u16 m' b = load_u16 m b" if "\<forall>i<Suc k. apart 2 (p + 2 * of_nat i) b" for b
    using that out frame by (simp add: All_less_Suc2 slot_Suc del: of_nat_Suc)
  ultimately show ?case using ok ok' by blast
qed

lemma unat_double: "unat (w :: addr) * 2 < 2 ^ 64 \<Longrightarrow> unat (push_bit 1 w) = unat w * 2"
  using unat_mult_lem [of w 2] by (simp add: push_bit_eq_mult mult.commute)

lemma CfiShadowByteOffset_unat: "unat (CfiShadowByteOffset a) = unat a div 262144 * 2"
proof -
  have w: "unat (drop_bit 18 a) = unat a div 262144"
    by (simp add: drop_bit_eq_div unat_div)
  have "unat a < 2 ^ 64" using unsigned_less [of a, where ?'a = nat] by simp
  then have "unat a div 262144 * 2 < 2 ^ 64" by auto
  then show ?thesis
    unfolding CfiShadowByteOffset_def kCfiShadowGranularity_def using unat_double w by metis
qed


lemma shadow_slot_word: "shadow_slot s a = s + 2 * of_nat (unat a div 262144)"
proof -
  have "CfiShadowByteOffset a = of_nat (unat (CfiShadowByteOffset a))" by simp
  then show ?thesis unfolding CfiShadowByteOffset_unat by (simp add: shadow_slot_def mult.commute)
qed

lemma cfi_mark_loop_id:
  assumes "unat p + 2 * k \<le> 2 ^ 64 - 1"
    and "\<And>i. i < k \<Longrightarrow> \<exists>v. load_u16 m (p + 2 * of_nat i) = Some v \<and> v \<noteq> kCfiInvalidShadow"
  shows "cfi_mark_loop m p (p + 2 * of_nat k) c = Some (m, c)"
  using assms
proof (induction k arbitrary: p)
  case 0
  show ?case by (subst cfi_mark_loop.simps) auto
next
  case (Suc k)
  have p2: "unat (p + 2) = unat p + 2" using Suc.prems(1) by (intro unat_plus_numeral) simp
  have "unat (p + of_nat (2 * Suc k)) = unat p + 2 * Suc k"
    using Suc.prems(1) by (intro unat_plus_nat) simp
  then have lt: "p < p + 2 * of_nat (Suc k)" by (simp add: word_less_nat_alt)
  have "cfi_mark_loop m (p + 2) (p + 2 + 2 * of_nat k) c = Some (m, c)"
    using Suc.prems(1) p2 Suc.prems(2) [of "Suc i" for i]
    by (intro Suc.IH) (auto simp: slot_Suc simp del: of_nat_Suc)
  with lt Suc.prems(2) [of 0] show ?case
    by (subst cfi_mark_loop.simps) (auto simp: slot_Suc simp del: of_nat_Suc)
qed

text \<open>
  The slots of a range: slot number \<open>i\<close> counted from the first one covers some address of the
  range, and every address of the range is covered by such a slot.
\<close>

lemma granule_address:
  fixes base e :: addr
  assumes "unat base \<le> unat e" "i \<le> unat e div 262144 - unat base div 262144"
  shows "\<exists>a. base \<le> a \<and> a \<le> e \<and> unat a div 262144 = unat base div 262144 + i"
proof (cases "i = 0")
  case True
  with assms show ?thesis by (intro exI [of _ base]) (simp add: word_le_nat_alt)
next
  case False
  let ?n = "(unat base div 262144 + i) * 262144"
  have d: "unat base div 262144 \<le> unat e div 262144" using assms(1) by (rule div_le_mono)
  have "?n \<le> unat e div 262144 * 262144" using assms(2) d by simp
  also have "\<dots> \<le> unat e" by simp
  finally have ne: "?n \<le> unat e" .
  have "unat e < 2 ^ 64" using unsigned_less [of e, where ?'a = nat] by simp
  with ne have un: "unat (of_nat ?n :: addr) = ?n" by (simp only: unat_of_nat) (rule mod_less, simp)
  have "unat base < (unat base div 262144 + 1) * 262144" by simp
  also have "\<dots> \<le> ?n" using False by simp
  finally have "unat base \<le> ?n" by simp
  with un ne show ?thesis
    by (intro exI [of _ "of_nat ?n"]) (simp add: word_le_nat_alt del: of_nat_mult of_nat_add)
qed

lemma slot_of_address:
  assumes "base \<le> a" "a \<le> e"
  obtains i where "i \<le> unat e div 262144 - unat base div 262144"
    "shadow_slot s a = shadow_slot s base + 2 * of_nat i"
proof -
  have "unat base div 262144 \<le> unat a div 262144" "unat a div 262144 \<le> unat e div 262144"
    using assms by (auto simp: word_le_nat_alt intro: div_le_mono)
  then show ?thesis
    by (intro that [of "unat a div 262144 - unat base div 262144"])
      (simp_all add: shadow_slot_word of_nat_diff algebra_simps diff_le_mono)
qed


lemma range_last:
  assumes "(sz :: addr) \<noteq> 0" "unat base + unat sz \<le> 2 ^ 64"
  shows "unat (base + sz - 1) = unat base + unat sz - 1"
proof -
  have sz: "0 < unat sz" using assms(1) by (simp add: unat_gt_0)
  then have "unat (base + (sz - 1)) = unat base + unat (sz - 1)"
    using assms by (intro unat_add_small) (simp add: unat_minus_one)
  then show ?thesis using assms(1) sz by (simp add: unat_minus_one add_diff_eq)
qed

lemma CfiMark_as_loop:
  assumes "cover_fits s se base sz"
  defines "k \<equiv> unat (base + sz - 1) div 262144 - unat base div 262144 + 1"
  shows "CfiMarkUncheckedRange m s se base sz =
      cfi_mark_loop m (shadow_slot s base) (shadow_slot s base + 2 * of_nat k) 0"
    and "unat (shadow_slot s base) + 2 * k \<le> 2 ^ 64 - 1"
proof -
  let ?e = "base + sz - 1"
  have sz: "sz \<noteq> 0" and ovf: "unat base + unat sz \<le> 2 ^ 64"
    and fit: "unat s + unat ?e div 262144 * 2 + 2 \<le> unat se"
    using assms(1) by (auto simp: cover_fits_def)
  have "0 < unat sz" using sz by (simp add: unat_gt_0)
  then have le: "unat base div 262144 \<le> unat ?e div 262144"
    using range_last [OF sz ovf] by (intro div_le_mono) simp
  have top: "unat se < 2 ^ 64" using unsigned_less [of se, where ?'a = nat] by simp
  have slot: "unat (shadow_slot s a) = unat s + unat a div 262144 * 2"
    if "unat a div 262144 \<le> unat ?e div 262144" for a
    using that fit top CfiShadowByteOffset_unat [of a] unfolding shadow_slot_def
    by (subst unat_add_small) auto
  have dst_end: "unat (shadow_slot s ?e + 2) = unat s + unat ?e div 262144 * 2 + 2"
    using slot [of ?e] fit top by (subst unat_plus_numeral) auto
  have eq: "shadow_slot s ?e + 2 = shadow_slot s base + 2 * of_nat k"
    using le by (simp add: shadow_slot_word k_def of_nat_diff algebra_simps)
  have "\<not> shadow_slot s base < s" "\<not> shadow_slot s ?e + 2 > se"
    "\<not> shadow_slot s ?e + 2 \<le> shadow_slot s base"
    using slot [OF le] dst_end fit le by (auto simp: word_less_nat_alt word_le_nat_alt)
  then have "CfiMarkUncheckedRange m s se base sz =
      cfi_mark_loop m (shadow_slot s base) (shadow_slot s ?e + 2) 0"
    using sz by (simp add: CfiMarkUncheckedRange_def shadow_slot_def)
  then show "CfiMarkUncheckedRange m s se base sz =
      cfi_mark_loop m (shadow_slot s base) (shadow_slot s base + 2 * of_nat k) 0"
    unfolding eq .
  show "unat (shadow_slot s base) + 2 * k \<le> 2 ^ 64 - 1"
    using slot [OF le] fit top le by (simp add: k_def)
qed


text \<open>The run on a range with accessible slots.\<close>

lemma cfi_mark_run:
  assumes "cover_fits s se base sz"
    and rw: "\<And>a. base \<le> a \<Longrightarrow> a \<le> base + sz - 1 \<Longrightarrow> rw_slot 2 m (shadow_slot s a)"
  shows "\<exists>m' n. CfiMarkUncheckedRange m s se base sz = Some (m', n)
    \<and> (\<forall>a. base \<le> a \<and> a \<le> base + sz - 1 \<longrightarrow>
          load_u16 m' (shadow_slot s a) = map_option marked (load_u16 m (shadow_slot s a)))
    \<and> (\<forall>b. (\<forall>a. base \<le> a \<and> a \<le> base + sz - 1 \<longrightarrow> apart 2 (shadow_slot s a) b) \<longrightarrow>
          load_u16 m' b = load_u16 m b)
    \<and> CfiMarkUncheckedRange m' s se base sz = Some (m', 0)"
proof -
  let ?e = "base + sz - 1" and ?p = "shadow_slot s base"
  let ?k = "unat ?e div 262144 - unat base div 262144 + 1"
  note loop = CfiMark_as_loop [OF assms(1)]
  have be: "unat base \<le> unat ?e"
  proof -
    have "0 < unat sz" using assms(1) by (simp add: cover_fits_def unat_gt_0)
    then show ?thesis using assms(1) range_last [of sz base] by (simp add: cover_fits_def)
  qed
  have idx: "\<exists>a. base \<le> a \<and> a \<le> ?e \<and> shadow_slot s a = ?p + 2 * of_nat i" if "i < ?k" for i
    using granule_address [OF be, of i] that by (auto simp: shadow_slot_word algebra_simps)
  have rwi: "rw_slot 2 m (?p + 2 * of_nat i)" if "i < ?k" for i
    using idx [OF that] rw by metis
  from cfi_mark_loop_run [OF loop(2) rwi, of 0] obtain m' n where
    run: "cfi_mark_loop m ?p (?p + 2 * of_nat ?k) 0 = Some (m', n)"
    and slots: "\<forall>i<?k. load_u16 m' (?p + 2 * of_nat i) = map_option marked (load_u16 m (?p + 2 * of_nat i))"
    and out: "\<forall>b. (\<forall>i<?k. apart 2 (?p + 2 * of_nat i) b) \<longrightarrow> load_u16 m' b = load_u16 m b" by blast
  have "\<exists>v. load_u16 m' (?p + 2 * of_nat i) = Some v \<and> v \<noteq> kCfiInvalidShadow" if "i < ?k" for i
    using slots that rw_slot_load [OF rwi [OF that]] marked_valid by auto
  then have again: "CfiMarkUncheckedRange m' s se base sz = Some (m', 0)"
    unfolding loop(1) by (intro cfi_mark_loop_id [OF loop(2)]) auto
  have "load_u16 m' (shadow_slot s a) = map_option marked (load_u16 m (shadow_slot s a))"
    if a: "base \<le> a" "a \<le> ?e" for a
  proof -
    obtain i where "i < ?k" "shadow_slot s a = ?p + 2 * of_nat i"
      using slot_of_address [OF a, of s] by (metis less_Suc_eq_le Suc_eq_plus1)
    with slots show ?thesis by simp
  qed
  moreover have "load_u16 m' b = load_u16 m b"
    if "\<forall>a. base \<le> a \<and> a \<le> ?e \<longrightarrow> apart 2 (shadow_slot s a) b" for b
    using out idx that by metis
  ultimately show ?thesis using run again unfolding loop(1) by blast
qed

section \<open>Properties\<close>

text \<open>
  \<open>CfiMarkUncheckedRange\<close> on a range whose shadow slots are accessible: the slot of every
  address of the range ends up unchecked if it was invalid and keeps its value otherwise (a
  slot another library has claimed is never touched), every slot apart from those is
  unchanged, and marking the same range again changes nothing and reports 0.
\<close>

theorem cfi_mark_range:
  assumes "cover_fits s se base sz"
    and rw: "\<And>a. base \<le> a \<Longrightarrow> a \<le> base + sz - 1 \<Longrightarrow> rw_slot 2 m (shadow_slot s a)"
  shows "\<exists>m' n. CfiMarkUncheckedRange m s se base sz = Some (m', n)
    \<and> (\<forall>a. base \<le> a \<and> a \<le> base + sz - 1 \<longrightarrow>
          load_u16 m' (shadow_slot s a) = map_option marked (load_u16 m (shadow_slot s a)))
    \<and> (\<forall>b. (\<forall>a. base \<le> a \<and> a \<le> base + sz - 1 \<longrightarrow> apart 2 (shadow_slot s a) b) \<longrightarrow>
          load_u16 m' b = load_u16 m b)
    \<and> CfiMarkUncheckedRange m' s se base sz = Some (m', 0)"
  using assms by (rule cfi_mark_run)

theorem cfi_mark_range_witness:
  "\<exists>m' n. CfiMarkUncheckedRange zero_vm 0x100000 0x200000 0x40000 0x50000 = Some (m', n)
    \<and> load_u16 m' (shadow_slot 0x100000 0x4ffff) = Some kCfiUncheckedShadow
    \<and> CfiMarkUncheckedRange m' 0x100000 0x200000 0x40000 0x50000 = Some (m', 0)"
proof -
  have "cover_fits 0x100000 0x200000 0x40000 0x50000" by (simp add: cover_fits_def)
  then obtain m' n where m': "CfiMarkUncheckedRange zero_vm 0x100000 0x200000 0x40000 0x50000 = Some (m', n)"
    "\<forall>a. 0x40000 \<le> a \<and> a \<le> 0x40000 + 0x50000 - 1 \<longrightarrow>
       load_u16 m' (shadow_slot 0x100000 a) = map_option marked (load_u16 zero_vm (shadow_slot 0x100000 a))"
    "CfiMarkUncheckedRange m' 0x100000 0x200000 0x40000 0x50000 = Some (m', 0)"
    using cfi_mark_range [of "0x100000" "0x200000" "0x40000" "0x50000" zero_vm] zero_vm_rw by blast
  have "load_u16 zero_vm a = Some 0" for a
    by (simp add: load_word_def zero_vm_def load8_def PROT_READ_def numeral_2_eq_2)
  with m'(2) [rule_format, of "0x4ffff"] have "load_u16 m' (shadow_slot 0x100000 0x4ffff) = Some (marked 0)"
    by simp
  with m' show ?thesis by (auto simp: marked_def kCfiInvalidShadow_def)
qed

end
