(* ===== verification/C_Text.thy ===== *)
theory C_Text
  imports Prelude
begin

text \<open>
  The C library functions on text that several components use: reading lines with \<open>fgets\<close> into a
  fixed buffer, \<open>strstr\<close>, \<open>strncmp\<close> prefixes, and the numeric conversions of \<open>sscanf\<close> and
  \<open>strtoul\<close>.  Text is a byte list.
\<close>

section \<open>Definitions\<close>

definition is_space :: "byte \<Rightarrow> bool" where
  "is_space b \<longleftrightarrow> b = 32 \<or> (9 \<le> b \<and> b \<le> 13)"

definition dec_digit :: "byte \<Rightarrow> nat option" where
  "dec_digit b = (if 48 \<le> b \<and> b \<le> 57 then Some (unat (b - 48)) else None)"

definition hex_digit :: "byte \<Rightarrow> nat option" where
  "hex_digit b = (if 48 \<le> b \<and> b \<le> 57 then Some (unat (b - 48))
     else if 97 \<le> b \<and> b \<le> 102 then Some (unat (b - 87))
     else if 65 \<le> b \<and> b \<le> 70 then Some (unat (b - 55)) else None)"

text \<open>\<open>digits\<close> reads the longest run of digits: its value and the rest.\<close>

fun digits :: "(byte \<Rightarrow> nat option) \<Rightarrow> nat \<Rightarrow> nat \<Rightarrow> cstr \<Rightarrow> nat \<times> cstr" where
  "digits dig base acc [] = (acc, [])"
| "digits dig base acc (b # bs) =
     (case dig b of Some d \<Rightarrow> digits dig base (acc * base + d) bs | None \<Rightarrow> (acc, b # bs))"

definition starts_with :: "cstr \<Rightarrow> cstr \<Rightarrow> bool" where
  "starts_with p s \<longleftrightarrow> take (length p) s = p"

fun strstr :: "cstr \<Rightarrow> cstr \<Rightarrow> bool" where
  "strstr s p = (starts_with p s \<or> (case s of [] \<Rightarrow> False | _ # t \<Rightarrow> strstr t p))"

declare strstr.simps [simp del]

text \<open>
  One \<open>%lx\<close> conversion (also \<open>strtoul\<close> with base 16): leading space, an optional sign and prefix,
  then at least one digit; too large a value saturates.
\<close>

definition hex_prefix :: "cstr \<Rightarrow> cstr" where
  "hex_prefix s = (case s of b # c # d # _ \<Rightarrow>
       if b = 48 \<and> (c = 120 \<or> c = 88) \<and> hex_digit d \<noteq> None then drop 2 s else s | _ \<Rightarrow> s)"

definition scan_hex :: "cstr \<Rightarrow> (addr \<times> cstr) option" where
  "scan_hex s =
     (let s1 = dropWhile is_space s;
          neg = (s1 \<noteq> [] \<and> hd s1 = 45);
          s2 = hex_prefix (if s1 \<noteq> [] \<and> (hd s1 = 45 \<or> hd s1 = 43) then tl s1 else s1)
      in case s2 of [] \<Rightarrow> None | b # _ \<Rightarrow>
        if hex_digit b = None then None
        else case digits hex_digit 16 0 s2 of (v, rest) \<Rightarrow>
          let w = (if v < 2 ^ 64 then of_nat v else - 1 :: addr) in Some (if neg \<and> v < 2 ^ 64 then - w else w, rest))"

text \<open>\<open>sscanf(line, "%lx-%lx", ...)\<close> when both conversions succeed.\<close>

definition scan_range :: "cstr \<Rightarrow> (addr \<times> addr \<times> cstr) option" where
  "scan_range s = do {
     (a, r) \<leftarrow> scan_hex s;
     (case r of [] \<Rightarrow> None | c # r' \<Rightarrow> if c \<noteq> 45 then None else do { (b, r'') \<leftarrow> scan_hex r'; Some (a, b, r'') }) }"

text \<open>The pieces successive calls \<open>fgets(buf, n + 1, fp)\<close> deliver.\<close>

fun fgets_one :: "nat \<Rightarrow> cstr \<Rightarrow> cstr \<times> cstr" where
  "fgets_one 0 s = ([], s)"
| "fgets_one (Suc n) [] = ([], [])"
| "fgets_one (Suc n) (b # s) =
     (if b = 10 then ([b], s) else case fgets_one n s of (l, r) \<Rightarrow> (b # l, r))"

lemma fgets_one_shrinks: "length (snd (fgets_one n s)) \<le> length s"
  by (induction n s rule: fgets_one.induct) (auto split: prod.splits)

function fgets_lines :: "nat \<Rightarrow> cstr \<Rightarrow> cstr list" where
  "fgets_lines n s = (if n = 0 \<or> s = [] then []
     else fst (fgets_one n s) # fgets_lines n (snd (fgets_one n s)))"
  by pat_completeness auto
termination
proof (relation "measure (\<lambda>(n, s). length s)")
  fix n :: nat and s :: cstr
  assume ne: "\<not> (n = 0 \<or> s = [])"
  then obtain k b t where "n = Suc k" "s = b # t" by (metis neq_Nil_conv not0_implies_Suc)
  then show "((n, snd (fgets_one n s)), n, s) \<in> measure (\<lambda>(n, s). length s)"
    using fgets_one_shrinks [of k t] by (auto split: prod.splits)
qed simp

declare fgets_lines.simps [simp del]

section \<open>Lemmas\<close>

text \<open>The pieces are the text: nothing is lost or duplicated.\<close>

lemma fgets_one_append: "fst (fgets_one n s) @ snd (fgets_one n s) = s"
  by (induction n s rule: fgets_one.induct) (auto split: prod.splits)

lemma fgets_lines_concat: "0 < n \<Longrightarrow> concat (fgets_lines n s) = s"
proof (induction n s rule: fgets_lines.induct)
  case (1 n s)
  then show ?case by (subst fgets_lines.simps) (simp add: fgets_one_append)
qed

text \<open>Lines that fit into the buffer come back one by one.\<close>

lemma fgets_one_line:
  "10 \<notin> set l \<Longrightarrow> length l < n \<Longrightarrow> fgets_one n (l @ 10 # rest) = (l @ [10], rest)"
proof (induction l arbitrary: n)
  case Nil
  then show ?case by (cases n) auto
next
  case (Cons b l)
  then show ?case by (cases n) auto
qed

lemma fgets_lines_lines:
  "(\<And>l. l \<in> set ls \<Longrightarrow> 10 \<notin> set l \<and> length l < n) \<Longrightarrow>
     fgets_lines n (concat (map (\<lambda>l. l @ [10]) ls)) = map (\<lambda>l. l @ [10]) ls"
proof (induction ls)
  case Nil
  then show ?case by (simp add: fgets_lines.simps)
next
  case (Cons l ls)
  have fit: "10 \<notin> set l \<and> length l < n" by (rule Cons.prems) simp
  moreover have "fgets_lines n (concat (map (\<lambda>l. l @ [10]) ls)) = map (\<lambda>l. l @ [10]) ls"
    by (rule Cons.IH) (simp add: Cons.prems)
  ultimately show ?case
    by (subst fgets_lines.simps) (auto simp: fgets_one_line)
qed

end
