(* ===== verification/Cfi_Sync.thy ===== *)
theory Cfi_Sync
  imports Image_Map Cfi_Shadow C_Text
begin

text \<open>
  Keeping the cross-DSO CFI shadow right when code moves (\<open>injector/clean.cpp\<close>:
  \<open>find_cfi_shadow\<close>, \<open>sync_cfi_shadow\<close>, \<open>backup_cfi_shadow\<close>, \<open>restore_cfi_shadow\<close>,
  \<open>register_cfi_unchecked\<close>).  The argument \<open>maps\<close> is what \<open>/proc/self/maps\<close> reads as (\<open>None\<close>: it
  cannot be opened); mprotect is the kernel of \<open>sysenv\<close>; \<open>None\<close> as a result is a fault.
\<close>

section \<open>Definitions\<close>

definition page_size :: "64 word \<Rightarrow> addr" where
  "page_size sysconf_pagesize = (if 0 < sint sysconf_pagesize then sysconf_pagesize else 4096)"

definition page_down :: "addr \<Rightarrow> addr \<Rightarrow> addr" where
  "page_down a pg = a AND NOT (pg - 1)"

definition page_up :: "addr \<Rightarrow> addr \<Rightarrow> addr" where
  "page_up a pg = (a + pg - 1) AND NOT (pg - 1)"

definition kCfiShadowEntrySize :: addr where "kCfiShadowEntrySize = 2"

definition cfi_shadow_offset :: "addr \<Rightarrow> addr" where
  "cfi_shadow_offset a = push_bit 1 (drop_bit kCfiShadowGranularity a)"

subsection \<open>Finding the shadow\<close>

record cfi_range =
  cr_start :: addr
  cr_end :: addr
  cr_prot :: u32

definition cfi_line :: "cstr \<Rightarrow> cfi_range \<times> cfi_range \<Rightarrow> cfi_range \<times> cfi_range" where
  "cfi_line line acc = (case acc of (run, best) \<Rightarrow>
     if \<not> strstr line (cstring ''[anon:cfi shadow]'') then acc
     else case scan_range line of
       None \<Rightarrow> acc
     | Some (s, e, _) \<Rightarrow>
         let run' = (if cr_end run \<noteq> 0 \<and> cr_end run = s then run\<lparr>cr_end := e\<rparr>
                     else run\<lparr>cr_start := s, cr_end := e\<rparr>)
         in (run', if cr_end run' - cr_start run' > cr_end best - cr_start best then run' else best))"

definition find_cfi_shadow :: "cstr option \<Rightarrow> cfi_range option" where
  "find_cfi_shadow maps = do {
     text \<leftarrow> maps;
     let zero = \<lparr>cr_start = 0, cr_end = 0, cr_prot = 0\<rparr>;
     let best = snd (fold cfi_line (fgets_lines 511 text) (zero, zero));
     (if cr_end best = 0 then None else Some (best\<lparr>cr_prot := PROT_READ\<rparr>)) }"

subsection \<open>Writing to the shadow\<close>

text \<open>
  The pattern all three writers share: open the pages of \<open>[dst, dst_end)\<close> for writing when the
  shadow is not writable, write, close them again.  \<open>strict\<close>: whether a failed re-protection is an
  error.
\<close>

definition with_writable :: "sysenv \<Rightarrow> cfi_range \<Rightarrow> addr \<Rightarrow> addr \<Rightarrow> bool \<Rightarrow> (vm \<Rightarrow> vm option) \<Rightarrow> vm \<Rightarrow> (bool \<times> vm) option" where
  "with_writable env sh dst dst_end strict write m =
     (let pg = page_size (se_pagesize env); s = page_down dst pg; n = page_up dst_end pg - s;
          reprotect = (cr_prot sh AND PROT_WRITE = 0) in
      if reprotect \<and> \<not> se_mprotect env s n (cr_prot sh OR PROT_WRITE) then Some (False, m)
      else do {
        m2 \<leftarrow> write (if reprotect then protect m s n (cr_prot sh OR PROT_WRITE) else m);
        (if reprotect then
           (if se_mprotect env s n (cr_prot sh) then Some (True, protect m2 s n (cr_prot sh))
            else Some (\<not> strict, m2))
         else Some (True, m2)) })"

definition sync_cfi_shadow :: "sysenv \<Rightarrow> cstr option \<Rightarrow> addr \<Rightarrow> addr \<Rightarrow> addr \<Rightarrow> vm \<Rightarrow> (bool \<times> vm) option" where
  "sync_cfi_shadow env maps old_start new_start sz m =
     (if old_start = new_start \<or> sz = 0 then Some (True, m)
      else case find_cfi_shadow maps of
        None \<Rightarrow> Some (True, m)
      | Some sh \<Rightarrow>
          let old_end = old_start + sz - 1; new_end = new_start + sz - 1;
              src = cr_start sh + cfi_shadow_offset old_start;
              src_end = cr_start sh + cfi_shadow_offset old_end + kCfiShadowEntrySize;
              dst = cr_start sh + cfi_shadow_offset new_start;
              dst_end = cr_start sh + cfi_shadow_offset new_end + kCfiShadowEntrySize
          in if src < cr_start sh \<or> src_end > cr_end sh \<or> dst < cr_start sh \<or> dst_end > cr_end sh \<or>
                src_end < src \<or> dst_end < dst then Some (False, m)
             else with_writable env sh dst dst_end True
                    (\<lambda>m1. do { bs \<leftarrow> load_bytes m1 src (unat (dst_end - dst)); store_bytes m1 dst bs }) m)"

record saved_cfi =
  dst_addr :: addr
  shadow_data :: "byte list"

definition backup_cfi_shadow :: "cstr option \<Rightarrow> addr \<Rightarrow> addr \<Rightarrow> vm \<Rightarrow> saved_cfi option" where
  "backup_cfi_shadow maps base sz m =
     (let none = \<lparr>dst_addr = 0, shadow_data = []\<rparr> in
      if base = 0 \<or> sz = 0 then Some none
      else case find_cfi_shadow maps of
        None \<Rightarrow> Some none
      | Some sh \<Rightarrow>
          let last = base + sz - 1;
              src = cr_start sh + cfi_shadow_offset base;
              src_end = cr_start sh + cfi_shadow_offset last + kCfiShadowEntrySize
          in if src < cr_start sh \<or> src_end > cr_end sh \<or> src_end \<le> src then Some none
             else do { bs \<leftarrow> load_bytes m src (unat (src_end - src));
                       Some \<lparr>dst_addr = src, shadow_data = bs\<rparr> })"

definition restore_cfi_shadow :: "sysenv \<Rightarrow> cstr option \<Rightarrow> saved_cfi \<Rightarrow> vm \<Rightarrow> (bool \<times> vm) option" where
  "restore_cfi_shadow env maps sv m =
     (if dst_addr sv = 0 \<or> shadow_data sv = [] then Some (True, m)
      else case find_cfi_shadow maps of
        None \<Rightarrow> Some (False, m)
      | Some sh \<Rightarrow>
          let dst = dst_addr sv; dst_end = dst + of_nat (length (shadow_data sv))
          in if dst < cr_start sh \<or> dst_end > cr_end sh then Some (False, m)
             else with_writable env sh dst dst_end True (\<lambda>m1. store_bytes m1 dst (shadow_data sv)) m)"

definition register_cfi_unchecked :: "sysenv \<Rightarrow> cstr option \<Rightarrow> addr \<Rightarrow> addr \<Rightarrow> vm \<Rightarrow> vm option" where
  "register_cfi_unchecked env maps base sz m =
     (if base = 0 \<or> sz = 0 then Some m
      else case find_cfi_shadow maps of
        None \<Rightarrow> Some m
      | Some sh \<Rightarrow>
          let last = base + sz - 1;
              dst = cr_start sh + cfi_shadow_offset base;
              dst_end = cr_start sh + cfi_shadow_offset last + kCfiShadowEntrySize
          in if dst < cr_start sh \<or> dst_end > cr_end sh \<or> dst_end \<le> dst then Some m
             else map_option snd (with_writable env sh dst dst_end False
                    (\<lambda>m1. map_option fst (CfiMarkUncheckedRange m1 (cr_start sh) (cr_end sh) base sz)) m))"

subsection \<open>A sample process\<close>

text \<open>A shadow at 0x100000 of 1 MiB, as \<open>/proc/self/maps\<close> shows it, and two memories that differ everywhere.\<close>

definition cfi_maps :: cstr where
  "cfi_maps = cstring ''100000-200000 [anon:cfi shadow]'' @ [10]"

definition seven_vm :: vm where
  "seven_vm = \<lparr>vbyte = (\<lambda>_. Some 7), vprot = (\<lambda>_. PROT_READ)\<rparr>"

section \<open>Lemmas\<close>

subsection \<open>Pages\<close>

lemma page_down_PageStart: "page_down = PageStart" and page_up_AlignUp: "page_up = AlignUp"
  by (simp_all add: fun_eq_iff page_down_def PageStart_def page_up_def AlignUp_def)

lemma page_cover:
  assumes k: "k \<le> 60" and x: "unat dst \<le> unat x" "unat x < unat e" "unat e + 2 ^ k \<le> 2 ^ 64"
  shows "in_range (page_down dst (2 ^ k)) (page_up e (2 ^ k) - page_down dst (2 ^ k)) x"
proof -
  let ?s = "page_down dst (2 ^ k)" and ?e = "page_up e (2 ^ k)"
  have lo: "unat ?s \<le> unat dst" using k by (simp add: page_down_PageStart PageStart_unat)
  have hi: "unat e \<le> unat ?e" using k x(3) AlignUp_bounds(1) [of k e] by (simp add: page_up_AlignUp)
  have "unat (?e - ?s) = unat ?e - unat ?s" using lo hi x by (intro unat_sub) (simp add: word_le_nat_alt)
  with lo hi x show ?thesis
    using unat_word_less [of ?e] by (subst in_range_interval) auto
qed

text \<open>Writing mapped bytes of a read-only shadow through the open-write-close pattern.\<close>

lemma with_writable_store:
  assumes pg: "page_size (se_pagesize env) = 2 ^ k" "k \<le> 60" and prot: "cr_prot sh = PROT_READ"
    and mp: "\<And>s n p. se_mprotect env s n p"
    and len: "unat dst + length bs = unat e" "unat e + 2 ^ k \<le> 2 ^ 64"
    and mapped: "\<And>i. i < length bs \<Longrightarrow> vbyte m (dst + of_nat i) \<noteq> None"
    and wr: "\<And>m1. vbyte m1 = vbyte m \<Longrightarrow> (\<And>x. vprot m x AND PROT_READ \<noteq> 0 \<Longrightarrow> vprot m1 x AND PROT_READ \<noteq> 0) \<Longrightarrow>
      write m1 = store_bytes m1 dst bs"
  shows "\<exists>m'. with_writable env sh dst e strict write m = Some (True, m') \<and>
    load_bytes m' dst (length bs) = Some bs \<and>
    (\<forall>x. \<not> unat (x - dst) < length bs \<longrightarrow> vbyte m' x = vbyte m x)"
proof -
  let ?s = "page_down dst (2 ^ k)" let ?n = "page_up e (2 ^ k) - ?s"
  let ?m1 = "protect m ?s ?n (PROT_READ OR PROT_WRITE)"
  have u: "unat (dst + of_nat i) = unat dst + i" if "i < length bs" for i
    using that len unat_word_less [of e] by (intro unat_plus_nat) simp
  have inr: "in_range ?s ?n (dst + of_nat i)" if "i < length bs" for i
    using that len u [OF that] by (intro page_cover [OF pg(2)]) auto
  have "writable_bytes ?m1 dst (length bs)"
    using mapped inr by (simp add: writable_bytes_iff writable8_def protect_def PROT_READ_def PROT_WRITE_def)
  then obtain m2 where m2: "store_bytes ?m1 dst bs = Some m2" by (simp add: store_bytes_def)
  let ?m3 = "protect m2 ?s ?n PROT_READ"
  have run: "with_writable env sh dst e strict write m = Some (True, ?m3)"
    using m2 wr [of ?m1] by (simp add: with_writable_def Let_def pg(1) prot mp PROT_READ_def PROT_WRITE_def protect_def)
  have slot: "unat (dst + of_nat i - dst) = i" if "i < length bs" for i
    using that len unat_word_less [of e] by (simp add: unat_of_nat take_bit_nat_eq_self)
  have "load8 ?m3 (dst + of_nat i) = Some (bs ! i)" if "i < length bs" for i
    using inr [OF that] slot [OF that] that
    by (simp add: load8_def protect_def PROT_READ_def store_bytes_vbyte [OF m2] put_bytes_def)
  then have "load_bytes ?m3 dst (length bs) = Some (map ((!) bs) [0..<length bs])" by (rule load_bytes_all)
  moreover have "vbyte ?m3 x = vbyte m x" if "\<not> unat (x - dst) < length bs" for x
    using that by (simp add: protect_def store_bytes_vbyte [OF m2] put_bytes_out)
  ultimately show ?thesis using run by (auto simp: map_nth)
qed

lemma find_cfi_prot: "find_cfi_shadow maps = Some sh \<Longrightarrow> cr_prot sh = PROT_READ"
  by (auto simp: find_cfi_shadow_def Let_def bind_eq_Some_conv split: if_splits)

subsection \<open>The sample process\<close>

lemma cfi_maps_shadow:
  "find_cfi_shadow (Some cfi_maps) = Some \<lparr>cr_start = 0x100000, cr_end = 0x200000, cr_prot = PROT_READ\<rparr>"
proof -
  let ?l = "cstring ''100000-200000 [anon:cfi shadow]''"
  have lines: "fgets_lines 511 cfi_maps = [?l @ [10]]"
    using fgets_lines_lines [of "[?l]" 511] by (simp add: cfi_maps_def cstring_def)
  have here: "strstr (?l @ [10]) (cstring ''[anon:cfi shadow]'')"
    by (simp add: cstring_def strstr.simps starts_with_def)
  have "\<exists>r. scan_range (?l @ [10]) = Some (0x100000, 0x200000, r)"
    by (simp add: scan_range_def scan_hex_def cstring_def is_space_def hex_prefix_def hex_digit_def Let_def)
  with here show ?thesis
    by (auto simp: find_cfi_shadow_def lines cfi_line_def Let_def)
qed

lemma sample_page: "page_size (se_pagesize sample_env) = 2 ^ 12" "se_mprotect sample_env s n p"
  by (simp_all add: page_size_def sample_env_def)

section \<open>Properties\<close>

text \<open>
  C33: a saved slice of the CFI shadow can be put back: however the memory changed in between, as
  long as the shadow is still mapped at the same place and mprotect works, restoring makes the
  slice read as it did when it was saved and changes no other byte.
\<close>

theorem cfi_backup_restore:
  assumes sh: "find_cfi_shadow maps = Some sh" "unat (cr_end sh) + 2 ^ k \<le> 2 ^ 64"
    and env: "page_size (se_pagesize env) = 2 ^ k" "k \<le> 60" "\<And>s n p. se_mprotect env s n p"
    and sv: "backup_cfi_shadow maps base sz m = Some sv" "dst_addr sv \<noteq> 0"
    and mapped: "\<And>i. i < length (shadow_data sv) \<Longrightarrow> vbyte m' (dst_addr sv + of_nat i) \<noteq> None"
  shows "\<exists>m''. restore_cfi_shadow env maps sv m' = Some (True, m'') \<and>
    load_bytes m'' (dst_addr sv) (length (shadow_data sv)) = load_bytes m (dst_addr sv) (length (shadow_data sv)) \<and>
    (\<forall>x. \<not> unat (x - dst_addr sv) < length (shadow_data sv) \<longrightarrow> vbyte m'' x = vbyte m' x)"
proof -
  define src where "src = cr_start sh + cfi_shadow_offset base"
  define e where "e = cr_start sh + cfi_shadow_offset (base + sz - 1) + kCfiShadowEntrySize"
  from sv sh(1) have d: "dst_addr sv = src" and ok: "\<not> src < cr_start sh" "\<not> e > cr_end sh" "\<not> e \<le> src"
    and data: "load_bytes m src (unat (e - src)) = Some (shadow_data sv)"
    by (auto simp: backup_cfi_shadow_def Let_def bind_eq_Some_conv src_def e_def split: if_splits)
  have len: "length (shadow_data sv) = unat e - unat src"
    using load_bytes_length [OF data] ok(3) by (simp add: unat_sub not_le order_less_imp_le)
  then have en: "unat (dst_addr sv) + length (shadow_data sv) = unat e" "0 < length (shadow_data sv)"
    using ok(3) by (auto simp: d not_le word_less_nat_alt)
  have sum: "dst_addr sv + of_nat (length (shadow_data sv)) = e"
    using en(1) unat_word_less [of e] by (intro word_unat_eq_iff [THEN iffD2]) (subst unat_plus_nat; simp)
  have "unat e + 2 ^ k \<le> 2 ^ 64" using sh(2) ok(2) by (simp add: not_less word_le_nat_alt)
  from with_writable_store [OF env(1,2) find_cfi_prot [OF sh(1)] env(3) en(1) this mapped, of "\<lambda>m1. store_bytes m1 (dst_addr sv) (shadow_data sv)" True]
  obtain m'' where m'': "with_writable env sh (dst_addr sv) e True (\<lambda>m1. store_bytes m1 (dst_addr sv) (shadow_data sv)) m' = Some (True, m'')"
    "load_bytes m'' (dst_addr sv) (length (shadow_data sv)) = Some (shadow_data sv)"
    "\<forall>x. \<not> unat (x - dst_addr sv) < length (shadow_data sv) \<longrightarrow> vbyte m'' x = vbyte m' x" by blast
  have "restore_cfi_shadow env maps sv m' = Some (True, m'')"
    using m''(1) sv(2) sh(1) en(2) ok(1,2) by (simp add: restore_cfi_shadow_def Let_def sum) (simp add: d)
  with m'' data show ?thesis by (auto simp: d load_bytes_length [OF data, symmetric])
qed

theorem cfi_backup_restore_witness:
  "\<exists>sv m''. backup_cfi_shadow (Some cfi_maps) 0x40000 0x50000 zero_vm = Some sv \<and> dst_addr sv = 0x100002 \<and>
     restore_cfi_shadow sample_env (Some cfi_maps) sv seven_vm = Some (True, m'') \<and>
     load_bytes m'' 0x100002 4 = Some [0, 0, 0, 0]"
proof -
  have z: "load_bytes zero_vm 0x100002 4 = Some [0, 0, 0, 0]"
    by (simp add: load_bytes_numeral load8_def zero_vm_def PROT_READ_def PROT_WRITE_def)
  let ?sv = "\<lparr>dst_addr = 0x100002, shadow_data = [0, 0, 0, 0]\<rparr> :: saved_cfi"
  have sv: "backup_cfi_shadow (Some cfi_maps) 0x40000 0x50000 zero_vm = Some ?sv"
    using z by (simp add: backup_cfi_shadow_def cfi_maps_shadow cfi_shadow_offset_def kCfiShadowGranularity_def
        kCfiShadowEntrySize_def)
  have len: "length (shadow_data ?sv) = 4" by simp
  have "\<exists>m''. restore_cfi_shadow sample_env (Some cfi_maps) ?sv seven_vm = Some (True, m'') \<and>
      load_bytes m'' (dst_addr ?sv) (length (shadow_data ?sv)) = load_bytes zero_vm (dst_addr ?sv) (length (shadow_data ?sv)) \<and>
      (\<forall>x. \<not> unat (x - dst_addr ?sv) < length (shadow_data ?sv) \<longrightarrow> vbyte m'' x = vbyte seven_vm x)"
    by (rule cfi_backup_restore [OF cfi_maps_shadow _ sample_page(1) _ _ sv]) (simp_all add: sample_page(2) seven_vm_def)
  with sv z show ?thesis unfolding len by auto
qed

text \<open>
  moving a range whose new position covers more shadow granules than the old one copies too
  much: the length of the copy is that of the new range, so the last slot written is taken from a
  slot after the old range, which belongs to whatever is mapped there.
\<close>

theorem cfi_sync_copies_foreign_slot:
  assumes sh: "find_cfi_shadow maps = Some sh" "unat (cr_end sh) + 2 ^ k \<le> 2 ^ 64"
    and env: "page_size (se_pagesize env) = 2 ^ k" "k \<le> 60" "\<And>s n p. se_mprotect env s n p"
    and ends: "src = cr_start sh + cfi_shadow_offset old" "src_end = cr_start sh + cfi_shadow_offset (old + sz - 1) + 2"
      "dst = cr_start sh + cfi_shadow_offset new" "dst_end = cr_start sh + cfi_shadow_offset (new + sz - 1) + 2"
    and inside: "cr_start sh \<le> src" "src < src_end" "src_end \<le> cr_end sh" "cr_start sh \<le> dst" "dst < dst_end"
      "dst_end \<le> cr_end sh" "old \<noteq> new" "sz \<noteq> 0"
    and longer: "unat dst_end - unat dst = unat src_end - unat src + 2"
    and rd: "load_bytes m src (unat dst_end - unat dst) = Some bs"
    and mapped: "\<And>i. i < length bs \<Longrightarrow> vbyte m (dst + of_nat i) \<noteq> None"
  shows "\<exists>m'. sync_cfi_shadow env maps old new sz m = Some (True, m') \<and>
    load_bytes m' (dst_end - 2) 2 = load_bytes m src_end 2"
proof -
  have n: "unat (dst_end - dst) = unat dst_end - unat dst" using inside(5) by (intro unat_sub) simp
  have len: "length bs = unat dst_end - unat dst" using load_bytes_length [OF rd] .
  have e: "unat dst + length bs = unat dst_end" using inside(5) by (simp add: len word_less_nat_alt)
  have wrap: "unat dst_end + 2 ^ k \<le> 2 ^ 64" using sh(2) inside(6) by (simp add: word_le_nat_alt)
  let ?body = "\<lambda>m1. do { bs \<leftarrow> load_bytes m1 src (unat (dst_end - dst)); store_bytes m1 dst bs }"
  have wr: "?body m1 = store_bytes m1 dst bs"
    if "vbyte m1 = vbyte m" "\<And>x. vprot m x AND PROT_READ \<noteq> 0 \<Longrightarrow> vprot m1 x AND PROT_READ \<noteq> 0" for m1
  proof -
    have "load8 m1 (src + of_nat i) = Some (bs ! i)" if "i < length bs" for i
      using load_bytes_nth [OF rd, of i] that \<open>vbyte m1 = vbyte m\<close> \<open>\<And>x. _ \<Longrightarrow> vprot m1 x AND PROT_READ \<noteq> 0\<close>
      by (auto simp: load8_def len split: if_splits)
    then have "load_bytes m1 src (length bs) = Some (map ((!) bs) [0..<length bs])" by (rule load_bytes_all)
    then show ?thesis by (simp add: n len [symmetric] map_nth)
  qed
  from with_writable_store [OF env(1,2) find_cfi_prot [OF sh(1)] env(3) e wrap mapped wr, of True]
  obtain m' where m': "with_writable env sh dst dst_end True ?body m = Some (True, m')"
    "load_bytes m' dst (length bs) = Some bs" by blast
  have run: "sync_cfi_shadow env maps old new sz m = Some (True, m')"
    using m'(1) inside sh(1)
    by (simp add: sync_cfi_shadow_def Let_def kCfiShadowEntrySize_def ends [symmetric] not_less not_le order_less_imp_le)
  have off: "dst_end - 2 = dst + of_nat (length bs - 2)" "src_end = src + of_nat (length bs - 2)"
  proof -
    have b: "2 \<le> length bs" using longer by (simp add: len)
    have de: "dst_end = dst + of_nat (length bs)" using e by (metis add_diff_cancel_left' of_nat_add of_nat_unat)
    then show "dst_end - 2 = dst + of_nat (length bs - 2)" using b by (simp add: of_nat_diff)
    have "unat src_end = unat src + (length bs - 2)" using longer inside(2) by (simp add: len word_less_nat_alt)
    then show "src_end = src + of_nat (length bs - 2)" by (metis of_nat_add of_nat_unat)
  qed
  have "2 \<le> length bs" using longer by (simp add: len)
  then have "load_bytes m' (dst_end - 2) 2 = Some (take 2 (drop (length bs - 2) bs))"
    "load_bytes m src_end 2 = Some (take 2 (drop (length bs - 2) bs))"
    unfolding off using load_bytes_sub [OF m'(2), of "length bs - 2" 2] load_bytes_sub [OF rd, of "length bs - 2" 2]
    by (simp_all add: len)
  with run show ?thesis by auto
qed

theorem cfi_sync_copies_foreign_slot_witness:
  "\<exists>m'. sync_cfi_shadow sample_env (Some cfi_maps) 0x40000 0xa0000 0x40000 zero_vm = Some (True, m') \<and>
     load_bytes m' (0x100008 - 2) 2 = load_bytes zero_vm 0x100004 2"
proof -
  have "load_bytes zero_vm 0x100002 4 = Some [0, 0, 0, 0]"
    by (simp add: load_bytes_numeral load8_def zero_vm_def PROT_READ_def PROT_WRITE_def)
  then show ?thesis
    by (intro cfi_sync_copies_foreign_slot [OF cfi_maps_shadow _ sample_page(1), where src = "0x100002" and dst = "0x100004"
          and bs = "[0, 0, 0, 0]"])
      (simp_all add: sample_page(2) cfi_shadow_offset_def kCfiShadowGranularity_def zero_vm_def)
qed

end
