(* ===== verification/Module_Loader.thy ===== *)
theory Module_Loader
  imports Image_Api Cfi_Sync
begin

text \<open>
  The module loader in front of the custom linker (\<open>injector/module_loader.cpp\<close>), with the
  configuration queries it consults (\<open>config_line_present\<close> and its two callers,
  \<open>injector/clean.cpp\<close>) and the system path it falls back to (\<open>DlopenMem\<close>, \<open>common/dl.cpp\<close>).
  The text of the configuration file and of \<open>/proc/self/maps\<close> and the system's
  \<open>android_dlopen_ext\<close> are the record \<open>mlenv\<close>; a file that cannot be opened is \<open>None\<close>.
\<close>

section \<open>Definitions\<close>

subsection \<open>Configuration\<close>

definition trailing_blank :: "byte \<Rightarrow> bool" where
  "trailing_blank b \<longleftrightarrow> b = 10 \<or> b = 13 \<or> b = 32 \<or> b = 9"

text \<open>The line in the buffer ends at its first null byte; then trailing blanks are cut off.\<close>

definition strip_line :: "cstr \<Rightarrow> cstr" where
  "strip_line l = rev (dropWhile trailing_blank (rev (takeWhile (\<lambda>b. b \<noteq> 0) l)))"

definition config_line_present :: "cstr option \<Rightarrow> cstr \<Rightarrow> cstr \<Rightarrow> bool" where
  "config_line_present file key val =
     (case file of None \<Rightarrow> False
      | Some text \<Rightarrow>
          let needle = take 63 (key @ cstring ''='' @ val)
          in \<exists>l \<in> set (fgets_lines 127 text). strip_line l = needle)"

definition is_anonymous_memory_enabled :: "cstr option \<Rightarrow> bool" where
  "is_anonymous_memory_enabled file = config_line_present file (cstring ''anonymous_memory'') (cstring ''1'')"

definition is_custom_linker_enabled :: "cstr option \<Rightarrow> bool" where
  "is_custom_linker_enabled file = config_line_present file (cstring ''custom_linker'') (cstring ''1'')"

subsection \<open>The two loaders\<close>

record mlenv =
  ml_config :: "cstr option"
  ml_maps :: "cstr option"
  android_dlopen_ext :: "cstr \<Rightarrow> addr"

definition DlopenMem :: "mlenv \<Rightarrow> cstr option \<Rightarrow> addr" where
  "DlopenMem ml name = android_dlopen_ext ml
     (case name of Some n \<Rightarrow> if n \<noteq> [] then n else cstring ''/jit-cache-zygisk'' | None \<Rightarrow> cstring ''/jit-cache-zygisk'')"

text \<open>The result is the handle and \<open>*via_system\<close>.\<close>

definition ml_Dlopen :: "mlenv \<Rightarrow> sysenv \<Rightarrow> dlenv \<Rightarrow> arch \<Rightarrow> (addr \<Rightarrow> vm \<Rightarrow> vm option) \<Rightarrow> addr \<Rightarrow> cstr option \<Rightarrow> loader
    \<Rightarrow> (addr \<times> bool \<times> loader) option" where
  "ml_Dlopen ml env dl a callf h name s =
     (if is_custom_linker_enabled (ml_config ml) then do {
        (r, s1) \<leftarrow> lk_Dlopen env dl a callf h name (is_anonymous_memory_enabled (ml_config ml)) s;
        (if r \<noteq> 0 then do {
           img \<leftarrow> ld_heap s1 r;
           m \<leftarrow> register_cfi_unchecked env (ml_maps ml) (map_start img) (map_size img) (ld_vm s1);
           Some (r, False, s1\<lparr>ld_vm := m\<rparr>) }
         else Some (DlopenMem ml name, True, s1)) }
      else Some (DlopenMem ml name, True, s))"

definition ml_Dlsym :: "dlenv \<Rightarrow> loader \<Rightarrow> addr \<Rightarrow> cstr \<Rightarrow> addr option" where
  "ml_Dlsym dl s handle name =
     (if IsOurHandle s handle then lk_Dlsym dl s handle name else Some (dl_sym dl handle name))"

definition ml_Dlclose :: "(addr \<Rightarrow> u32) \<Rightarrow> (addr \<Rightarrow> vm \<Rightarrow> vm option) \<Rightarrow> addr \<Rightarrow> loader \<Rightarrow> (bool \<times> loader) option" where
  "ml_Dlclose real callf handle s =
     (if IsOurHandle s handle then lk_Dlclose callf handle s
      else Some (real handle = 0, s\<lparr>ld_trace := ld_trace s @ [EvDlclose handle]\<rparr>))"

definition IsCustom :: "loader \<Rightarrow> addr \<Rightarrow> bool" where
  "IsCustom s handle = IsOurHandle s handle"

section \<open>Lemmas\<close>

lemma strip_line_eq:
  assumes "0 \<notin> set l" "w \<noteq> []" "\<not> trailing_blank (last w)"
  shows "strip_line (l @ [10]) = w \<longleftrightarrow> (\<exists>t. l = w @ t \<and> list_all trailing_blank t)"
proof -
  have "takeWhile (\<lambda>b. b \<noteq> 0) (l @ [10]) = l @ [10]" using assms(1) by (auto simp: takeWhile_eq_all_conv)
  then have strip: "strip_line (l @ [10]) = rev (dropWhile trailing_blank (rev l))"
    by (simp add: strip_line_def trailing_blank_def)
  show ?thesis
  proof
    assume w: "strip_line (l @ [10]) = w"
    have "l = rev (dropWhile trailing_blank (rev l)) @ rev (takeWhile trailing_blank (rev l))"
      by (metis rev_append rev_rev_ident takeWhile_dropWhile_id)
    moreover have "list_all trailing_blank (rev (takeWhile trailing_blank (rev l)))"
      by (auto simp: list_all_iff dest: set_takeWhileD)
    ultimately show "\<exists>t. l = w @ t \<and> list_all trailing_blank t" using w strip by metis
  next
    assume "\<exists>t. l = w @ t \<and> list_all trailing_blank t"
    then obtain t where t: "l = w @ t" "list_all trailing_blank t" by blast
    obtain u x where x: "w = u @ [x]" using assms(2) by (meson rev_exhaust)
    have "dropWhile trailing_blank (rev t @ rev w) = dropWhile trailing_blank (rev w)"
      using t(2) by (intro dropWhile_append2) (auto simp: list_all_iff)
    also have "\<dots> = rev w" using assms(3) x by simp
    finally show "strip_line (l @ [10]) = w" using strip t(1) by simp
  qed
qed

section \<open>Properties\<close>

text \<open>
  in a configuration file of null-free lines shorter than the buffer, a setting is present
  exactly when some line is the text \<open>key=value\<close> followed by nothing but blanks.
\<close>

theorem config_line_exact:
  assumes "\<And>l. l \<in> set ls \<Longrightarrow> 10 \<notin> set l \<and> 0 \<notin> set l \<and> length l < 127"
    and "w = key @ cstring ''='' @ val" "length w \<le> 63" "\<not> trailing_blank (last w)"
  shows "config_line_present (Some (concat (map (\<lambda>l. l @ [10]) ls))) key val \<longleftrightarrow>
    (\<exists>l \<in> set ls. \<exists>t. l = w @ t \<and> list_all trailing_blank t)"
proof -
  have w: "w \<noteq> []" "take 63 (key @ cstring ''='' @ val) = w" using assms(2,3) by (auto simp: cstring_def)
  have "fgets_lines 127 (concat (map (\<lambda>l. l @ [10]) ls)) = map (\<lambda>l. l @ [10]) ls"
    using assms(1) by (intro fgets_lines_lines) auto
  then show ?thesis
    using strip_line_eq [OF _ w(1) assms(4)] assms(1) w(2) by (auto simp: config_line_present_def Let_def)
qed

theorem config_line_exact_witness:
  "config_line_present (Some (cstring ''custom_linker=1 '' @ [10])) (cstring ''custom_linker'') (cstring ''1'')"
  using config_line_exact [of "[cstring ''custom_linker=1 '']" "cstring ''custom_linker=1''" "cstring ''custom_linker''" "cstring ''1''"]
  by (simp add: cstring_def trailing_blank_def)

text \<open>
  the module loader never mixes the two worlds up: a handle that did not come from the system
  loader is registered with the custom linker (so later lookups and closes go there), and when the
  custom linker is off or fails, for whatever reason, the system loader's handle is returned and the
  registry is as before.
\<close>

theorem module_loader_routes:
  assumes "ml_Dlopen ml env dl a callf h name s = Some (r, via_system, s')" "h \<noteq> 0"
  shows "(if via_system then r = DlopenMem ml name \<and> ld_images s' = ld_images s \<and> ld_heap s' = ld_heap s
    else is_custom_linker_enabled (ml_config ml) \<and> r = h \<and> IsCustom s' r \<and> ml_Dlsym dl s' r symbol = lk_Dlsym dl s' r symbol)"
proof (cases "is_custom_linker_enabled (ml_config ml)")
  case True
  with assms(1) obtain r1 s1 where
    ld: "Load env dl a callf h name (is_anonymous_memory_enabled (ml_config ml)) s = Some (r1, s1)"
    by (auto simp: ml_Dlopen_def lk_Dlopen_def bind_eq_Some_conv)
  from Load_result [OF ld] assms True ld show ?thesis
    by (auto simp: ml_Dlopen_def lk_Dlopen_def IsCustom_def IsOurHandle_def ml_Dlsym_def lk_Dlsym_def
        bind_eq_Some_conv split: if_splits)
next
  case False
  with assms show ?thesis by (auto simp: ml_Dlopen_def)
qed

theorem module_loader_routes_witness:
  "\<exists>s'. ml_Dlopen \<lparr>ml_config = None, ml_maps = None, android_dlopen_ext = (\<lambda>_. 0x99)\<rparr>
       sample_env no_dl X86_64 (\<lambda>_ m. Some m) 0x50 None sample_loader = Some (0x99, True, s') \<and>
     ld_images s' = []"
proof -
  let ?ml = "\<lparr>ml_config = None, ml_maps = None, android_dlopen_ext = (\<lambda>_. 0x99)\<rparr>"
  obtain s' where s': "ml_Dlopen ?ml sample_env no_dl X86_64 (\<lambda>_ m. Some m) 0x50 None sample_loader = Some (0x99, True, s')"
    by (simp add: ml_Dlopen_def DlopenMem_def is_custom_linker_enabled_def config_line_present_def)
  with module_loader_routes [OF this, of "[]"] show ?thesis by (simp add: sample_loader_def)
qed

end
