(* ===== verification/Proc_Files.thy ===== *)
theory Proc_Files
  imports C_Text Elf_Base
begin

unbundle bit_operations_syntax

text \<open>
  The readers of \<open>/proc\<close> and the file helpers of the tracer (\<open>ptracer/utils.cpp\<close>,
  \<open>common/files.cpp\<close>, \<open>common/misc.cpp\<close>).  The file system is a parameter: a record that gives the
  listing of \<open>/proc\<close> and, by process directory name, the text of each file (\<open>None\<close> when it cannot
  be opened or read).
\<close>

section \<open>Definitions\<close>

subsection \<open>Numbers as text\<close>

fun nat_dec :: "nat \<Rightarrow> cstr" where
  "nat_dec n = (if n < 10 then [of_nat (48 + n)] else nat_dec (n div 10) @ [of_nat (48 + n mod 10)])"

declare nat_dec.simps [simp del]

text \<open>\<open>std::to_string\<close> of an integer.\<close>

definition to_string :: "int \<Rightarrow> cstr" where
  "to_string i = (if i < 0 then 45 # nat_dec (nat (- i)) else nat_dec (nat i))"

definition int_min :: "nat \<Rightarrow> int" where "int_min w = - (2 ^ (w - 1))"

definition int_max :: "nat \<Rightarrow> int" where "int_max w = 2 ^ (w - 1) - 1"

definition fits :: "nat \<Rightarrow> int \<Rightarrow> bool" where
  "fits w i \<longleftrightarrow> int_min w \<le> i \<and> i \<le> int_max w"

text \<open>An optional sign and a run of decimal digits; \<open>None\<close> without digits.\<close>

definition scan_sint :: "cstr \<Rightarrow> (int \<times> cstr) option" where
  "scan_sint s =
     (let neg = (s \<noteq> [] \<and> hd s = 45);
          s2 = (if s \<noteq> [] \<and> (hd s = 45 \<or> hd s = 43) then tl s else s)
      in case s2 of [] \<Rightarrow> None | b # _ \<Rightarrow>
        if dec_digit b = None then None
        else case digits dec_digit 10 0 s2 of (v, rest) \<Rightarrow> Some (if neg then - int v else int v, rest))"

text \<open>
  \<open>strtol\<close> with base 10: the value saturates at the range of \<open>long\<close>; the flag is \<open>ERANGE\<close>.  Without
  a conversion the result is 0 and nothing is consumed.
\<close>

definition strtol10 :: "cstr \<Rightarrow> int \<times> bool \<times> cstr" where
  "strtol10 s = (case scan_sint (dropWhile is_space s) of
     None \<Rightarrow> (0, False, s)
   | Some (v, rest) \<Rightarrow>
       if v < int_min 64 then (int_min 64, True, rest)
       else if v > int_max 64 then (int_max 64, True, rest)
       else (v, False, rest))"

text \<open>The \<open>%d\<close> conversion of \<open>sscanf\<close>: the long value is stored into an \<open>int\<close>.\<close>

definition scan_d :: "cstr \<Rightarrow> (int \<times> cstr) option" where
  "scan_d s = (case strtol10 s of (v, _, rest) \<Rightarrow>
     if rest = s then None else Some (sint (of_int v :: u32), rest))"

text \<open>\<open>std::from_chars\<close> into an \<open>int\<close> accepts a minus sign, no plus sign and no leading space.\<close>

definition parse_int :: "cstr \<Rightarrow> int" where
  "parse_int s = (if s \<noteq> [] \<and> hd s = 43 then - 1 else case scan_sint s of
     Some (v, []) \<Rightarrow> if fits 32 v then v else - 1
   | _ \<Rightarrow> - 1)"

text \<open>\<open>sscanf(release, "%d.%d")\<close> decides whether the kernel predates 5.3; \<open>None\<close> when \<open>uname\<close> fails.\<close>

definition kernel_keeps_ptrace_message :: "cstr option \<Rightarrow> bool" where
  "kernel_keeps_ptrace_message release = (case release of None \<Rightarrow> False | Some r \<Rightarrow>
     (case scan_d r of
        Some (major, c # rest) \<Rightarrow>
          if c \<noteq> 46 then False
          else (case scan_d rest of
            Some (minor, _) \<Rightarrow> major < 5 \<or> major = 5 \<and> minor < 3
          | None \<Rightarrow> False)
      | _ \<Rightarrow> False))"

subsection \<open>Lines\<close>

text \<open>\<open>getline\<close> grows its buffer, so its pieces are the lines.\<close>

definition getlines :: "cstr \<Rightarrow> cstr list" where
  "getlines s = fgets_lines (Suc (length s)) s"

text \<open>What a C string function sees of a buffer.\<close>

definition c_str :: "cstr \<Rightarrow> cstr" where "c_str s = takeWhile (\<lambda>b. b \<noteq> 0) s"

definition trim_line :: "cstr \<Rightarrow> cstr" where
  "trim_line l = dropWhile (\<lambda>b. b = 32) (rev (dropWhile (\<lambda>b. b = 10 \<or> b = 13 \<or> b = 32) (rev l)))"

text \<open>
  \<open>file_readline\<close> with a callback on an accumulator: the callback returns whether to go on.
\<close>

primrec readline_loop :: "(cstr \<Rightarrow> 's \<Rightarrow> bool \<times> 's) \<Rightarrow> cstr list \<Rightarrow> 's \<Rightarrow> 's" where
  "readline_loop fn [] s = s"
| "readline_loop fn (l # ls) s = (case fn l s of (go, s') \<Rightarrow> if go then readline_loop fn ls s' else s')"

definition file_readline :: "bool \<Rightarrow> cstr \<Rightarrow> (cstr \<Rightarrow> 's \<Rightarrow> bool \<times> 's) \<Rightarrow> 's \<Rightarrow> 's" where
  "file_readline trim text fn s =
     readline_loop (\<lambda>l. fn (c_str (if trim then trim_line l else l))) (getlines text) s"

subsection \<open>Processes\<close>

record procfs =
  pf_names :: "cstr list option"
  pf_exe :: "cstr \<Rightarrow> cstr option"
  pf_comm :: "cstr \<Rightarrow> cstr option"
  pf_cmdline :: "cstr \<Rightarrow> cstr option"
  pf_status :: "cstr \<Rightarrow> cstr option"
  pf_maps :: "cstr \<Rightarrow> cstr option"

definition get_program :: "procfs \<Rightarrow> int \<Rightarrow> cstr" where
  "get_program fs pid = (case pf_exe fs (to_string pid) of None \<Rightarrow> [] | Some l \<Rightarrow> c_str (take 256 l))"

definition get_comm :: "procfs \<Rightarrow> int \<Rightarrow> cstr" where
  "get_comm fs pid = (case pf_comm fs (to_string pid) of None \<Rightarrow> []
   | Some text \<Rightarrow> (case fgets_lines 63 text of [] \<Rightarrow> []
     | l # _ \<Rightarrow> rev (dropWhile (\<lambda>b. b = 10 \<or> b = 0) (rev (c_str l)))))"

text \<open>The arguments collected so far and the one being read.\<close>

definition cmdline_step :: "byte \<Rightarrow> cstr list \<times> cstr \<Rightarrow> cstr list \<times> cstr" where
  "cmdline_step ch = (\<lambda>(argv, arg).
     if ch = 0 then (if arg \<noteq> [] then argv @ [arg] else argv, []) else (argv, arg @ [ch]))"

definition read_cmdline :: "procfs \<Rightarrow> int \<Rightarrow> cstr list" where
  "read_cmdline fs pid = (case pf_cmdline fs (to_string pid) of None \<Rightarrow> []
   | Some text \<Rightarrow> (case fold cmdline_step text ([], []) of
       (argv, arg) \<Rightarrow> if arg \<noteq> [] then argv @ [arg] else argv))"

text \<open>\<open>sscanf(line, "PPid: %d", ...)\<close>.\<close>

definition ppid_line :: "cstr \<Rightarrow> int option" where
  "ppid_line l = (if starts_with (cstring ''PPid:'') l
     then map_option fst (scan_d (dropWhile is_space (drop 5 (c_str l)))) else None)"

primrec first_some :: "('a \<Rightarrow> 'b option) \<Rightarrow> 'a list \<Rightarrow> 'b option" where
  "first_some f [] = None"
| "first_some f (x # xs) = (case f x of None \<Rightarrow> first_some f xs | Some y \<Rightarrow> Some y)"

definition get_ppid :: "procfs \<Rightarrow> int \<Rightarrow> int" where
  "get_ppid fs pid = (case pf_status fs (to_string pid) of None \<Rightarrow> - 1
   | Some text \<Rightarrow> (case first_some ppid_line (fgets_lines 255 text) of Some p \<Rightarrow> p | None \<Rightarrow> - 1))"

definition find_process :: "procfs \<Rightarrow> cstr \<Rightarrow> cstr \<Rightarrow> int option" where
  "find_process fs exe name = (case strtol10 name of (val, erange, rest) \<Rightarrow>
     if rest \<noteq> [] \<or> erange \<or> val \<le> 0 then None
     else (case pf_exe fs name of None \<Rightarrow> None
       | Some l \<Rightarrow> if exe = c_str (take 4095 l) then Some (sint (of_int val :: u32)) else None))"

definition find_processes_by_exe :: "procfs \<Rightarrow> cstr \<Rightarrow> int list" where
  "find_processes_by_exe fs exe = (case pf_names fs of None \<Rightarrow> []
   | Some names \<Rightarrow> List.map_filter (find_process fs exe) names)"

subsection \<open>Memory maps\<close>

record map_info =
  mi_start :: addr
  mi_end :: addr
  mi_perms :: u32
  mi_private :: bool
  mi_offset :: addr
  mi_dev :: addr
  mi_inode :: addr
  mi_path :: cstr

definition makedev :: "u32 \<Rightarrow> u32 \<Rightarrow> addr" where
  "makedev major minor = (push_bit 32 (ucast major AND 0xfffff000)) OR (push_bit 8 (ucast major AND 0xfff)) OR
     (push_bit 12 (ucast minor AND 0xffffff00)) OR (ucast minor AND 0xff)"

text \<open>\<open>%4s\<close>, \<open>%lu\<close> and a literal character.\<close>

definition scan_word4 :: "cstr \<Rightarrow> (cstr \<times> cstr) option" where
  "scan_word4 s = (let s1 = dropWhile is_space s; w = takeWhile (\<lambda>b. \<not> is_space b) (take 4 s1)
     in if w = [] then None else Some (w, drop (length w) s1))"

definition scan_lu :: "cstr \<Rightarrow> (addr \<times> cstr) option" where
  "scan_lu s = map_option (\<lambda>(v, rest). (if v > int_max 65 then - 1 else if v < - int_max 65 then - 1 else of_int v, rest))
     (scan_sint (dropWhile is_space s))"

definition scan_lit :: "byte \<Rightarrow> cstr \<Rightarrow> cstr option" where
  "scan_lit b s = (case s of [] \<Rightarrow> None | c # r \<Rightarrow> if c = b then Some r else None)"

definition perm_at :: "cstr \<Rightarrow> nat \<Rightarrow> byte" where
  "perm_at perm i = (if i < length perm then perm ! i else 0)"

definition perm_bits :: "cstr \<Rightarrow> u32" where
  "perm_bits perm = (if perm_at perm 0 = 114 then PROT_READ else 0) OR
     (if perm_at perm 1 = 119 then PROT_WRITE else 0) OR (if perm_at perm 2 = 120 then PROT_EXEC else 0)"

definition map_line :: "cstr \<Rightarrow> map_info option" where
  "map_line l = do {
     (a, b, r) \<leftarrow> scan_range (c_str l);
     (perm, r) \<leftarrow> scan_word4 r;
     (off, r) \<leftarrow> scan_hex r;
     (major, r) \<leftarrow> scan_hex r;
     r \<leftarrow> scan_lit 58 r;
     (minor, r) \<leftarrow> scan_hex r;
     (inode, r) \<leftarrow> scan_lu r;
     Some \<lparr>mi_start = a, mi_end = b, mi_perms = perm_bits perm, mi_private = (perm_at perm 3 = 112), mi_offset = off,
       mi_dev = makedev (ucast major) (ucast minor), mi_inode = inode,
       mi_path = takeWhile (\<lambda>b. b \<noteq> 10) (dropWhile is_space r)\<rparr> }"

definition MapInfo_Scan :: "procfs \<Rightarrow> cstr \<Rightarrow> map_info list" where
  "MapInfo_Scan fs pid = (case pf_maps fs pid of None \<Rightarrow> []
   | Some text \<Rightarrow> List.map_filter map_line (getlines text))"

definition has_library_mapped :: "procfs \<Rightarrow> int \<Rightarrow> cstr \<Rightarrow> bool" where
  "has_library_mapped fs pid suff = (\<exists>mi \<in> set (MapInfo_Scan fs (to_string pid)). strstr (mi_path mi) suff)"

definition ends_with :: "cstr \<Rightarrow> cstr \<Rightarrow> bool" where
  "ends_with suff s \<longleftrightarrow> starts_with (rev suff) (rev s)"

definition get_addr_mem_region :: "map_info list \<Rightarrow> addr \<Rightarrow> cstr" where
  "get_addr_mem_region info a = (case find (\<lambda>mi. mi_start mi \<le> a \<and> mi_end mi > a) info of
     None \<Rightarrow> cstring ''<unknown>''
   | Some mi \<Rightarrow> mi_path mi @ [32, if mi_perms mi AND PROT_READ \<noteq> 0 then 114 else 45,
       if mi_perms mi AND PROT_WRITE \<noteq> 0 then 119 else 45, if mi_perms mi AND PROT_EXEC \<noteq> 0 then 120 else 45])"

definition find_module_return_addr :: "map_info list \<Rightarrow> cstr \<Rightarrow> addr" where
  "find_module_return_addr info suff =
     (case find (\<lambda>mi. mi_perms mi AND PROT_EXEC = 0 \<and> ends_with suff (mi_path mi)) info of
        None \<Rightarrow> 0 | Some mi \<Rightarrow> mi_start mi)"

definition find_module_base :: "map_info list \<Rightarrow> cstr \<Rightarrow> addr" where
  "find_module_base info suff =
     (case find (\<lambda>mi. mi_offset mi = 0 \<and> (mi_path mi = suff \<or> ends_with suff (mi_path mi))) info of
        None \<Rightarrow> 0 | Some mi \<Rightarrow> mi_start mi)"

subsection \<open>Wait statuses\<close>

definition WIFEXITED :: "u32 \<Rightarrow> bool" where "WIFEXITED st \<longleftrightarrow> st AND 0x7f = 0"

definition WEXITSTATUS :: "u32 \<Rightarrow> u32" where "WEXITSTATUS st = drop_bit 8 (st AND 0xff00)"

definition WIFSTOPPED :: "u32 \<Rightarrow> bool" where "WIFSTOPPED st \<longleftrightarrow> st AND 0xff = 0x7f"

definition WSTOPSIG :: "u32 \<Rightarrow> u32" where "WSTOPSIG st = WEXITSTATUS st"

definition WTERMSIG :: "u32 \<Rightarrow> u32" where "WTERMSIG st = st AND 0x7f"

definition WIFSIGNALED :: "u32 \<Rightarrow> bool" where "WIFSIGNALED st \<longleftrightarrow> WTERMSIG st + 1 \<ge> 2 \<and> WTERMSIG st \<noteq> 0x7f"

definition WPTEVENT :: "u32 \<Rightarrow> u32" where "WPTEVENT st = drop_bit 16 st"

definition stopped_with :: "u32 \<Rightarrow> u32 \<Rightarrow> u32 \<Rightarrow> bool" where
  "stopped_with st sig event \<longleftrightarrow> WIFSTOPPED st \<and> drop_bit 8 st = (sig OR push_bit 8 event)"

fun nat_hex :: "nat \<Rightarrow> cstr" where
  "nat_hex n = (let d = n mod 16; c = of_nat (if d < 10 then 48 + d else 87 + d) in
     if n < 16 then [c] else nat_hex (n div 16) @ [c])"

declare nat_hex.simps [simp del]

definition PTRACE_EVENT_FORK :: u32 where "PTRACE_EVENT_FORK = 1"
definition PTRACE_EVENT_VFORK :: u32 where "PTRACE_EVENT_VFORK = 2"
definition PTRACE_EVENT_CLONE :: u32 where "PTRACE_EVENT_CLONE = 3"
definition PTRACE_EVENT_EXEC :: u32 where "PTRACE_EVENT_EXEC = 4"
definition PTRACE_EVENT_VFORK_DONE :: u32 where "PTRACE_EVENT_VFORK_DONE = 5"
definition PTRACE_EVENT_EXIT :: u32 where "PTRACE_EVENT_EXIT = 6"
definition PTRACE_EVENT_SECCOMP :: u32 where "PTRACE_EVENT_SECCOMP = 7"
definition PTRACE_EVENT_STOP :: u32 where "PTRACE_EVENT_STOP = 128"

lemmas ptrace_event_defs = PTRACE_EVENT_FORK_def PTRACE_EVENT_VFORK_def PTRACE_EVENT_CLONE_def PTRACE_EVENT_EXEC_def
  PTRACE_EVENT_VFORK_DONE_def PTRACE_EVENT_EXIT_def PTRACE_EVENT_SECCOMP_def PTRACE_EVENT_STOP_def

definition parse_ptrace_event :: "u32 \<Rightarrow> cstr" where
  "parse_ptrace_event st = (let e = WPTEVENT st in
     if e = PTRACE_EVENT_FORK then cstring ''PTRACE_EVENT_FORK''
     else if e = PTRACE_EVENT_VFORK then cstring ''PTRACE_EVENT_VFORK''
     else if e = PTRACE_EVENT_CLONE then cstring ''PTRACE_EVENT_CLONE''
     else if e = PTRACE_EVENT_EXEC then cstring ''PTRACE_EVENT_EXEC''
     else if e = PTRACE_EVENT_VFORK_DONE then cstring ''PTRACE_EVENT_VFORK_DONE''
     else if e = PTRACE_EVENT_EXIT then cstring ''PTRACE_EVENT_EXIT''
     else if e = PTRACE_EVENT_SECCOMP then cstring ''PTRACE_EVENT_SECCOMP''
     else if e = PTRACE_EVENT_STOP then cstring ''PTRACE_EVENT_STOP''
     else cstring ''(no event)'')"

text \<open>The table \<open>sys_signame\<close> of the C library is the parameter \<open>names\<close>; \<open>NSIG\<close> is 65.\<close>

definition sigabbrev_np :: "(u32 \<Rightarrow> cstr) \<Rightarrow> u32 \<Rightarrow> cstr" where
  "sigabbrev_np names sig = (if 0 <s sig \<and> sig <s 65 then names sig else cstring ''(unknown)'')"

definition parse_status :: "(u32 \<Rightarrow> cstr) \<Rightarrow> u32 \<Rightarrow> cstr" where
  "parse_status names st = take 23 (cstring ''0x'' @ nat_hex (unat st) @ cstring '' '') @
     (if WIFEXITED st then take 95 (cstring ''exited with '' @ to_string (sint (WEXITSTATUS st)))
      else if WIFSIGNALED st then take 95 (cstring ''signaled with '' @ sigabbrev_np names (WTERMSIG st) @
        cstring ''('' @ to_string (sint (WTERMSIG st)) @ cstring '')'')
      else if WIFSTOPPED st then take 95 (cstring ''stopped by signal='' @ sigabbrev_np names (WSTOPSIG st) @
        cstring ''('' @ to_string (sint (WSTOPSIG st)) @ cstring ''),event='' @ parse_ptrace_event st)
      else cstring ''unknown'')"

subsection \<open>Replacing a file\<close>

type_synonym files = "cstr \<Rightarrow> cstr option"

text \<open>
  A file of the disk is its contents and whether they have been flushed; what an unflushed file holds after a power loss
  is open.  \<open>rename\<close> moves the file as it is.
\<close>

record disk_file =
  df_data :: cstr
  df_synced :: bool

type_synonym disk = "cstr \<Rightarrow> disk_file option"

definition sys_create :: "cstr \<Rightarrow> disk \<Rightarrow> disk" where
  "sys_create p d = d(p \<mapsto> \<lparr>df_data = [], df_synced = False\<rparr>)"

definition sys_write :: "cstr \<Rightarrow> cstr \<Rightarrow> disk \<Rightarrow> disk" where
  "sys_write p bs d = d(p := map_option (\<lambda>f. f\<lparr>df_data := df_data f @ bs, df_synced := False\<rparr>) (d p))"

definition sys_fsync :: "cstr \<Rightarrow> disk \<Rightarrow> disk" where
  "sys_fsync p d = d(p := map_option (\<lambda>f. f\<lparr>df_synced := True\<rparr>) (d p))"

definition sys_rename :: "cstr \<Rightarrow> cstr \<Rightarrow> disk \<Rightarrow> disk" where
  "sys_rename p q d = (d(p := None))(q := d p)"

definition sys_unlink :: "cstr \<Rightarrow> disk \<Rightarrow> disk" where
  "sys_unlink p d = d(p := None)"

text \<open>
  What the kernel answers to the calls of one write: \<open>open\<close>, the byte count of \<open>write\<close> (negative for
  an error), \<open>fsync\<close> and \<open>rename\<close>.
\<close>

record wreply =
  w_open :: bool
  w_count :: int
  w_fsync :: bool
  w_rename :: bool

text \<open>The result and the disk after each system call.\<close>

definition atomic_write_file :: "wreply \<Rightarrow> cstr \<Rightarrow> cstr \<Rightarrow> disk \<Rightarrow> bool \<times> disk list" where
  "atomic_write_file k path data d =
     (let tmp = path @ cstring ''.tmp''; d1 = sys_create tmp d
      in if \<not> w_open k then (False, [])
         else let d2 = sys_write tmp (take (nat (w_count k)) data) d1
           in if w_count k = - 1 \<or> w_count k \<noteq> int (length data) then (False, [d1, d2, sys_unlink tmp d2])
              else if \<not> w_fsync k then (False, [d1, d2, sys_unlink tmp d2])
              else let d3 = (if w_fsync k then sys_fsync tmp d2 else d2)
                in if \<not> w_rename k then (False, [d1, d2, d3, sys_unlink tmp d3])
                   else (True, [d1, d2, d3, sys_rename tmp path d3]))"

lemmas sys_defs = sys_create_def sys_write_def sys_fsync_def sys_rename_def sys_unlink_def

section \<open>Lemmas\<close>

lemma getlines_lines:
  "(\<And>l. l \<in> set ls \<Longrightarrow> 10 \<notin> set l) \<Longrightarrow> getlines (concat (map (\<lambda>l. l @ [10]) ls)) = map (\<lambda>l. l @ [10]) ls"
  unfolding getlines_def
  by (rule fgets_lines_lines) (auto simp: length_concat comp_def less_Suc_eq_le dest!: split_list)

lemma readline_loop_all:
  "(\<And>l s. fst (fn l s)) \<Longrightarrow> readline_loop fn ls s = fold (\<lambda>l s. snd (fn l s)) ls s"
  by (induction ls arbitrary: s) (simp_all add: case_prod_beta)

lemma dec_digit_dec [simp]: "d < 10 \<Longrightarrow> dec_digit (of_nat (48 + d)) = Some d"
proof -
  assume d: "d < 10"
  have u: "unat (of_nat (48 + d) :: byte) = 48 + d" using d by (subst unat_of_nat) simp
  have "(of_nat (48 + d) :: byte) - 48 = of_nat d" by simp
  hence "unat ((of_nat (48 + d) :: byte) - 48) = d" using d by (simp only:) (subst unat_of_nat, simp)
  thus ?thesis using d u by (simp add: dec_digit_def word_le_nat_alt)
qed

definition dec_text :: "cstr \<Rightarrow> bool" where "dec_text s \<longleftrightarrow> (\<forall>c \<in> set s. dec_digit c \<noteq> None)"

definition dec_value :: "nat \<Rightarrow> cstr \<Rightarrow> nat" where "dec_value = foldl (\<lambda>v c. v * 10 + the (dec_digit c))"

lemma dec_value_simps [simp]: "dec_value v [] = v" "dec_value v (c # s) = dec_value (v * 10 + the (dec_digit c)) s"
    "dec_value v (s @ t) = dec_value (dec_value v s) t"
  by (simp_all add: dec_value_def)

lemma nat_dec_text: "dec_text (nat_dec n) \<and> dec_value 0 (nat_dec n) = n \<and> nat_dec n \<noteq> []"
proof (induction n rule: nat_dec.induct)
  case (1 n)
  have "dec_digit (of_nat (48 + n mod 10)) = Some (n mod 10)" "n < 10 \<Longrightarrow> dec_digit (of_nat (48 + n)) = Some n"
    by (rule dec_digit_dec, simp)+
  thus ?case using 1 by (subst (1 2 3) nat_dec.simps) (auto simp: dec_text_def)
qed

lemma digits_dec: "dec_text s \<Longrightarrow> digits dec_digit 10 v s = (dec_value v s, [])"
  by (induction s arbitrary: v) (auto simp: dec_text_def)

lemma strtol10_nat_dec:
  assumes "int n \<le> int_max 64"
  shows "strtol10 (nat_dec n) = (int n, False, [])"
proof -
  obtain c s where s: "nat_dec n = c # s" using nat_dec_text [of n] by (cases "nat_dec n") auto
  obtain d where d: "dec_digit c = Some d" using nat_dec_text [of n] s by (auto simp: dec_text_def)
  hence "\<not> is_space c" "c \<noteq> 45" "c \<noteq> 43" by (auto simp: dec_digit_def is_space_def word_le_nat_alt split: if_splits)
  moreover have "digits dec_digit 10 0 (c # s) = (n, [])" using nat_dec_text [of n] digits_dec [of "nat_dec n" 0] s by simp
  ultimately show ?thesis using assms d unfolding s by (simp add: strtol10_def scan_sint_def int_min_def)
qed

section \<open>Properties\<close>

text \<open>
  C27: a file replaced by the atomic writer is never seen half written, not even after a power loss: after every
  system call the path names either the old file or a file that holds all of the new contents and has been flushed,
  the result says which, the temporary file is gone at the end, and no other file is touched.
\<close>

theorem atomic_write_all_or_nothing:
  assumes "atomic_write_file k path data d = (r, hist)"
  shows "(\<forall>g \<in> set hist. g path = d path \<or> g path = Some \<lparr>df_data = data, df_synced = True\<rparr>) \<and>
    (last (d # hist)) path = (if r then Some \<lparr>df_data = data, df_synced = True\<rparr> else d path) \<and>
    (r \<longleftrightarrow> w_open k \<and> w_count k = int (length data) \<and> w_fsync k \<and> w_rename k) \<and>
    (w_open k \<longrightarrow> (last (d # hist)) (path @ cstring ''.tmp'') = None) \<and>
    (\<forall>g \<in> set hist. \<forall>q. q \<noteq> path \<and> q \<noteq> path @ cstring ''.tmp'' \<longrightarrow> g q = d q)"
proof -
  have "path @ cstring ''.tmp'' \<noteq> path" by (simp add: cstring_def)
  with assms show ?thesis by (auto simp: atomic_write_file_def sys_defs Let_def split: if_splits)
qed

theorem atomic_write_all_or_nothing_witness:
  "\<exists>hist short. atomic_write_file \<lparr>w_open = True, w_count = 2, w_fsync = True, w_rename = True\<rparr> [97] [1, 2] (\<lambda>_. None) = (True, hist) \<and>
     last hist [97] = Some \<lparr>df_data = [1, 2], df_synced = True\<rparr> \<and>
     atomic_write_file \<lparr>w_open = True, w_count = 1, w_fsync = True, w_rename = True\<rparr> [97] [1, 2] (\<lambda>_. None) = (False, short) \<and>
     short \<noteq> [] \<and> last short [97] = None"
proof -
  let ?k = "\<lambda>n. \<lparr>w_open = True, w_count = n, w_fsync = True, w_rename = True\<rparr>"
  obtain hist where h: "atomic_write_file (?k 2) [97] [1, 2] (\<lambda>_. None) = (True, hist)" "hist \<noteq> []"
    by (simp add: atomic_write_file_def Let_def)
  obtain short where s: "atomic_write_file (?k 1) [97] [1, 2] (\<lambda>_. None) = (False, short)" "short \<noteq> []"
    by (simp add: atomic_write_file_def Let_def)
  from atomic_write_all_or_nothing [OF h(1)] atomic_write_all_or_nothing [OF s(1)] h s show ?thesis by auto
qed

end
