(* ===== verification/Monitor_Status.thy ===== *)
theory Monitor_Status
  imports Proc_Files
begin

text \<open>
  The state of the init monitor (\<open>AppMonitor\<close> with its \<open>ZygoteAbiManager\<close>, \<open>ptracer/monitor.hpp\<close>,
  \<open>ptracer/types.hpp\<close>, \<open>ptracer/zygote_abi.hpp\<close>) and the two property files it keeps:
  \<open>prepare_environment\<close>, which reads the installed \<open>module.prop\<close>, and \<open>update_status\<close>, which writes
  it back with the current state in its description (\<open>ptracer/monitor_impl.cpp\<close>).  The system's
  answers are the record \<open>menv\<close>.  The monitor is the 64-bit one.
\<close>

section \<open>Definitions\<close>

subsection \<open>State\<close>

datatype tracing_state = TRACING | STOPPING | STOPPED | EXITING

record abi_status =
  supported :: bool
  zygote_injected :: bool
  daemon_running :: bool
  daemon_pid :: int
  daemon_info :: cstr
  daemon_error_info :: cstr

text \<open>The requests the monitor makes to the kernel, in order.\<close>

datatype act =
    PtraceSeize int
  | PtraceInterrupt int
  | PtraceDetach int u32
  | PtraceCont int u32
  | PtraceSetOptions int u32
  | PtraceGetEventMsg int
  | Kill int u32
  | WaitPid int
  | ExecDaemon cstr "cstr list"
  | ExecTracer cstr "cstr list"
  | RefreshModules

record monitor =
  tracing :: tracing_state
  monitor_stop_reason :: cstr
  pre_section :: cstr
  post_section :: cstr
  last_written_status :: cstr
  initial_version_code :: int
  abi :: abi_status
  start_count :: int
  last_start :: int
  process_set :: "int set"
  stub_processes :: "int set"
  running :: bool
  m_files :: files
  m_acts :: "act list"

definition new_status :: abi_status where
  "new_status = \<lparr>supported = False, zygote_injected = False, daemon_running = False, daemon_pid = - 1,
     daemon_info = [], daemon_error_info = []\<rparr>"

definition AppMonitor :: "files \<Rightarrow> monitor" where
  "AppMonitor fs = \<lparr>tracing = TRACING, monitor_stop_reason = [], pre_section = [], post_section = [],
     last_written_status = [], initial_version_code = - 1, abi = new_status, start_count = 0, last_start = 0,
     process_set = {}, stub_processes = {}, running = False, m_files = fs, m_acts = []\<rparr>"

text \<open>
  \<open>e_fork\<close> answers the fork of the daemon, \<open>e_fork1\<close> and \<open>e_fork2\<close> the two forks of
  \<open>fork_dont_care\<close> (process numbers as the parent sees them, negative for a failure), \<open>e_exec\<close> whether
  the detached child manages to execute the tracer; \<open>e_wait\<close> is the status \<open>waitpid\<close> on one process delivers.
\<close>

record menv =
  e_proc :: procfs
  e_write :: "cstr \<Rightarrow> wreply"
  e_create :: bool
  e_fork :: int
  e_fork1 :: int
  e_fork2 :: int
  e_exec :: bool
  e_now :: int
  e_wait :: "int \<Rightarrow> u32"
  e_signame :: "u32 \<Rightarrow> cstr"
  e_module_dir :: cstr
  e_tmp_path :: cstr

definition act :: "act \<Rightarrow> monitor \<Rightarrow> monitor" where
  "act a m = m\<lparr>m_acts := m_acts m @ [a]\<rparr>"

definition abi_name :: cstr where "abi_name = cstring ''64''"

definition program_path :: cstr where "program_path = cstring ''/system/bin/app_process64''"

definition tracer_path :: "menv \<Rightarrow> cstr" where "tracer_path e = e_module_dir e @ cstring ''/bin/zygisk-ptrace64''"

definition daemon_path :: "menv \<Rightarrow> cstr" where "daemon_path e = e_module_dir e @ cstring ''/bin/zygiskd64''"

definition prop_path :: "menv \<Rightarrow> cstr" where "prop_path e = e_tmp_path e @ cstring ''/module.prop''"

definition module_prop :: "menv \<Rightarrow> cstr" where "module_prop e = e_module_dir e @ cstring ''/module.prop''"

subsection \<open>Writing the status\<close>

definition write_abi_status_section :: "tracing_state \<Rightarrow> abi_status \<Rightarrow> cstr" where
  "write_abi_status_section ts d =
     (if \<not> supported d then []
      else cstring ''zygote_'' @ abi_name @ cstring ''_status='' @
        (if ts \<noteq> TRACING then cstring ''unknown''
         else if zygote_injected d then cstring ''injected'' else cstring ''not_injected'') @
        [10] @ cstring ''daemon_'' @ abi_name @ cstring ''_status='' @
        (if daemon_running d then cstring ''running'' @
           (if daemon_info d \<noteq> [] then [10] @ daemon_info d else [])
         else cstring ''crashed'' @
           (if daemon_error_info d \<noteq> [] then [10] @ cstring ''daemon_'' @ abi_name @ cstring ''_error='' @ daemon_error_info d
            else [])))"

definition status_icon :: "bool \<Rightarrow> cstr" where "status_icon ok = (if ok then cstring ''OK'' else cstring ''NO'')"

definition abi_pretty :: cstr where
  "abi_pretty = (if abi_name = cstring ''64'' then cstring ''64-bit''
     else if abi_name = cstring ''32'' then cstring ''32-bit'' else abi_name)"

text \<open>The text between the two sections, and the new line each section is closed with.\<close>

definition status_banner :: "monitor \<Rightarrow> cstr" where
  "status_banner m = cstring ''[Monitor: '' @ status_icon (tracing m = TRACING) @ cstring '', NyaZygisk '' @
     abi_pretty @ cstring '': '' @
     status_icon (supported (abi m) \<and> daemon_running (abi m) \<and> zygote_injected (abi m)) @ cstring ''] ''"

definition newline_unless :: "bool \<Rightarrow> cstr \<Rightarrow> cstr" where
  "newline_unless empty_too s = (if s = [] then (if empty_too then [] else [10]) else if last s \<noteq> 10 then [10] else [])"

definition runtime_status :: "monitor \<Rightarrow> cstr" where
  "runtime_status m = pre_section m @ newline_unless True (pre_section m) @
     cstring ''description='' @ status_banner m @ post_section m @ newline_unless False (post_section m)"

definition monitor_word :: "tracing_state \<Rightarrow> cstr" where
  "monitor_word ts = (case ts of TRACING \<Rightarrow> cstring ''tracing'' | STOPPING \<Rightarrow> cstring ''stopped''
     | STOPPED \<Rightarrow> cstring ''stopped'' | EXITING \<Rightarrow> cstring ''exited'')"

definition installed_status :: "monitor \<Rightarrow> cstr" where
  "installed_status m = runtime_status m @ cstring ''monitor_status='' @ monitor_word (tracing m) @
     (if tracing m \<noteq> TRACING \<and> monitor_stop_reason m \<noteq> []
      then [10] @ cstring ''monitor_stop_reason='' @ monitor_stop_reason m else []) @
     [10] @ write_abi_status_section (tracing m) (abi m) @ [10]"

definition strip_code :: "cstr \<Rightarrow> cstr" where
  "strip_code s = rev (dropWhile (\<lambda>b. b = 13 \<or> b = 10 \<or> b = 32 \<or> b = 9) (rev s))"

text \<open>The callback that looks for a newer version on disk: whether to go on, and whether to write.\<close>

definition version_line :: "int \<Rightarrow> cstr \<Rightarrow> bool \<Rightarrow> bool \<times> bool" where
  "version_line v line should =
     (if starts_with (cstring ''versionCode='') line
      then let code = strip_code (drop 12 line) in
        (case strtol10 code of (disk, _, rest) \<Rightarrow> if rest \<noteq> code \<and> disk > v then (False, False) else (True, should))
      else (True, should))"

definition should_write_installed :: "menv \<Rightarrow> monitor \<Rightarrow> bool" where
  "should_write_installed e m =
     (if initial_version_code m \<ge> 0
      then (case m_files m (module_prop e) of None \<Rightarrow> True
        | Some text \<Rightarrow> file_readline False text (version_line (initial_version_code m)) True)
      else True)"

text \<open>The monitor runs on, so the files it sees are the contents of the disk.\<close>

definition flushed :: "files \<Rightarrow> disk" where
  "flushed fs p = map_option (\<lambda>c. \<lparr>df_data = c, df_synced = True\<rparr>) (fs p)"

definition write_file :: "menv \<Rightarrow> cstr \<Rightarrow> cstr \<Rightarrow> monitor \<Rightarrow> monitor" where
  "write_file e path data m =
     (let d = flushed (m_files m)
      in m\<lparr>m_files := (\<lambda>p. map_option df_data (last (d # snd (atomic_write_file (e_write e path) path data d)) p))\<rparr>)"

definition update_status :: "menv \<Rightarrow> monitor \<Rightarrow> monitor" where
  "update_status e m =
     (let installed = installed_status m; run = runtime_status m
      in if installed = last_written_status m then m
         else let m1 = write_file e (prop_path e) installed (m\<lparr>last_written_status := installed\<rparr>)
           in if should_write_installed e m1 then write_file e (module_prop e) run m1 else m1)"

subsection \<open>Reading the installed properties\<close>

definition is_generated_key :: "cstr \<Rightarrow> bool" where
  "is_generated_key l \<longleftrightarrow> starts_with (cstring ''monitor_status='') l \<or> starts_with (cstring ''monitor_stop_reason='') l \<or>
     starts_with (cstring ''zygote_'') l \<or> starts_with (cstring ''daemon_'') l"

definition desc_blank :: "byte \<Rightarrow> bool" where "desc_blank b \<longleftrightarrow> b = 61 \<or> b = 32 \<or> b = 9"

text \<open>One round of the loop that removes status banners from a description: whether it removed anything.\<close>

definition clean_banner :: "cstr \<Rightarrow> bool \<times> cstr" where
  "clean_banner d = (if starts_with (cstring ''[Monitor:'') d \<and> 93 \<in> set d
     then (True, drop 1 (dropWhile (\<lambda>b. b \<noteq> 93) d)) else (False, d))"

definition clean_blanks :: "bool \<times> cstr \<Rightarrow> bool \<times> cstr" where
  "clean_blanks = (\<lambda>(cleaning, d). if d = [] then (cleaning, d)
     else let t = dropWhile desc_blank d
       in if t = [] then (cleaning, []) else if t \<noteq> d then (True, t) else (cleaning, d))"

lemma clean_banner_shrinks: "length (snd (clean_banner d)) \<le> length d - (if fst (clean_banner d) then 1 else 0)"
  using length_dropWhile_le [of "\<lambda>b. b \<noteq> 93" d] by (auto simp: clean_banner_def)

lemma clean_blanks_shrinks: "length (snd (clean_blanks (c, d))) \<le> length d \<and>
  (fst (clean_blanks (c, d)) \<and> \<not> c \<longrightarrow> length (snd (clean_blanks (c, d))) < length d)"
proof -
  have "length (dropWhile desc_blank d) < length d" if "dropWhile desc_blank d \<noteq> d"
    using that by (cases d) (auto simp: le_imp_less_Suc length_dropWhile_le split: if_splits)
  then show ?thesis using length_dropWhile_le [of desc_blank d] by (auto simp: clean_blanks_def Let_def)
qed

function clean_description :: "cstr \<Rightarrow> cstr" where
  "clean_description d = (let r = clean_blanks (clean_banner d) in if fst r then clean_description (snd r) else snd r)"
  by pat_completeness auto
termination
proof (relation "measure length")
  fix d r
  assume r: "r = clean_blanks (clean_banner d)" "fst r"
  obtain c t where ct: "clean_banner d = (c, t)" by fastforce
  with r clean_banner_shrinks [of d] clean_blanks_shrinks [of c t] show "(snd r, d) \<in> measure length"
    by (cases c; cases d) (auto simp: clean_banner_def split: if_splits)
qed simp

declare clean_description.simps [simp del]

record prop_acc =
  pa_pre :: cstr
  pa_post :: cstr
  pa_seen :: bool
  pa_version :: int

definition join_line :: "cstr \<Rightarrow> cstr \<Rightarrow> cstr" where
  "join_line s l = (if s \<noteq> [] then s @ [10] @ l else s @ l)"

definition prop_line :: "cstr \<Rightarrow> prop_acc \<Rightarrow> bool \<times> prop_acc" where
  "prop_line view a =
     (let line = rev (dropWhile (\<lambda>b. b = 13 \<or> b = 10) (rev view))
      in if list_all (\<lambda>b. b = 32 \<or> b = 9) line \<or> is_generated_key line then (True, a)
         else let code = drop 12 line;
                  a = (if starts_with (cstring ''versionCode='') line
                    then (case strtol10 code of (v, _, rest) \<Rightarrow> if rest \<noteq> code then a\<lparr>pa_version := v\<rparr> else a) else a)
           in if starts_with (cstring ''description='') line
              then (if pa_seen a then (True, a)
                else (True, a\<lparr>pa_seen := True, pa_post := pa_post a @ clean_description (drop 12 line)\<rparr>))
              else if pa_seen a then (True, a\<lparr>pa_post := join_line (pa_post a) line\<rparr>)
              else (True, a\<lparr>pa_pre := join_line (pa_pre a) line\<rparr>))"

definition read_props :: "cstr \<Rightarrow> prop_acc" where
  "read_props text = file_readline False text prop_line \<lparr>pa_pre = [], pa_post = [], pa_seen = False, pa_version = - 1\<rparr>"

definition prepare_environment :: "menv \<Rightarrow> monitor \<Rightarrow> bool \<times> monitor" where
  "prepare_environment e m =
     (let m1 = (if e_create e then m\<lparr>m_files := (m_files m)(prop_path e \<mapsto> [])\<rparr> else m)
      in case m_files m1 (module_prop e) of
           None \<Rightarrow> (False, m1)
         | Some text \<Rightarrow> let a = read_props text
             in (True, update_status e (m1\<lparr>pre_section := pa_pre a, post_section := pa_post a,
                  initial_version_code := pa_version a\<rparr>)))"

subsection \<open>Reference: the lines of a property file\<close>

text \<open>A line that is kept as it is: neither blank, nor a generated key, nor the description.\<close>

definition plain_line :: "cstr \<Rightarrow> bool" where
  "plain_line l \<longleftrightarrow> 10 \<notin> set l \<and> 0 \<notin> set l \<and> l \<noteq> [] \<and> last l \<noteq> 13 \<and> \<not> list_all (\<lambda>b. b = 32 \<or> b = 9) l \<and>
     \<not> is_generated_key l \<and> \<not> starts_with (cstring ''description='') l"

definition join_lines :: "cstr \<Rightarrow> cstr list \<Rightarrow> cstr" where
  "join_lines = foldl join_line"

abbreviation unlines :: "cstr list \<Rightarrow> cstr" where
  "unlines ls \<equiv> concat (map (\<lambda>l. l @ [10]) ls)"

section \<open>Lemmas\<close>

subsection \<open>Descriptions\<close>

lemma clean_description_settled:
  "clean_blanks (clean_banner (clean_description d)) = (False, clean_description d)"
proof (induction d rule: clean_description.induct)
  case (1 d)
  show ?case
  proof (cases "fst (clean_blanks (clean_banner d))")
    case True
    with 1 show ?thesis by (simp add: clean_description.simps [of d] Let_def)
  next
    case False
    then have b: "clean_banner d = (False, d)"
      by (auto simp: clean_banner_def clean_blanks_def Let_def split: if_splits)
    with False have r: "snd (clean_blanks (clean_banner d)) = [] \<or>
        snd (clean_blanks (clean_banner d)) = d \<and> clean_blanks (False, d) = (False, d)"
      by (auto simp: clean_blanks_def Let_def split: if_splits)
    have nil: "clean_blanks (clean_banner []) = (False, [])"
      by (simp add: clean_banner_def clean_blanks_def)
    have "clean_description d = snd (clean_blanks (clean_banner d))"
      using False by (simp add: clean_description.simps [of d] Let_def)
    with r b nil show ?thesis by metis
  qed
qed

lemma clean_description_idem: "clean_description (clean_description d) = clean_description d"
  by (subst clean_description.simps) (simp add: clean_description_settled)

lemma clean_description_head:
  assumes "clean_description d \<noteq> []"
  shows "dropWhile desc_blank (clean_description d) = clean_description d"
  using clean_description_settled [of d] assms
  by (auto simp: clean_banner_def clean_blanks_def Let_def split: if_splits)

lemma clean_blanks_set: "set (snd (clean_blanks r)) \<subseteq> set (snd r)"
  by (cases r) (auto simp: clean_blanks_def Let_def dest: set_dropWhileD)

lemma clean_banner_set: "set (snd (clean_banner d)) \<subseteq> set d"
  by (auto simp: clean_banner_def dest: in_set_dropD set_dropWhileD)

lemma clean_description_set: "set (clean_description d) \<subseteq> set d"
proof (induction d rule: clean_description.induct)
  case (1 d)
  have "set (snd (clean_blanks (clean_banner d))) \<subseteq> set d"
    using clean_blanks_set clean_banner_set by blast
  with 1 show ?case by (subst clean_description.simps) (auto simp: Let_def)
qed

lemma starts_with_append: "starts_with p u \<Longrightarrow> starts_with p (u @ v)"
  unfolding starts_with_def by (metis append_eq_conv_conj append_assoc)

lemma banner_shape:
  obtains u where "status_banner m = u @ [93, 32]" "93 \<notin> set u" "starts_with (cstring ''[Monitor:'') u"
    "10 \<notin> set u" "0 \<notin> set u"
proof
  let ?u = "cstring ''[Monitor: '' @ status_icon (tracing m = TRACING) @ cstring '', NyaZygisk '' @
     abi_pretty @ cstring '': '' @ status_icon (supported (abi m) \<and> daemon_running (abi m) \<and> zygote_injected (abi m))"
  show "status_banner m = ?u @ [93, 32]" by (simp add: status_banner_def cstring_def)
  show "93 \<notin> set ?u" "starts_with (cstring ''[Monitor:'') ?u" "10 \<notin> set ?u" "0 \<notin> set ?u"
    by (simp_all add: status_icon_def abi_pretty_def abi_name_def cstring_def starts_with_def)
qed

lemma clean_banner_description:
  "clean_description (status_banner m @ clean_description x) = clean_description x"
proof -
  obtain u where u: "status_banner m = u @ [93, 32]" "93 \<notin> set u" "starts_with (cstring ''[Monitor:'') u"
    by (rule banner_shape)
  let ?d = "clean_description x"
  have st: "starts_with (cstring ''[Monitor:'') (status_banner m @ ?d)"
    using starts_with_append [OF u(3)] by (simp add: u(1))
  have "dropWhile (\<lambda>b. b \<noteq> 93) (u @ 93 # 32 # ?d) = 93 # 32 # ?d"
    using u(2) by (subst dropWhile_append2) auto
  with st have "clean_banner (status_banner m @ ?d) = (True, 32 # ?d)" by (simp add: clean_banner_def u(1))
  then have "clean_blanks (clean_banner (status_banner m @ ?d)) = (True, ?d)"
    using clean_description_head [of x] desc_blank_def [of 32] by (cases "?d = []") (simp_all add: clean_blanks_def)
  then show ?thesis by (subst clean_description.simps) (simp add: Let_def clean_description_idem)
qed

subsection \<open>Reading back what was written\<close>

lemma join_lines_snoc: "join_lines s (ls @ [l]) = join_line (join_lines s ls) l"
  by (simp add: join_lines_def)

lemma join_lines_unlines:
  assumes "\<And>l. l \<in> set ls \<Longrightarrow> l \<noteq> [] \<and> last l \<noteq> 10" "s \<noteq> []" "last s \<noteq> 10"
  shows "join_lines s ls @ [10] = s @ [10] @ unlines ls \<and> join_lines s ls \<noteq> [] \<and> last (join_lines s ls) \<noteq> 10"
  using assms(1)
proof (induction ls rule: rev_induct)
  case Nil
  with assms(2,3) show ?case by (simp add: join_lines_def)
next
  case (snoc l ls)
  then have "join_lines s ls @ [10] = s @ [10] @ unlines ls" "join_lines s ls \<noteq> []" "l \<noteq> []" "last l \<noteq> 10" by auto
  then show ?case by (simp add: join_lines_snoc join_line_def)
qed

lemma section_unlines:
  assumes "\<And>l. l \<in> set ls \<Longrightarrow> l \<noteq> [] \<and> last l \<noteq> 10"
  shows "join_lines [] ls @ newline_unless True (join_lines [] ls) = unlines ls"
proof (cases ls)
  case Nil
  then show ?thesis by (simp add: join_lines_def newline_unless_def)
next
  case (Cons l ms)
  with assms have l: "l \<noteq> []" "last l \<noteq> 10" by auto
  have "join_lines [] ls = join_lines l ms" using l by (simp add: Cons join_lines_def join_line_def)
  with join_lines_unlines [of ms l] assms l show ?thesis by (simp add: Cons newline_unless_def)
qed

lemma post_unlines:
  assumes "\<And>l. l \<in> set ms \<Longrightarrow> l \<noteq> [] \<and> last l \<noteq> 10" "d \<noteq> [] \<or> ms = []" "10 \<notin> set d"
  shows "join_lines d ms @ newline_unless False (join_lines d ms) = d @ [10] @ unlines ms"
proof (cases "d = []")
  case True
  with assms(2) show ?thesis by (simp add: join_lines_def newline_unless_def)
next
  case False
  with assms(3) have "last d \<noteq> 10" by (metis last_in_set)
  with join_lines_unlines [of ms d] assms(1) False show ?thesis by (simp add: newline_unless_def)
qed

lemma c_str_line: "0 \<notin> set l \<Longrightarrow> c_str (l @ [10]) = l @ [10]"
  by (auto simp: c_str_def takeWhile_eq_all_conv)

lemma read_props_unlines:
  assumes "\<And>l. l \<in> set ls \<Longrightarrow> 10 \<notin> set l \<and> 0 \<notin> set l"
  shows "read_props (unlines ls) = fold (\<lambda>l a. snd (prop_line (l @ [10]) a)) ls
    \<lparr>pa_pre = [], pa_post = [], pa_seen = False, pa_version = - 1\<rparr>"
proof -
  have go: "fst (prop_line v a)" for v a by (simp add: prop_line_def Let_def)
  have "fold (\<lambda>l. (\<lambda>a. snd (prop_line (c_str l) a))) (map (\<lambda>l. l @ [10]) ls) a =
      fold (\<lambda>l a. snd (prop_line (l @ [10]) a)) ls a" for a
    using assms by (induction ls arbitrary: a) (simp_all add: c_str_line)
  then show ?thesis
    using assms by (simp add: read_props_def file_readline_def getlines_lines readline_loop_all go)
qed

lemma strip_eol: "l \<noteq> [] \<Longrightarrow> last l \<noteq> 13 \<Longrightarrow> 10 \<notin> set l \<Longrightarrow>
  rev (dropWhile (\<lambda>b. b = 13 \<or> b = 10) (rev (l @ [10]))) = l"
  by (cases l rule: rev_cases) auto

lemma plain_line_step:
  assumes "plain_line l"
  shows "pa_seen (snd (prop_line (l @ [10]) a)) = pa_seen a"
    "pa_pre (snd (prop_line (l @ [10]) a)) = (if pa_seen a then pa_pre a else join_line (pa_pre a) l)"
    "pa_post (snd (prop_line (l @ [10]) a)) = (if pa_seen a then join_line (pa_post a) l else pa_post a)"
  using assms strip_eol [of l]
  by (simp_all add: plain_line_def prop_line_def Let_def split: prod.split)

lemma plain_lines_fold:
  assumes "\<And>l. l \<in> set ls \<Longrightarrow> plain_line l"
  shows "pa_seen (fold (\<lambda>l a. snd (prop_line (l @ [10]) a)) ls a) = pa_seen a \<and>
    pa_pre (fold (\<lambda>l a. snd (prop_line (l @ [10]) a)) ls a) = (if pa_seen a then pa_pre a else join_lines (pa_pre a) ls) \<and>
    pa_post (fold (\<lambda>l a. snd (prop_line (l @ [10]) a)) ls a) = (if pa_seen a then join_lines (pa_post a) ls else pa_post a)"
  using assms
proof (induction ls arbitrary: a)
  case Nil
  then show ?case by (simp add: join_lines_def)
next
  case (Cons l ls)
  then have "plain_line l" by simp
  with Cons plain_line_step [of l a] show ?case by (simp add: join_lines_def)
qed

lemma description_step:
  assumes "v = status_banner m @ d" "10 \<notin> set d" "d = [] \<or> last d \<noteq> 13"
  shows "snd (prop_line (cstring ''description='' @ v @ [10]) a) =
    (if pa_seen a then a else a\<lparr>pa_seen := True, pa_post := pa_post a @ clean_description v\<rparr>)"
proof -
  obtain u where u: "status_banner m = u @ [93, 32]" "10 \<notin> set u" by (rule banner_shape)
  have "rev (dropWhile (\<lambda>b. b = 13 \<or> b = 10) (rev ((cstring ''description='' @ v) @ [10]))) = cstring ''description='' @ v"
    using assms u by (intro strip_eol) (auto simp: cstring_def)
  then have line: "rev (dropWhile (\<lambda>b. b = 13 \<or> b = 10) (rev (cstring ''description='' @ v @ [10]))) = cstring ''description='' @ v"
    by (simp only: append_assoc)
  show ?thesis
    unfolding prop_line_def line Let_def
    by (simp add: is_generated_key_def starts_with_def cstring_def)
qed

lemma write_file_written:
  assumes "w_open (e_write e p)" "w_count (e_write e p) = int (length data)" "w_fsync (e_write e p)" "w_rename (e_write e p)"
  shows "m_files (write_file e p data m) p = Some data"
  using assms by (simp add: write_file_def atomic_write_file_def sys_defs Let_def)

lemma update_status_sections:
  "pre_section (update_status e m) = pre_section m" "post_section (update_status e m) = post_section m"
  by (simp_all add: update_status_def write_file_def Let_def)

lemma read_props_runtime_status:
  assumes "\<And>l. l \<in> set (ls @ ms) \<Longrightarrow> plain_line l"
    and "d = clean_description x" "10 \<notin> set x" "0 \<notin> set x" "d = [] \<or> last d \<noteq> 13" "d \<noteq> [] \<or> ms = []"
    and "pre_section m = join_lines [] ls" "post_section m = join_lines d ms"
  shows "pa_pre (read_props (runtime_status m)) = pre_section m \<and> pa_post (read_props (runtime_status m)) = post_section m"
proof -
  let ?v = "status_banner m @ d" and ?step = "\<lambda>l a. snd (prop_line (l @ [10]) a)"
  let ?a0 = "\<lparr>pa_pre = [], pa_post = [], pa_seen = False, pa_version = - 1\<rparr>"
  obtain u where u: "status_banner m = u @ [93, 32]" "10 \<notin> set u" "0 \<notin> set u" by (rule banner_shape)
  have d: "10 \<notin> set d" "0 \<notin> set d" using clean_description_set [of x] assms(2-4) by auto
  have ends: "l \<noteq> [] \<and> last l \<noteq> 10" if "l \<in> set (ls @ ms)" for l
    using assms(1) [OF that] last_in_set [of l] by (metis plain_line_def)
  have content: "runtime_status m = unlines (ls @ [cstring ''description='' @ ?v] @ ms)"
    using section_unlines [of ls] post_unlines [of ms d] ends assms(6-8) d(1)
    by (simp add: runtime_status_def)
  have chars: "10 \<notin> set l \<and> 0 \<notin> set l" if "l \<in> set (ls @ [cstring ''description='' @ ?v] @ ms)" for l
    using that assms(1) d u by (auto simp: plain_line_def cstring_def)
  have reread: "read_props (unlines (ls @ [cstring ''description='' @ ?v] @ ms)) = fold ?step (ls @ [cstring ''description='' @ ?v] @ ms) ?a0"
    by (rule read_props_unlines) (rule chars)
  define a1 where "a1 = fold ?step ls ?a0"
  have a1: "\<not> pa_seen a1" "pa_pre a1 = join_lines [] ls" "pa_post a1 = []"
    using plain_lines_fold [of ls ?a0] assms(1) by (auto simp: a1_def)
  have "?step (cstring ''description='' @ ?v) a1 = a1\<lparr>pa_seen := True, pa_post := d\<rparr>"
    using description_step [OF refl d(1) assms(5), of m a1] a1 clean_banner_description [of m x] assms(2) by simp
  then have "read_props (runtime_status m) = fold ?step ms (a1\<lparr>pa_seen := True, pa_post := d\<rparr>)"
    unfolding content reread by (simp add: a1_def)
  with plain_lines_fold [of ms "a1\<lparr>pa_seen := True, pa_post := d\<rparr>"] assms(1,7,8) a1 show ?thesis by simp
qed

lemma write_file_other:
  "q \<noteq> p \<Longrightarrow> q \<noteq> p @ cstring ''.tmp'' \<Longrightarrow> m_files (write_file e p data m) q = m_files m q"
  by (simp add: write_file_def atomic_write_file_def sys_defs flushed_def Let_def option.map_comp comp_def option.map_ident)

section \<open>Properties\<close>

lemma strip_code_dec: "dec_text s \<Longrightarrow> strip_code (s @ [10]) = s"
proof (cases s rule: rev_cases)
  case (snoc t c)
  moreover assume "dec_text s"
  ultimately have "dec_digit c \<noteq> None" by (simp add: dec_text_def)
  hence "c \<notin> {13, 10, 32, 9}" by (auto simp: dec_digit_def)
  thus ?thesis by (simp add: snoc strip_code_def)
qed (simp add: strip_code_def)

text \<open>A line of the file on disk: a version code is a decimal number of the range of \<open>long\<close>.\<close>

definition version_of :: "nat \<Rightarrow> cstr" where "version_of n = cstring ''versionCode='' @ nat_dec n"

definition disk_line :: "cstr \<Rightarrow> bool" where
  "disk_line l \<longleftrightarrow> 10 \<notin> set l \<and> 0 \<notin> set l \<and> (\<not> starts_with (cstring ''versionCode='') l \<or> (\<exists>n. int n \<le> int_max 64 \<and> l = version_of n))"

lemma starts_with_line:
  assumes "10 \<notin> set p"
  shows "starts_with p (l @ [10]) \<longleftrightarrow> starts_with p l"
proof -
  have pre: "starts_with p s \<longleftrightarrow> (\<exists>r. s = p @ r)" for s
    unfolding starts_with_def by (metis append_eq_conv_conj append_take_drop_id)
  have "l @ [10] = p @ r \<Longrightarrow> \<exists>r'. l = p @ r'" for r
    using assms by (cases r rule: rev_cases) (auto dest: arg_cong [of _ _ set])
  thus ?thesis unfolding pre by (metis append.assoc)
qed

lemma version_line_disk:
  assumes "disk_line l"
  shows "version_line v (l @ [10]) b = (if \<exists>n. l = version_of n \<and> v < int n then (False, False) else (True, b))"
proof (cases "starts_with (cstring ''versionCode='') l")
  case True
  then obtain n where n: "int n \<le> int_max 64" "l = version_of n" using assms by (auto simp: disk_line_def)
  have inj: "version_of k = version_of n \<Longrightarrow> k = n" for k
    using nat_dec_text [of k] nat_dec_text [of n] by (metis version_of_def same_append_eq)
  have "starts_with (cstring ''versionCode='') (version_of n @ [10])" "drop 12 (version_of n @ [10]) = nat_dec n @ [10]"
    by (simp_all add: starts_with_def version_of_def cstring_def)
  moreover have "nat_dec n \<noteq> []" using nat_dec_text by blast
  ultimately show ?thesis using n(1) inj nat_dec_text [of n] unfolding n(2)
    by (auto simp: version_line_def strip_code_dec strtol10_nat_dec)
next
  case False
  have "starts_with (cstring ''versionCode='') (version_of n)" for n by (simp add: starts_with_def version_of_def)
  hence no: "\<nexists>n. l = version_of n" using False by blast
  have "\<not> starts_with (cstring ''versionCode='') (l @ [10])"
    using False starts_with_line [of "cstring ''versionCode=''" l] by (simp add: cstring_def)
  thus ?thesis using no by (simp add: version_line_def)
qed

lemma version_scan:
  assumes "\<forall>l \<in> set ds. disk_line l"
  shows "file_readline False (unlines ds) (version_line v) True \<longleftrightarrow> \<not> (\<exists>n. version_of n \<in> set ds \<and> v < int n)"
proof -
  have "getlines (unlines ds) = map (\<lambda>l. l @ [10]) ds" using assms by (intro getlines_lines) (auto simp: disk_line_def)
  moreover have "readline_loop (\<lambda>l. version_line v (c_str l)) (map (\<lambda>l. l @ [10]) ds) True \<longleftrightarrow> \<not> (\<exists>n. version_of n \<in> set ds \<and> v < int n)"
    using assms
  proof (induction ds)
    case (Cons l ds)
    have "c_str (l @ [10]) = l @ [10]" using Cons.prems by (intro c_str_line) (auto simp: disk_line_def)
    thus ?case using Cons version_line_disk [of l v True] by auto
  qed simp
  ultimately show ?thesis by (simp add: file_readline_def)
qed

text \<open>
  C26: what the monitor writes into the installed \<open>module.prop\<close> is read back to the same two sections
  by the next monitor: the status banner it put in front of the description is removed, whatever the
  state of the monitor was, and every other line of the file is kept in its place.  But when the monitor knows a version and
  the file on disk carries a higher version code, the file was replaced by an installer and is left as it is.
  The system calls of the write succeed, and the description is any cleaned text that is not empty when lines follow it.
\<close>

theorem module_prop_roundtrip:
  assumes "\<And>l. l \<in> set (ls @ ms) \<Longrightarrow> plain_line l"
    and "d = clean_description x" "10 \<notin> set x" "0 \<notin> set x" "d = [] \<or> last d \<noteq> 13" "d \<noteq> [] \<or> ms = []"
    and "pre_section m = join_lines [] ls" "post_section m = join_lines d ms"
    and "installed_status m \<noteq> last_written_status m"
    and "m_files m (module_prop e) = Some (unlines ds)" "\<forall>l \<in> set ds. disk_line l"
    and "module_prop e \<noteq> prop_path e" "module_prop e \<noteq> prop_path e @ cstring ''.tmp''"
    and "k = e_write e (module_prop e)" "w_open k" "w_count k = int (length (runtime_status m))" "w_fsync k" "w_rename k"
    and "prop_path e' \<noteq> module_prop e" "module_prop e' = module_prop e" "m_files mon = m_files (update_status e m)"
  shows "if 0 \<le> initial_version_code m \<and> (\<exists>n. version_of n \<in> set ds \<and> initial_version_code m < int n)
    then m_files (update_status e m) (module_prop e) = Some (unlines ds)
    else \<exists>m'. prepare_environment e' mon = (True, m') \<and> pre_section m' = pre_section m \<and> post_section m' = post_section m"
proof -
  let ?m1 = "write_file e (prop_path e) (installed_status m) (m\<lparr>last_written_status := installed_status m\<rparr>)"
  have v: "initial_version_code ?m1 = initial_version_code m" by (simp add: write_file_def Let_def)
  have f: "m_files ?m1 (module_prop e) = Some (unlines ds)"
    using write_file_other [OF assms(12,13)] assms(10) by simp
  have w: "should_write_installed e ?m1 \<longleftrightarrow> \<not> (0 \<le> initial_version_code m \<and> (\<exists>n. version_of n \<in> set ds \<and> initial_version_code m < int n))"
    using version_scan [OF assms(11)] by (simp add: should_write_installed_def v f)
  have u: "update_status e m = (if should_write_installed e ?m1 then write_file e (module_prop e) (runtime_status m) ?m1 else ?m1)"
    using assms(9) by (simp add: update_status_def Let_def)
  show ?thesis
  proof (cases "should_write_installed e ?m1")
    case True
    have "m_files mon (module_prop e) = Some (runtime_status m)"
      using u True assms(14-18,21) by (simp add: write_file_written)
    then show ?thesis
      using True w read_props_runtime_status [OF assms(1-8)] assms(19,20)
      by (auto simp: prepare_environment_def Let_def update_status_sections)
  next
    case False
    with w u f show ?thesis by simp
  qed
qed

lemma plain_name: "plain_line (cstring ''id=nya'')"
  by (simp add: plain_line_def is_generated_key_def starts_with_def cstring_def)

definition sample_menv :: "nat \<Rightarrow> menv" where
  "sample_menv n = \<lparr>e_proc = \<lparr>pf_names = None, pf_exe = (\<lambda>_. None), pf_comm = (\<lambda>_. None), pf_cmdline = (\<lambda>_. None),
       pf_status = (\<lambda>_. None), pf_maps = (\<lambda>_. None)\<rparr>,
     e_write = (\<lambda>_. \<lparr>w_open = True, w_count = int n, w_fsync = True, w_rename = True\<rparr>), e_create = True, e_fork = 7,
     e_fork1 = 8, e_fork2 = 9, e_exec = True, e_now = 100, e_wait = (\<lambda>_. 0x137f), e_signame = (\<lambda>_. []),
     e_module_dir = cstring ''/m'', e_tmp_path = cstring ''/t''\<rparr>"

definition sample_monitor :: "int \<Rightarrow> monitor" where
  "sample_monitor v = (AppMonitor (\<lambda>_. Some (unlines [version_of 7, cstring ''description=A''])))\<lparr>pre_section := version_of 7,
     post_section := cstring ''A'', initial_version_code := v\<rparr>"

lemma version_7: "version_of 7 = cstring ''versionCode=7''"
  by (simp add: version_of_def nat_dec.simps cstring_def)

theorem module_prop_roundtrip_witness:
  "(\<exists>m'. prepare_environment (sample_menv 0) (AppMonitor (m_files (update_status (sample_menv (length (runtime_status (sample_monitor 7)))) (sample_monitor 7)))) = (True, m') \<and>
     pre_section m' = cstring ''versionCode=7'' \<and> post_section m' = cstring ''A'') \<and>
   m_files (update_status (sample_menv (length (runtime_status (sample_monitor 6)))) (sample_monitor 6)) (cstring ''/m/module.prop'') =
     Some (unlines [cstring ''versionCode=7'', cstring ''description=A''])"
proof -
  let ?e = "\<lambda>v. sample_menv (length (runtime_status (sample_monitor v)))"
  have d: "cstring ''A'' = clean_description (cstring ''A'')"
    by (subst clean_description.simps) (simp add: clean_banner_def clean_blanks_def desc_blank_def starts_with_def cstring_def)
  have new: "installed_status (sample_monitor v) \<noteq> last_written_status (sample_monitor v)" for v
    by (simp add: sample_monitor_def AppMonitor_def installed_status_def cstring_def)
  have pl: "plain_line l" if "l \<in> set ([version_of 7] @ [])" for l
    using that by (simp add: version_7 plain_line_def is_generated_key_def starts_with_def cstring_def)
  have dl: "\<forall>l \<in> set [version_of 7, cstring ''description=A'']. disk_line l"
  proof -
    have "\<exists>n. int n \<le> int_max 64 \<and> version_of 7 = version_of n" by (rule exI [of _ 7]) (simp add: int_max_def)
    moreover have "10 \<notin> set (version_of 7)" "0 \<notin> set (version_of 7)" by (simp_all add: version_7 cstring_def)
    moreover have "disk_line (cstring ''description=A'')" by (simp add: disk_line_def starts_with_def cstring_def)
    ultimately show ?thesis by (simp add: disk_line_def)
  qed
  have paths: "module_prop (sample_menv n) \<noteq> prop_path (sample_menv k)" "module_prop (sample_menv n) \<noteq> prop_path (sample_menv n) @ cstring ''.tmp''"
    "module_prop (sample_menv n) = cstring ''/m/module.prop''" for n k
    by (simp_all add: sample_menv_def prop_path_def module_prop_def cstring_def)
  have inj: "version_of n = version_of 7 \<longleftrightarrow> n = 7" for n
    using nat_dec_text [of n] nat_dec_text [of 7] by (metis version_of_def same_append_eq)
  have no: "version_of n \<noteq> cstring ''description=A''" for n by (simp add: version_of_def cstring_def)
  have secs: "pre_section (sample_monitor v) = join_lines [] [version_of 7]" "post_section (sample_monitor v) = join_lines (cstring ''A'') []"
    "m_files (sample_monitor v) q = Some (unlines [version_of 7, cstring ''description=A''])" "initial_version_code (sample_monitor v) = v" for v q
    by (simp_all add: sample_monitor_def AppMonitor_def join_lines_def join_line_def)
  let ?ds = "[version_of 7, cstring ''description=A'']"
  have run: "if 0 \<le> v \<and> (\<exists>n. version_of n \<in> set ?ds \<and> v < int n)
      then m_files (update_status (?e v) (sample_monitor v)) (module_prop (?e v)) = Some (unlines ?ds)
      else \<exists>m'. prepare_environment (sample_menv 0) (AppMonitor (m_files (update_status (?e v) (sample_monitor v)))) = (True, m') \<and>
        pre_section m' = pre_section (sample_monitor v) \<and> post_section m' = post_section (sample_monitor v)" for v
    by (rule module_prop_roundtrip [where m = "sample_monitor v" and e = "?e v" and e' = "sample_menv 0" and ds = ?ds and ls = "[version_of 7]"
        and ms = "[]" and mon = "AppMonitor (m_files (update_status (?e v) (sample_monitor v)))",
        OF pl d _ _ _ _ secs(1) secs(2) new secs(3) dl paths(1) paths(2) refl, unfolded secs(4)])
      (simp_all add: paths(3) paths(1) [symmetric], simp_all add: sample_menv_def AppMonitor_def cstring_def prop_path_def)
  show ?thesis
  proof
    show "\<exists>m'. prepare_environment (sample_menv 0) (AppMonitor (m_files (update_status (?e 7) (sample_monitor 7)))) = (True, m') \<and>
       pre_section m' = cstring ''versionCode=7'' \<and> post_section m' = cstring ''A''"
      using run [of 7] inj no by (auto simp: secs join_lines_def join_line_def version_7 split: if_splits)
    show "m_files (update_status (?e 6) (sample_monitor 6)) (cstring ''/m/module.prop'') =
       Some (unlines [cstring ''versionCode=7'', cstring ''description=A''])"
      using run [of 6] unfolding paths(3) version_7 [symmetric] by (auto split: if_splits intro: exI [of _ 7])
  qed
qed

text \<open>
  an empty description swallows the line after it: the first property that follows
  \<open>description=\<close> in the installed file is written back as the text of the description, and is no
  longer a line of its own.
\<close>

theorem empty_description_swallows:
  assumes "plain_line l" "\<not> starts_with (cstring ''versionCode='') l"
    and "fs (module_prop e) = Some (cstring ''description='' @ [10] @ l @ [10])"
    and "module_prop e \<noteq> prop_path e" "module_prop e \<noteq> prop_path e @ cstring ''.tmp''"
    and "new = cstring ''description=[Monitor: OK, NyaZygisk 64-bit: NO] '' @ l @ [10]"
    and "k = e_write e (module_prop e)" "w_open k" "w_count k = int (length new)" "w_fsync k" "w_rename k"
  shows "\<exists>m'. prepare_environment e (AppMonitor fs) = (True, m') \<and> m_files m' (module_prop e) = Some new"
proof -
  let ?a0 = "\<lparr>pa_pre = [], pa_post = [], pa_seen = False, pa_version = - 1\<rparr>"
  have l: "10 \<notin> set l" "0 \<notin> set l" "l \<noteq> []" "last l \<noteq> 13" using assms(1) by (auto simp: plain_line_def)
  have nil: "clean_description [] = []"
    by (subst clean_description.simps) (simp add: clean_banner_def clean_blanks_def)
  have "rev (dropWhile (\<lambda>b. b = 13 \<or> b = 10) (rev (cstring ''description='' @ [10]))) = cstring ''description=''"
    by (rule strip_eol) (simp_all add: cstring_def)
  then have desc: "snd (prop_line (cstring ''description='' @ [10]) ?a0) = ?a0\<lparr>pa_seen := True\<rparr>"
    unfolding prop_line_def by (simp add: is_generated_key_def starts_with_def cstring_def nil)
  have "rev (dropWhile (\<lambda>b. b = 13 \<or> b = 10) (rev (l @ [10]))) = l" using l by (intro strip_eol)
  then have next_line: "snd (prop_line (l @ [10]) (?a0\<lparr>pa_seen := True\<rparr>)) = ?a0\<lparr>pa_seen := True, pa_post := l\<rparr>"
    using assms(1,2) by (simp add: prop_line_def plain_line_def join_line_def)
  have "read_props (unlines [cstring ''description='', l]) = fold (\<lambda>l a. snd (prop_line (l @ [10]) a)) [cstring ''description='', l] ?a0"
    using l by (intro read_props_unlines) (auto simp: cstring_def)
  with desc next_line have read: "read_props (cstring ''description='' @ [10] @ l @ [10]) = ?a0\<lparr>pa_seen := True, pa_post := l\<rparr>"
    by simp
  define m where "m = (AppMonitor fs)\<lparr>m_files := (if e_create e then fs(prop_path e \<mapsto> []) else fs), post_section := l\<rparr>"
  let ?m1 = "write_file e (prop_path e) (installed_status m) (m\<lparr>last_written_status := installed_status m\<rparr>)"
  have prep: "prepare_environment e (AppMonitor fs) = (True, update_status e m)"
    using assms(3,4) read by (auto simp: prepare_environment_def m_def AppMonitor_def Let_def)
  have "last l \<noteq> 10" using l(1) last_in_set [OF l(3)] by metis
  then have run: "runtime_status m = new"
    using l(3) unfolding assms(6) by (simp add: m_def AppMonitor_def new_status_def runtime_status_def status_banner_def
        newline_unless_def status_icon_def abi_pretty_def abi_name_def cstring_def)
  have "initial_version_code ?m1 < 0" "installed_status m \<noteq> last_written_status m"
    by (simp_all add: write_file_def m_def AppMonitor_def installed_status_def cstring_def Let_def)
  then have "update_status e m = write_file e (module_prop e) new ?m1"
    using run by (simp add: update_status_def should_write_installed_def Let_def)
  with prep assms(7-11) show ?thesis by (simp add: write_file_written)
qed

theorem empty_description_swallows_witness:
  "\<exists>m'. prepare_environment (sample_menv 55) (AppMonitor (\<lambda>_. Some (cstring ''description='' @ [10] @ cstring ''id=nya'' @ [10]))) = (True, m') \<and>
     m_files m' (module_prop (sample_menv 55)) = Some (cstring ''description=[Monitor: OK, NyaZygisk 64-bit: NO] '' @ cstring ''id=nya'' @ [10])"
proof (rule empty_description_swallows [OF plain_name _ refl _ _ refl refl])
  show "\<not> starts_with (cstring ''versionCode='') (cstring ''id=nya'')" by (simp add: starts_with_def cstring_def)
  show "module_prop (sample_menv 55) \<noteq> prop_path (sample_menv 55)"
    "module_prop (sample_menv 55) \<noteq> prop_path (sample_menv 55) @ cstring ''.tmp''"
    by (simp_all add: sample_menv_def module_prop_def prop_path_def cstring_def)
qed (simp_all add: sample_menv_def cstring_def)

end
