(* ===== verification/Monitor.thy ===== *)
theory Monitor
  imports Monitor_Status Transition
begin

unbundle bit_operations_syntax

text \<open>
  The init monitor at work (\<open>ptracer/monitor_impl.cpp\<close>, \<open>ptracer/zygote_abi.cpp\<close>,
  \<open>ptracer/event_loop.cpp\<close>): the control requests, the life of the daemon, the crash-loop guard,
  the classification of processes stopped by \<open>ptrace\<close>, the hand-over of a zygote to the tracer, the
  control socket and the event loop.  Every request to the kernel is recorded in \<open>m_acts\<close>; wait
  statuses are the non-negative values the kernel delivers.
\<close>

section \<open>Definitions\<close>

subsection \<open>Constants\<close>

definition SIGTRAP :: u32 where "SIGTRAP = 5"
definition SIGCHLD :: u32 where "SIGCHLD = 17"
definition SIGCONT :: u32 where "SIGCONT = 18"
definition SIGSTOP :: u32 where "SIGSTOP = 19"
definition SIGTSTP :: u32 where "SIGTSTP = 20"
definition SIGTTIN :: u32 where "SIGTTIN = 21"
definition SIGTTOU :: u32 where "SIGTTOU = 22"
definition PTRACE_O_TRACEFORK :: u32 where "PTRACE_O_TRACEFORK = 2"
definition PTRACE_O_TRACEEXEC :: u32 where "PTRACE_O_TRACEEXEC = 16"

definition CRASH_LOOP_RETRY_COUNT :: int where "CRASH_LOOP_RETRY_COUNT = 5"
definition CRASH_LOOP_WINDOW_SECONDS :: int where "CRASH_LOOP_WINDOW_SECONDS = 30"

subsection \<open>Control requests\<close>

definition request_start :: "menv \<Rightarrow> monitor \<Rightarrow> monitor" where
  "request_start e m = update_status e
     (case tracing m of
        STOPPING \<Rightarrow> m\<lparr>tracing := TRACING\<rparr>
      | STOPPED \<Rightarrow> (act (PtraceSeize 1) m)\<lparr>tracing := TRACING\<rparr>
      | _ \<Rightarrow> m)"

definition request_stop :: "menv \<Rightarrow> cstr \<Rightarrow> monitor \<Rightarrow> monitor" where
  "request_stop e reason m =
     (if tracing m = TRACING
      then update_status e (act (PtraceInterrupt 1) (m\<lparr>tracing := STOPPING, monitor_stop_reason := reason\<rparr>))
      else m)"

definition request_exit :: "menv \<Rightarrow> monitor \<Rightarrow> monitor" where
  "request_exit e m =
     (update_status e (m\<lparr>tracing := EXITING, monitor_stop_reason := cstring ''user requested''\<rparr>))\<lparr>running := False\<rparr>"

definition notify_init_detached :: "monitor \<Rightarrow> monitor" where
  "notify_init_detached m = m\<lparr>tracing := STOPPED\<rparr>"

subsection \<open>The daemon and the injector\<close>

definition is_zygote_cmdline :: "procfs \<Rightarrow> int \<Rightarrow> bool" where
  "is_zygote_cmdline fs pid =
     (case read_cmdline fs pid of [] \<Rightarrow> False
      | argv0 # rest \<Rightarrow>
          let name = rev (takeWhile (\<lambda>b. b \<noteq> 47) (rev argv0))
          in starts_with (cstring ''zygote'') name \<or> cstring ''--zygote'' \<in> set (argv0 # rest))"

definition without_trailing_nuls :: "cstr \<Rightarrow> cstr" where
  "without_trailing_nuls t = rev (dropWhile (\<lambda>b. b = 0) (rev t))"

definition notify_injected :: "monitor \<Rightarrow> monitor" where
  "notify_injected m = m\<lparr>abi := (abi m)\<lparr>zygote_injected := True\<rparr>\<rparr>"

definition set_daemon_info :: "cstr \<Rightarrow> monitor \<Rightarrow> monitor" where
  "set_daemon_info info m = m\<lparr>abi := (abi m)\<lparr>daemon_info := without_trailing_nuls info\<rparr>\<rparr>"

definition set_daemon_crashed :: "cstr \<Rightarrow> monitor \<Rightarrow> monitor" where
  "set_daemon_crashed err m = m\<lparr>abi := (abi m)\<lparr>daemon_running := False, daemon_error_info := without_trailing_nuls err\<rparr>\<rparr>"

definition is_in_crash_loop :: "menv \<Rightarrow> monitor \<Rightarrow> bool \<times> monitor" where
  "is_in_crash_loop e m =
     (let n = (if e_now e - last_start m < CRASH_LOOP_WINDOW_SECONDS then start_count m + 1 else 1)
      in (n \<ge> CRASH_LOOP_RETRY_COUNT, m\<lparr>start_count := n, last_start := e_now e\<rparr>))"

text \<open>Whether the daemon is running, whether this call started it.\<close>

definition ensure_daemon_created :: "menv \<Rightarrow> monitor \<Rightarrow> bool \<times> bool \<times> monitor" where
  "ensure_daemon_created e m =
     (if daemon_pid (abi m) = - 1
      then if e_fork e < 0 then (False, False, m)
        else (True, True, act (ExecDaemon (daemon_path e) [daemon_path e, cstring ''--workdir'', e_tmp_path e])
               (m\<lparr>abi := (abi m)\<lparr>supported := True, daemon_pid := e_fork e, daemon_running := True\<rparr>\<rparr>))
      else (daemon_running (abi m), False, m))"

definition check_and_prepare_injection :: "menv \<Rightarrow> monitor \<Rightarrow> bool \<times> monitor" where
  "check_and_prepare_injection e m =
     (case is_in_crash_loop e m of (loops, m1) \<Rightarrow>
        if loops then (False, request_stop e (cstring ''zygote crashed'') m1)
        else case ensure_daemon_created e (m1\<lparr>abi := (abi m1)\<lparr>zygote_injected := False\<rparr>\<rparr>) of (ok, _, m2) \<Rightarrow>
          if ok then (True, m2) else (False, request_stop e (cstring ''daemon not running'') m2))"

definition prepare_aux_injection :: "menv \<Rightarrow> monitor \<Rightarrow> bool \<times> monitor" where
  "prepare_aux_injection e m = (case ensure_daemon_created e m of (ok, _, m1) \<Rightarrow> (ok, m1))"

definition handle_daemon_exit_if_match :: "menv \<Rightarrow> int \<Rightarrow> u32 \<Rightarrow> monitor \<Rightarrow> bool \<times> monitor" where
  "handle_daemon_exit_if_match e pid st m =
     (if supported (abi m) \<and> pid = daemon_pid (abi m)
      then (True, update_status e (m\<lparr>abi := (abi m)\<lparr>daemon_running := False, daemon_pid := - 1,
             daemon_error_info := (if daemon_error_info (abi m) = [] then parse_status (e_signame e) st
               else daemon_error_info (abi m))\<rparr>\<rparr>))
      else (False, m))"

text \<open>What \<open>fork_dont_care\<close> returns to the monitor, and whether the detached child exists.\<close>

definition fork_dont_care :: "menv \<Rightarrow> int \<times> bool" where
  "fork_dont_care e = (if e_fork1 e < 0 then (- 1, False) else (e_fork1 e, e_fork2 e > 0))"

definition basename_of :: "cstr \<Rightarrow> cstr" where
  "basename_of p = rev (takeWhile (\<lambda>b. b \<noteq> 47) (rev p))"

definition attach_running :: "menv \<Rightarrow> int \<Rightarrow> cstr \<Rightarrow> monitor \<Rightarrow> monitor" where
  "attach_running e pid flag m =
     (if snd (fork_dont_care e) \<and> e_exec e
      then act (ExecTracer (tracer_path e) [basename_of (tracer_path e), cstring ''trace'', to_string pid, flag]) m else m)"

text \<open>The scan for running targets: the system server and the zygotes.\<close>

definition rearm_scan :: "procfs \<Rightarrow> int \<Rightarrow> int \<times> int list \<Rightarrow> int \<times> int list" where
  "rearm_scan fs pid = (\<lambda>(server, zygotes).
     if get_ppid fs pid = 1
     then (if is_zygote_cmdline fs pid then (server, zygotes @ [pid]) else (server, zygotes))
     else if get_comm fs pid = cstring ''system_server'' then (pid, zygotes) else (server, zygotes))"

definition rearm_zygote :: "menv \<Rightarrow> int \<Rightarrow> bool \<times> monitor \<Rightarrow> bool \<times> monitor" where
  "rearm_zygote e pid = (\<lambda>(bare, m).
     if has_library_mapped (e_proc e) pid (cstring ''libzygisk.so'')
     then (bare, m\<lparr>abi := (abi m)\<lparr>zygote_injected := True\<rparr>\<rparr>)
     else (True, attach_running e pid (cstring ''--standalone'') m))"

definition rearm :: "menv \<Rightarrow> monitor \<Rightarrow> bool \<times> monitor" where
  "rearm e m =
     (case ensure_daemon_created e m of (ok, started, m1) \<Rightarrow>
        if \<not> ok then (False, m1)
        else let m2 = (if started then m1 else act RefreshModules m1)
          in case fold (rearm_scan (e_proc e)) (find_processes_by_exe (e_proc e) program_path) (- 1, []) of (server, zygotes) \<Rightarrow>
            if zygotes = [] then (True, m2)
            else case fold (rearm_zygote e) zygotes (False, m2\<lparr>abi := (abi m2)\<lparr>supported := True\<rparr>\<rparr>) of (bare, m3) \<Rightarrow>
              (True, update_status e
                (if server = - 1 then m3 else if \<not> bare then m3
                 else attach_running e server (cstring ''--system_server'') m3)))"

definition request_rearm :: "menv \<Rightarrow> monitor \<Rightarrow> monitor" where
  "request_rearm e m =
     (let m1 = (if tracing m \<noteq> TRACING then request_start e m else m)
      in case rearm e m1 of (ok, m2) \<Rightarrow>
        if ok then update_status e m2 else request_stop e (cstring ''rearm failed'') m2)"

subsection \<open>Stopped processes\<close>

text \<open>A stopped parent is resumed, with the signal that stopped it unless that is suppressed.\<close>

definition resume_parent :: "int \<Rightarrow> u32 \<Rightarrow> monitor \<Rightarrow> monitor" where
  "resume_parent pid st m =
     (if WIFSTOPPED st
      then if WPTEVENT st = 0
        then let sig = WSTOPSIG st in
          if sig = SIGSTOP \<or> sig = SIGTSTP \<or> sig = SIGTTIN \<or> sig = SIGTTOU then act (PtraceCont pid 0) m
          else if pid \<noteq> 1 \<and> sig = SIGCHLD then act (PtraceCont pid 0) m
          else act (PtraceCont pid sig) m
        else act (PtraceCont pid 0) m
      else m)"

definition handleParentEvent :: "int \<Rightarrow> u32 \<Rightarrow> monitor \<Rightarrow> monitor" where
  "handleParentEvent pid st m =
     (if stopped_with st SIGTRAP PTRACE_EVENT_FORK then resume_parent pid st (act (PtraceGetEventMsg pid) m)
      else if pid = 1 \<and> stopped_with st SIGTRAP PTRACE_EVENT_STOP \<and> tracing m = STOPPING
        then notify_init_detached (act (PtraceDetach 1 0) m)
      else if pid \<noteq> 1 \<and> (WIFEXITED st \<or> WIFSIGNALED st) then m\<lparr>stub_processes := stub_processes m - {pid}\<rparr>
      else resume_parent pid st m)"

definition handleNewProcess :: "int \<Rightarrow> monitor \<Rightarrow> monitor" where
  "handleNewProcess pid m = act (PtraceCont pid 0) (act (PtraceSetOptions pid PTRACE_O_TRACEEXEC)
     (m\<lparr>process_set := insert pid (process_set m)\<rparr>))"

definition is_hyos_spawner :: "cstr \<Rightarrow> bool" where
  "is_hyos_spawner prog \<longleftrightarrow> prog = cstring ''/system_ext/bin/hyos_spawner'' \<or> ends_with (cstring ''/hyos_spawner'') prog"

definition clean_program :: "cstr \<Rightarrow> cstr" where
  "clean_program prog = (if ends_with (cstring '' (deleted)'') prog then take (length prog - 10) prog else prog)"

text \<open>
  The hand-over of a target that is stopped at its \<open>execve\<close>: the status \<open>waitpid\<close> leaves behind
  replaces the one of the event.
\<close>

definition hand_over :: "menv \<Rightarrow> int \<Rightarrow> bool \<Rightarrow> monitor \<Rightarrow> bool \<times> u32 \<times> monitor" where
  "hand_over e pid hyos m =
     (let m1 = act (WaitPid pid) (act (PtraceCont pid 0) (act (Kill pid SIGSTOP) m)); st = e_wait e pid
      in if stopped_with st SIGSTOP 0
         then let m2 = act (PtraceDetach pid SIGSTOP) m1;
                  args = [basename_of (tracer_path e), cstring ''trace'', to_string pid] @ (if hyos then [] else [cstring ''--spawn''])
           in case fork_dont_care e of (p, child) \<Rightarrow>
             (True, st,
              if p = - 1 then act (Kill pid SIGCONT) m2
              else if child then (if e_exec e then act (ExecTracer (tracer_path e) args) m2 else act (Kill pid SIGCONT) m2)
              else m2)
         else (False, st, m1))"

definition handleExecEvent :: "menv \<Rightarrow> int \<Rightarrow> u32 \<Rightarrow> monitor \<Rightarrow> bool \<times> u32 \<times> monitor" where
  "handleExecEvent e pid st m =
     (let program = get_program (e_proc e) pid; prog = clean_program program; hyos = is_hyos_spawner prog;
          (handled, st', m') =
            (if strstr program (cstring ''stub_zygote'')
             then (True, st, act (PtraceCont pid 0) (act (PtraceSetOptions pid (PTRACE_O_TRACEFORK OR PTRACE_O_TRACEEXEC))
                    (m\<lparr>stub_processes := insert pid (stub_processes m)\<rparr>)))
             else if tracing m \<noteq> TRACING then (False, st, m)
             else if prog \<noteq> program_path \<and> \<not> hyos then (False, st, m)
             else case (if hyos then prepare_aux_injection e m else check_and_prepare_injection e m) of (ok, m1) \<Rightarrow>
               if ok then hand_over e pid hyos m1 else (False, st, m1))
      in (handled, st', update_status e m'))"

definition handleTracedProcess :: "menv \<Rightarrow> int \<Rightarrow> u32 \<Rightarrow> monitor \<Rightarrow> monitor" where
  "handleTracedProcess e pid st m =
     (let (keep, st', m') =
            (if stopped_with st SIGTRAP PTRACE_EVENT_EXEC then handleExecEvent e pid st m
             else if stopped_with st SIGTRAP PTRACE_EVENT_STOP
               then (True, st, act (PtraceCont pid 0) (act (PtraceSetOptions pid PTRACE_O_TRACEEXEC) m))
             else (False, st, m))
      in if keep
         then if stopped_with st' SIGTRAP PTRACE_EVENT_EXEC then m'\<lparr>process_set := process_set m' - {pid}\<rparr> else m'
         else let m2 = m'\<lparr>process_set := process_set m' - {pid}\<rparr>
           in if WIFSTOPPED st' then act (PtraceDetach pid 0) m2 else m2)"

definition handleChildEvent :: "menv \<Rightarrow> int \<Rightarrow> u32 \<Rightarrow> monitor \<Rightarrow> monitor" where
  "handleChildEvent e pid st m =
     (if pid = 1 \<or> pid \<in> stub_processes m then handleParentEvent pid st m
      else case handle_daemon_exit_if_match e pid st m of (matched, m1) \<Rightarrow>
        if matched then m1
        else if pid \<in> process_set m1 then handleTracedProcess e pid st m1 else handleNewProcess pid m1)"

subsection \<open>The control socket\<close>

datatype command = START | STOP | EXIT | ZYGOTE_INJECTED | DAEMON_SET_INFO | DAEMON_SET_ERROR_INFO
  | SYSTEM_SERVER_STARTED | REARM

definition command_of :: "nat \<Rightarrow> command option" where
  "command_of n = (if n = 1 then Some START else if n = 2 then Some STOP else if n = 3 then Some EXIT
     else if n = 4 then Some ZYGOTE_INJECTED else if n = 5 then Some DAEMON_SET_INFO
     else if n = 6 then Some DAEMON_SET_ERROR_INFO else if n = 7 then Some SYSTEM_SERVER_STARTED
     else if n = 8 then Some REARM else None)"

definition run_command :: "menv \<Rightarrow> command option \<Rightarrow> cstr \<Rightarrow> monitor \<Rightarrow> monitor" where
  "run_command e c data m = (case c of
     Some START \<Rightarrow> request_start e m
   | Some STOP \<Rightarrow> request_stop e (cstring ''user requested'') m
   | Some EXIT \<Rightarrow> request_exit e m
   | Some REARM \<Rightarrow> request_rearm e m
   | Some ZYGOTE_INJECTED \<Rightarrow> update_status e (notify_injected m)
   | Some DAEMON_SET_INFO \<Rightarrow> update_status e (set_daemon_info (without_trailing_nuls data) m)
   | Some DAEMON_SET_ERROR_INFO \<Rightarrow> update_status e (set_daemon_crashed (without_trailing_nuls data) m)
   | Some SYSTEM_SERVER_STARTED \<Rightarrow> m
   | None \<Rightarrow> m)"

text \<open>
  One datagram.  Only the two commands with a payload have a length field; a datagram longer than
  announced is cut, any other mismatch drops it.  A datagram too short for the command itself leaves
  the rest of the header undetermined, and both size checks drop it.  A negative length makes the
  buffer size or the payload view wrap around: \<open>None\<close>.
\<close>

definition handle_message :: "menv \<Rightarrow> byte list \<Rightarrow> monitor \<Rightarrow> monitor option" where
  "handle_message e d m =
     (if length d < 4 then Some m
      else let c = command_of (le_val (take 4 d))
        in if c = Some DAEMON_SET_INFO \<or> c = Some DAEMON_SET_ERROR_INFO
           then if length d < 8 then Some m
             else let len = sint (of_nat (le_val (take 4 (drop 4 d))) :: u32)
               in if len < 0 then None
                  else if length d < 8 + nat len then Some m
                  else Some (run_command e c (take (nat len) (drop 8 d)) m)
           else if length d \<noteq> 4 then Some m else Some (run_command e c [] m))"

text \<open>The loop over the pending datagrams; it goes on after an \<open>EXIT\<close>.\<close>

fun SocketHandler_HandleEvent :: "menv \<Rightarrow> byte list list \<Rightarrow> monitor \<Rightarrow> monitor option" where
  "SocketHandler_HandleEvent e [] m = Some m"
| "SocketHandler_HandleEvent e (d # ds) m =
     (case handle_message e d m of None \<Rightarrow> None | Some m' \<Rightarrow> SocketHandler_HandleEvent e ds m')"

text \<open>The events \<open>waitpid\<close> delivers, in order.\<close>

fun SigChldHandler_HandleEvent :: "menv \<Rightarrow> (int \<times> u32) list \<Rightarrow> monitor \<Rightarrow> monitor" where
  "SigChldHandler_HandleEvent e [] m = m"
| "SigChldHandler_HandleEvent e ((pid, st) # evs) m = SigChldHandler_HandleEvent e evs (handleChildEvent e pid st m)"

subsection \<open>The event loop\<close>

datatype ready = SocketReady "byte list list" | ChildReady "(int \<times> u32) list"

fun dispatch :: "menv \<Rightarrow> ready \<Rightarrow> monitor \<Rightarrow> monitor option" where
  "dispatch e (SocketReady ds) m = SocketHandler_HandleEvent e ds m"
| "dispatch e (ChildReady evs) m = Some (SigChldHandler_HandleEvent e evs m)"

fun loop_events :: "(menv \<times> ready) list \<Rightarrow> monitor \<Rightarrow> monitor option" where
  "loop_events [] m = Some m"
| "loop_events ((e, r) # rs) m = (case dispatch e r m of None \<Rightarrow> None
     | Some m' \<Rightarrow> if running m' then loop_events rs m' else Some m')"

text \<open>The loop over what successive calls of \<open>epoll_wait\<close> deliver (an interrupted call delivers nothing).\<close>

fun Loop :: "(menv \<times> ready) list list \<Rightarrow> monitor \<Rightarrow> monitor option" where
  "Loop [] m = Some m"
| "Loop (b # bs) m = (if running m then (case loop_events b m of None \<Rightarrow> None | Some m' \<Rightarrow> Loop bs m') else Some m)"

text \<open>\<open>AppMonitor::run\<close>: whether init can be seized, whether the socket can be bound.\<close>

definition monitor_run :: "bool \<Rightarrow> bool \<Rightarrow> (menv \<times> ready) list list \<Rightarrow> monitor \<Rightarrow> monitor option" where
  "monitor_run seized bound bs m =
     (if \<not> seized then Some m
      else let m1 = act (PtraceSeize 1) m
        in if \<not> bound then Some m1 else Loop bs (m1\<lparr>running := True\<rparr>))"

subsection \<open>Reference: runs of the monitor\<close>

text \<open>One datagram or one process event at a time.\<close>

inductive mstep :: "monitor \<Rightarrow> monitor \<Rightarrow> bool" where
  message: "handle_message e d m = Some m' \<Longrightarrow> mstep m m'"
| child: "mstep m (handleChildEvent e pid st m)"

text \<open>Whether init is traced, read off the requests.\<close>

fun init_traced :: "act list \<Rightarrow> bool \<Rightarrow> bool" where
  "init_traced [] b = b"
| "init_traced (PtraceSeize p # as) b = init_traced as (if p = 1 then True else b)"
| "init_traced (PtraceDetach p s # as) b = init_traced as (if p = 1 then False else b)"
| "init_traced (_ # as) b = init_traced as b"

definition minit :: "monitor \<Rightarrow> bool" where
  "minit m \<longleftrightarrow> (\<exists>fs e m'. prepare_environment e (AppMonitor fs) = (True, m') \<and> m = (act (PtraceSeize 1) m')\<lparr>running := True\<rparr>)"

definition minv :: "monitor \<Rightarrow> bool" where
  "minv m \<longleftrightarrow> process_set m \<inter> stub_processes m = {} \<and> 1 \<notin> process_set m \<and> 1 \<notin> stub_processes m \<and>
     (daemon_running (abi m) \<longrightarrow> daemon_pid (abi m) \<noteq> - 1) \<and> (daemon_pid (abi m) \<noteq> - 1 \<longrightarrow> supported (abi m)) \<and>
     (tracing m = TRACING \<or> tracing m = STOPPING \<longrightarrow> init_traced (m_acts m) False) \<and>
     (tracing m = STOPPED \<longrightarrow> \<not> init_traced (m_acts m) False)"

text \<open>The specification: how the state of the monitor and the tracing of init move together.\<close>

inductive init_step :: "tracing_state \<times> bool \<Rightarrow> tracing_state \<times> bool \<Rightarrow> bool" where
  pause: "init_step (TRACING, b) (STOPPING, b)"
| resume: "init_step (STOPPING, b) (TRACING, b)"
| detach: "init_step (STOPPING, True) (STOPPED, False)"
| seize: "init_step (STOPPED, False) (TRACING, True)"
| quit: "init_step (p, b) (EXITING, b)"

definition init_abs :: "monitor \<Rightarrow> tracing_state \<times> bool" where
  "init_abs m = (tracing m, init_traced (m_acts m) False)"

section \<open>Lemmas\<close>

subsection \<open>What the operations leave alone\<close>

lemma update_status_simps [simp]:
  "tracing (update_status e m) = tracing m" "monitor_stop_reason (update_status e m) = monitor_stop_reason m"
  "abi (update_status e m) = abi m" "start_count (update_status e m) = start_count m"
  "last_start (update_status e m) = last_start m" "process_set (update_status e m) = process_set m"
  "stub_processes (update_status e m) = stub_processes m" "running (update_status e m) = running m"
  "m_acts (update_status e m) = m_acts m"
  by (simp_all add: update_status_def write_file_def Let_def)

lemma act_simps [simp]:
  "tracing (act a m) = tracing m" "abi (act a m) = abi m" "start_count (act a m) = start_count m"
  "last_start (act a m) = last_start m" "process_set (act a m) = process_set m"
  "stub_processes (act a m) = stub_processes m" "running (act a m) = running m"
  "m_acts (act a m) = m_acts m @ [a]"
  by (simp_all add: act_def)

lemma init_traced_append [simp]: "init_traced (as @ bs) b = init_traced bs (init_traced as b)"
  by (induction as b rule: init_traced.induct) auto

subsection \<open>The invariant without the process sets, and the specification\<close>

definition core :: "monitor \<Rightarrow> bool" where
  "core m \<longleftrightarrow> (daemon_running (abi m) \<longrightarrow> daemon_pid (abi m) \<noteq> - 1) \<and> (daemon_pid (abi m) \<noteq> - 1 \<longrightarrow> supported (abi m)) \<and>
     (tracing m = TRACING \<or> tracing m = STOPPING \<longrightarrow> init_traced (m_acts m) False) \<and>
     (tracing m = STOPPED \<longrightarrow> \<not> init_traced (m_acts m) False)"

definition follows :: "monitor \<Rightarrow> monitor \<Rightarrow> bool" where
  "follows m m' \<longleftrightarrow> process_set m' = process_set m \<and> stub_processes m' = stub_processes m \<and>
     (core m \<longrightarrow> core m' \<and> init_step\<^sup>*\<^sup>* (init_abs m) (init_abs m'))"

named_theorems follows_intros

lemma follows_trans: "follows a b \<Longrightarrow> follows b c \<Longrightarrow> follows a c"
  by (auto simp: follows_def)

lemma follows_same:
  "process_set m' = process_set m \<Longrightarrow> stub_processes m' = stub_processes m \<Longrightarrow> (core m \<Longrightarrow> core m') \<Longrightarrow>
   init_abs m' = init_abs m \<Longrightarrow> follows m m'"
  by (simp add: follows_def)

lemma follows_update [follows_intros]: "follows m m' \<Longrightarrow> follows m (update_status e m')"
  by (auto simp: follows_def core_def init_abs_def)

lemma follows_refl [follows_intros]: "follows m m"
  by (simp add: follows_def)

lemma follows_stop [follows_intros]: "follows m (request_stop e reason m)"
  using init_step.pause [of "init_traced (m_acts m) False"]
  by (auto simp: request_stop_def follows_def core_def init_abs_def)

lemma follows_start [follows_intros]: "follows m (request_start e m)"
proof (cases "tracing m")
  case STOPPING
  then show ?thesis using init_step.resume [of "init_traced (m_acts m) False"]
    by (auto simp: request_start_def follows_def core_def init_abs_def)
next
  case STOPPED
  then show ?thesis using init_step.seize
    by (auto simp: request_start_def follows_def core_def init_abs_def)
qed (auto simp: request_start_def intro: follows_intros)

lemma follows_exit [follows_intros]: "follows m (request_exit e m)"
  using init_step.quit [of "tracing m" "init_traced (m_acts m) False"]
  by (auto simp: request_exit_def follows_def core_def init_abs_def)

lemma follows_daemon: "ensure_daemon_created e m = (ok, started, m') \<Longrightarrow> follows m m'"
  by (auto simp: ensure_daemon_created_def core_def init_abs_def intro!: follows_same split: if_splits)

lemma follows_attach: "follows m (attach_running e pid flag m)"
  by (auto simp: attach_running_def core_def init_abs_def intro!: follows_same)

lemma follows_abi_flag:
  "follows m (m\<lparr>abi := (abi m)\<lparr>zygote_injected := b\<rparr>\<rparr>)" "follows m (m\<lparr>abi := (abi m)\<lparr>supported := True\<rparr>\<rparr>)"
  by (auto simp: core_def init_abs_def intro!: follows_same)

lemma follows_rearm_zygotes: "follows m (snd (fold (rearm_zygote e) zs (b, m)))"
proof (induction zs arbitrary: b m)
  case (Cons z zs)
  have "follows m (snd (rearm_zygote e z (b, m)))"
    by (auto simp: rearm_zygote_def intro: follows_abi_flag follows_attach)
  then show ?case using Cons.IH [of "snd (rearm_zygote e z (b, m))" "fst (rearm_zygote e z (b, m))"]
    by (auto intro: follows_trans)
qed (simp add: follows_intros)

lemma follows_act: "(\<And>b. init_traced [a] b = b) \<Longrightarrow> follows m (act a m)"
  by (simp add: follows_def core_def init_abs_def)

lemma follows_rearm: "rearm e m = (ok, m') \<Longrightarrow> follows m m'"
proof -
  assume r: "rearm e m = (ok, m')"
  obtain ok1 started m1 where d: "ensure_daemon_created e m = (ok1, started, m1)" by (metis prod_cases3)
  define m2 where "m2 = (if started then m1 else act RefreshModules m1)"
  have f2: "follows m m2" using follows_daemon [OF d] follows_act [of RefreshModules m1]
    by (simp add: m2_def) (blast intro: follows_trans)
  obtain server zs where scan: "fold (rearm_scan (e_proc e)) (find_processes_by_exe (e_proc e) program_path) (- 1, []) = (server, zs)"
    by fastforce
  obtain bare m3 where z: "fold (rearm_zygote e) zs (False, m2\<lparr>abi := (abi m2)\<lparr>supported := True\<rparr>\<rparr>) = (bare, m3)" by fastforce
  have "follows m2 m3"
    using follows_trans [OF follows_abi_flag(2) follows_rearm_zygotes [of _ e zs False]] by (metis z snd_conv)
  then have f3: "follows m m3" using f2 by (rule follows_trans [rotated])
  show ?thesis
    using r follows_daemon [OF d] f2 f3 follows_trans [OF f3 follows_attach]
    by (auto simp: rearm_def d scan z Let_def m2_def [symmetric] intro!: follows_update split: if_splits)
qed

lemma follows_request_rearm [follows_intros]: "follows m (request_rearm e m)"
proof -
  define m1 where "m1 = (if tracing m \<noteq> TRACING then request_start e m else m)"
  have 1: "follows m m1" by (auto simp: m1_def intro: follows_intros)
  obtain ok m2 where r: "rearm e m1 = (ok, m2)" by fastforce
  have "follows m m2" using 1 follows_rearm [OF r] by (rule follows_trans)
  then show ?thesis
    by (auto simp: request_rearm_def m1_def [symmetric] Let_def r intro: follows_update follows_trans follows_stop)
qed

lemma follows_command: "follows m (run_command e c data m)"
  by (auto simp: run_command_def notify_injected_def set_daemon_info_def set_daemon_crashed_def core_def init_abs_def
      intro!: follows_intros follows_same split: option.split command.split)

lemma follows_message: "handle_message e d m = Some m' \<Longrightarrow> follows m m'"
  by (auto simp: handle_message_def Let_def intro: follows_command follows_refl split: if_splits)

lemma follows_daemon_exit: "handle_daemon_exit_if_match e pid st m = (b, m') \<Longrightarrow> follows m m'"
  by (auto simp: handle_daemon_exit_if_match_def core_def init_abs_def intro!: follows_intros follows_same split: if_splits)

lemma follows_prepare: "check_and_prepare_injection e m = (ok, m') \<Longrightarrow> follows m m'"
proof -
  assume r: "check_and_prepare_injection e m = (ok, m')"
  define m1 where "m1 = m\<lparr>start_count := (if e_now e - last_start m < CRASH_LOOP_WINDOW_SECONDS then start_count m + 1 else 1),
      last_start := e_now e\<rparr>"
  define m2 where "m2 = m1\<lparr>abi := (abi m1)\<lparr>zygote_injected := False\<rparr>\<rparr>"
  have 1: "follows m m1" "follows m1 m2" by (auto simp: m1_def m2_def core_def init_abs_def intro!: follows_same)
  obtain ok2 b m3 where d: "ensure_daemon_created e m2 = (ok2, b, m3)" by (metis prod_cases3)
  have 3: "follows m m3" using 1 follows_daemon [OF d] by (blast intro: follows_trans)
  show ?thesis
    using r 1(1) 3 follows_trans [OF 1(1) follows_stop] follows_trans [OF 3 follows_stop]
    by (auto simp: check_and_prepare_injection_def is_in_crash_loop_def Let_def m1_def [symmetric] m2_def [symmetric] d
        split: if_splits)
qed

lemma follows_hand_over: "hand_over e pid hyos m = (b, st, m') \<Longrightarrow> pid \<noteq> 1 \<Longrightarrow> follows m m'"
  by (auto simp: hand_over_def Let_def core_def init_abs_def intro!: follows_same split: if_splits prod.splits)

lemma handleExec_follows:
  assumes "handleExecEvent e pid st m = (h, st', m')" "pid \<noteq> 1"
  shows "process_set m' = process_set m \<and> (core m \<longrightarrow> core m' \<and> init_step\<^sup>*\<^sup>* (init_abs m) (init_abs m')) \<and>
    (stub_processes m' = stub_processes m \<or> stub_processes m' = insert pid (stub_processes m) \<and> h \<and> st' = st)"
proof -
  let ?program = "get_program (e_proc e) pid"
  define prog where "prog = clean_program ?program"
  define hyos where "hyos = is_hyos_spawner prog"
  obtain ok m1 where p: "(if hyos then prepare_aux_injection e m else check_and_prepare_injection e m) = (ok, m1)"
    by fastforce
  have 1: "follows m m1"
    using p by (auto simp: prepare_aux_injection_def dest: follows_daemon follows_prepare split: if_splits prod.splits)
  obtain b s2 m2 where h: "hand_over e pid hyos m1 = (b, s2, m2)" by (metis prod_cases3)
  have 2: "follows m m2" using 1 follows_hand_over [OF h assms(2)] by (rule follows_trans)
  have run: "handleExecEvent e pid st m =
      (if strstr ?program (cstring ''stub_zygote'')
       then (True, st, update_status e (act (PtraceCont pid 0) (act (PtraceSetOptions pid (PTRACE_O_TRACEFORK OR PTRACE_O_TRACEEXEC))
                (m\<lparr>stub_processes := insert pid (stub_processes m)\<rparr>))))
       else if tracing m \<noteq> TRACING \<or> prog \<noteq> program_path \<and> \<not> hyos then (False, st, update_status e m)
       else if ok then (b, s2, update_status e m2) else (False, st, update_status e m1))"
    unfolding handleExecEvent_def prog_def [symmetric] Let_def hyos_def [symmetric] p using h by simp
  show ?thesis
  proof (cases "strstr ?program (cstring ''stub_zygote'')")
    case True
    with assms run show ?thesis by (auto simp: core_def init_abs_def)
  next
    case False
    with assms(1) run have "m' = update_status e m \<or> m' = update_status e m2 \<or> m' = update_status e m1"
      by (simp split: if_splits)
    then have "follows m m'" using 1 2 by (auto intro: follows_update follows_refl)
    then show ?thesis by (auto simp: follows_def)
  qed
qed

definition sets_ok :: "monitor \<Rightarrow> bool" where
  "sets_ok m \<longleftrightarrow> process_set m \<inter> stub_processes m = {} \<and> 1 \<notin> process_set m \<and> 1 \<notin> stub_processes m"

lemma minv_split: "minv m \<longleftrightarrow> sets_ok m \<and> core m"
  by (auto simp: minv_def sets_ok_def core_def)

lemma follows_minv: "follows m m' \<Longrightarrow> minv m \<Longrightarrow> minv m' \<and> init_step\<^sup>*\<^sup>* (init_abs m) (init_abs m')"
  by (auto simp: follows_def minv_split sets_ok_def)

lemma core_frame [simp]:
  "core (m\<lparr>process_set := S\<rparr>) = core m" "init_abs (m\<lparr>process_set := S\<rparr>) = init_abs m"
  "core (m\<lparr>stub_processes := S\<rparr>) = core m" "init_abs (m\<lparr>stub_processes := S\<rparr>) = init_abs m"
  by (simp_all add: core_def init_abs_def)

lemma core_act [simp]:
  "(\<And>b. init_traced [a] b = b) \<Longrightarrow> core (act a m) = core m"
  "(\<And>b. init_traced [a] b = b) \<Longrightarrow> init_abs (act a m) = init_abs m"
  by (simp_all add: core_def init_abs_def)

text \<open>How a candidate leaves the candidate set.\<close>

definition settle :: "int \<Rightarrow> bool \<times> u32 \<times> monitor \<Rightarrow> monitor" where
  "settle pid = (\<lambda>(keep, st', m').
     if keep
     then if stopped_with st' SIGTRAP PTRACE_EVENT_EXEC then m'\<lparr>process_set := process_set m' - {pid}\<rparr> else m'
     else let m2 = m'\<lparr>process_set := process_set m' - {pid}\<rparr>
       in if WIFSTOPPED st' then act (PtraceDetach pid 0) m2 else m2)"

lemma settle_sets:
  assumes "pid \<noteq> 1"
  shows "core (settle pid (h, st, m)) = core m" "init_abs (settle pid (h, st, m)) = init_abs m"
    "stub_processes (settle pid (h, st, m)) = stub_processes m"
    "process_set (settle pid (h, st, m)) =
      (if h \<and> \<not> stopped_with st SIGTRAP PTRACE_EVENT_EXEC then process_set m else process_set m - {pid})"
  using assms by (simp_all add: settle_def Let_def)

lemma handleTracedProcess_settle:
  "handleTracedProcess e pid st m = settle pid
     (if stopped_with st SIGTRAP PTRACE_EVENT_EXEC then handleExecEvent e pid st m
      else if stopped_with st SIGTRAP PTRACE_EVENT_STOP
        then (True, st, act (PtraceCont pid 0) (act (PtraceSetOptions pid PTRACE_O_TRACEEXEC) m))
      else (False, st, m))"
  by (simp add: handleTracedProcess_def settle_def)

lemma traced_minv:
  assumes "minv m" "pid \<in> process_set m"
  shows "minv (handleTracedProcess e pid st m) \<and>
    init_step\<^sup>*\<^sup>* (init_abs m) (init_abs (handleTracedProcess e pid st m))"
proof -
  have pid: "pid \<noteq> 1" using assms by (auto simp: minv_def)
  have m: "core m" "sets_ok m" using assms(1) by (auto simp: minv_split)
  show ?thesis
  proof (cases "stopped_with st SIGTRAP PTRACE_EVENT_EXEC")
    case True
    obtain h st1 m1 where ev: "handleExecEvent e pid st m = (h, st1, m1)" by (metis prod_cases3)
    have run: "handleTracedProcess e pid st m = settle pid (h, st1, m1)"
      using True by (simp add: handleTracedProcess_settle ev)
    show ?thesis
      using handleExec_follows [OF ev pid] m True pid unfolding run minv_split sets_ok_def settle_sets [OF pid] by auto
  next
    case False
    then show ?thesis
      using m pid by (simp add: handleTracedProcess_settle minv_split sets_ok_def settle_sets) auto
  qed
qed

lemma resume_parent_follows: "follows m (resume_parent pid st m)"
  by (simp add: resume_parent_def Let_def follows_act follows_refl)

lemma parent_minv:
  assumes "minv m"
  shows "minv (handleParentEvent pid st m) \<and> init_step\<^sup>*\<^sup>* (init_abs m) (init_abs (handleParentEvent pid st m))"
proof -
  have resume: "minv (resume_parent pid st m) \<and> init_step\<^sup>*\<^sup>* (init_abs m) (init_abs (resume_parent pid st m))"
    using follows_minv [OF resume_parent_follows assms] .
  have "follows m (resume_parent pid st (act (PtraceGetEventMsg pid) m))"
    by (rule follows_trans [OF _ resume_parent_follows]) (simp add: follows_act)
  note fork = follows_minv [OF this assms]
  have detach: "minv (notify_init_detached (act (PtraceDetach 1 0) m)) \<and>
      init_step\<^sup>*\<^sup>* (init_abs m) (init_abs (notify_init_detached (act (PtraceDetach 1 0) m)))" if "tracing m = STOPPING"
    using that assms init_step.detach by (auto simp: notify_init_detached_def minv_def init_abs_def)
  have gone: "minv (m\<lparr>stub_processes := S - {pid}\<rparr>)" if "S = stub_processes m" for S
    using that assms by (auto simp: minv_split sets_ok_def)
  show ?thesis using resume fork detach gone by (simp add: handleParentEvent_def)
qed

lemma child_minv:
  assumes "minv m" "m' = handleChildEvent e pid st m"
  shows "minv m' \<and> init_step\<^sup>*\<^sup>* (init_abs m) (init_abs m')"
proof (cases "pid = 1 \<or> pid \<in> stub_processes m")
  case True
  with parent_minv [OF assms(1)] assms(2) show ?thesis by (simp add: handleChildEvent_def)
next
  case False
  obtain b m1 where d: "handle_daemon_exit_if_match e pid st m = (b, m1)" by fastforce
  have f: "follows m m1" by (rule follows_daemon_exit [OF d])
  have m1: "minv m1" "init_step\<^sup>*\<^sup>* (init_abs m) (init_abs m1)" using follows_minv [OF f assms(1)] by auto
  have new: "minv (handleNewProcess pid m1) \<and> init_abs (handleNewProcess pid m1) = init_abs m1"
    using m1(1) False f
    by (auto simp: handleNewProcess_def minv_split sets_ok_def core_def init_abs_def follows_def)
  show ?thesis
    using False assms(2) d m1 new traced_minv [OF m1(1), of pid e st]
    by (auto simp: handleChildEvent_def)
qed

lemma mstep_minv: "minv m \<Longrightarrow> mstep m m' \<Longrightarrow> minv m' \<and> init_step\<^sup>*\<^sup>* (init_abs m) (init_abs m')"
  by (erule mstep.cases) (auto dest: follows_message follows_minv child_minv)

lemma minit_minv: "minit m \<Longrightarrow> minv m"
proof -
  assume "minit m"
  then obtain fs e m' where p: "prepare_environment e (AppMonitor fs) = (True, m')" "m = (act (PtraceSeize 1) m')\<lparr>running := True\<rparr>"
    by (auto simp: minit_def)
  have "follows (AppMonitor fs) m' \<and> abi m' = new_status \<and> tracing m' = TRACING \<and> m_acts m' = []"
    using p(1) by (auto simp: prepare_environment_def Let_def AppMonitor_def follows_def core_def init_abs_def new_status_def
        split: option.splits if_splits)
  with p(2) show ?thesis
    by (simp add: follows_def minv_def AppMonitor_def new_status_def)
qed

interpretation mon: simulation minit mstep minv init_abs "init_step\<^sup>*\<^sup>*"
  by unfold_locales (auto dest: minit_minv mstep_minv)

subsection \<open>The start counter\<close>

definition clock :: "monitor \<Rightarrow> int \<times> int" where
  "clock m = (start_count m, last_start m)"

named_theorems clock_simps

lemma clock_basic [clock_simps]:
  "clock (update_status e m) = clock m" "clock (act a m) = clock m" "clock (request_stop e r m) = clock m"
  "clock (request_exit e m) = clock m" "clock (m\<lparr>abi := d\<rparr>) = clock m" "clock (m\<lparr>process_set := S\<rparr>) = clock m"
  "clock (m\<lparr>stub_processes := S\<rparr>) = clock m" "clock (notify_init_detached m) = clock m" "clock (m\<lparr>tracing := t\<rparr>) = clock m"
  by (simp_all add: clock_def request_stop_def request_exit_def notify_init_detached_def)

lemma clock_start [clock_simps]: "clock (request_start e m) = clock m"
  by (simp add: request_start_def clock_basic split: tracing_state.split)

lemma clock_attach [clock_simps]: "clock (attach_running e pid flag m) = clock m"
  by (simp add: attach_running_def clock_basic)

lemma clock_daemon: "ensure_daemon_created e m = (ok, b, m') \<Longrightarrow> clock m' = clock m"
  by (auto simp: ensure_daemon_created_def clock_basic split: if_splits)

lemma clock_rearm_zygotes: "clock (snd (fold (rearm_zygote e) zs (b, m))) = clock m"
proof (induction zs arbitrary: b m)
  case (Cons z zs)
  have "clock (snd (rearm_zygote e z (b, m))) = clock m" by (simp add: rearm_zygote_def clock_simps)
  with Cons.IH [of "fst (rearm_zygote e z (b, m))" "snd (rearm_zygote e z (b, m))"] show ?case by simp
qed simp

lemma clock_rearm: "rearm e m = (ok, m') \<Longrightarrow> clock m' = clock m"
proof -
  assume r: "rearm e m = (ok, m')"
  obtain ok1 started m1 where d: "ensure_daemon_created e m = (ok1, started, m1)" by (metis prod_cases3)
  define m2 where "m2 = (if started then m1 else act RefreshModules m1)"
  have m2: "clock m2 = clock m" using clock_daemon [OF d] by (simp add: m2_def clock_simps)
  obtain server zs where scan: "fold (rearm_scan (e_proc e)) (find_processes_by_exe (e_proc e) program_path) (- 1, []) = (server, zs)"
    by fastforce
  obtain bare m3 where z: "fold (rearm_zygote e) zs (False, m2\<lparr>abi := (abi m2)\<lparr>supported := True\<rparr>\<rparr>) = (bare, m3)" by fastforce
  have m3: "clock m3 = clock m"
    using clock_rearm_zygotes [of e zs False "m2\<lparr>abi := (abi m2)\<lparr>supported := True\<rparr>\<rparr>"] m2 by (simp add: z clock_simps)
  have "m' = m1 \<or> m' = m2 \<or> (\<exists>x. m' = update_status e x \<and> (x = m3 \<or> x = attach_running e server (cstring ''--system_server'') m3))"
    using r unfolding rearm_def d scan Let_def m2_def [symmetric] prod.case z by (auto split: if_splits)
  then show ?thesis using clock_daemon [OF d] m2 m3 by (auto simp: clock_simps)
qed

lemma clock_command: "clock (run_command e c data m) = clock m"
proof -
  have "clock (request_rearm e m) = clock m"
    by (auto simp: request_rearm_def Let_def clock_simps dest!: clock_rearm split: prod.split)
  then show ?thesis
    by (auto simp: run_command_def notify_injected_def set_daemon_info_def set_daemon_crashed_def clock_simps
        split: option.split command.split)
qed

lemma clock_message: "handle_message e d m = Some m' \<Longrightarrow> clock m' = clock m"
  by (auto simp: handle_message_def Let_def clock_command split: if_splits)

lemma clock_hand_over: "hand_over e pid hyos m = (b, st, m') \<Longrightarrow> clock m' = clock m"
  by (auto simp: hand_over_def Let_def clock_simps split: if_splits prod.splits)

text \<open>A process event that is the start of a zygote while the monitor is tracing.\<close>

definition zygote_start :: "menv \<Rightarrow> int \<Rightarrow> u32 \<Rightarrow> monitor \<Rightarrow> bool" where
  "zygote_start e pid st m \<longleftrightarrow> pid \<noteq> 1 \<and> pid \<notin> stub_processes m \<and> \<not> (supported (abi m) \<and> pid = daemon_pid (abi m)) \<and>
     pid \<in> process_set m \<and> stopped_with st SIGTRAP PTRACE_EVENT_EXEC \<and> tracing m = TRACING \<and>
     \<not> strstr (get_program (e_proc e) pid) (cstring ''stub_zygote'') \<and>
     clean_program (get_program (e_proc e) pid) = program_path"

lemma program_not_hyos: "\<not> is_hyos_spawner program_path"
  by (simp add: is_hyos_spawner_def program_path_def ends_with_def starts_with_def cstring_def)

lemma clock_settle: "clock (settle pid (h, st, m)) = clock m"
  by (simp add: settle_def Let_def clock_simps)

lemma clock_exec:
  assumes "handleExecEvent e pid st m = (h, st', m')"
    and "tracing m \<noteq> TRACING \<or> strstr (get_program (e_proc e) pid) (cstring ''stub_zygote'') \<or>
      clean_program (get_program (e_proc e) pid) \<noteq> program_path"
  shows "clock m' = clock m"
proof -
  let ?program = "get_program (e_proc e) pid"
  define prog where "prog = clean_program ?program"
  obtain ok m1 where p: "prepare_aux_injection e m = (ok, m1)" by fastforce
  have 1: "clock m1 = clock m"
    using p by (auto simp: prepare_aux_injection_def dest: clock_daemon split: prod.splits)
  obtain b s2 m2 where h: "hand_over e pid True m1 = (b, s2, m2)" by (metis prod_cases3)
  have 2: "clock m2 = clock m" using clock_hand_over [OF h] 1 by simp
  consider (stub) "strstr ?program (cstring ''stub_zygote'')"
    | (idle) "\<not> strstr ?program (cstring ''stub_zygote'')" "tracing m \<noteq> TRACING \<or> prog \<noteq> program_path \<and> \<not> is_hyos_spawner prog"
    | (hyos) "\<not> strstr ?program (cstring ''stub_zygote'')" "tracing m = TRACING" "is_hyos_spawner prog"
    using assms(2) by (auto simp: prog_def)
  then show ?thesis
  proof cases
    case stub
    with assms(1) show ?thesis by (auto simp: handleExecEvent_def Let_def clock_simps)
  next
    case idle
    then have "handleExecEvent e pid st m = (False, st, update_status e m)"
      unfolding handleExecEvent_def prog_def [symmetric] Let_def by simp
    with assms(1) show ?thesis by (auto simp: clock_simps)
  next
    case hyos
    then have "handleExecEvent e pid st m = (if ok then (b, s2, update_status e m2) else (False, st, update_status e m1))"
      unfolding handleExecEvent_def prog_def [symmetric] Let_def using h by (simp add: p)
    with assms(1) 1 2 show ?thesis by (auto simp: clock_simps split: if_splits)
  qed
qed

lemma clock_child:
  assumes "\<not> zygote_start e pid st m"
  shows "clock (handleChildEvent e pid st m) = clock m"
proof (cases "pid = 1 \<or> pid \<in> stub_processes m")
  case True
  then show ?thesis by (simp add: handleChildEvent_def handleParentEvent_def resume_parent_def Let_def clock_simps)
next
  case False
  show ?thesis
  proof (cases "supported (abi m) \<and> pid = daemon_pid (abi m)")
    case True
    with False show ?thesis by (simp add: handleChildEvent_def handle_daemon_exit_if_match_def clock_simps)
  next
    case d: False
    obtain h st1 m1 where ev: "handleExecEvent e pid st m = (h, st1, m1)" by (metis prod_cases3)
    have m1: "clock m1 = clock m" if "stopped_with st SIGTRAP PTRACE_EVENT_EXEC" "pid \<in> process_set m"
      using that assms False d clock_exec [OF ev] by (auto simp: zygote_start_def)
    have new: "clock (handleNewProcess pid m) = clock m" by (simp add: handleNewProcess_def clock_simps)
    have traced: "clock (handleTracedProcess e pid st m) = clock m" if "pid \<in> process_set m"
      using that m1 ev by (simp add: handleTracedProcess_settle clock_settle clock_simps)
    have "handle_daemon_exit_if_match e pid st m = (False, m)" using d by (auto simp: handle_daemon_exit_if_match_def)
    then show ?thesis using False new traced by (simp add: handleChildEvent_def)
  qed
qed

lemma zygote_start_run:
  assumes "zygote_start e pid st m"
  shows "handleChildEvent e pid st m = settle pid
    (case check_and_prepare_injection e m of (ok, m1) \<Rightarrow>
       case (if ok then hand_over e pid False m1 else (False, st, m1)) of (h, st', m') \<Rightarrow> (h, st', update_status e m'))"
proof -
  have "handle_daemon_exit_if_match e pid st m = (False, m)"
    using assms by (auto simp: zygote_start_def handle_daemon_exit_if_match_def)
  then have "handleChildEvent e pid st m = settle pid (handleExecEvent e pid st m)"
    using assms by (simp add: handleChildEvent_def handleTracedProcess_settle zygote_start_def)
  then show ?thesis
    using assms program_not_hyos by (simp add: handleExecEvent_def Let_def zygote_start_def case_prod_beta)
qed

text \<open>
  \<open>n\<close> starts of a zygote have been seen, each within the window after the one before; anything may
  happen in between.
\<close>

inductive crash_run :: "nat \<Rightarrow> monitor \<Rightarrow> bool" where
  first: "zygote_start e pid st m \<Longrightarrow> 0 \<le> start_count m \<Longrightarrow> crash_run 1 (handleChildEvent e pid st m)"
| again: "crash_run n m \<Longrightarrow> zygote_start e pid st m \<Longrightarrow> e_now e - last_start m < CRASH_LOOP_WINDOW_SECONDS \<Longrightarrow>
    crash_run (Suc n) (handleChildEvent e pid st m)"
| message: "crash_run n m \<Longrightarrow> handle_message e d m = Some m' \<Longrightarrow> crash_run n m'"
| child: "crash_run n m \<Longrightarrow> \<not> zygote_start e pid st m \<Longrightarrow> crash_run n (handleChildEvent e pid st m)"

lemma start_clock:
  assumes "zygote_start e pid st m"
  shows "start_count (handleChildEvent e pid st m) =
    (if e_now e - last_start m < CRASH_LOOP_WINDOW_SECONDS then start_count m + 1 else 1)"
proof -
  obtain ok m1 where p: "check_and_prepare_injection e m = (ok, m1)" by fastforce
  have 1: "start_count m1 = (if e_now e - last_start m < CRASH_LOOP_WINDOW_SECONDS then start_count m + 1 else 1)"
    using p by (auto simp: check_and_prepare_injection_def is_in_crash_loop_def ensure_daemon_created_def Let_def request_stop_def
        split: if_splits)
  obtain b s2 m2 where h: "hand_over e pid False m1 = (b, s2, m2)" by (metis prod_cases3)
  have "clock (handleChildEvent e pid st m) = clock m1"
    using clock_hand_over [OF h] by (simp add: zygote_start_run [OF assms] p h clock_settle clock_simps)
  with 1 show ?thesis by (simp add: clock_def)
qed

lemma crash_run_count: "crash_run n m \<Longrightarrow> int n \<le> start_count m"
proof (induction rule: crash_run.induct)
  case (message n m e d m')
  with clock_message [OF message.hyps(2)] show ?case by (simp add: clock_def)
next
  case (child n m e pid st)
  with clock_child [OF child.hyps(2)] show ?case by (simp add: clock_def)
qed (simp_all add: start_clock)

section \<open>Properties\<close>


lemma prepare_keeps:
  "prepare_environment e m = (True, m') \<Longrightarrow> m_acts m' = m_acts m \<and> tracing m' = tracing m \<and> abi m' = abi m"
  by (auto simp: prepare_environment_def Let_def split: option.splits if_splits)

lemma sample_minit:
  obtains m where "minit ((act (PtraceSeize 1) m)\<lparr>running := True\<rparr>)" "m_acts m = []" "tracing m = TRACING"
proof -
  let ?p = "prepare_environment (sample_menv 0) (AppMonitor (\<lambda>_. Some []))"
  have "fst ?p" by (simp add: prepare_environment_def Let_def AppMonitor_def split: option.split)
  then have p: "?p = (True, snd ?p)" by (metis prod.collapse)
  show ?thesis
    using prepare_keeps [OF p] p by (intro that [of "snd ?p"]) (auto simp: minit_def AppMonitor_def)
qed


text \<open>
  C4: the monitor refines the life cycle of its tracing of init: whatever it is sent, its state and
  the tracing of init only move by pausing, resuming, detaching a paused init, seizing init again
  and quitting.  Init is detached only while the monitor is stopping, and nothing leaves the exiting state.
\<close>

theorem monitor_refines_lifecycle:
  assumes "minit m" "mstep\<^sup>*\<^sup>* m m'"
  shows "init_abs m = (TRACING, True) \<and> init_step\<^sup>*\<^sup>* (init_abs m) (init_abs m')"
proof -
  have "init_step\<^sup>*\<^sup>* (init_abs m) (init_abs m')"
    using mon.sim_reachable [OF assms] by simp
  moreover have "init_abs m = (TRACING, True)"
    using assms(1) by (auto simp: minit_def init_abs_def prepare_environment_def Let_def AppMonitor_def split: option.splits if_splits)
  ultimately show ?thesis by simp
qed

theorem monitor_refines_lifecycle_witness:
  "\<exists>m m'. minit m \<and> mstep m m' \<and> init_abs m' = (EXITING, True) \<and> init_step\<^sup>*\<^sup>* (TRACING, True) (init_abs m')"
proof -
  obtain m where m: "minit ((act (PtraceSeize 1) m)\<lparr>running := True\<rparr>)" "m_acts m = []" by (rule sample_minit)
  let ?m = "(act (PtraceSeize 1) m)\<lparr>running := True\<rparr>" and ?m' = "request_exit (sample_menv 0) ((act (PtraceSeize 1) m)\<lparr>running := True\<rparr>)"
  have "handle_message (sample_menv 0) [3, 0, 0, 0] ?m = Some ?m'"
    by (simp add: handle_message_def command_of_def run_command_def)
  then have s: "mstep ?m ?m'" by (rule mstep.message)
  have "init_abs ?m' = (EXITING, True)" using m(2) by (simp add: init_abs_def request_exit_def)
  with s monitor_refines_lifecycle [OF m(1) r_into_rtranclp [where r = mstep, OF s]] m(1) show ?thesis by metis
qed

text \<open>
  C22: a crash loop is always broken: after four starts of the zygote, each within the window of the
  one before and whatever happened in between, the next start within the window stops the tracing;
  the zygote is let go untouched and no injector is started for it.
\<close>

theorem crash_loop_stops:
  assumes "crash_run n m" "4 \<le> n" "zygote_start e pid st m" "e_now e - last_start m < CRASH_LOOP_WINDOW_SECONDS"
  shows "tracing (handleChildEvent e pid st m) = STOPPING \<and>
    monitor_stop_reason (handleChildEvent e pid st m) = cstring ''zygote crashed'' \<and>
    m_acts (handleChildEvent e pid st m) = m_acts m @ [PtraceInterrupt 1, PtraceDetach pid 0] \<and>
    pid \<notin> process_set (handleChildEvent e pid st m)"
proof -
  have count: "4 \<le> start_count m" using crash_run_count [OF assms(1)] assms(2) by simp
  have t: "tracing m = TRACING" "WIFSTOPPED st" using assms(3) by (auto simp: zygote_start_def stopped_with_def)
  let ?m1 = "m\<lparr>start_count := start_count m + 1, last_start := e_now e\<rparr>"
  have "check_and_prepare_injection e m = (False, request_stop e (cstring ''zygote crashed'') ?m1)"
    using count assms(4) by (simp add: check_and_prepare_injection_def is_in_crash_loop_def Let_def CRASH_LOOP_RETRY_COUNT_def)
  then have "handleChildEvent e pid st m = settle pid (False, st, update_status e (request_stop e (cstring ''zygote crashed'') ?m1))"
    by (simp add: zygote_start_run [OF assms(3)])
  with t show ?thesis by (simp add: settle_def request_stop_def act_def)
qed

text \<open>A device on which process 50 is \<open>app_process64\<close>, starting over and over at the same time.\<close>

definition sample_zygote :: menv where
  "sample_zygote = (sample_menv 0)\<lparr>e_proc := (e_proc (sample_menv 0))\<lparr>pf_exe := (\<lambda>_. Some program_path)\<rparr>\<rparr>"

lemma sample_program: "get_program (e_proc sample_zygote) pid = program_path"
  by (simp add: get_program_def sample_zygote_def program_path_def cstring_def c_str_def)

lemma sample_zygote_start:
  "zygote_start sample_zygote 50 0x4057f m \<longleftrightarrow> 50 \<notin> stub_processes m \<and> \<not> (supported (abi m) \<and> daemon_pid (abi m) = 50) \<and>
     50 \<in> process_set m \<and> tracing m = TRACING"
proof -
  have "\<not> strstr program_path (cstring ''stub_zygote'')"
    by (simp add: program_path_def cstring_def strstr.simps starts_with_def)
  moreover have "clean_program program_path = program_path"
    by (simp add: clean_program_def program_path_def ends_with_def starts_with_def cstring_def)
  moreover have "stopped_with 0x4057f SIGTRAP PTRACE_EVENT_EXEC"
    by (simp add: stopped_with_def WIFSTOPPED_def SIGTRAP_def PTRACE_EVENT_EXEC_def)
  ultimately show ?thesis by (auto simp: zygote_start_def sample_program)
qed

lemma sample_wait: "stopped_with (e_wait sample_zygote 50) SIGSTOP 0"
  by (simp add: sample_zygote_def sample_menv_def stopped_with_def WIFSTOPPED_def SIGSTOP_def)

lemma sample_prepare:
  assumes "daemon_pid (abi m) = - 1 \<or> daemon_running (abi m)" "start_count m < 4"
  obtains m1 where "check_and_prepare_injection sample_zygote m = (True, m1)" "tracing m1 = tracing m"
    "daemon_running (abi m1)" "daemon_pid (abi m1) = (if daemon_pid (abi m) = - 1 then 7 else daemon_pid (abi m))"
    "last_start m1 = 100"
proof -
  have e: "e_now sample_zygote = 100" "e_fork sample_zygote = 7" by (simp_all add: sample_zygote_def sample_menv_def)
  define m0 where "m0 = m\<lparr>start_count := (if 100 - last_start m < CRASH_LOOP_WINDOW_SECONDS then start_count m + 1 else 1), last_start := 100\<rparr>"
  have "is_in_crash_loop sample_zygote m = (False, m0)"
    using assms(2) by (simp add: is_in_crash_loop_def e CRASH_LOOP_RETRY_COUNT_def m0_def)
  moreover obtain b m1 where d: "ensure_daemon_created sample_zygote (m0\<lparr>abi := (abi m0)\<lparr>zygote_injected := False\<rparr>\<rparr>) = (True, b, m1)"
    "tracing m1 = tracing m" "daemon_running (abi m1)"
    "daemon_pid (abi m1) = (if daemon_pid (abi m) = - 1 then 7 else daemon_pid (abi m))" "last_start m1 = 100"
    using assms(1) by (cases "daemon_pid (abi m) = - 1") (simp_all add: ensure_daemon_created_def e m0_def)
  ultimately show ?thesis by (intro that [of m1]) (simp_all add: check_and_prepare_injection_def)
qed

definition restarting :: "monitor \<Rightarrow> bool" where
  "restarting m \<longleftrightarrow> zygote_start sample_zygote 50 0x4057f m \<and> daemon_pid (abi m) \<noteq> 50 \<and>
     (daemon_pid (abi m) = - 1 \<or> daemon_running (abi m))"

lemma sample_restart:
  assumes "restarting m" "start_count m < 4" "m' = handleChildEvent sample_zygote 50 0x4057f m"
  shows "restarting m' \<and> start_count m' = (if 100 - last_start m < 30 then start_count m + 1 else 1) \<and> last_start m' = 100"
proof -
  have z: "zygote_start sample_zygote 50 0x4057f m" using assms(1) by (simp add: restarting_def)
  obtain m1 where p: "check_and_prepare_injection sample_zygote m = (True, m1)" "tracing m1 = tracing m"
    "daemon_running (abi m1)" "daemon_pid (abi m1) = (if daemon_pid (abi m) = - 1 then 7 else daemon_pid (abi m))" "last_start m1 = 100"
    using sample_prepare [of m] assms(1,2) by (auto simp: restarting_def)
  obtain b st2 m2 where h: "hand_over sample_zygote 50 False m1 = (b, st2, m2)" by (metis prod_cases3)
  have h2: "b" "st2 = e_wait sample_zygote 50" "tracing m2 = tracing m1" "abi m2 = abi m1"
    using h sample_wait by (auto simp: hand_over_def Let_def split: if_splits prod.splits)
  have "\<not> stopped_with st2 SIGTRAP PTRACE_EVENT_EXEC"
    using sample_wait h2(2) by (auto simp: stopped_with_def SIGTRAP_def SIGSTOP_def PTRACE_EVENT_EXEC_def)
  then have m': "m' = update_status sample_zygote m2"
    using h2(1) by (simp add: assms(3) zygote_start_run [OF z] p(1) h settle_def)
  have "process_set m2 = process_set m" "stub_processes m2 = stub_processes m"
    using follows_prepare [OF p(1)] follows_hand_over [OF h] by (auto simp: follows_def)
  then have "restarting m'"
    using z p h2 assms(1) by (auto simp: restarting_def sample_zygote_start m')
  moreover have "last_start m' = 100" using clock_hand_over [OF h] p(5) by (simp add: m' clock_def)
  moreover have "e_now sample_zygote = 100" by (simp add: sample_zygote_def sample_menv_def)
  ultimately show ?thesis
    using start_clock [OF z] by (simp add: assms(3) CRASH_LOOP_WINDOW_SECONDS_def)
qed

lemma sample_crash_run:
  obtains m where "crash_run 4 m" "restarting m" "last_start m = 100"
proof -
  let ?f = "handleChildEvent sample_zygote 50 0x4057f"
  define m where "m = (AppMonitor (\<lambda>_. None))\<lparr>process_set := {50}\<rparr>"
  have now: "e_now sample_zygote = 100" by (simp add: sample_zygote_def sample_menv_def)
  have m: "restarting m" "start_count m = 0" "last_start m = 0"
    by (simp_all add: m_def AppMonitor_def new_status_def restarting_def sample_zygote_start)
  have next_start: "crash_run (Suc n) (?f m) \<and> restarting (?f m) \<and> start_count (?f m) = start_count m + 1 \<and> last_start (?f m) = 100"
    if "crash_run n m" "restarting m" "start_count m < 4" "last_start m = 100" for n m
    using that crash_run.again [OF that(1), of sample_zygote 50 "0x4057f"] sample_restart [OF that(2,3) refl] now
    by (auto simp: restarting_def CRASH_LOOP_WINDOW_SECONDS_def)
  have r1: "crash_run 1 (?f m) \<and> restarting (?f m) \<and> start_count (?f m) = 1 \<and> last_start (?f m) = 100"
    using crash_run.first [of sample_zygote 50 "0x4057f" m] sample_restart [of m] m by (simp add: restarting_def)
  have r2: "crash_run 2 (?f (?f m)) \<and> restarting (?f (?f m)) \<and> start_count (?f (?f m)) = 2 \<and> last_start (?f (?f m)) = 100"
    using next_start [of 1 "?f m"] r1 by (simp add: numeral_2_eq_2)
  have r3: "crash_run 3 (?f (?f (?f m))) \<and> restarting (?f (?f (?f m))) \<and> start_count (?f (?f (?f m))) = 3 \<and> last_start (?f (?f (?f m))) = 100"
    using next_start [of 2 "?f (?f m)"] r2 by (simp add: numeral_3_eq_3)
  have "crash_run 4 (?f (?f (?f (?f m)))) \<and> restarting (?f (?f (?f (?f m)))) \<and> last_start (?f (?f (?f (?f m)))) = 100"
    using next_start [of 3 "?f (?f (?f m))"] r3 by simp
  then show ?thesis using that by blast
qed

theorem crash_loop_stops_witness:
  "\<exists>m. crash_run 4 m \<and> zygote_start sample_zygote 50 0x4057f m \<and> tracing (handleChildEvent sample_zygote 50 0x4057f m) = STOPPING"
proof -
  obtain m where m: "crash_run 4 m" "restarting m" "last_start m = 100" by (rule sample_crash_run)
  have "e_now sample_zygote - last_start m < CRASH_LOOP_WINDOW_SECONDS"
    using m(3) by (simp add: sample_zygote_def sample_menv_def CRASH_LOOP_WINDOW_SECONDS_def)
  with crash_loop_stops [OF m(1), of sample_zygote 50 "0x4057f"] m(1,2) show ?thesis by (auto simp: restarting_def)
qed

text \<open>
  a zygote that is handed over to the injector is not removed from the candidates: the status
  that decides about the removal has been overwritten by the wait for the stop of the hand-over.
\<close>

theorem handed_over_stays_candidate:
  assumes "zygote_start e pid st m" "check_and_prepare_injection e m = (True, m1)" "stopped_with (e_wait e pid) SIGSTOP 0"
  shows "pid \<in> process_set (handleChildEvent e pid st m) \<and> PtraceDetach pid SIGSTOP \<in> set (m_acts (handleChildEvent e pid st m))"
proof -
  have pid: "pid \<noteq> 1" "pid \<in> process_set m" using assms(1) by (auto simp: zygote_start_def)
  obtain b st2 m2 where h: "hand_over e pid False m1 = (b, st2, m2)" by (metis prod_cases3)
  have h2: "b" "st2 = e_wait e pid" "PtraceDetach pid SIGSTOP \<in> set (m_acts m2)"
    using h assms(3) by (auto simp: hand_over_def Let_def split: if_splits prod.splits)
  have "\<not> stopped_with st2 SIGTRAP PTRACE_EVENT_EXEC"
    using assms(3) h2(2) by (auto simp: stopped_with_def SIGTRAP_def SIGSTOP_def PTRACE_EVENT_EXEC_def)
  then have "handleChildEvent e pid st m = update_status e m2"
    using h2(1) by (simp add: zygote_start_run [OF assms(1)] assms(2) h settle_def)
  moreover have "process_set m2 = process_set m"
    using follows_prepare [OF assms(2)] follows_hand_over [OF h pid(1)] by (auto simp: follows_def)
  ultimately show ?thesis using pid h2(3) by simp
qed

theorem handed_over_stays_candidate_witness:
  "50 \<in> process_set (handleChildEvent sample_zygote 50 0x4057f ((AppMonitor (\<lambda>_. None))\<lparr>process_set := {50}\<rparr>))"
proof -
  let ?m = "(AppMonitor (\<lambda>_. None))\<lparr>process_set := {50}\<rparr>"
  obtain m1 where "check_and_prepare_injection sample_zygote ?m = (True, m1)"
    using sample_prepare [of ?m] by (auto simp: AppMonitor_def new_status_def)
  then show ?thesis
    using handed_over_stays_candidate [of sample_zygote 50 "0x4057f" ?m] sample_wait
    by (simp add: sample_zygote_start AppMonitor_def new_status_def)
qed

text \<open>
  after a target has been halted and detached for the injector, it ends up either with the
  injector started for it or resumed, on every path but one: when the second fork of the detached
  child fails, the monitor is told that all went well and the target stays stopped for ever.
\<close>

theorem hand_over_outcome:
  assumes "stopped_with (e_wait e pid) SIGSTOP 0"
  shows "\<exists>as. hand_over e pid hyos m = (True, e_wait e pid,
      m\<lparr>m_acts := m_acts m @ [Kill pid SIGSTOP, PtraceCont pid 0, WaitPid pid, PtraceDetach pid SIGSTOP] @ as\<rparr>) \<and>
    as = (if e_fork1 e \<ge> 0 \<and> e_fork2 e \<le> 0 then []
      else if e_fork1 e < 0 \<or> \<not> e_exec e then [Kill pid SIGCONT]
      else [ExecTracer (tracer_path e) ([basename_of (tracer_path e), cstring ''trace'', to_string pid] @
        (if hyos then [] else [cstring ''--spawn'']))])"
  using assms by (auto simp: hand_over_def fork_dont_care_def act_def Let_def)

theorem hand_over_outcome_witness:
  "m_acts (snd (snd (hand_over (sample_zygote\<lparr>e_fork2 := - 1\<rparr>) 50 False (AppMonitor (\<lambda>_. None))))) =
     [Kill 50 SIGSTOP, PtraceCont 50 0, WaitPid 50, PtraceDetach 50 SIGSTOP]"
proof -
  have "stopped_with (e_wait (sample_zygote\<lparr>e_fork2 := - 1\<rparr>) 50) SIGSTOP 0" using sample_wait by simp
  from hand_over_outcome [OF this, of False "AppMonitor (\<lambda>_. None)"] show ?thesis
    by (auto simp: sample_zygote_def sample_menv_def AppMonitor_def)
qed

end
