(* ===== verification/Rust_Text.thy ===== *)
theory Rust_Text
  imports Prelude
begin

text \<open>
  What the daemon uses of Rust's \<open>str\<close>: a string is its list of Unicode scalar values.  The
  functions follow the documentation of the standard library: \<open>lines\<close>, \<open>trim\<close>, \<open>split\<close>,
  \<open>split_whitespace\<close>, \<open>strip_prefix\<close>, \<open>contains\<close> and \<open>parse\<close> for integers.
\<close>

type_synonym rstr = "nat list"

definition rs :: "string \<Rightarrow> rstr" where
  "rs = map of_char"

text \<open>\<open>char::is_whitespace\<close>: the Unicode property White\_Space.\<close>

definition is_whitespace :: "nat \<Rightarrow> bool" where
  "is_whitespace c \<longleftrightarrow> 9 \<le> c \<and> c \<le> 13 \<or> c = 32 \<or> c = 133 \<or> c = 160 \<or> c = 5760 \<or> 8192 \<le> c \<and> c \<le> 8202
     \<or> c \<in> {8232, 8233, 8239, 8287, 12288}"

definition trim_start :: "rstr \<Rightarrow> rstr" where
  "trim_start = dropWhile is_whitespace"

definition trim :: "rstr \<Rightarrow> rstr" where
  "trim s = rev (trim_start (rev (trim_start s)))"

primrec split_by :: "(nat \<Rightarrow> bool) \<Rightarrow> rstr \<Rightarrow> rstr list" where
  "split_by P [] = [[]]"
| "split_by P (c # cs) = (if P c then [] # split_by P cs else case split_by P cs of w # ws \<Rightarrow> (c # w) # ws | [] \<Rightarrow> [])"

definition split_char :: "char \<Rightarrow> rstr \<Rightarrow> rstr list" where
  "split_char d = split_by (\<lambda>c. c = of_char d)"

definition split_whitespace :: "rstr \<Rightarrow> rstr list" where
  "split_whitespace s = filter (\<lambda>w. w \<noteq> []) (split_by is_whitespace s)"

definition strip_cr :: "rstr \<Rightarrow> rstr" where
  "strip_cr l = (if l \<noteq> [] \<and> last l = 13 then butlast l else l)"

text \<open>The last piece is a line only when it is not empty, and keeps its carriage return.\<close>

definition rust_lines :: "rstr \<Rightarrow> rstr list" where
  "rust_lines s = (let ps = split_by (\<lambda>c. c = 10) s
     in map strip_cr (butlast ps) @ (if last ps = [] then [] else [last ps]))"

definition strip_prefix_of :: "rstr \<Rightarrow> rstr \<Rightarrow> rstr option" where
  "strip_prefix_of p s = (if take (length p) s = p then Some (drop (length p) s) else None)"

primrec contains_str :: "rstr \<Rightarrow> rstr \<Rightarrow> bool" where
  "contains_str [] p = (p = [])"
| "contains_str (c # cs) p = (take (length p) (c # cs) = p \<or> contains_str cs p)"

definition starts_with :: "rstr \<Rightarrow> rstr \<Rightarrow> bool" where
  "starts_with s p \<longleftrightarrow> take (length p) s = p"

primrec join_str :: "rstr \<Rightarrow> rstr list \<Rightarrow> rstr" where
  "join_str d [] = []"
| "join_str d (x # xs) = (if xs = [] then x else x @ d @ join_str d xs)"

subsection \<open>Integers\<close>

primrec parse_digits :: "nat \<Rightarrow> rstr \<Rightarrow> nat option" where
  "parse_digits n [] = Some n"
| "parse_digits n (c # cs) = (if 48 \<le> c \<and> c \<le> 57 then parse_digits (n * 10 + (c - 48)) cs else None)"

text \<open>\<open>parse::<uN>\<close>: a sign \<open>+\<close> is allowed; no digits, another character or a value out of range is an error.\<close>

definition parse_unsigned :: "nat \<Rightarrow> rstr \<Rightarrow> nat option" where
  "parse_unsigned bits s =
     (let digits = (if s \<noteq> [] \<and> hd s = 43 then tl s else s)
      in if digits = [] then None
         else case parse_digits 0 digits of Some n \<Rightarrow> if n < 2 ^ bits then Some n else None | None \<Rightarrow> None)"

definition parse_i32 :: "rstr \<Rightarrow> int option" where
  "parse_i32 s =
     (let neg = (s \<noteq> [] \<and> hd s = 45);
          digits = (if s \<noteq> [] \<and> (hd s = 43 \<or> hd s = 45) then tl s else s)
      in if digits = [] then None
         else case parse_digits 0 digits of
           Some n \<Rightarrow> (let v = (if neg then - int n else int n) in if - (2 ^ 31) \<le> v \<and> v < 2 ^ 31 then Some v else None)
         | None \<Rightarrow> None)"

subsection \<open>Paths\<close>

text \<open>
  \<open>Path::components\<close> leaves out empty and dot components; \<open>starts_with\<close> and \<open>strip_prefix\<close> compare
  whole components, and \<open>join\<close> takes an absolute second path alone.
\<close>

definition is_absolute :: "rstr \<Rightarrow> bool" where
  "is_absolute p \<longleftrightarrow> p \<noteq> [] \<and> hd p = 47"

definition path_components :: "rstr \<Rightarrow> rstr list" where
  "path_components p = filter (\<lambda>c. c \<noteq> [] \<and> c \<noteq> [46]) (split_by (\<lambda>c. c = 47) p)"

definition path_starts_with :: "rstr \<Rightarrow> rstr \<Rightarrow> bool" where
  "path_starts_with p base \<longleftrightarrow> is_absolute p = is_absolute base \<and> take (length (path_components base)) (path_components p) = path_components base"

definition path_join :: "rstr \<Rightarrow> rstr \<Rightarrow> rstr" where
  "path_join base p = (if is_absolute p then p else if base = [] \<or> last base = 47 then base @ p else base @ [47] @ p)"

subsection \<open>Printing\<close>

text \<open>\<open>Display\<close> of integers.\<close>

fun show_nat :: "nat \<Rightarrow> rstr" where
  "show_nat n = (if n < 10 then [48 + n] else show_nat (n div 10) @ [48 + n mod 10])"

declare show_nat.simps [simp del]

definition show_int :: "int \<Rightarrow> rstr" where
  "show_int i = (if i < 0 then 45 # show_nat (nat (- i)) else show_nat (nat i))"

section \<open>Lemmas\<close>

lemma split_by_nonempty [simp]: "split_by P s \<noteq> []"
  by (induction s) (auto split: list.split)

lemma split_by_none: "\<forall>c \<in> set s. \<not> P c \<Longrightarrow> split_by P s = [s]"
  by (induction s) simp_all

lemma split_by_Cons: "\<forall>c \<in> set w. \<not> P c \<Longrightarrow> P d \<Longrightarrow> split_by P (w @ d # s) = w # split_by P s"
  by (induction w) simp_all

lemma split_by_pieces: "w \<in> set (split_by P s) \<Longrightarrow> c \<in> set w \<Longrightarrow> \<not> P c"
proof (induction s arbitrary: w)
  case (Cons d s)
  then show ?case by (auto split: if_splits list.splits) (metis list.set_intros)+
qed simp

lemma split_whitespace_pieces: "w \<in> set (split_whitespace s) \<Longrightarrow> w \<noteq> [] \<and> (\<forall>c \<in> set w. \<not> is_whitespace c)"
  by (auto simp: split_whitespace_def dest: split_by_pieces)

lemma strip_prefix_of_Some: "strip_prefix_of p s = Some r \<longleftrightarrow> s = p @ r"
  by (auto simp: strip_prefix_of_def) (metis append_take_drop_id)

lemma contains_str_iff: "contains_str s p \<longleftrightarrow> (\<exists>a b. s = a @ p @ b)"
proof (induction s)
  case (Cons c s)
  have "take (length p) (c # s) = p \<longleftrightarrow> (\<exists>b. c # s = p @ b)"
    by (metis append_eq_conv_conj)
  moreover have "(\<exists>a b. c # s = a @ p @ b) \<longleftrightarrow> (\<exists>b. c # s = p @ b) \<or> (\<exists>a b. s = a @ p @ b)"
    by (metis append_Cons append_Nil list.exhaust list.sel(3))
  ultimately show ?case using Cons by simp
qed simp

end
