(* ===== verification/Utf8.thy ===== *)
theory Utf8
  imports Rust_Text
begin

text \<open>The UTF-8 form of Rust strings: \<open>str::as_bytes\<close> and \<open>String::from_utf8\<close>, which refuses every other byte sequence.\<close>

definition is_scalar :: "nat \<Rightarrow> bool" where
  "is_scalar c \<longleftrightarrow> c < 55296 \<or> 57344 \<le> c \<and> c < 1114112"

definition utf8_enc :: "nat \<Rightarrow> nat list" where
  "utf8_enc c =
     (if c < 128 then [c]
      else if c < 2048 then [192 + c div 64, 128 + c mod 64]
      else if c < 65536 then [224 + c div 4096, 128 + c div 64 mod 64, 128 + c mod 64]
      else [240 + c div 262144, 128 + c div 4096 mod 64, 128 + c div 64 mod 64, 128 + c mod 64])"

definition utf8_cont :: "nat \<Rightarrow> bool" where
  "utf8_cont b \<longleftrightarrow> 128 \<le> b \<and> b < 192"

definition utf8_dec :: "nat list \<Rightarrow> (nat \<times> nat list) option" where
  "utf8_dec bs =
     (case bs of
        [] \<Rightarrow> None
      | b # r1 \<Rightarrow>
          if b < 128 then Some (b, r1)
          else if 194 \<le> b \<and> b < 224 then
            (case r1 of c # r2 \<Rightarrow> if utf8_cont c then Some ((b - 192) * 64 + (c - 128), r2) else None | _ \<Rightarrow> None)
          else if 224 \<le> b \<and> b < 240 then
            (case r1 of c # d # r3 \<Rightarrow>
               if utf8_cont c \<and> utf8_cont d \<and> (b = 224 \<longrightarrow> 160 \<le> c) \<and> (b = 237 \<longrightarrow> c < 160)
               then Some ((b - 224) * 4096 + (c - 128) * 64 + (d - 128), r3) else None
             | _ \<Rightarrow> None)
          else if 240 \<le> b \<and> b < 245 then
            (case r1 of c # d # e # r4 \<Rightarrow>
               if utf8_cont c \<and> utf8_cont d \<and> utf8_cont e \<and> (b = 240 \<longrightarrow> 144 \<le> c) \<and> (b = 244 \<longrightarrow> c < 144)
               then Some ((b - 240) * 262144 + (c - 128) * 4096 + (d - 128) * 64 + (e - 128), r4) else None
             | _ \<Rightarrow> None)
          else None)"

lemma utf8_dec_shorter: "utf8_dec bs = Some (c, r) \<Longrightarrow> length r < length bs"
  by (auto simp: utf8_dec_def split: list.splits if_splits)

function utf8_decode :: "nat list \<Rightarrow> rstr option" where
  "utf8_decode bs = (if bs = [] then Some [] else case utf8_dec bs of Some (c, r) \<Rightarrow> map_option ((#) c) (utf8_decode r) | None \<Rightarrow> None)"
  by pat_completeness auto
termination by (relation "measure length") (auto dest: utf8_dec_shorter)

declare utf8_decode.simps [simp del]

definition as_bytes :: "rstr \<Rightarrow> byte list" where
  "as_bytes s = map of_nat (concat (map utf8_enc s))"

definition from_utf8 :: "byte list \<Rightarrow> rstr option" where
  "from_utf8 bs = utf8_decode (map unat bs)"

section \<open>Round trip\<close>

text \<open>The groups of six bits that a scalar value consists of.\<close>

lemma six_bits:
  fixes c :: nat
  obtains p q r t where "c = p * 262144 + q * 4096 + r * 64 + t" "q < 64" "r < 64" "t < 64"
    "c div 64 = p * 4096 + q * 64 + r" "c div 4096 = p * 64 + q" "c div 262144 = p"
    "c mod 64 = t" "c div 64 mod 64 = r" "c div 4096 mod 64 = q"
proof
  let ?p = "c div 262144" and ?q = "c div 4096 mod 64" and ?r = "c div 64 mod 64" and ?t = "c mod 64"
  have e: "c = c div 64 * 64 + ?t" "c div 64 = c div 4096 * 64 + ?r" "c div 4096 = ?p * 64 + ?q"
    using div_mult_mod_eq [of c 64] div_mult_mod_eq [of "c div 64" 64] div_mult_mod_eq [of "c div 4096" 64]
    by (simp_all flip: div_mult2_eq)
  then show "c div 64 = ?p * 4096 + ?q * 64 + ?r" "c div 4096 = ?p * 64 + ?q" by linarith+
  then show "c = ?p * 262144 + ?q * 4096 + ?r * 64 + ?t" using e(1) by linarith
qed simp_all

lemma utf8_dec_2: "\<not> c < 128 \<Longrightarrow> c < 2048 \<Longrightarrow> utf8_dec (utf8_enc c @ r) = Some (c, r)"
proof -
  assume c: "\<not> c < 128" "c < 2048"
  then have "2 \<le> c div 64" "c div 64 < 32" by auto
  with c show ?thesis by (simp add: utf8_dec_def utf8_enc_def utf8_cont_def)
qed

lemma utf8_dec_3:
  assumes "\<not> c < 2048" "c < 65536" "is_scalar c"
  shows "utf8_dec (utf8_enc c @ rest) = Some (c, rest)"
proof -
  obtain p q r t where c: "c = p * 262144 + q * 4096 + r * 64 + t" "q < 64" "r < 64" "t < 64"
    "c div 4096 = p * 64 + q" "c mod 64 = t" "c div 64 mod 64 = r" by (rule six_bits [of c])
  have p: "p = 0" using c(1) assms(2) by linarith
  have "q < 16" "q = 0 \<Longrightarrow> 32 \<le> r" "q = 13 \<Longrightarrow> r < 32" using c(1-4) assms p unfolding is_scalar_def by linarith+
  with c(2-4) p have "utf8_dec ((224 + (p * 64 + q)) # (128 + r) # (128 + t) # rest) = Some (q * 4096 + r * 64 + t, rest)"
    by (auto simp: utf8_dec_def utf8_cont_def)
  moreover have "utf8_enc c = [224 + (p * 64 + q), 128 + r, 128 + t]" using assms by (simp add: utf8_enc_def c(5-7))
  ultimately show ?thesis using c(1) p by simp
qed

lemma utf8_dec_4:
  assumes "\<not> c < 65536" "c < 1114112"
  shows "utf8_dec (utf8_enc c @ rest) = Some (c, rest)"
proof -
  obtain p q r t where c: "c = p * 262144 + q * 4096 + r * 64 + t" "q < 64" "r < 64" "t < 64"
    "c div 262144 = p" "c mod 64 = t" "c div 64 mod 64 = r" "c div 4096 mod 64 = q" by (rule six_bits [of c])
  have "p < 5" "p = 0 \<Longrightarrow> 16 \<le> q" "p = 4 \<Longrightarrow> q < 16" using c(1-4) assms by linarith+
  with c(2-4) have "utf8_dec ((240 + p) # (128 + q) # (128 + r) # (128 + t) # rest) = Some (p * 262144 + q * 4096 + r * 64 + t, rest)"
    by (auto simp: utf8_dec_def utf8_cont_def)
  moreover have "utf8_enc c = [240 + p, 128 + q, 128 + r, 128 + t]" using assms by (simp add: utf8_enc_def c(5-8))
  ultimately show ?thesis using c(1) by simp
qed

lemma utf8_dec_enc: "is_scalar c \<Longrightarrow> utf8_dec (utf8_enc c @ r) = Some (c, r)"
  using utf8_dec_2 [of c r] utf8_dec_3 [of c r] utf8_dec_4 [of c r]
  by (cases "c < 128"; cases "c < 2048"; cases "c < 65536") (simp_all add: utf8_dec_def utf8_enc_def is_scalar_def)

lemma utf8_enc_bytes:
  assumes "is_scalar c"
  shows "\<forall>b \<in> set (utf8_enc c). b < 256"
proof -
  have "c div 64 < 64" if "c < 2048" using that by linarith
  moreover have "c div 4096 < 32" if "c < 65536" using that by linarith
  moreover have "c div 262144 < 16" using assms by (simp add: is_scalar_def) linarith
  moreover have "n mod 64 < 128" for n :: nat using mod_less_divisor [of 64 n] by linarith
  ultimately show ?thesis by (simp add: utf8_enc_def trans_less_add1)
qed

lemma from_utf8_as_bytes: "\<forall>c \<in> set s. is_scalar c \<Longrightarrow> from_utf8 (as_bytes s) = Some s"
proof (induction s)
  case Nil
  show ?case by (simp add: from_utf8_def as_bytes_def utf8_decode.simps)
next
  case (Cons c s)
  have "map unat (as_bytes (c # s)) = utf8_enc c @ map unat (as_bytes s)"
    using utf8_enc_bytes [of c] Cons.prems by (simp add: as_bytes_def unat_of_nat map_idI)
  then show ?case using Cons utf8_dec_enc [of c "map unat (as_bytes s)"]
    by (simp add: from_utf8_def utf8_decode.simps [of "utf8_enc c @ _"]) (simp add: utf8_enc_def)
qed

lemma as_bytes_nonzero: "0 \<notin> set s \<Longrightarrow> \<forall>c \<in> set s. is_scalar c \<Longrightarrow> 0 \<notin> set (as_bytes s)"
proof (induction s)
  case (Cons c s)
  have "of_nat b \<noteq> (0 :: byte)" if "b \<in> set (utf8_enc c)" for b
  proof -
    have "0 < b" "b < 256" using that Cons.prems utf8_enc_bytes [of c] by (auto simp: utf8_enc_def split: if_splits)
    then have "unat (of_nat b :: byte) \<noteq> 0" by (simp add: unat_of_nat)
    then show ?thesis by force
  qed
  with Cons show ?case by (auto simp: as_bytes_def)
qed (simp add: as_bytes_def)

lemma as_bytes_ascii: "\<forall>c \<in> set s. c < 128 \<Longrightarrow> as_bytes s = map of_nat s"
  by (induction s) (auto simp: as_bytes_def utf8_enc_def)

end
