(* ===== verification/Wire.thy ===== *)
theory Wire
  imports Utf8
begin

text \<open>
  The two ends of the daemon's sockets: the injector's helpers (\<open>loader/src/common/socket_utils.cpp\<close>)
  over the results of the system calls, and the daemon's \<open>UnixStreamExt\<close>
  (\<open>zygiskd/src/utils.rs\<close>) over the bytes of the stream.  Numbers are little-endian and \<open>usize\<close>
  has 64 bits.  A descriptor in flight is identified by the file it refers to.
\<close>

section \<open>The reading end of the injector\<close>

type_synonym ofd = nat

datatype rfd = NoFd | Fd ofd

text \<open>
  What the receiving calls on a socket meet: data with at most one descriptor attached, a signal, or
  a failure such as the receive timeout.  The end of the list is the end of the stream.
\<close>

datatype rd_event = Seg "ofd option" "byte list" | RIntr | RErr

datatype rd_result = Got "byte list" | Eintr | Failed

fun sys_read :: "nat \<Rightarrow> rd_event list \<Rightarrow> rd_result \<times> rd_event list" where
  "sys_read n [] = (Got [], [])"
| "sys_read n (Seg f bs # evs) =
     (if n = 0 then (Got [], Seg f bs # evs)
      else (Got (take n bs), if length bs \<le> n then evs else Seg None (drop n bs) # evs))"
| "sys_read n (RIntr # evs) = (if n = 0 then (Got [], RIntr # evs) else (Eintr, evs))"
| "sys_read n (RErr # evs) = (if n = 0 then (Got [], RErr # evs) else (Failed, evs))"

fun event_size :: "rd_event \<Rightarrow> nat" where
  "event_size (Seg f bs) = Suc (length bs)"
| "event_size _ = 1"

lemma sys_read_smaller:
  "sys_read n evs = (Eintr, evs') \<Longrightarrow> sum_list (map event_size evs') < sum_list (map event_size evs)"
  "sys_read n evs = (Got bs, evs') \<Longrightarrow> bs \<noteq> [] \<Longrightarrow> sum_list (map event_size evs') < sum_list (map event_size evs)"
  by (cases "(n, evs)" rule: sys_read.cases; force split: if_splits)+

text \<open>\<open>xread\<close>: None is its error result, otherwise the bytes read, fewer than asked for at the end of the stream.\<close>

function xread_loop :: "nat \<Rightarrow> byte list \<Rightarrow> rd_event list \<Rightarrow> byte list option \<times> rd_event list" where
  "xread_loop count got evs =
     (case sys_read (count - length got) evs of
        (Eintr, evs') \<Rightarrow> xread_loop count got evs'
      | (Failed, evs') \<Rightarrow> (None, evs')
      | (Got bs, evs') \<Rightarrow>
          (if length (got @ bs) \<noteq> count \<and> bs \<noteq> [] then xread_loop count (got @ bs) evs' else (Some (got @ bs), evs')))"
  by pat_completeness auto
termination by (relation "measure (\<lambda>(_, _, evs). sum_list (map event_size evs))") (auto dest: sys_read_smaller [OF sym])

definition xread :: "nat \<Rightarrow> rd_event list \<Rightarrow> byte list option \<times> rd_event list" where
  "xread count evs = xread_loop count [] evs"

definition read_exact_or :: "nat \<Rightarrow> rd_event list \<Rightarrow> byte list option \<times> rd_event list" where
  "read_exact_or n evs =
     (case xread n evs of
        (Some bs, evs') \<Rightarrow> (if length bs = n then Some bs else None, evs')
      | (None, evs') \<Rightarrow> (None, evs'))"

definition read_u8 :: "rd_event list \<Rightarrow> byte \<times> rd_event list" where
  "read_u8 evs = (case read_exact_or 1 evs of (Some bs, evs') \<Rightarrow> (of_nat (le_val bs), evs') | (None, evs') \<Rightarrow> (0, evs'))"

definition read_u32 :: "rd_event list \<Rightarrow> u32 \<times> rd_event list" where
  "read_u32 evs = (case read_exact_or 4 evs of (Some bs, evs') \<Rightarrow> (of_nat (le_val bs), evs') | (None, evs') \<Rightarrow> (0, evs'))"

definition read_usize :: "rd_event list \<Rightarrow> addr \<times> rd_event list" where
  "read_usize evs = (case read_exact_or 8 evs of (Some bs, evs') \<Rightarrow> (of_nat (le_val bs), evs') | (None, evs') \<Rightarrow> (0, evs'))"

text \<open>
  \<open>read_string\<close>: the buffer has \<open>len + 1\<close> bytes, so that the terminator is out of bounds for the
  greatest length; a buffer that is not filled is used uninitialised (None).  The result ends at the
  first zero byte.
\<close>

definition read_string :: "rd_event list \<Rightarrow> (cstr \<times> rd_event list) option" where
  "read_string evs =
     (let (len, evs1) = read_usize evs
      in if len + 1 = 0 then None
         else case xread (unat len) evs1 of
           (Some bs, evs2) \<Rightarrow> if length bs = unat len then Some (takeWhile (\<lambda>b. b \<noteq> 0) bs, evs2) else None
         | (None, evs2) \<Rightarrow> None)"

text \<open>
  \<open>recvmsg\<close> with \<open>MSG_WAITALL\<close>: the bytes gathered and the descriptor, which ends the call; None when
  it fails before any data.
\<close>

fun sys_recvmsg :: "nat \<Rightarrow> rd_event list \<Rightarrow> (byte list \<times> ofd option) option \<times> rd_event list" where
  "sys_recvmsg n [] = (Some ([], None), [])"
| "sys_recvmsg n (RIntr # evs) = (None, evs)"
| "sys_recvmsg n (RErr # evs) = (None, evs)"
| "sys_recvmsg n (Seg (Some f) bs # evs) =
     (Some (take n bs, Some f), if length bs \<le> n then evs else Seg None (drop n bs) # evs)"
| "sys_recvmsg n (Seg None bs # evs) =
     (if length bs > n then (Some (take n bs, None), Seg None (drop n bs) # evs)
      else if length bs = n then (Some (bs, None), evs)
      else case sys_recvmsg (n - length bs) evs of
        (Some (bs', f), evs') \<Rightarrow> (Some (bs @ bs', f), evs')
      | (None, evs') \<Rightarrow> (Some (bs, None), evs'))"

text \<open>
  \<open>recv_fds\<close> and \<open>recv_fd\<close>.  A failed \<open>recvmsg\<close> leaves \<open>msg_controllen\<close> and the control buffer as they
  were, and the function goes on to take the descriptor from that uninitialised buffer: None.
\<close>

definition recv_fd :: "rd_event list \<Rightarrow> (rfd \<times> rd_event list) option" where
  "recv_fd evs =
     (case sys_recvmsg 4 evs of
        (None, evs') \<Rightarrow> None
      | (Some (bs, None), evs') \<Rightarrow> Some (NoFd, evs')
      | (Some (bs, Some f), evs') \<Rightarrow> Some (Fd f, evs'))"

section \<open>The writing end of the injector\<close>

text \<open>What the \<open>write\<close> calls meet; the end of the list is a socket that takes everything.\<close>

datatype wr_event = WTake nat | WIntr | WErr

fun sys_write :: "byte list \<Rightarrow> wr_event list \<Rightarrow> rd_result \<times> wr_event list" where
  "sys_write bs [] = (Got bs, [])"
| "sys_write bs (WTake n # ws) = (Got (take n bs), ws)"
| "sys_write bs (WIntr # ws) = (Eintr, ws)"
| "sys_write bs (WErr # ws) = (Failed, ws)"

lemma sys_write_smaller:
  "sys_write bs ws = (Eintr, ws') \<Longrightarrow> length ws' < length ws"
  "sys_write bs ws = (Got out, ws') \<Longrightarrow> length ws' < length ws \<or> out = bs \<and> ws' = []"
  by (cases "(bs, ws)" rule: sys_write.cases; force)+

text \<open>\<open>xwrite\<close>: the bytes that went out.\<close>

function xwrite_loop :: "byte list \<Rightarrow> byte list \<Rightarrow> wr_event list \<Rightarrow> byte list \<times> wr_event list" where
  "xwrite_loop sent rest ws =
     (case sys_write rest ws of
        (Eintr, ws') \<Rightarrow> xwrite_loop sent rest ws'
      | (Failed, ws') \<Rightarrow> (sent, ws')
      | (Got out, ws') \<Rightarrow>
          (if length out \<noteq> length rest \<and> out \<noteq> [] then xwrite_loop (sent @ out) (drop (length out) rest) ws' else (sent @ out, ws')))"
  by pat_completeness auto
termination by (relation "measure (\<lambda>(_, _, ws). length ws)") (auto dest: sys_write_smaller [OF sym])

definition xwrite :: "byte list \<Rightarrow> wr_event list \<Rightarrow> byte list \<times> wr_event list" where
  "xwrite bs ws = xwrite_loop [] bs ws"

text \<open>A connection: what it will deliver, how it takes data, what has gone out on it, and its timeout in seconds and microseconds.\<close>

record conn =
  c_in :: "rd_event list"
  c_wr :: "wr_event list"
  c_sent :: "byte list"
  c_timeout :: "nat \<times> nat"

definition write_bytes :: "byte list \<Rightarrow> conn \<Rightarrow> bool \<times> conn" where
  "write_bytes bs c = (let (out, ws) = xwrite bs (c_wr c) in (length out = length bs, c\<lparr>c_wr := ws, c_sent := c_sent c @ out\<rparr>))"

definition write_u8 :: "byte \<Rightarrow> conn \<Rightarrow> bool \<times> conn" where
  "write_u8 v = write_bytes [v]"

definition write_u32 :: "u32 \<Rightarrow> conn \<Rightarrow> bool \<times> conn" where
  "write_u32 v = write_bytes (le_enc 4 (unat v))"

definition write_usize :: "addr \<Rightarrow> conn \<Rightarrow> bool \<times> conn" where
  "write_usize v = write_bytes (le_enc 8 (unat v))"

definition write_string :: "cstr \<Rightarrow> conn \<Rightarrow> bool \<times> conn" where
  "write_string str c =
     (let (ok, c1) = write_usize (of_nat (length str)) c
      in if ok then write_bytes str c1 else (False, c1))"

section \<open>The daemon's end\<close>

text \<open>
  \<open>UnixStreamExt\<close>: reading takes the bytes the peer has sent, None when they end too early.  A reply is
  a list of writes and of descriptors sent by \<open>send_fd\<close>.
\<close>

definition read_exact :: "nat \<Rightarrow> byte list \<Rightarrow> (byte list \<times> byte list) option" where
  "read_exact n bs = (if length bs < n then None else Some (take n bs, drop n bs))"

definition rust_read_u8 :: "byte list \<Rightarrow> (byte \<times> byte list) option" where
  "rust_read_u8 bs = map_option (\<lambda>(b, r). (hd b, r)) (read_exact 1 bs)"

definition rust_read_u32 :: "byte list \<Rightarrow> (u32 \<times> byte list) option" where
  "rust_read_u32 bs = map_option (\<lambda>(b, r). (of_nat (le_val b), r)) (read_exact 4 bs)"

definition rust_read_usize :: "byte list \<Rightarrow> (addr \<times> byte list) option" where
  "rust_read_usize bs = map_option (\<lambda>(b, r). (of_nat (le_val b), r)) (read_exact 8 bs)"

definition rust_read_string :: "byte list \<Rightarrow> (rstr \<times> byte list) option" where
  "rust_read_string bs =
     do { (len, r) \<leftarrow> rust_read_usize bs;
          (buf, r') \<leftarrow> read_exact (unat len) r;
          s \<leftarrow> from_utf8 buf;
          Some (s, r') }"

datatype msg = Bytes "byte list" | FdMsg ofd

definition rust_write_u8 :: "byte \<Rightarrow> msg list" where "rust_write_u8 v = [Bytes [v]]"
definition rust_write_u32 :: "u32 \<Rightarrow> msg list" where "rust_write_u32 v = [Bytes (le_enc 4 (unat v))]"
definition rust_write_usize :: "addr \<Rightarrow> msg list" where "rust_write_usize v = [Bytes (le_enc 8 (unat v))]"

definition rust_write_string :: "rstr \<Rightarrow> msg list" where
  "rust_write_string s = rust_write_usize (of_nat (length (as_bytes s))) @ [Bytes (as_bytes s)]"

section \<open>Delivery\<close>

text \<open>
  What a sequence of events delivers of a reply: bytes in pieces of any size, with signals before
  them, and each descriptor on its own message, whose data \<open>d\<close> the library that sends it chooses.
\<close>

datatype token = TB byte | TF ofd

primrec msg_tokens :: "msg \<Rightarrow> token list" where
  "msg_tokens (Bytes bs) = map TB bs"
| "msg_tokens (FdMsg f) = [TF f]"

definition tokens :: "msg list \<Rightarrow> token list" where
  "tokens ms = concat (map msg_tokens ms)"

fun delivery :: "byte list \<Rightarrow> rd_event list \<Rightarrow> token list option" where
  "delivery d [] = Some []"
| "delivery d (Seg None bs # evs) = (if bs = [] then None else map_option ((@) (map TB bs)) (delivery d evs))"
| "delivery d (Seg (Some f) bs # evs) = (if bs = d then map_option ((#) (TF f)) (delivery d evs) else None)"
| "delivery d (RIntr # evs) = (case delivery d evs of Some (TB b # ts) \<Rightarrow> Some (TB b # ts) | _ \<Rightarrow> None)"
| "delivery d (RErr # evs) = None"

lemma tokens_simps [simp]:
  "tokens [] = []" "tokens (Bytes bs # ms) = map TB bs @ tokens ms" "tokens (FdMsg f # ms) = TF f # tokens ms"
  "tokens (ms @ ns) = tokens ms @ tokens ns"
  by (simp_all add: tokens_def)

lemma delivery_byte:
  assumes "delivery d evs = Some (TB b # ts)"
  obtains bs evs' where "evs = Seg None (b # bs) # evs'" "delivery d evs' \<noteq> None" "b # bs \<noteq> []" "TB b # ts = map TB (b # bs) @ the (delivery d evs')"
  | evs' where "evs = RIntr # evs'" "delivery d evs' = Some (TB b # ts)"
  using assms
proof (cases "(d, evs)" rule: delivery.cases)
  case (2 d' bs evs')
  with assms that show ?thesis by (cases bs) auto
qed (auto split: option.splits list.splits token.splits if_splits)

lemma delivery_Seg: "bs \<noteq> [] \<Longrightarrow> delivery d (Seg None bs # evs) = map_option ((@) (map TB bs)) (delivery d evs)"
  by simp

lemma map_TB_eq_append: "map TB bs @ ts = map TB cs @ us \<Longrightarrow> length bs \<le> length cs \<Longrightarrow> bs = take (length bs) cs \<and> ts = map TB (drop (length bs) cs) @ us"
proof (induction bs arbitrary: cs)
  case (Cons b bs)
  then show ?case by (cases cs) auto
qed simp

declare xread_loop.simps [simp del] xwrite_loop.simps [simp del]

lemma xread_loop_delivery:
  "delivery d evs = Some (map TB bs @ ts) \<Longrightarrow> bs \<noteq> [] \<Longrightarrow>
    \<exists>evs'. xread_loop (length got + length bs) got evs = (Some (got @ bs), evs') \<and> delivery d evs' = Some ts"
proof (induction "length evs" arbitrary: evs got bs rule: less_induct)
  case less
  obtain b bs' where b: "bs = b # bs'" using less.prems(2) by (cases bs) auto
  with less.prems(1) have dl: "delivery d evs = Some (TB b # (map TB bs' @ ts))" by simp
  let ?n = "length got + length bs"
  from dl show ?case
  proof (cases rule: delivery_byte)
    case (1 cs evs')
    let ?cs = "b # cs"
    obtain rest where rest: "delivery d evs' = Some rest" "map TB bs @ ts = map TB ?cs @ rest" using 1 b by auto
    show ?thesis
    proof (cases "length ?cs < length bs")
      case True
      with rest(2) have bs: "?cs = take (length ?cs) bs" "rest = map TB (drop (length ?cs) bs) @ ts"
        using map_TB_eq_append [of ?cs rest bs ts] by simp_all
      have "\<exists>evs''. xread_loop (length (got @ ?cs) + length (drop (length ?cs) bs)) (got @ ?cs) evs' = (Some ((got @ ?cs) @ drop (length ?cs) bs), evs'') \<and> delivery d evs'' = Some ts"
        using 1(1) True rest(1) bs(2) by (intro less.hyps) auto
      moreover have "length (got @ ?cs) + length (drop (length ?cs) bs) = ?n" using True by simp
      moreover have "(got @ ?cs) @ drop (length ?cs) bs = got @ bs" by (metis append.assoc append_take_drop_id bs(1))
      moreover have "sys_read (length bs) evs = (Got ?cs, evs')" using 1(1) True less.prems(2) by simp
      then have "xread_loop ?n got evs = xread_loop ?n (got @ ?cs) evs'" using True by (simp add: xread_loop.simps [of ?n got evs])
      ultimately show ?thesis by metis
    next
      case False
      with rest(2) have bs: "take (length bs) ?cs = bs" "ts = map TB (drop (length bs) ?cs) @ rest"
        using map_TB_eq_append [of bs ts ?cs rest] by (simp_all add: eq_commute)
      let ?E = "if length ?cs \<le> length bs then evs' else Seg None (drop (length bs) ?cs) # evs'"
      have "sys_read (length bs) evs = (Got bs, ?E)" using 1(1) bs(1) less.prems(2) by simp
      then have "xread_loop ?n got evs = (Some (got @ bs), ?E)" by (simp add: xread_loop.simps [of ?n got evs])
      moreover have "delivery d ?E = Some ts" using False rest(1) bs(2) by auto
      ultimately show ?thesis by blast
    qed
  next
    case (2 evs')
    then have "\<exists>evs''. xread_loop ?n got evs' = (Some (got @ bs), evs'') \<and> delivery d evs'' = Some ts"
      using b by (intro less.hyps) simp_all
    moreover have "sys_read (length bs) evs = (Eintr, evs')" using 2(1) less.prems(2) by simp
    then have "xread_loop ?n got evs = xread_loop ?n got evs'" by (simp add: xread_loop.simps [of ?n got evs])
    ultimately show ?thesis by simp
  qed
qed

lemma xread_delivery:
  "delivery d evs = Some (map TB bs @ ts) \<Longrightarrow> \<exists>evs'. xread (length bs) evs = (Some bs, evs') \<and> delivery d evs' = Some ts"
proof (cases "bs = []")
  case True
  have "sys_read 0 evs = (Got [], evs)" by (cases "(0::nat, evs)" rule: sys_read.cases) simp_all
  then show "delivery d evs = Some (map TB bs @ ts) \<Longrightarrow> ?thesis" using True by (simp add: xread_def xread_loop.simps)
next
  case False
  then show "delivery d evs = Some (map TB bs @ ts) \<Longrightarrow> ?thesis" using xread_loop_delivery [of d evs bs ts "[]"] by (simp add: xread_def)
qed

lemma read_exact_or_delivery:
  "delivery d evs = Some (map TB bs @ ts) \<Longrightarrow> \<exists>evs'. read_exact_or (length bs) evs = (Some bs, evs') \<and> delivery d evs' = Some ts"
  using xread_delivery [of d evs bs ts] by (auto simp: read_exact_or_def)

lemma read_u8_delivery:
  "delivery d evs = Some (tokens (rust_write_u8 v) @ ts) \<Longrightarrow> \<exists>evs'. read_u8 evs = (v, evs') \<and> delivery d evs' = Some ts"
  using read_exact_or_delivery [of d evs "[v]" ts] by (auto simp: read_u8_def rust_write_u8_def)

lemma read_u32_delivery:
  "delivery d evs = Some (tokens (rust_write_u32 v) @ ts) \<Longrightarrow> \<exists>evs'. read_u32 evs = (v, evs') \<and> delivery d evs' = Some ts"
proof -
  have "unat v < 2 ^ 32" using unsigned_less [of v] by simp
  then show "delivery d evs = Some (tokens (rust_write_u32 v) @ ts) \<Longrightarrow> ?thesis"
    using read_exact_or_delivery [of d evs "le_enc 4 (unat v)" ts] by (auto simp: read_u32_def rust_write_u32_def le_val_le_enc)
qed

lemma read_usize_delivery:
  "delivery d evs = Some (tokens (rust_write_usize v) @ ts) \<Longrightarrow> \<exists>evs'. read_usize evs = (v, evs') \<and> delivery d evs' = Some ts"
proof -
  have "unat v < 2 ^ 64" using unsigned_less [of v] by simp
  then show "delivery d evs = Some (tokens (rust_write_usize v) @ ts) \<Longrightarrow> ?thesis"
    using read_exact_or_delivery [of d evs "le_enc 8 (unat v)" ts] by (auto simp: read_usize_def rust_write_usize_def le_val_le_enc)
qed

text \<open>Strings that both ends take for the same: no zero byte and a length that fits.\<close>

definition wire_string :: "rstr \<Rightarrow> bool" where
  "wire_string s \<longleftrightarrow> 0 \<notin> set s \<and> list_all is_scalar s \<and> length (as_bytes s) + 1 < 2 ^ 64"

lemma read_string_delivery:
  assumes "delivery d evs = Some (tokens (rust_write_string s) @ ts)" "wire_string s"
  shows "\<exists>evs'. read_string evs = Some (as_bytes s, evs') \<and> delivery d evs' = Some ts"
proof -
  let ?len = "of_nat (length (as_bytes s)) :: addr"
  have len: "unat ?len = length (as_bytes s)" using assms(2) by (simp add: wire_string_def unat_of_nat)
  have "unat (?len + 1) = length (as_bytes s) + 1" using assms(2) unat_add_small [of ?len 1] len by (simp add: wire_string_def)
  then have "?len + 1 \<noteq> 0" by (metis add_is_0 unat_0 zero_neq_one)
  moreover obtain evs1 where e1: "read_usize evs = (?len, evs1)" "delivery d evs1 = Some (map TB (as_bytes s) @ ts)"
    using read_usize_delivery [of d evs ?len "map TB (as_bytes s) @ ts"] assms(1) by (auto simp: rust_write_string_def)
  moreover obtain evs2 where "xread (length (as_bytes s)) evs1 = (Some (as_bytes s), evs2)" "delivery d evs2 = Some ts"
    using xread_delivery [OF e1(2)] by blast
  moreover have "takeWhile (\<lambda>b. b \<noteq> 0) (as_bytes s) = as_bytes s"
    using as_bytes_nonzero [of s] assms(2) by (auto simp: wire_string_def list_all_iff takeWhile_eq_all_conv)
  ultimately show ?thesis by (simp add: read_string_def len)
qed

lemma recv_fd_delivery:
  assumes "delivery d evs = Some (TF f # ts)" "length d = 4"
  shows "\<exists>evs'. recv_fd evs = Some (Fd f, evs') \<and> delivery d evs' = Some ts"
proof (cases "(d, evs)" rule: delivery.cases)
  case (2 d' bs evs')
  with assms(1) show ?thesis by (cases bs) auto
qed (use assms in \<open>auto simp: recv_fd_def split: option.splits list.splits token.splits if_splits\<close>)

section \<open>Requests\<close>

lemma xwrite_loop_all: "\<forall>w \<in> set ws. w = WIntr \<or> (\<exists>n>0. w = WTake n) \<Longrightarrow>
    \<exists>ws'. xwrite_loop sent rest ws = (sent @ rest, ws') \<and> set ws' \<subseteq> set ws"
proof (induction ws arbitrary: sent rest)
  case Nil
  then show ?case by (simp add: xwrite_loop.simps [of sent rest "[]"])
next
  case (Cons w ws)
  then consider "w = WIntr" | n where "n > 0" "w = WTake n" by auto
  then show ?case
  proof cases
    case 1
    have "xwrite_loop sent rest (w # ws) = xwrite_loop sent rest ws"
      unfolding xwrite_loop.simps [of sent rest "w # ws"] by (simp add: 1)
    moreover obtain ws' where "xwrite_loop sent rest ws = (sent @ rest, ws')" "set ws' \<subseteq> set ws"
      using Cons.IH [of sent rest] Cons.prems by (meson list.set_intros(2))
    ultimately show ?thesis by auto
  next
    case 2
    show ?thesis
    proof (cases "length rest \<le> n \<or> rest = []")
      case True
      have "xwrite_loop sent rest (w # ws) = (sent @ rest, ws)"
        unfolding xwrite_loop.simps [of sent rest "w # ws"] using 2 True by auto
      then show ?thesis by auto
    next
      case False
      then have "xwrite_loop sent rest (w # ws) = xwrite_loop (sent @ take n rest) (drop n rest) ws"
        unfolding xwrite_loop.simps [of sent rest "w # ws"] using 2 by (simp add: min_def)
      moreover obtain ws' where "xwrite_loop (sent @ take n rest) (drop n rest) ws = ((sent @ take n rest) @ drop n rest, ws')" "set ws' \<subseteq> set ws"
        using Cons.IH [of "sent @ take n rest" "drop n rest"] Cons.prems by (meson list.set_intros(2))
      ultimately show ?thesis by auto
    qed
  qed
qed

text \<open>A connection that may take data in pieces but never fails.\<close>

definition healthy :: "conn \<Rightarrow> bool" where
  "healthy c \<longleftrightarrow> (\<forall>w \<in> set (c_wr c). w = WIntr \<or> (\<exists>n>0. w = WTake n))"

lemma write_bytes_healthy:
  assumes "healthy c"
  shows "\<exists>c'. write_bytes bs c = (True, c') \<and> healthy c' \<and> c_sent c' = c_sent c @ bs \<and> c_in c' = c_in c"
proof -
  obtain ws' where "xwrite bs (c_wr c) = (bs, ws')" "set ws' \<subseteq> set (c_wr c)"
    using xwrite_loop_all [of "c_wr c" "[]" bs] assms by (auto simp: healthy_def xwrite_def)
  with assms show ?thesis by (auto simp: write_bytes_def healthy_def)
qed

lemma write_string_healthy:
  assumes "healthy c"
  shows "\<exists>c'. write_string str c = (True, c') \<and> healthy c' \<and> c_sent c' = c_sent c @ le_enc 8 (unat (of_nat (length str) :: addr)) @ str \<and> c_in c' = c_in c"
proof -
  obtain c1 where c1: "write_usize (of_nat (length str)) c = (True, c1)" "healthy c1"
    "c_sent c1 = c_sent c @ le_enc 8 (unat (of_nat (length str) :: addr))" "c_in c1 = c_in c"
    using write_bytes_healthy [OF assms] unfolding write_usize_def by blast
  then show ?thesis using write_bytes_healthy [OF c1(2), of str] by (auto simp: write_string_def)
qed

subsection \<open>The daemon reads what the injector wrote\<close>

interpretation u8_wire: codec "\<lambda>v. [v]" rust_read_u8
  by unfold_locales (simp add: rust_read_u8_def read_exact_def)

interpretation u32_wire: codec "\<lambda>v. le_enc 4 (unat v)" rust_read_u32
proof unfold_locales
  fix v :: u32 and rest
  have "unat v < 2 ^ 32" using unsigned_less [of v] by simp
  then show "rust_read_u32 (le_enc 4 (unat v) @ rest) = Some (v, rest)"
    by (simp add: rust_read_u32_def read_exact_def le_val_le_enc)
qed

interpretation usize_wire: codec "\<lambda>v. le_enc 8 (unat v)" rust_read_usize
proof unfold_locales
  fix v :: addr and rest
  have "unat v < 2 ^ 64" using unsigned_less [of v] by simp
  then show "rust_read_usize (le_enc 8 (unat v) @ rest) = Some (v, rest)"
    by (simp add: rust_read_usize_def read_exact_def le_val_le_enc)
qed

lemma rust_read_string_sent:
  assumes "wire_string s"
  shows "rust_read_string (le_enc 8 (unat (of_nat (length (as_bytes s)) :: addr)) @ as_bytes s @ rest) = Some (s, rest)"
proof -
  have "unat (of_nat (length (as_bytes s)) :: addr) = length (as_bytes s)" using assms by (simp add: wire_string_def unat_of_nat)
  moreover have "from_utf8 (as_bytes s) = Some s" using assms by (intro from_utf8_as_bytes) (simp add: wire_string_def list_all_iff)
  ultimately show ?thesis
    using usize_wire.dec_enc [of "of_nat (length (as_bytes s))" "as_bytes s @ rest"] by (simp add: rust_read_string_def read_exact_def)
qed

end
