(* ===== verification/Root_Impl.thy ===== *)
theory Root_Impl
  imports Rust_Text
begin

text \<open>
  Detection of the root solution and the queries about a uid (\<open>zygiskd/src/root_impl/\<close>: \<open>mod.rs\<close>,
  \<open>apatch.rs\<close>, \<open>kernelsu.rs\<close>, \<open>magisk.rs\<close>).  The commands, files and kernel interfaces of the root
  solutions are the fields of a parameter; the \<open>OnceLock\<close> statics are a record of options that the
  functions pass along.  A uid is the 32-bit word the code casts between \<open>i32\<close> and \<open>u32\<close>.
\<close>

section \<open>Definitions\<close>

datatype Version = Supported | TooOld

datatype RootImpl = RootNone | RootTooOld | RootMultiple | RootAPatch | RootKernelSU | RootMagisk

datatype Method = Ioctl int | Prctl

record DetectionResult =
  dr_method :: Method
  dr_version :: Version

datatype KernelSuVariant = Official | Next

record root_state =
  ROOT_IMPL :: "RootImpl option"
  KSU_RESULT :: "DetectionResult option option"
  LEGACY_VARIANT :: "KernelSuVariant option"
  LEGACY_SUPPORTS_MANAGER_UID :: "bool option"
  MAGISK_VARIANT_PKG :: "rstr option"

definition root_init :: root_state where
  "root_init = \<lparr>ROOT_IMPL = None, KSU_RESULT = None, LEGACY_VARIANT = None, LEGACY_SUPPORTS_MANAGER_UID = None, MAGISK_VARIANT_PKG = None\<rparr>"

text \<open>
  The surroundings.  \<open>command\<close> is the UTF-8 output of a program, \<open>file_lines\<close> the lines of a file, each
  None when it is not UTF-8, \<open>stat_uid\<close> the owner of a path.  The \<open>ksu_\<close> fields are the kernel's
  answers: the links of \<open>/proc/self/fd\<close>, the descriptor of the \<open>reboot\<close> call (negative: none), the
  ioctls (None: they fail) and the values the \<open>prctl\<close> calls write.
\<close>

record root_env =
  MIN_APATCH_VERSION :: int
  MIN_KSU_VERSION :: int
  MAX_KSU_VERSION :: int
  MIN_MAGISK_VERSION :: int
  command :: "rstr \<Rightarrow> rstr list \<Rightarrow> rstr option"
  file_lines :: "rstr \<Rightarrow> rstr option list option"
  stat_uid :: "rstr \<Rightarrow> u32 option"
  path_exists :: "rstr \<Rightarrow> bool"
  ksu_fd_links :: "(rstr \<times> rstr option) list option"
  ksu_reboot :: int
  ksu_get_info :: "int \<Rightarrow> u32 option"
  ksu_granted :: "int \<Rightarrow> u32 \<Rightarrow> byte option"
  ksu_umount :: "int \<Rightarrow> u32 \<Rightarrow> byte option"
  ksu_manager :: "int \<Rightarrow> u32 option"
  ksu_prctl_version :: int
  ksu_prctl_hook_mode :: byte
  ksu_prctl_manager_ok :: u32
  ksu_prctl_query :: "nat \<Rightarrow> u32 \<Rightarrow> bool \<times> u32"
  ksu_prctl_manager :: "u32 \<times> u32"

subsection \<open>APatch\<close>

record PackageInfo =
  pi_uid :: int
  pi_exclude :: bool
  pi_allow :: bool

definition apatch_detect_version :: "root_env \<Rightarrow> Version option" where
  "apatch_detect_version env =
     (case command env (rs ''apd'') [rs ''-V''] of
        None \<Rightarrow> None
      | Some version_str \<Rightarrow>
          (let ws = split_whitespace version_str
           in if length ws < 2 then None
              else map_option (\<lambda>version. if version \<ge> MIN_APATCH_VERSION env then Supported else TooOld) (parse_i32 (ws ! 1))))"

definition apatch_entry :: "rstr \<Rightarrow> PackageInfo option" where
  "apatch_entry line =
     (let parts = split_char CHR '','' (trim line)
      in if length parts \<ge> 6
         then case (parse_unsigned 8 (parts ! 1), parse_unsigned 8 (parts ! 2), parse_i32 (parts ! 3)) of
                (Some exclude, Some allow, Some uid) \<Rightarrow> Some \<lparr>pi_uid = uid, pi_exclude = (exclude = 1), pi_allow = (allow = 1)\<rparr>
              | _ \<Rightarrow> None
         else None)"

definition apatch_config_file :: "rstr" where
  "apatch_config_file = rs ''/data/adb/ap/package_config''"

definition apatch_parse_config_file :: "root_env \<Rightarrow> PackageInfo list option" where
  "apatch_parse_config_file env =
     (case file_lines env apatch_config_file of
        None \<Rightarrow> None
      | Some ls \<Rightarrow> if None \<in> set ls then None else Some (List.map_filter (\<lambda>l. apatch_entry (the l)) (tl ls)))"

definition apatch_uid_granted_root :: "root_env \<Rightarrow> u32 \<Rightarrow> bool" where
  "apatch_uid_granted_root env uid =
     (case apatch_parse_config_file env of
        Some packages \<Rightarrow> list_ex (\<lambda>pkg. pi_uid pkg = sint uid \<and> pi_allow pkg) packages
      | None \<Rightarrow> False)"

definition apatch_uid_should_umount :: "root_env \<Rightarrow> u32 \<Rightarrow> bool" where
  "apatch_uid_should_umount env uid =
     (case apatch_parse_config_file env of
        Some packages \<Rightarrow> list_ex (\<lambda>pkg. pi_uid pkg = sint uid \<and> pi_exclude pkg) packages
      | None \<Rightarrow> False)"

definition apatch_uid_is_manager :: "root_env \<Rightarrow> u32 \<Rightarrow> bool" where
  "apatch_uid_is_manager env uid = (stat_uid env (rs ''/data/user_de/0/me.bmax.apatch'') = Some uid)"

subsection \<open>KernelSU\<close>

definition KERNEL_SU_OPTION :: u32 where "KERNEL_SU_OPTION = 0xdeadbeef"
definition CMD_UID_GRANTED_ROOT :: nat where "CMD_UID_GRANTED_ROOT = 12"
definition CMD_UID_SHOULD_UMOUNT :: nat where "CMD_UID_SHOULD_UMOUNT = 13"

text \<open>The first descriptor whose link names the driver; it counts only when its name is a number.\<close>

definition scan_driver_fd :: "root_env \<Rightarrow> int option" where
  "scan_driver_fd env =
     (case ksu_fd_links env of
        None \<Rightarrow> None
      | Some entries \<Rightarrow>
          (case find (\<lambda>(_, target). case target of Some t \<Rightarrow> contains_str t (rs ''[ksu_driver]'') | None \<Rightarrow> False) entries of
             Some (name, _) \<Rightarrow> parse_i32 name
           | None \<Rightarrow> None))"

definition init_driver_fd :: "root_env \<Rightarrow> int option" where
  "init_driver_fd env =
     (case scan_driver_fd env of
        Some fd \<Rightarrow> Some fd
      | None \<Rightarrow> if ksu_reboot env \<ge> 0 then Some (ksu_reboot env) else None)"

definition ksu_judge :: "root_env \<Rightarrow> Method \<Rightarrow> int \<Rightarrow> DetectionResult option" where
  "ksu_judge env method version_code =
     (if MIN_KSU_VERSION env \<le> version_code \<and> path_exists env (rs ''/data/adb/ksud'')
      then Some \<lparr>dr_method = method, dr_version = Supported\<rparr>
      else if version_code < MIN_KSU_VERSION env then Some \<lparr>dr_method = method, dr_version = TooOld\<rparr>
      else None)"

definition ksu_stage_ioctl :: "root_env \<Rightarrow> DetectionResult option" where
  "ksu_stage_ioctl env =
     (case init_driver_fd env of
        None \<Rightarrow> None
      | Some fd \<Rightarrow>
          (case ksu_get_info env fd of
             None \<Rightarrow> None
           | Some version \<Rightarrow> if sint version > 0 then ksu_judge env (Ioctl fd) (sint version) else None))"

definition init_legacy_variant_probe :: "root_env \<Rightarrow> root_state \<Rightarrow> root_state" where
  "init_legacy_variant_probe env st =
     (let st = (case LEGACY_VARIANT st of
          None \<Rightarrow> st\<lparr>LEGACY_VARIANT := Some (if ksu_prctl_hook_mode env \<noteq> 0 then Next else Official)\<rparr>
        | Some _ \<Rightarrow> st)
      in case LEGACY_SUPPORTS_MANAGER_UID st of
          None \<Rightarrow> st\<lparr>LEGACY_SUPPORTS_MANAGER_UID := Some (ksu_prctl_manager_ok env = KERNEL_SU_OPTION)\<rparr>
        | Some _ \<Rightarrow> st)"

definition ksu_detect :: "root_env \<Rightarrow> root_state \<Rightarrow> DetectionResult option \<times> root_state" where
  "ksu_detect env st =
     (case ksu_stage_ioctl env of
        Some r \<Rightarrow> (Some r, st)
      | None \<Rightarrow>
          if ksu_prctl_version env > 0
          then (ksu_judge env Prctl (ksu_prctl_version env), init_legacy_variant_probe env st)
          else (None, st))"

definition ksu_detect_version :: "root_env \<Rightarrow> root_state \<Rightarrow> Version option \<times> root_state" where
  "ksu_detect_version env st =
     (case KSU_RESULT st of
        Some r \<Rightarrow> (map_option dr_version r, st)
      | None \<Rightarrow> (let (r, st) = ksu_detect env st in (map_option dr_version r, st\<lparr>KSU_RESULT := Some r\<rparr>)))"

definition ksu_method :: "root_state \<Rightarrow> Method option" where
  "ksu_method st = (case KSU_RESULT st of Some (Some r) \<Rightarrow> Some (dr_method r) | _ \<Rightarrow> None)"

definition ksu_prctl_bool_query :: "root_env \<Rightarrow> nat \<Rightarrow> u32 \<Rightarrow> bool option" where
  "ksu_prctl_bool_query env cmd uid =
     (let (payload, ok) = ksu_prctl_query env cmd uid in if ok = KERNEL_SU_OPTION then Some payload else None)"

definition uid_granted_root_ioctl :: "root_env \<Rightarrow> int \<Rightarrow> u32 \<Rightarrow> bool" where
  "uid_granted_root_ioctl env fd uid = (case ksu_granted env fd uid of Some g \<Rightarrow> g \<noteq> 0 | None \<Rightarrow> False)"

definition uid_granted_root_prctl :: "root_env \<Rightarrow> u32 \<Rightarrow> bool" where
  "uid_granted_root_prctl env uid = (ksu_prctl_bool_query env CMD_UID_GRANTED_ROOT uid = Some True)"

definition uid_should_umount_ioctl :: "root_env \<Rightarrow> int \<Rightarrow> u32 \<Rightarrow> bool" where
  "uid_should_umount_ioctl env fd uid = (case ksu_umount env fd uid of Some u \<Rightarrow> u \<noteq> 0 | None \<Rightarrow> False)"

definition uid_should_umount_prctl :: "root_env \<Rightarrow> u32 \<Rightarrow> bool" where
  "uid_should_umount_prctl env uid = (ksu_prctl_bool_query env CMD_UID_SHOULD_UMOUNT uid = Some True)"

definition uid_is_manager_ioctl :: "root_env \<Rightarrow> int \<Rightarrow> u32 \<Rightarrow> bool" where
  "uid_is_manager_ioctl env fd uid = (ksu_manager env fd = Some uid)"

definition uid_is_manager_prctl :: "root_env \<Rightarrow> root_state \<Rightarrow> u32 \<Rightarrow> bool" where
  "uid_is_manager_prctl env st uid =
     (if LEGACY_SUPPORTS_MANAGER_UID st = Some True \<and> snd (ksu_prctl_manager env) = KERNEL_SU_OPTION
      then uid = fst (ksu_prctl_manager env)
      else case LEGACY_VARIANT st of
        Some Official \<Rightarrow> stat_uid env (rs ''/data/user_de/0/me.weishu.kernelsu'') = Some uid
      | Some Next \<Rightarrow> stat_uid env (rs ''/data/user_de/0/com.rifsxd.ksunext'') = Some uid
      | None \<Rightarrow> False)"

definition ksu_uid_granted_root :: "root_env \<Rightarrow> root_state \<Rightarrow> u32 \<Rightarrow> bool" where
  "ksu_uid_granted_root env st uid =
     (case ksu_method st of Some (Ioctl fd) \<Rightarrow> uid_granted_root_ioctl env fd uid | Some Prctl \<Rightarrow> uid_granted_root_prctl env uid | None \<Rightarrow> False)"

definition ksu_uid_should_umount :: "root_env \<Rightarrow> root_state \<Rightarrow> u32 \<Rightarrow> bool" where
  "ksu_uid_should_umount env st uid =
     (case ksu_method st of Some (Ioctl fd) \<Rightarrow> uid_should_umount_ioctl env fd uid | Some Prctl \<Rightarrow> uid_should_umount_prctl env uid | None \<Rightarrow> False)"

definition ksu_uid_is_manager :: "root_env \<Rightarrow> root_state \<Rightarrow> u32 \<Rightarrow> bool" where
  "ksu_uid_is_manager env st uid =
     (case ksu_method st of Some (Ioctl fd) \<Rightarrow> uid_is_manager_ioctl env fd uid | Some Prctl \<Rightarrow> uid_is_manager_prctl env st uid | None \<Rightarrow> False)"

text \<open>The ioctl that \<open>disable_kernel_umount\<close> issues: descriptor, feature and value.\<close>

definition disable_kernel_umount :: "root_state \<Rightarrow> (int \<times> nat \<times> nat) option" where
  "disable_kernel_umount st = (case ksu_method st of Some (Ioctl fd) \<Rightarrow> Some (fd, 1, 0) | _ \<Rightarrow> None)"

subsection \<open>Magisk\<close>

definition MAGISK_OFFICIAL_PKG :: rstr where "MAGISK_OFFICIAL_PKG = rs ''com.topjohnwu.magisk''"

definition MAGISK_THIRD_PARTIES :: "(rstr \<times> rstr) list" where
  "MAGISK_THIRD_PARTIES = [(rs ''alpha'', rs ''io.github.vvb2060.magisk''), (rs ''kitsune'', rs ''io.github.huskydg.magisk'')]"

definition detect_variant :: "root_env \<Rightarrow> rstr" where
  "detect_variant env =
     (case command env (rs ''magisk'') [rs ''-v''] of
        None \<Rightarrow> MAGISK_OFFICIAL_PKG
      | Some version_str \<Rightarrow>
          (case find (\<lambda>(keyword, _). contains_str version_str keyword) MAGISK_THIRD_PARTIES of
             Some (_, pkg_name) \<Rightarrow> pkg_name
           | None \<Rightarrow> MAGISK_OFFICIAL_PKG))"

definition magisk_detect_version :: "root_env \<Rightarrow> root_state \<Rightarrow> Version option \<times> root_state" where
  "magisk_detect_version env st =
     (case Option.bind (command env (rs ''magisk'') [rs ''-V'']) (\<lambda>v. parse_i32 (trim v)) of
        None \<Rightarrow> (None, st)
      | Some version \<Rightarrow>
          (Some (if version \<ge> MIN_MAGISK_VERSION env then Supported else TooOld),
           (case MAGISK_VARIANT_PKG st of None \<Rightarrow> st\<lparr>MAGISK_VARIANT_PKG := Some (detect_variant env)\<rparr> | Some _ \<Rightarrow> st)))"

definition magisk_sqlite :: "root_env \<Rightarrow> rstr \<Rightarrow> rstr option" where
  "magisk_sqlite env query = command env (rs ''magisk'') [rs ''--sqlite'', query]"

definition magisk_uid_granted_root :: "root_env \<Rightarrow> u32 \<Rightarrow> bool" where
  "magisk_uid_granted_root env uid =
     (case magisk_sqlite env (rs ''SELECT 1 FROM policies WHERE uid='' @ show_int (sint uid) @ rs '' AND policy=2 LIMIT 1'') of
        Some output \<Rightarrow> trim output \<noteq> []
      | None \<Rightarrow> False)"

definition magisk_package :: "rstr \<Rightarrow> rstr option" where
  "magisk_package packages_list =
     (case List.map_filter (\<lambda>line. strip_prefix_of (rs ''package:'') (trim line)) (rust_lines packages_list) of
        pkg # _ \<Rightarrow> Some (hd (split_char CHR '' '' pkg))
      | [] \<Rightarrow> None)"

definition magisk_uid_should_umount :: "root_env \<Rightarrow> u32 \<Rightarrow> bool" where
  "magisk_uid_should_umount env uid =
     (case Option.bind (command env (rs ''pm'') [rs ''list'', rs ''packages'', rs ''--uid'', show_int (sint uid)]) magisk_package of
        None \<Rightarrow> False
      | Some pkg_name \<Rightarrow>
          (case magisk_sqlite env (rs ''SELECT 1 FROM denylist WHERE package_name='' @ [34] @ pkg_name @ [34] @ rs '' LIMIT 1'') of
             Some output \<Rightarrow> trim output \<noteq> []
           | None \<Rightarrow> False))"

definition user_de :: "rstr \<Rightarrow> rstr" where
  "user_de pkg = rs ''/data/user_de/0/'' @ pkg"

definition magisk_uid_is_manager :: "root_env \<Rightarrow> root_state \<Rightarrow> u32 \<Rightarrow> bool" where
  "magisk_uid_is_manager env st uid =
     (let requester = Option.bind (magisk_sqlite env (rs ''SELECT value FROM strings WHERE key='' @ [34] @ rs ''requester'' @ [34] @ rs '' LIMIT 1''))
            (\<lambda>output. Option.bind (strip_prefix_of (rs ''value='') (trim output)) (\<lambda>pkg. stat_uid env (user_de pkg)))
      in case requester of
           Some owner \<Rightarrow> owner = uid
         | None \<Rightarrow> (case Option.bind (MAGISK_VARIANT_PKG st) (\<lambda>pkg. stat_uid env (user_de pkg)) of Some owner \<Rightarrow> owner = uid | None \<Rightarrow> False))"

subsection \<open>The active root solution\<close>

definition detect_root :: "root_env \<Rightarrow> root_state \<Rightarrow> RootImpl \<times> root_state" where
  "detect_root env st =
     (let apatch_version = apatch_detect_version env;
          (ksu_version, st) = ksu_detect_version env st;
          (magisk_version, st) = magisk_detect_version env st;
          detections = [apatch_version \<noteq> None, ksu_version \<noteq> None, magisk_version \<noteq> None]
      in (if length (filter id detections) > 1 then RootMultiple
          else case apatch_version of
            Some v \<Rightarrow> (case v of Supported \<Rightarrow> RootAPatch | TooOld \<Rightarrow> RootTooOld)
          | None \<Rightarrow> (case ksu_version of
              Some v \<Rightarrow> (case v of Supported \<Rightarrow> RootKernelSU | TooOld \<Rightarrow> RootTooOld)
            | None \<Rightarrow> (case magisk_version of
                Some v \<Rightarrow> (case v of Supported \<Rightarrow> RootMagisk | TooOld \<Rightarrow> RootTooOld)
              | None \<Rightarrow> RootNone)), st))"

text \<open>\<open>setup\<close> and \<open>get\<close>; None is the panic of \<open>expect\<close>.\<close>

definition root_setup :: "root_env \<Rightarrow> root_state \<Rightarrow> root_state option" where
  "root_setup env st =
     (let (impl, st) = detect_root env st
      in case ROOT_IMPL st of None \<Rightarrow> Some (st\<lparr>ROOT_IMPL := Some impl\<rparr>) | Some _ \<Rightarrow> None)"

definition uid_granted_root :: "root_env \<Rightarrow> root_state \<Rightarrow> u32 \<Rightarrow> bool option" where
  "uid_granted_root env st uid =
     map_option (\<lambda>impl. case impl of
         RootAPatch \<Rightarrow> apatch_uid_granted_root env uid
       | RootKernelSU \<Rightarrow> ksu_uid_granted_root env st uid
       | RootMagisk \<Rightarrow> magisk_uid_granted_root env uid
       | _ \<Rightarrow> False) (ROOT_IMPL st)"

definition uid_should_umount :: "root_env \<Rightarrow> root_state \<Rightarrow> u32 \<Rightarrow> bool option" where
  "uid_should_umount env st uid =
     map_option (\<lambda>impl. case impl of
         RootAPatch \<Rightarrow> apatch_uid_should_umount env uid
       | RootKernelSU \<Rightarrow> ksu_uid_should_umount env st uid
       | RootMagisk \<Rightarrow> magisk_uid_should_umount env uid
       | _ \<Rightarrow> False) (ROOT_IMPL st)"

definition uid_is_manager :: "root_env \<Rightarrow> root_state \<Rightarrow> u32 \<Rightarrow> bool option" where
  "uid_is_manager env st uid =
     map_option (\<lambda>impl. case impl of
         RootAPatch \<Rightarrow> apatch_uid_is_manager env uid
       | RootKernelSU \<Rightarrow> ksu_uid_is_manager env st uid
       | RootMagisk \<Rightarrow> magisk_uid_is_manager env st uid
       | _ \<Rightarrow> False) (ROOT_IMPL st)"

definition take_over_umount :: "root_state \<Rightarrow> (int \<times> nat \<times> nat) option option" where
  "take_over_umount st = map_option (\<lambda>impl. if impl = RootKernelSU then disable_kernel_umount st else None) (ROOT_IMPL st)"

end
