(* ===== verification/Mount_Ns.thy ===== *)
theory Mount_Ns
  imports Wire Root_Impl
begin

text \<open>
  The cached mount namespaces of the daemon (\<open>zygiskd/src/mount.rs\<close>): the two \<open>OnceLock\<close> cells of
  \<open>MountNamespaceManager\<close>, the fork protocol that fills them, and the mounts a clean namespace drops.
\<close>

section \<open>Definitions\<close>

datatype MountNamespace = Clean | Root

definition MountNamespace_try_from :: "byte \<Rightarrow> MountNamespace option" where
  "MountNamespace_try_from value = (if value = 0 then Some Clean else if value = 1 then Some Root else None)"

record MountNamespaceManager =
  clean_mnt_ns_fd :: "ofd option"
  root_mnt_ns_fd :: "ofd option"

definition mnm_new :: MountNamespaceManager where
  "mnm_new = \<lparr>clean_mnt_ns_fd = None, root_mnt_ns_fd = None\<rparr>"

primrec get_namespace_fd :: "MountNamespaceManager \<Rightarrow> MountNamespace \<Rightarrow> ofd option" where
  "get_namespace_fd m Clean = clean_mnt_ns_fd m"
| "get_namespace_fd m Root = root_mnt_ns_fd m"

primrec set_namespace_fd :: "MountNamespace \<Rightarrow> ofd \<Rightarrow> MountNamespaceManager \<Rightarrow> MountNamespaceManager" where
  "set_namespace_fd Clean fd m = m\<lparr>clean_mnt_ns_fd := Some fd\<rparr>"
| "set_namespace_fd Root fd m = m\<lparr>root_mnt_ns_fd := Some fd\<rparr>"

text \<open>
  The process calls of the parent: \<open>ns_fork\<close> is the child's pid for the namespace of a process, None
  when \<open>pipe\<close> or \<open>fork\<close> fails; \<open>ns_signal\<close> the bytes read from the pipe, None an error, 0 when the
  child died; \<open>ns_open\<close> the open namespace file of the child.
\<close>

record ns_env =
  ns_fork :: "u32 \<Rightarrow> MountNamespace \<Rightarrow> nat option"
  ns_signal :: "nat \<Rightarrow> nat option"
  ns_open :: "nat \<Rightarrow> ofd option"

definition save_mount_namespace :: "ns_env \<Rightarrow> u32 \<Rightarrow> MountNamespace \<Rightarrow> MountNamespaceManager \<Rightarrow> ofd option \<times> MountNamespaceManager" where
  "save_mount_namespace env pid namespace_type m =
     (case get_namespace_fd m namespace_type of
        Some fd \<Rightarrow> (Some fd, m)
      | None \<Rightarrow>
          (case ns_fork env pid namespace_type of
             None \<Rightarrow> (None, m)
           | Some child \<Rightarrow>
               if ns_signal env child = None \<or> ns_signal env child = Some 0 then (None, m)
               else (case ns_open env child of
                 None \<Rightarrow> (None, m)
               | Some fd \<Rightarrow> (Some fd, set_namespace_fd namespace_type fd m))))"

subsection \<open>Cleaning a namespace\<close>

text \<open>The fields that the cleaning uses of a line of \<open>mountinfo\<close>; \<open>mi_point\<close> is None when the path is not UTF-8.\<close>

record MountInfo =
  mi_id :: int
  mi_root :: rstr
  mi_point :: "rstr option"
  mi_source :: "rstr option"

definition root_sources :: "rstr list" where
  "root_sources = [rs ''magisk'', rs ''KSU'', rs ''APatch'', rs ''kpatch'']"

definition ksu_module_source :: "RootImpl \<Rightarrow> MountInfo list \<Rightarrow> rstr option" where
  "ksu_module_source impl infos =
     (if impl = RootKernelSU
      then (case find (\<lambda>info. mi_point info = Some (rs ''/data/adb/modules'')) infos of
              None \<Rightarrow> None
            | Some info \<Rightarrow> (case mi_source info of
                Some source \<Rightarrow> if starts_with source (rs ''/dev/block/loop'') then Some source else None
              | None \<Rightarrow> None))
      else None)"

definition should_unmount :: "rstr option \<Rightarrow> MountInfo \<Rightarrow> bool" where
  "should_unmount ksu_source info \<longleftrightarrow>
     starts_with (mi_root info) (rs ''/adb/modules'')
     \<or> starts_with (case mi_point info of Some p \<Rightarrow> p | None \<Rightarrow> []) (rs ''/data/adb/modules'')
     \<or> (case mi_source info of Some source \<Rightarrow> source \<in> set root_sources | None \<Rightarrow> False)
     \<or> ksu_source \<noteq> None \<and> mi_source info = ksu_source"

text \<open>The paths given to \<open>umount2\<close>, in order; a path with a zero character is no C string and is skipped.\<close>

definition clean_mount_namespace :: "RootImpl \<Rightarrow> MountInfo list \<Rightarrow> rstr list" where
  "clean_mount_namespace impl infos =
     filter (\<lambda>p. 0 \<notin> set p)
       (map (\<lambda>info. case mi_point info of Some p \<Rightarrow> p | None \<Rightarrow> [])
         (sort_key (\<lambda>info. - mi_id info) (filter (should_unmount (ksu_module_source impl infos)) infos)))"

section \<open>Lemmas\<close>

lemma save_keeps:
  "save_mount_namespace env pid t m = (r, m') \<Longrightarrow> get_namespace_fd m u = Some fd \<Longrightarrow> get_namespace_fd m' u = Some fd"
  by (cases t; cases u) (auto simp: save_mount_namespace_def split: option.splits if_splits)

lemma save_result: "save_mount_namespace env pid t m = (Some fd, m') \<Longrightarrow> get_namespace_fd m' t = Some fd"
  by (cases t) (auto simp: save_mount_namespace_def split: option.splits if_splits)

lemma save_origin:
  "save_mount_namespace env pid t m = (r, m') \<Longrightarrow> get_namespace_fd m' u = Some fd \<Longrightarrow>
    get_namespace_fd m u = Some fd \<or> u = t \<and> (\<exists>child. ns_fork env pid t = Some child \<and> ns_open env child = Some fd)"
  by (cases t; cases u) (auto simp: save_mount_namespace_def split: option.splits if_splits)

end
