(* ===== verification/Exclude.thy ===== *)
theory Exclude
  imports Rust_Text "HOL-Library.AList"
begin

text \<open>
  The per-app exclusion list (\<open>zygiskd/src/exclude.rs\<close>): the parsers of \<open>config.prop\<close> and
  \<open>packages.list\<close>, the cached state keyed by the two modification times, and \<open>lookup\<close>.  The file
  system is a parameter, read at the instants of the calls.
\<close>

section \<open>Definitions\<close>

definition CONFIG_PATH :: rstr where "CONFIG_PATH = rs ''/data/adb/nyazygisk/config.prop''"
definition PACKAGES_LIST_PATH :: rstr where "PACKAGES_LIST_PATH = rs ''/data/system/packages.list''"
definition PER_USER_RANGE :: nat where "PER_USER_RANGE = 100000"
definition AID_APP_START :: nat where "AID_APP_START = 10000"
definition AID_APP_END :: nat where "AID_APP_END = 19999"

text \<open>\<open>mtime\<close> is None when the file has no metadata, \<open>read_to_string\<close> when it cannot be read.\<close>

record 't file_view =
  mtime :: "rstr \<Rightarrow> 't option"
  read_to_string :: "rstr \<Rightarrow> rstr option"

record 't exclude_state =
  ex_loaded :: bool
  ex_config_mtime :: "'t option"
  ex_list_mtime :: "'t option"
  ex_unmount :: bool
  ex_packages :: "rstr set"
  ex_app_ids :: "nat set"

definition State_default :: "'t exclude_state" where
  "State_default = \<lparr>ex_loaded = False, ex_config_mtime = None, ex_list_mtime = None, ex_unmount = False,
     ex_packages = {}, ex_app_ids = {}\<rparr>"

definition config_line :: "rstr \<Rightarrow> rstr set \<times> bool \<Rightarrow> rstr set \<times> bool" where
  "config_line raw acc =
     (case acc of (packages, unmount) \<Rightarrow>
        let line = trim raw
        in case strip_prefix_of (rs ''exclude_apps='') line of
             Some value \<Rightarrow> (set (filter (\<lambda>p. p \<noteq> []) (map trim (split_char CHR '','' value))), unmount)
           | None \<Rightarrow> (case strip_prefix_of (rs ''exclude_unmount='') line of
                Some value \<Rightarrow> (packages, trim value \<noteq> rs ''0'')
              | None \<Rightarrow> (packages, unmount)))"

definition parse_config :: "rstr \<Rightarrow> rstr set \<times> bool" where
  "parse_config t = fold config_line (rust_lines t) ({}, True)"

definition app_id_of :: "nat \<Rightarrow> nat option" where
  "app_id_of uid = (let app_id = uid mod PER_USER_RANGE in if AID_APP_START \<le> app_id \<and> app_id \<le> AID_APP_END then Some app_id else None)"

definition package_entry :: "rstr \<Rightarrow> (rstr \<times> nat) option" where
  "package_entry line =
     (case split_whitespace line of
        name # uid # _ \<Rightarrow> Option.bind (parse_unsigned 32 uid) (\<lambda>u. map_option (Pair name) (app_id_of u))
      | _ \<Rightarrow> None)"

definition count_package :: "rstr set \<Rightarrow> rstr \<Rightarrow> (nat \<times> nat \<times> nat) list \<Rightarrow> (nat \<times> nat \<times> nat) list" where
  "count_package packages line by_app_id =
     (case package_entry line of
        None \<Rightarrow> by_app_id
      | Some (name, app_id) \<Rightarrow>
          (let (total, excluded) = (case map_of by_app_id app_id of Some e \<Rightarrow> e | None \<Rightarrow> (0, 0))
           in AList.update app_id (total + 1, if name \<in> packages then excluded + 1 else excluded) by_app_id))"

definition resolve_app_ids :: "rstr set \<Rightarrow> rstr option \<Rightarrow> nat set" where
  "resolve_app_ids packages list_text =
     (if packages = {} then {}
      else case list_text of
        None \<Rightarrow> {}
      | Some t \<Rightarrow> set (map fst (filter (\<lambda>(_, total, excluded). excluded > 0 \<and> total = excluded)
                    (fold (count_package packages) (rust_lines t) []))))"

text \<open>\<open>w k\<close> are the files at the \<open>k\<close>th access of the call.\<close>

definition reload :: "(nat \<Rightarrow> 't file_view) \<Rightarrow> 't exclude_state \<Rightarrow> 't exclude_state" where
  "reload w st =
     (let config_mtime = mtime (w 0) CONFIG_PATH;
          list_mtime = mtime (w 1) PACKAGES_LIST_PATH
      in if ex_loaded st \<and> ex_config_mtime st = config_mtime \<and> ex_list_mtime st = list_mtime then st
         else let (packages, unmount) = (case read_to_string (w 2) CONFIG_PATH of Some t \<Rightarrow> parse_config t | None \<Rightarrow> ({}, True))
              in \<lparr>ex_loaded = True, ex_config_mtime = config_mtime, ex_list_mtime = list_mtime, ex_unmount = unmount,
                  ex_packages = packages, ex_app_ids = resolve_app_ids packages (read_to_string (w 3) PACKAGES_LIST_PATH)\<rparr>)"

definition refresh :: "(nat \<Rightarrow> 't file_view) \<Rightarrow> 't exclude_state option \<Rightarrow> 't exclude_state option" where
  "refresh w st = Some (reload w (case st of Some s \<Rightarrow> s | None \<Rightarrow> State_default))"

definition lookup :: "(nat \<Rightarrow> 't file_view) \<Rightarrow> nat \<Rightarrow> 't exclude_state option \<Rightarrow> bool option \<times> 't exclude_state option" where
  "lookup w uid st =
     (case app_id_of uid of
        None \<Rightarrow> (None, st)
      | Some app_id \<Rightarrow>
          (let s = reload w (case st of Some s \<Rightarrow> s | None \<Rightarrow> State_default)
           in (if app_id \<in> ex_app_ids s then Some (ex_unmount s) else None, Some s)))"

section \<open>Lemmas\<close>

subsection \<open>Application ids\<close>

text \<open>The packages of an application id, in the order of the list.\<close>

definition packages_of :: "rstr \<Rightarrow> nat \<Rightarrow> rstr list" where
  "packages_of t a = map fst (filter (\<lambda>e. snd e = a) (List.map_filter package_entry (rust_lines t)))"

definition listed :: "rstr set \<Rightarrow> rstr list \<Rightarrow> (nat \<times> nat) option" where
  "listed packages ns = (if ns = [] then None else Some (length ns, length (filter (\<lambda>n. n \<in> packages) ns)))"

lemma count_package_fold:
  fixes pk :: "rstr list \<Rightarrow> nat \<Rightarrow> rstr list"
  defines "pk \<equiv> \<lambda>ls a. map fst (filter (\<lambda>e. snd e = a) (List.map_filter package_entry ls))"
  shows "distinct (map fst m) \<Longrightarrow> (\<And>a. map_of m a = listed P (ns a)) \<Longrightarrow>
    distinct (map fst (fold (count_package P) ls m)) \<and> (\<forall>a. map_of (fold (count_package P) ls m) a = listed P (ns a @ pk ls a))"
proof (induction ls arbitrary: m ns)
  case Nil
  then show ?case by (simp add: pk_def map_filter_simps)
next
  case (Cons l ls)
  show ?case
  proof (cases "package_entry l")
    case None
    with Cons.IH [of m ns] Cons.prems show ?thesis by (simp add: count_package_def pk_def map_filter_simps)
  next
    case (Some e)
    obtain n a where e: "e = (n, a)" by force
    let ?ns = "ns(a := ns a @ [n])"
    have "distinct (map fst (count_package P l m))"
      using Cons.prems(1) by (simp add: count_package_def Some e distinct_update split: prod.split)
    moreover have "map_of (count_package P l m) b = listed P (?ns b)" for b
      using Cons.prems(2) [of a] Cons.prems(2) [of b]
      by (cases "ns a = []") (simp_all add: count_package_def Some e update_conv' listed_def)
    ultimately have "distinct (map fst (fold (count_package P) ls (count_package P l m)))"
      "map_of (fold (count_package P) ls (count_package P l m)) b = listed P (?ns b @ pk ls b)" for b
      using Cons.IH [of "count_package P l m" ?ns] by blast+
    moreover have "?ns b @ pk ls b = ns b @ pk (l # ls) b" for b
      by (simp add: pk_def map_filter_simps Some e)
    ultimately show ?thesis by simp
  qed
qed

lemma resolve_app_ids_iff:
  "a \<in> resolve_app_ids P (Some t) \<longleftrightarrow> packages_of t a \<noteq> [] \<and> set (packages_of t a) \<subseteq> P"
proof (cases "P = {}")
  case True
  then show ?thesis by (auto simp: resolve_app_ids_def)
next
  case False
  let ?m = "fold (count_package P) (rust_lines t) []"
  let ?ns = "packages_of t a"
  have m: "distinct (map fst ?m)" "map_of ?m a = listed P ?ns"
    using count_package_fold [of "[]" P "\<lambda>_. []" "rust_lines t"] by (simp_all add: packages_of_def listed_def)
  have "a \<in> resolve_app_ids P (Some t) \<longleftrightarrow> (\<exists>total excluded. map_of ?m a = Some (total, excluded) \<and> excluded > 0 \<and> total = excluded)"
    using False m(1) by (force simp: resolve_app_ids_def map_of_eq_Some_iff)
  also have "\<dots> \<longleftrightarrow> ?ns \<noteq> [] \<and> length (filter (\<lambda>n. n \<in> P) ?ns) > 0 \<and> length ?ns = length (filter (\<lambda>n. n \<in> P) ?ns)"
    by (auto simp: m(2) listed_def)
  also have "\<dots> \<longleftrightarrow> ?ns \<noteq> [] \<and> filter (\<lambda>n. n \<in> P) ?ns = ?ns"
    by (metis filter_id_conv filter_True length_filter_less length_greater_0_conv less_irrefl)
  also have "\<dots> \<longleftrightarrow> ?ns \<noteq> [] \<and> set ?ns \<subseteq> P" by (auto simp: filter_id_conv)
  finally show ?thesis .
qed

subsection \<open>Runs of the daemon's calls\<close>

datatype ex_call = Refresh "nat \<Rightarrow> nat" | Lookup nat "nat \<Rightarrow> nat"

fun call_times :: "ex_call \<Rightarrow> nat \<Rightarrow> nat" where
  "call_times (Refresh ts) = ts"
| "call_times (Lookup uid ts) = ts"

fun run_call :: "(nat \<Rightarrow> 't file_view) \<Rightarrow> ex_call \<Rightarrow> 't exclude_state option \<Rightarrow> 't exclude_state option" where
  "run_call fs (Refresh ts) st = refresh (\<lambda>k. fs (ts k)) st"
| "run_call fs (Lookup uid ts) st = snd (lookup (\<lambda>k. fs (ts k)) uid st)"

text \<open>The lock of the state puts the calls in order.\<close>

fun calls_until :: "nat \<Rightarrow> ex_call list \<Rightarrow> nat \<Rightarrow> bool" where
  "calls_until s [] e \<longleftrightarrow> s \<le> e"
| "calls_until s (c # cs) e \<longleftrightarrow> s \<le> call_times c 0 \<and> mono (call_times c) \<and> calls_until (call_times c 3) cs e"

definition config_of :: "rstr option \<Rightarrow> rstr set \<times> bool" where
  "config_of c = (case c of Some t \<Rightarrow> parse_config t | None \<Rightarrow> ({}, True))"

definition exclusion :: "rstr option \<Rightarrow> rstr option \<Rightarrow> nat \<Rightarrow> bool option" where
  "exclusion config list uid =
     (case (app_id_of uid, list) of
        (Some a, Some t) \<Rightarrow> if packages_of t a \<noteq> [] \<and> set (packages_of t a) \<subseteq> fst (config_of config) then Some (snd (config_of config)) else None
      | _ \<Rightarrow> None)"

definition loaded_from :: "'t file_view \<Rightarrow> 't file_view \<Rightarrow> 't file_view \<Rightarrow> 't file_view \<Rightarrow> 't exclude_state \<Rightarrow> bool" where
  "loaded_from f0 f1 f2 f3 s \<longleftrightarrow> ex_config_mtime s = mtime f0 CONFIG_PATH \<and> ex_list_mtime s = mtime f1 PACKAGES_LIST_PATH
     \<and> (ex_packages s, ex_unmount s) = config_of (read_to_string f2 CONFIG_PATH)
     \<and> ex_app_ids s = resolve_app_ids (ex_packages s) (read_to_string f3 PACKAGES_LIST_PATH)"

definition state_at :: "(nat \<Rightarrow> 't file_view) \<Rightarrow> nat \<Rightarrow> 't exclude_state option \<Rightarrow> bool" where
  "state_at fs e st \<longleftrightarrow> (\<forall>s. st = Some s \<longrightarrow> ex_loaded s \<longrightarrow>
     (\<exists>t0 t1 t2 t3. t0 \<le> t1 \<and> t1 \<le> t2 \<and> t2 \<le> t3 \<and> t3 \<le> e \<and> loaded_from (fs t0) (fs t1) (fs t2) (fs t3) s))"

lemma state_at_later: "state_at fs e st \<Longrightarrow> e \<le> e' \<Longrightarrow> state_at fs e' st"
  unfolding state_at_def by (metis (no_types, lifting) le_trans)

lemma state_at_loaded:
  "loaded_from (fs t0) (fs t1) (fs t2) (fs t3) s \<Longrightarrow> t0 \<le> t1 \<Longrightarrow> t1 \<le> t2 \<Longrightarrow> t2 \<le> t3 \<Longrightarrow> t3 \<le> e \<Longrightarrow> state_at fs e (Some s)"
  unfolding state_at_def by blast

lemma reload_loads:
  "ex_loaded (reload w st) \<and> (reload w st = st \<and> ex_loaded st \<and> ex_config_mtime st = mtime (w 0) CONFIG_PATH \<and> ex_list_mtime st = mtime (w 1) PACKAGES_LIST_PATH
    \<or> loaded_from (w 0) (w 1) (w 2) (w 3) (reload w st))"
  by (auto simp: reload_def loaded_from_def config_of_def Let_def split: option.split prod.split)

lemma mono_times:
  assumes "mono (ts :: nat \<Rightarrow> nat)"
  shows "ts 0 \<le> ts 1" "ts 1 \<le> ts 2" "ts 2 \<le> ts 3" "ts 0 \<le> ts 2" "ts 1 \<le> ts 3" "ts 0 \<le> ts 3"
  using assms by (auto simp: mono_def)

lemma reload_state:
  assumes "state_at fs e st" "e \<le> ts 0" "mono ts"
  shows "state_at fs (ts 3) (Some (reload (\<lambda>k. fs (ts k)) (case st of Some s \<Rightarrow> s | None \<Rightarrow> State_default)))"
proof -
  let ?s = "case st of Some s \<Rightarrow> s | None \<Rightarrow> State_default"
  let ?r = "reload (\<lambda>k. fs (ts k)) ?s"
  consider "?r = ?s" "ex_loaded ?s" | "loaded_from (fs (ts 0)) (fs (ts 1)) (fs (ts 2)) (fs (ts 3)) ?r"
    using reload_loads [of "\<lambda>k. fs (ts k)" ?s] by blast
  then show ?thesis
  proof cases
    case 1
    then obtain s where "st = Some s" by (cases st) (auto simp: State_default_def)
    then have "state_at fs e (Some ?r)" using assms(1) 1 by simp
    moreover have "e \<le> ts 3" using assms(2) mono_times [OF assms(3)] by linarith
    ultimately show ?thesis by (rule state_at_later)
  next
    case 2
    then show ?thesis by (rule state_at_loaded) (use mono_times [OF assms(3)] in auto)
  qed
qed

lemma run_call_state: "state_at fs e st \<Longrightarrow> e \<le> call_times c 0 \<Longrightarrow> mono (call_times c) \<Longrightarrow> state_at fs (call_times c 3) (run_call fs c st)"
proof (cases c)
  case (Lookup uid ts)
  assume a: "state_at fs e st" "e \<le> call_times c 0" "mono (call_times c)"
  with Lookup have "e \<le> ts 3" using mono_times [of ts] by simp
  with a(1) have "state_at fs (ts 3) st" by (rule state_at_later)
  with a Lookup reload_state [of fs e st ts] show ?thesis by (simp add: lookup_def Let_def split: option.split)
qed (simp add: refresh_def reload_state)

lemma run_state: "state_at fs s st \<Longrightarrow> calls_until s cs e \<Longrightarrow> state_at fs e (fold (run_call fs) cs st)"
proof (induction cs arbitrary: s st)
  case Nil
  then show ?case using state_at_later [of fs s st e] by simp
next
  case (Cons c cs)
  then have "state_at fs (call_times c 3) (run_call fs c st)" by (intro run_call_state [of fs s]) simp_all
  with Cons show ?case by simp
qed

text \<open>The configuration and the package list that a state stands for.\<close>

definition answers_from :: "rstr option \<Rightarrow> rstr option \<Rightarrow> 't exclude_state \<Rightarrow> bool" where
  "answers_from config list s \<longleftrightarrow> (ex_packages s, ex_unmount s) = config_of config \<and> ex_app_ids s = resolve_app_ids (ex_packages s) list"

lemma reload_read:
  assumes st: "state_at fs e st" "e \<le> ts 0" "mono ts"
  shows "\<exists>t0 t1 i j. t0 \<le> t1 \<and> t1 \<le> i \<and> i \<le> j \<and> j \<le> ts 3 \<and>
    mtime (fs t0) CONFIG_PATH = mtime (fs (ts 0)) CONFIG_PATH \<and> mtime (fs t1) PACKAGES_LIST_PATH = mtime (fs (ts 1)) PACKAGES_LIST_PATH \<and>
    answers_from (read_to_string (fs i) CONFIG_PATH) (read_to_string (fs j) PACKAGES_LIST_PATH)
      (reload (\<lambda>k. fs (ts k)) (case st of Some s \<Rightarrow> s | None \<Rightarrow> State_default))"
proof -
  define s where "s = (case st of Some s \<Rightarrow> s | None \<Rightarrow> State_default)"
  define r where "r = reload (\<lambda>k. fs (ts k)) s"
  note ts = mono_times [OF st(3)]
  consider "r = s" "ex_loaded s" "ex_config_mtime s = mtime (fs (ts 0)) CONFIG_PATH" "ex_list_mtime s = mtime (fs (ts 1)) PACKAGES_LIST_PATH"
    | "loaded_from (fs (ts 0)) (fs (ts 1)) (fs (ts 2)) (fs (ts 3)) r"
    using reload_loads [of "\<lambda>k. fs (ts k)" s] unfolding r_def by blast
  then have "\<exists>t0 t1 t2 t3. t0 \<le> t1 \<and> t1 \<le> t2 \<and> t2 \<le> t3 \<and> t3 \<le> ts 3 \<and> loaded_from (fs t0) (fs t1) (fs t2) (fs t3) r \<and>
      mtime (fs t0) CONFIG_PATH = mtime (fs (ts 0)) CONFIG_PATH \<and> mtime (fs t1) PACKAGES_LIST_PATH = mtime (fs (ts 1)) PACKAGES_LIST_PATH"
  proof cases
    case 1
    then have "st = Some s" by (cases st) (auto simp: State_default_def s_def)
    with st(1) 1(2) obtain t0 t1 t2 t3 where t: "t0 \<le> t1" "t1 \<le> t2" "t2 \<le> t3" "t3 \<le> e" "loaded_from (fs t0) (fs t1) (fs t2) (fs t3) s"
      unfolding state_at_def by blast
    moreover from t(4) st(2) ts have "t3 \<le> ts 3" by linarith
    ultimately show ?thesis using 1 by (metis loaded_from_def)
  next
    case 2
    with ts show ?thesis by blast
  qed
  then show ?thesis unfolding r_def s_def answers_from_def loaded_from_def by blast
qed

lemma lookup_answer:
  assumes "answers_from config list (reload w (case st of Some s \<Rightarrow> s | None \<Rightarrow> State_default))"
  shows "fst (lookup w uid st) = exclusion config list uid"
proof -
  define r where "r = reload w (case st of Some s \<Rightarrow> s | None \<Rightarrow> State_default)"
  from assms have "fst (config_of config) = ex_packages r" "snd (config_of config) = ex_unmount r" "ex_app_ids r = resolve_app_ids (ex_packages r) list"
    by (simp_all add: answers_from_def r_def [symmetric]) (metis fst_conv snd_conv)+
  then show ?thesis
    by (cases list) (simp_all add: lookup_def exclusion_def r_def [symmetric] Let_def resolve_app_ids_iff resolve_app_ids_def [of _ None] split: option.split)
qed

lemma app_id_bounds: "app_id_of uid = Some a \<Longrightarrow> 10000 \<le> uid mod 100000 \<and> uid mod 100000 \<le> 19999 \<and> a = uid mod 100000"
  by (auto simp: app_id_of_def Let_def PER_USER_RANGE_def AID_APP_START_def AID_APP_END_def split: if_splits)

lemmas text_defs = Let_def trim_def trim_start_def split_char_def split_whitespace_def strip_cr_def
  strip_prefix_of_def is_whitespace_def parse_unsigned_def

section \<open>Properties\<close>


text \<open>
  Files that change at instant 10, with their modification times: first both packages of application id 10001 are
  excluded, then both of 10002.  The lookup after the change does not answer from the state that the first one loaded.
\<close>

definition sample_files :: "nat \<Rightarrow> nat file_view" where
  "sample_files t = \<lparr>mtime = (\<lambda>_. Some (if t < 10 then 7 else 8)),
     read_to_string = (\<lambda>p. if p = CONFIG_PATH then Some (if t < 10 then rs ''exclude_apps=a, b,c'' else rs ''exclude_apps=b,d'')
       else Some (rs ''a 10001'' @ [10] @ rs ''c 10001'' @ [10] @ rs ''b 10002'' @ [10] @ rs ''d 110002''))\<rparr>"


end
