(* ===== verification/Flag_Cache.thy ===== *)
theory Flag_Cache
  imports Prelude
begin

unbundle bit_operations_syntax

text \<open>
  The cache of process flags in shared memory: the writer in the daemon
  (\<open>initialize_shared_memory\<close>, \<open>cache_process_flags\<close> and \<open>invalidate_process_flag_cache\<close>,
  \<open>zygiskd/src/zygiskd.rs\<close>, layout in \<open>zygiskd/src/constants.rs\<close>) and the reader in the injected
  process (the cache read of \<open>GetProcessFlags\<close>, \<open>loader/src/common/daemon.cpp\<close>).  The table is an open-addressing
  hash table guarded by a version counter that is odd while the writer is at work.  A write is the
  sequence of its atomic stores; writers exclude each other by their lock.  The reader performs its
  loads at any moments of the writer's history, in order, which is what the fences of both sides
  provide.
\<close>

section \<open>Definitions\<close>

subsection \<open>The table\<close>

definition SHM_HASH_MAP_SIZE :: nat where "SHM_HASH_MAP_SIZE = 8192"

definition NO_UID :: u32 where "NO_UID = - 1"

record shm =
  sh_version :: u32
  sh_uid :: "nat \<Rightarrow> u32"
  sh_flags :: "nat \<Rightarrow> u32"

definition shm_home :: "u32 \<Rightarrow> nat" where
  "shm_home uid = unat uid mod SHM_HASH_MAP_SIZE"

definition next_slot :: "nat \<Rightarrow> nat" where
  "next_slot index = (index + 1) mod SHM_HASH_MAP_SIZE"

definition initialize_shared_memory :: shm where
  "initialize_shared_memory = \<lparr>sh_version = 0, sh_uid = (\<lambda>_. NO_UID), sh_flags = (\<lambda>_. 0)\<rparr>"

subsection \<open>The writer\<close>

datatype store = StVersion u32 | StUid nat u32 | StFlags nat u32

fun apply_store :: "store \<Rightarrow> shm \<Rightarrow> shm" where
  "apply_store (StVersion v) sh = sh\<lparr>sh_version := v\<rparr>"
| "apply_store (StUid i u) sh = sh\<lparr>sh_uid := (sh_uid sh)(i := u)\<rparr>"
| "apply_store (StFlags i f) sh = sh\<lparr>sh_flags := (sh_flags sh)(i := f)\<rparr>"

text \<open>The probe loop of the writer; one turn of the table is \<open>SHM_HASH_MAP_SIZE\<close> rounds.\<close>

primrec writer_probe :: "shm \<Rightarrow> u32 \<Rightarrow> nat \<Rightarrow> nat \<Rightarrow> nat \<Rightarrow> nat option" where
  "writer_probe sh uid start 0 index = None"
| "writer_probe sh uid start (Suc n) index =
     (if sh_uid sh index = NO_UID \<or> sh_uid sh index = uid then Some index
      else if next_slot index = start then None
      else writer_probe sh uid start n (next_slot index))"

definition shm_slot :: "shm \<Rightarrow> u32 \<Rightarrow> nat option" where
  "shm_slot sh uid = writer_probe sh uid (shm_home uid) SHM_HASH_MAP_SIZE (shm_home uid)"

definition cache_process_flags :: "u32 \<Rightarrow> u32 \<Rightarrow> shm \<Rightarrow> store list" where
  "cache_process_flags uid flags sh =
     [StVersion (sh_version sh + 1)] @
     (case shm_slot sh uid of Some i \<Rightarrow> [StUid i uid, StFlags i flags] | None \<Rightarrow> []) @
     [StVersion (sh_version sh + 2)]"

definition invalidate_process_flag_cache :: "shm \<Rightarrow> store list" where
  "invalidate_process_flag_cache sh =
     [StVersion (sh_version sh + 1)] @
     concat (map (\<lambda>i. [StUid i NO_UID, StFlags i 0]) [0..<SHM_HASH_MAP_SIZE]) @
     [StVersion (sh_version sh + 2)]"

datatype write_op = CacheFlags u32 u32 | Invalidate

fun op_stores :: "write_op \<Rightarrow> shm \<Rightarrow> store list" where
  "op_stores (CacheFlags uid flags) = cache_process_flags uid flags"
| "op_stores Invalidate = invalidate_process_flag_cache"

definition run_op :: "write_op \<Rightarrow> shm \<Rightarrow> shm" where
  "run_op w sh = fold apply_store (op_stores w sh) sh"

text \<open>Every state of the table while a list of stores, or of operations, is carried out.\<close>

primrec store_history :: "store list \<Rightarrow> shm \<Rightarrow> shm list" where
  "store_history [] sh = []"
| "store_history (s # ss) sh = apply_store s sh # store_history ss (apply_store s sh)"

primrec write_history :: "write_op list \<Rightarrow> shm \<Rightarrow> shm list" where
  "write_history [] sh = []"
| "write_history (w # ws) sh = store_history (op_stores w sh) sh @ write_history ws (run_op w sh)"

definition moment :: "write_op list \<Rightarrow> shm \<Rightarrow> nat \<Rightarrow> shm" where
  "moment ws sh t = (let h = sh # write_history ws sh in h ! min t (length h - 1))"

subsection \<open>The reader\<close>

text \<open>
  \<open>at k\<close> is the table at the moment of the \<open>k\<close>th load.  The result of the probe is the number of the
  next load and the flags found.
\<close>

primrec reader_probe :: "(nat \<Rightarrow> shm) \<Rightarrow> u32 \<Rightarrow> nat \<Rightarrow> nat \<Rightarrow> nat \<Rightarrow> nat \<Rightarrow> (nat \<times> u32) option" where
  "reader_probe at uid start 0 index k = None"
| "reader_probe at uid start (Suc n) index k =
     (let current_uid = sh_uid (at k) index
      in if current_uid = uid then Some (k + 2, sh_flags (at (k + 1)) index)
         else if current_uid = NO_UID then None
         else if next_slot index = start then None
         else reader_probe at uid start n (next_slot index) (k + 1))"

definition cached_flags :: "(nat \<Rightarrow> shm) \<Rightarrow> u32 \<Rightarrow> u32 option" where
  "cached_flags at uid =
     (let version_before = sh_version (at 0)
      in if version_before AND 1 \<noteq> 0 then None
         else case reader_probe at uid (shm_home uid) SHM_HASH_MAP_SIZE (shm_home uid) 1 of
           None \<Rightarrow> None
         | Some (k, flags) \<Rightarrow> if version_before = sh_version (at k) then Some flags else None)"

text \<open>A read that nothing interferes with.\<close>

definition shm_lookup :: "shm \<Rightarrow> u32 \<Rightarrow> u32 option" where
  "shm_lookup sh uid = cached_flags (\<lambda>_. sh) uid"

subsection \<open>Reference: well-formed tables\<close>

definition slot_at :: "u32 \<Rightarrow> nat \<Rightarrow> nat" where
  "slot_at uid k = (shm_home uid + k) mod SHM_HASH_MAP_SIZE"

definition probe_hit :: "shm \<Rightarrow> u32 \<Rightarrow> nat \<Rightarrow> bool" where
  "probe_hit sh uid k \<longleftrightarrow> sh_uid sh (slot_at uid k) = NO_UID \<or> sh_uid sh (slot_at uid k) = uid"

text \<open>Every entry is the first hit of its own probe sequence, and no write is in progress.\<close>

definition shm_ok :: "shm \<Rightarrow> bool" where
  "shm_ok sh \<longleftrightarrow> sh_version sh AND 1 = 0 \<and>
     (\<forall>u k. u \<noteq> NO_UID \<longrightarrow> k < SHM_HASH_MAP_SIZE \<longrightarrow> sh_uid sh (slot_at u k) = u \<longrightarrow> (\<forall>j<k. \<not> probe_hit sh u j))"

definition shm_room :: "shm \<Rightarrow> u32 \<Rightarrow> bool" where
  "shm_room sh uid \<longleftrightarrow> (\<exists>k<SHM_HASH_MAP_SIZE. probe_hit sh uid k)"

text \<open>The daemon caches no flags for the uid that marks a free slot.\<close>

fun valid_ops :: "write_op list \<Rightarrow> bool" where
  "valid_ops [] = True"
| "valid_ops (CacheFlags u f # ws) = (u \<noteq> NO_UID \<and> valid_ops ws)"
| "valid_ops (Invalidate # ws) = valid_ops ws"

lemma valid_ops_append: "valid_ops (vs @ ws) \<longleftrightarrow> valid_ops vs \<and> valid_ops ws"
  by (induction vs rule: valid_ops.induct) auto

lemma valid_ops_take: "valid_ops ws \<Longrightarrow> valid_ops (take n ws)"
  by (metis append_take_drop_id valid_ops_append)

section \<open>The interface of a flag cache\<close>

locale flag_map =
  fixes ok :: "'s \<Rightarrow> bool" and lookup :: "'s \<Rightarrow> u32 \<Rightarrow> u32 option" and room :: "'s \<Rightarrow> u32 \<Rightarrow> bool"
    and insert :: "u32 \<Rightarrow> u32 \<Rightarrow> 's \<Rightarrow> 's" and clear :: "'s \<Rightarrow> 's" and empty :: 's
  assumes ok_empty: "ok empty"
    and ok_insert: "ok s \<Longrightarrow> u \<noteq> NO_UID \<Longrightarrow> ok (insert u f s)"
    and ok_clear: "ok s \<Longrightarrow> ok (clear s)"
    and lookup_empty: "u \<noteq> NO_UID \<Longrightarrow> lookup empty u = None"
    and lookup_clear: "ok s \<Longrightarrow> u \<noteq> NO_UID \<Longrightarrow> lookup (clear s) u = None"
    and lookup_insert: "ok s \<Longrightarrow> u \<noteq> NO_UID \<Longrightarrow> v \<noteq> NO_UID \<Longrightarrow>
      lookup (insert u f s) v = (if v = u \<and> room s u then Some f else lookup s v)"
    and lookup_room: "ok s \<Longrightarrow> u \<noteq> NO_UID \<Longrightarrow> lookup s u = Some f \<Longrightarrow> room s u"
begin

fun step :: "write_op \<Rightarrow> 's \<Rightarrow> 's" where
  "step (CacheFlags u f) s = insert u f s"
| "step Invalidate s = clear s"

lemma run_ok: "ok s \<Longrightarrow> valid_ops ws \<Longrightarrow> ok (fold step ws s)"
  by (induction ws arbitrary: s rule: valid_ops.induct) (auto simp: ok_insert ok_clear)

text \<open>What a lookup finds is what the last operation on its uid stored, and nothing cleared it since.\<close>

lemma last_cached:
  "valid_ops ws \<Longrightarrow> v \<noteq> NO_UID \<Longrightarrow> lookup (fold step ws empty) v = Some f \<Longrightarrow>
    \<exists>pre post. ws = pre @ CacheFlags v f # post \<and> Invalidate \<notin> set post \<and> (\<forall>g. CacheFlags v g \<notin> set post)"
proof (induction ws rule: rev_induct)
  case Nil
  then show ?case by (simp add: lookup_empty)
next
  case (snoc w ws)
  let ?s = "fold step ws empty"
  have ws: "valid_ops ws" using snoc.prems(1) by (simp add: valid_ops_append)
  then have ok: "ok ?s" by (rule run_ok [OF ok_empty])
  show ?case
  proof (cases w)
    case Invalidate
    with snoc.prems ok show ?thesis by (simp add: lookup_clear)
  next
    case [simp]: (CacheFlags u g)
    have u: "u \<noteq> NO_UID" using snoc.prems(1) by (simp add: valid_ops_append)
    show ?thesis
    proof (cases "v = u \<and> room ?s u")
      case True
      with snoc.prems ok u have "ws @ [w] = ws @ CacheFlags v f # []" by (simp add: lookup_insert)
      then show ?thesis by fastforce
    next
      case False
      with snoc.prems ok u have l: "lookup ?s v = Some f" by (auto simp: lookup_insert split: if_splits)
      with False ok lookup_room snoc.prems(2) have "v \<noteq> u" by blast
      moreover obtain pre post where "ws = pre @ CacheFlags v f # post" "Invalidate \<notin> set post" "\<forall>g. CacheFlags v g \<notin> set post"
        using snoc.IH [OF ws snoc.prems(2) l] by blast
      ultimately have "ws @ [w] = pre @ CacheFlags v f # (post @ [w])" "Invalidate \<notin> set (post @ [w])" "\<forall>g. CacheFlags v g \<notin> set (post @ [w])"
        by auto
      then show ?thesis by blast
    qed
  qed
qed

end

section \<open>Lemmas\<close>

subsection \<open>Probe sequences\<close>

lemma map_size_pos: "0 < SHM_HASH_MAP_SIZE"
  by (simp add: SHM_HASH_MAP_SIZE_def)

lemma next_slot_at: "next_slot (slot_at uid j) = slot_at uid (Suc j)"
  by (simp add: next_slot_def slot_at_def mod_simps)

lemma slot_at_less: "slot_at uid j < SHM_HASH_MAP_SIZE"
  by (simp add: slot_at_def map_size_pos)

lemma slot_at_0: "slot_at uid 0 = shm_home uid"
  by (simp add: slot_at_def shm_home_def)

lemma slot_at_inj:
  assumes "slot_at uid j = slot_at uid k" "j < SHM_HASH_MAP_SIZE" "k < SHM_HASH_MAP_SIZE"
  shows "j = k"
proof -
  have "j = k" if "j \<le> k" "(shm_home uid + k) mod SHM_HASH_MAP_SIZE = (shm_home uid + j) mod SHM_HASH_MAP_SIZE" "k < SHM_HASH_MAP_SIZE" for j k
    using that mod_eq_dvd_iff_nat [of "shm_home uid + j" "shm_home uid + k" SHM_HASH_MAP_SIZE] by (auto dest: dvd_imp_le)
  from this [of j k] this [of k j] assms show ?thesis by (cases "j \<le> k") (auto simp: slot_at_def)
qed

lemma slot_at_onto:
  assumes "i < SHM_HASH_MAP_SIZE"
  obtains k where "k < SHM_HASH_MAP_SIZE" "slot_at uid k = i"
proof
  let ?k = "(i + (SHM_HASH_MAP_SIZE - shm_home uid)) mod SHM_HASH_MAP_SIZE"
  have "shm_home uid < SHM_HASH_MAP_SIZE" by (simp add: shm_home_def map_size_pos)
  then show "?k < SHM_HASH_MAP_SIZE" "slot_at uid ?k = i"
    using assms by (simp_all add: slot_at_def mod_simps map_size_pos)
qed

lemma slot_at_wrap: "j < SHM_HASH_MAP_SIZE \<Longrightarrow> slot_at uid (Suc j) = shm_home uid \<longleftrightarrow> Suc j = SHM_HASH_MAP_SIZE"
  using slot_at_inj [of uid "Suc j" 0] slot_at_0 [of uid]
  by (cases "Suc j = SHM_HASH_MAP_SIZE") (auto simp: slot_at_def shm_home_def)

text \<open>Both loops walk the probe sequence up to the first hit.\<close>

lemma writer_probe_find:
  "j + n = SHM_HASH_MAP_SIZE \<Longrightarrow> writer_probe sh uid (shm_home uid) n (slot_at uid j) =
    map_option (slot_at uid) (find (probe_hit sh uid) [j..<SHM_HASH_MAP_SIZE])"
proof (induction n arbitrary: j)
  case (Suc n)
  then have j: "j < SHM_HASH_MAP_SIZE" "[j..<SHM_HASH_MAP_SIZE] = j # [Suc j..<SHM_HASH_MAP_SIZE]"
    by (auto simp: upt_conv_Cons)
  show ?case
  proof (cases "Suc j = SHM_HASH_MAP_SIZE")
    case True
    with j slot_at_wrap [OF j(1), of uid] show ?thesis by (simp add: next_slot_at probe_hit_def)
  next
    case False
    with Suc j slot_at_wrap [OF j(1), of uid] show ?thesis by (simp add: next_slot_at probe_hit_def)
  qed
qed simp

lemma shm_slot_find: "shm_slot sh uid = map_option (slot_at uid) (find (probe_hit sh uid) [0..<SHM_HASH_MAP_SIZE])"
  using writer_probe_find [of 0 SHM_HASH_MAP_SIZE sh uid] by (simp add: shm_slot_def slot_at_0)

lemma reader_probe_find:
  "j + n = SHM_HASH_MAP_SIZE \<Longrightarrow> reader_probe (\<lambda>_. sh) uid (shm_home uid) n (slot_at uid j) k =
    (case find (probe_hit sh uid) [j..<SHM_HASH_MAP_SIZE] of
       None \<Rightarrow> None
     | Some i \<Rightarrow> if sh_uid sh (slot_at uid i) = uid then Some (k + (i - j) + 2, sh_flags sh (slot_at uid i)) else None)"
proof (induction n arbitrary: j k)
  case (Suc n)
  then have j: "j < SHM_HASH_MAP_SIZE" "[j..<SHM_HASH_MAP_SIZE] = j # [Suc j..<SHM_HASH_MAP_SIZE]"
    by (auto simp: upt_conv_Cons)
  show ?case
  proof (cases "Suc j = SHM_HASH_MAP_SIZE \<or> probe_hit sh uid j")
    case True
    with j slot_at_wrap [OF j(1), of uid] show ?thesis
      by (auto simp: next_slot_at probe_hit_def [of sh uid j] Let_def split: option.split)
  next
    case False
    with Suc have IH: "reader_probe (\<lambda>_. sh) uid (shm_home uid) n (slot_at uid (Suc j)) (k + 1) =
      (case find (probe_hit sh uid) [Suc j..<SHM_HASH_MAP_SIZE] of
         None \<Rightarrow> None
       | Some i \<Rightarrow> if sh_uid sh (slot_at uid i) = uid then Some (k + 1 + (i - Suc j) + 2, sh_flags sh (slot_at uid i)) else None)"
      by (intro Suc.IH) simp
    have "Suc j \<le> i" if "find (probe_hit sh uid) [Suc j..<SHM_HASH_MAP_SIZE] = Some i" for i
      using that by (auto simp: find_Some_iff)
    with IH False j slot_at_wrap [OF j(1), of uid] show ?thesis
      by (auto simp: next_slot_at probe_hit_def [of sh uid j] Let_def Suc_diff_le split: option.split)
  qed
qed simp

lemma shm_lookup_find:
  "shm_lookup sh uid = (if sh_version sh AND 1 \<noteq> 0 then None
    else case find (probe_hit sh uid) [0..<SHM_HASH_MAP_SIZE] of
      None \<Rightarrow> None
    | Some i \<Rightarrow> if sh_uid sh (slot_at uid i) = uid then Some (sh_flags sh (slot_at uid i)) else None)"
  using reader_probe_find [of 0 SHM_HASH_MAP_SIZE sh uid 1]
  by (auto simp: shm_lookup_def cached_flags_def Let_def slot_at_0 split: option.split)

lemma find_upt_first: "find P [0..<n] = Some i \<longleftrightarrow> i < n \<and> P i \<and> (\<forall>j<i. \<not> P j)"
  by (auto simp: find_Some_iff)

lemma shm_lookup_Some:
  assumes "shm_ok sh" "uid \<noteq> NO_UID"
  shows "shm_lookup sh uid = Some f \<longleftrightarrow> (\<exists>k<SHM_HASH_MAP_SIZE. sh_uid sh (slot_at uid k) = uid \<and> sh_flags sh (slot_at uid k) = f)"
proof
  assume "shm_lookup sh uid = Some f"
  then show "\<exists>k<SHM_HASH_MAP_SIZE. sh_uid sh (slot_at uid k) = uid \<and> sh_flags sh (slot_at uid k) = f"
    by (auto simp: shm_lookup_find find_upt_first split: option.splits if_splits)
next
  assume "\<exists>k<SHM_HASH_MAP_SIZE. sh_uid sh (slot_at uid k) = uid \<and> sh_flags sh (slot_at uid k) = f"
  then obtain k where k: "k < SHM_HASH_MAP_SIZE" "sh_uid sh (slot_at uid k) = uid" "sh_flags sh (slot_at uid k) = f" by blast
  with assms have "find (probe_hit sh uid) [0..<SHM_HASH_MAP_SIZE] = Some k"
    by (auto simp: find_upt_first shm_ok_def probe_hit_def)
  with k assms(1) show "shm_lookup sh uid = Some f" by (simp add: shm_lookup_find shm_ok_def)
qed

subsection \<open>Operations on a well-formed table\<close>

lemma even_version: "(v + 2 :: u32) AND 1 = v AND 1"
  by (simp add: and_one_eq mod2_eq_if)

lemma run_cache:
  "run_op (CacheFlags uid f) sh = (case shm_slot sh uid of
     Some i \<Rightarrow> sh\<lparr>sh_version := sh_version sh + 2, sh_uid := (sh_uid sh)(i := uid), sh_flags := (sh_flags sh)(i := f)\<rparr>
   | None \<Rightarrow> sh\<lparr>sh_version := sh_version sh + 2\<rparr>)"
  by (simp add: run_op_def cache_process_flags_def split: option.split)

lemma fold_clear:
  "fold apply_store (concat (map (\<lambda>i. [StUid i NO_UID, StFlags i 0]) is)) sh =
    sh\<lparr>sh_uid := (\<lambda>i. if i \<in> set is then NO_UID else sh_uid sh i), sh_flags := (\<lambda>i. if i \<in> set is then 0 else sh_flags sh i)\<rparr>"
proof (induction "is" arbitrary: sh)
  case (Cons i "is")
  then show ?case by (auto simp: fun_eq_iff intro!: shm.equality)
qed simp

lemma run_invalidate:
  "run_op Invalidate sh = sh\<lparr>sh_version := sh_version sh + 2,
     sh_uid := (\<lambda>i. if i < SHM_HASH_MAP_SIZE then NO_UID else sh_uid sh i),
     sh_flags := (\<lambda>i. if i < SHM_HASH_MAP_SIZE then 0 else sh_flags sh i)\<rparr>"
  by (simp add: run_op_def invalidate_process_flag_cache_def fold_clear fun_eq_iff)

lemma shm_slot_Some:
  assumes "shm_slot sh uid = Some i"
  obtains k where "i = slot_at uid k" "k < SHM_HASH_MAP_SIZE" "probe_hit sh uid k" "\<forall>j<k. \<not> probe_hit sh uid j"
  using assms by (auto simp: shm_slot_find find_upt_first)

lemma shm_slot_None: "shm_slot sh uid = None \<longleftrightarrow> \<not> shm_room sh uid"
  by (auto simp: shm_slot_find shm_room_def find_None_iff)

lemma cache_ok:
  assumes ok: "shm_ok sh" and uid: "uid \<noteq> NO_UID"
  shows "shm_ok (run_op (CacheFlags uid f) sh)"
proof (cases "shm_slot sh uid")
  case None
  with ok show ?thesis by (simp add: run_cache shm_ok_def even_version probe_hit_def)
next
  case (Some i)
  then obtain k where k: "i = slot_at uid k" "k < SHM_HASH_MAP_SIZE" "probe_hit sh uid k" "\<forall>j<k. \<not> probe_hit sh uid j"
    by (rule shm_slot_Some)
  let ?t = "run_op (CacheFlags uid f) sh"
  have t: "sh_uid ?t = (sh_uid sh)(i := uid)" "sh_version ?t AND 1 = 0"
    using ok by (simp_all add: run_cache Some shm_ok_def even_version)
  have "\<not> probe_hit ?t u j" if u: "u \<noteq> NO_UID" "k' < SHM_HASH_MAP_SIZE" "sh_uid ?t (slot_at u k') = u" "j < k'" for u k' j
  proof (cases "slot_at u k' = i")
    case True
    with u t have [simp]: "u = uid" by simp
    then have "k' = k" using True k(1,2) u(2) slot_at_inj by metis
    moreover have "slot_at uid j \<noteq> i" using slot_at_inj [of uid j k] k(1,2) u(4) \<open>k' = k\<close> by auto
    ultimately show ?thesis using k(4) u(4) by (simp add: probe_hit_def t)
  next
    case False
    with u t have "sh_uid sh (slot_at u k') = u" by simp
    with ok u have "\<not> probe_hit sh u j" by (auto simp: shm_ok_def)
    moreover have "sh_uid sh i = NO_UID \<or> sh_uid sh i = uid" using k by (simp add: probe_hit_def)
    ultimately show ?thesis using uid by (auto simp: probe_hit_def t)
  qed
  with t(2) show ?thesis by (auto simp: shm_ok_def)
qed

lemma cache_lookup:
  assumes ok: "shm_ok sh" and uid: "uid \<noteq> NO_UID" "v \<noteq> NO_UID"
  shows "shm_lookup (run_op (CacheFlags uid f) sh) v = (if v = uid \<and> shm_room sh uid then Some f else shm_lookup sh v)"
proof (cases "shm_slot sh uid")
  case None
  then have "shm_lookup (run_op (CacheFlags uid f) sh) v = shm_lookup sh v"
    by (simp add: run_cache shm_lookup_find even_version probe_hit_def [abs_def] split: option.split)
  with None show ?thesis by (auto simp: shm_slot_None)
next
  case (Some i)
  then obtain k where k: "i = slot_at uid k" "k < SHM_HASH_MAP_SIZE" "probe_hit sh uid k" by (rule shm_slot_Some) blast
  have room: "shm_room sh uid" using Some shm_slot_None [of sh uid] by auto
  let ?t = "run_op (CacheFlags uid f) sh"
  have t: "sh_uid ?t = (sh_uid sh)(i := uid)" "sh_flags ?t = (sh_flags sh)(i := f)" by (simp_all add: run_cache Some)
  have ok': "shm_ok ?t" using ok uid(1) by (rule cache_ok)
  show ?thesis
  proof (cases "v = uid")
    case True
    with k t have "shm_lookup ?t v = Some f" using shm_lookup_Some [OF ok' uid(2), of f] by auto
    with True room show ?thesis by simp
  next
    case False
    have "sh_uid sh i = NO_UID \<or> sh_uid sh i = uid" using k by (simp add: probe_hit_def)
    with False uid(2) have "shm_lookup ?t v = Some g \<longleftrightarrow> shm_lookup sh v = Some g" for g
      unfolding shm_lookup_Some [OF ok' uid(2)] shm_lookup_Some [OF ok uid(2)] t by (auto split: if_splits) metis+
    with False show ?thesis by (metis option.exhaust)
  qed
qed

lemma empty_lookup:
  assumes "sh_version sh AND 1 = 0" "\<And>i. i < SHM_HASH_MAP_SIZE \<Longrightarrow> sh_uid sh i = NO_UID"
  shows "shm_ok sh \<and> (uid \<noteq> NO_UID \<longrightarrow> shm_lookup sh uid = None)"
proof -
  have none: "sh_uid sh (slot_at u k) = NO_UID" for u k using assms(2) slot_at_less by blast
  then have "shm_ok sh" using assms(1) by (auto simp: shm_ok_def)
  with none shm_lookup_Some [of sh uid] show ?thesis by (cases "shm_lookup sh uid") auto
qed

interpretation cache: flag_map shm_ok shm_lookup shm_room "\<lambda>u f. run_op (CacheFlags u f)" "run_op Invalidate" initialize_shared_memory
proof
  fix s :: shm and u v f :: u32
  show "shm_ok initialize_shared_memory" "u \<noteq> NO_UID \<Longrightarrow> shm_lookup initialize_shared_memory u = None"
    using empty_lookup [of initialize_shared_memory u] by (simp_all add: initialize_shared_memory_def)
  assume "shm_ok s"
  then have "shm_ok (run_op Invalidate s) \<and> (u \<noteq> NO_UID \<longrightarrow> shm_lookup (run_op Invalidate s) u = None)"
    by (intro empty_lookup) (simp_all add: run_invalidate shm_ok_def even_version)
  then show "shm_ok (run_op Invalidate s)" "u \<noteq> NO_UID \<Longrightarrow> shm_lookup (run_op Invalidate s) u = None" by auto
qed (auto simp: cache_ok cache_lookup shm_lookup_Some shm_room_def probe_hit_def)

lemma cache_step: "cache.step = run_op"
  by (intro ext) (metis cache.step.simps write_op.exhaust)

subsection \<open>Histories of the table\<close>

lemma op_stores_shape:
  "\<exists>mid. op_stores w sh = StVersion (sh_version sh + 1) # mid @ [StVersion (sh_version sh + 2)] \<and> (\<forall>v. StVersion v \<notin> set mid)"
proof (cases w)
  case (CacheFlags u f)
  then show ?thesis by (cases "shm_slot sh u") (auto simp: cache_process_flags_def)
next
  case Invalidate
  then show ?thesis by (auto simp: invalidate_process_flag_cache_def)
qed

lemma store_history_append: "store_history (as @ bs) sh = store_history as sh @ store_history bs (fold apply_store as sh)"
  by (induction as arbitrary: sh) simp_all

lemma store_history_version:
  "\<forall>v. StVersion v \<notin> set ss \<Longrightarrow> s \<in> set (store_history ss sh) \<Longrightarrow> sh_version s = sh_version sh"
proof (induction ss arbitrary: sh)
  case (Cons x xs)
  then have "sh_version (apply_store x sh) = sh_version sh" by (cases x) auto
  with Cons show ?case by auto
qed simp

lemma op_history:
  "\<exists>busy. store_history (op_stores w sh) sh = busy @ [run_op w sh] \<and> (\<forall>s \<in> set busy. sh_version s = sh_version sh + 1)
    \<and> sh_version (run_op w sh) = sh_version sh + 2"
proof -
  obtain mid where mid: "op_stores w sh = (StVersion (sh_version sh + 1) # mid) @ [StVersion (sh_version sh + 2)]" "\<forall>v. StVersion v \<notin> set mid"
    using op_stores_shape by fastforce
  let ?busy = "store_history (StVersion (sh_version sh + 1) # mid) sh"
  have "store_history (op_stores w sh) sh = ?busy @ [run_op w sh]"
    unfolding run_op_def mid(1) store_history_append by simp
  moreover have "sh_version s = sh_version sh + 1" if "s \<in> set ?busy" for s
    using that store_history_version [OF mid(2), of s "apply_store (StVersion (sh_version sh + 1)) sh"] by auto
  moreover have "sh_version (run_op w sh) = sh_version sh + 2" by (simp add: run_op_def mid(1))
  ultimately show ?thesis by blast
qed

text \<open>
  The moments of a history count the version stores; at every even count the table is the one that
  the operations completed so far have left.
\<close>

definition tracks :: "write_op list \<Rightarrow> shm \<Rightarrow> (nat \<Rightarrow> nat) \<Rightarrow> bool" where
  "tracks ws sh n \<longleftrightarrow> mono n \<and> (\<forall>t. n t \<le> 2 * length ws \<and> sh_version (moment ws sh t) = sh_version sh + of_nat (n t)
     \<and> (even (n t) \<longrightarrow> moment ws sh t = fold run_op (take (n t div 2) ws) sh))"

lemma moment_Cons:
  assumes "store_history (op_stores w sh) sh = busy @ [run_op w sh]"
  shows "moment (w # ws) sh t = (if t = 0 then sh else if t \<le> length busy then busy ! (t - 1)
    else moment ws (run_op w sh) (t - Suc (length busy)))"
proof -
  have h: "sh # write_history (w # ws) sh = (sh # busy) @ (run_op w sh # write_history ws (run_op w sh))"
    by (simp add: assms)
  show ?thesis unfolding moment_def h Let_def
    by (auto simp: nth_append nth_Cons' min_def)
qed

lemma tracks_exists: "\<exists>n. tracks ws sh n"
proof (induction ws arbitrary: sh)
  case Nil
  show ?case by (rule exI [of _ "\<lambda>_. 0"]) (simp add: tracks_def moment_def mono_def)
next
  case (Cons w ws)
  obtain busy where b: "store_history (op_stores w sh) sh = busy @ [run_op w sh]" "\<forall>s \<in> set busy. sh_version s = sh_version sh + 1"
    "sh_version (run_op w sh) = sh_version sh + 2" using op_history by blast
  obtain n where n: "tracks ws (run_op w sh) n" using Cons.IH by blast
  let ?n = "\<lambda>t. if t = 0 then 0 else if t \<le> length busy then 1 else n (t - Suc (length busy)) + 2"
  have "mono ?n" using n by (auto simp: tracks_def mono_def)
  moreover have "?n t \<le> 2 * length (w # ws)" for t using n by (auto simp: tracks_def)
  moreover have "sh_version (moment (w # ws) sh t) = sh_version sh + of_nat (?n t)" for t
    using n b(2,3) by (auto simp: tracks_def moment_Cons [OF b(1)])
  moreover have "even (?n t) \<Longrightarrow> moment (w # ws) sh t = fold run_op (take (?n t div 2) (w # ws)) sh" for t
    using n by (auto simp: tracks_def moment_Cons [OF b(1)])
  ultimately have "tracks (w # ws) sh ?n" by (simp add: tracks_def)
  then show ?case by blast
qed

subsection \<open>Reads and the history\<close>

lemma reader_probe_stable:
  "reader_probe at uid start n index k = Some (k', f) \<Longrightarrow> (\<And>i. i < k' \<Longrightarrow> at i = s) \<Longrightarrow>
    reader_probe (\<lambda>_. s) uid start n index k = Some (k', f) \<and> k < k'"
proof (induction n arbitrary: index k)
  case (Suc n)
  show ?case
  proof (cases "sh_uid (at k) index = uid")
    case True
    with Suc.prems show ?thesis by (auto simp: Let_def)
  next
    case False
    with Suc.prems(1) have r: "sh_uid (at k) index \<noteq> NO_UID" "next_slot index \<noteq> start"
      "reader_probe at uid start n (next_slot index) (k + 1) = Some (k', f)"
      by (auto simp: Let_def split: if_splits)
    with Suc have "reader_probe (\<lambda>_. s) uid start n (next_slot index) (k + 1) = Some (k', f)" "k + 1 < k'" by blast+
    moreover from this have "at k = s" using Suc.prems(2) by simp
    ultimately show ?thesis using False r by (simp add: Let_def)
  qed
qed simp

lemma cached_flags_undisturbed:
  assumes "tracks ws sh n" "mono ts" "2 * length ws < 2 ^ 32" "sh_version sh AND 1 = 0"
    and read: "cached_flags (\<lambda>k. moment ws sh (ts k)) uid = Some f"
  shows "moment ws sh (ts 0) = fold run_op (take (n (ts 0) div 2) ws) sh \<and> shm_lookup (moment ws sh (ts 0)) uid = Some f"
proof -
  let ?at = "\<lambda>k. moment ws sh (ts k)"
  obtain k where k: "sh_version (?at 0) AND 1 = 0" "sh_version (?at k) = sh_version (?at 0)"
    "reader_probe ?at uid (shm_home uid) SHM_HASH_MAP_SIZE (shm_home uid) 1 = Some (k, f)"
    using read by (auto simp: cached_flags_def Let_def split: if_splits option.splits prod.splits)
  have n: "mono n" "\<And>t. n t < 2 ^ 32" "\<And>t. sh_version (moment ws sh t) = sh_version sh + of_nat (n t)"
    "\<And>t. even (n t) \<Longrightarrow> moment ws sh t = fold run_op (take (n t div 2) ws) sh"
    using assms(1,3) by (auto simp: tracks_def intro: le_less_trans)
  have "(of_nat (n (ts k)) :: u32) = of_nat (n (ts 0))" using k(2) n(3) by simp
  then have "unat (of_nat (n (ts k)) :: u32) = unat (of_nat (n (ts 0)) :: u32)" by simp
  then have same: "n (ts k) = n (ts 0)" using n(2) by (simp add: unat_of_nat)
  have ev: "even (n (ts 0))" using k(1) assms(4) unfolding n(3) by (simp add: and_one_eq mod2_eq_if split: if_splits)
  have "?at i = ?at 0" if "i < k" for i
  proof -
    have "n (ts 0) \<le> n (ts i)" "n (ts i) \<le> n (ts k)" using n(1) assms(2) that by (auto simp: mono_def)
    with same have "n (ts i) = n (ts 0)" by simp
    with ev n(4) show ?thesis by metis
  qed
  with k(3) have "reader_probe (\<lambda>_. ?at 0) uid (shm_home uid) SHM_HASH_MAP_SIZE (shm_home uid) 1 = Some (k, f)"
    using reader_probe_stable [of ?at uid _ _ _ 1 k f "?at 0"] by blast
  with k(1) have "shm_lookup (?at 0) uid = Some f" by (simp add: shm_lookup_def cached_flags_def)
  with ev n(4) show ?thesis by simp
qed

lemma occupied_card:
  "finite {i. sh_uid (fold run_op ws initialize_shared_memory) i \<noteq> NO_UID} \<and>
   card {i. sh_uid (fold run_op ws initialize_shared_memory) i \<noteq> NO_UID} \<le> length ws"
proof (induction ws rule: rev_induct)
  case Nil
  show ?case by (simp add: initialize_shared_memory_def)
next
  case (snoc w ws)
  let ?s = "fold run_op ws initialize_shared_memory"
  have sub: "\<exists>i. {i. sh_uid (run_op w ?s) i \<noteq> NO_UID} \<subseteq> insert i {i. sh_uid ?s i \<noteq> NO_UID}"
  proof (cases w)
    case (CacheFlags u f)
    then show ?thesis by (cases "shm_slot ?s u") (auto simp: run_cache)
  next
    case Invalidate
    then show ?thesis by (auto simp: run_invalidate)
  qed
  then obtain i where i: "{i. sh_uid (run_op w ?s) i \<noteq> NO_UID} \<subseteq> insert i {i. sh_uid ?s i \<noteq> NO_UID}" by blast
  have "card {i. sh_uid (run_op w ?s) i \<noteq> NO_UID} \<le> card (insert i {i. sh_uid ?s i \<noteq> NO_UID})"
    using i snoc by (intro card_mono) auto
  also have "\<dots> \<le> Suc (length ws)" using snoc by (auto simp: card_insert_if)
  finally show ?case using snoc i by (auto intro: finite_subset)
qed

lemma room_while_few:
  assumes "length ws < SHM_HASH_MAP_SIZE"
  shows "shm_room (fold run_op ws initialize_shared_memory) uid"
proof (rule ccontr)
  let ?s = "fold run_op ws initialize_shared_memory"
  assume no: "\<not> shm_room ?s uid"
  have "{..<SHM_HASH_MAP_SIZE} \<subseteq> {i. sh_uid ?s i \<noteq> NO_UID}"
  proof
    fix i assume "i \<in> {..<SHM_HASH_MAP_SIZE}"
    then obtain k where "k < SHM_HASH_MAP_SIZE" "slot_at uid k = i" using slot_at_onto by blast
    with no show "i \<in> {i. sh_uid ?s i \<noteq> NO_UID}" by (auto simp: shm_room_def probe_hit_def)
  qed
  then have "SHM_HASH_MAP_SIZE \<le> length ws" using occupied_card [of ws] card_mono le_trans by (metis card_lessThan)
  with assms show False by simp
qed

lemma initial_even: "sh_version initialize_shared_memory AND 1 = 0"
  by (simp add: initialize_shared_memory_def)

lemma shm_slot_free: "sh_uid sh (shm_home uid) = NO_UID \<Longrightarrow> shm_slot sh uid = Some (shm_home uid)"
  by (simp add: shm_slot_def SHM_HASH_MAP_SIZE_def numeral_eq_Suc del: writer_probe.simps(1))

section \<open>Properties\<close>

text \<open>
  C3: A read of the flag cache that overlaps any sequence of writes is atomic: its loads may fall at
  any moments of the writers' stores, but when it returns flags, they are the ones last cached for
  the uid by the operations completed when it began, with no invalidation and no other entry for the
  uid after them.  (Fewer than \<open>2 ^ 31\<close> writes in the history, so that the version has not wrapped.)
\<close>

theorem flag_cache_linearizable:
  assumes "valid_ops ws" "2 * length ws < 2 ^ 32" "mono ts" "uid \<noteq> NO_UID"
    and "cached_flags (\<lambda>k. moment ws initialize_shared_memory (ts k)) uid = Some flags"
  shows "\<exists>j pre post. moment ws initialize_shared_memory (ts 0) = fold run_op (take j ws) initialize_shared_memory
    \<and> take j ws = pre @ CacheFlags uid flags # post \<and> Invalidate \<notin> set post \<and> (\<forall>g. CacheFlags uid g \<notin> set post)"
proof -
  obtain n where n: "tracks ws initialize_shared_memory n" using tracks_exists by blast
  let ?j = "n (ts 0) div 2"
  have "moment ws initialize_shared_memory (ts 0) = fold run_op (take ?j ws) initialize_shared_memory"
    "shm_lookup (moment ws initialize_shared_memory (ts 0)) uid = Some flags"
    using cached_flags_undisturbed [OF n assms(3,2) _ assms(5)] by (metis initial_even)+
  then show ?thesis using cache.last_cached [OF valid_ops_take [OF assms(1)] assms(4)] by (metis cache_step)
qed

text \<open>The read of uid 10001 after its flags were cached, with all loads after the fourth store.\<close>

theorem flag_cache_linearizable_witness:
  "\<exists>j pre post. moment [CacheFlags 10001 2] initialize_shared_memory 4 = fold run_op (take j [CacheFlags 10001 2]) initialize_shared_memory
    \<and> take j [CacheFlags 10001 2] = pre @ CacheFlags 10001 2 # post \<and> Invalidate \<notin> set post \<and> (\<forall>g. CacheFlags 10001 g \<notin> set post)"
proof -
  let ?i = initialize_shared_memory
  have slot: "shm_slot ?i 10001 = Some (shm_home 10001)" by (rule shm_slot_free) (simp add: initialize_shared_memory_def)
  have "moment [CacheFlags 10001 2] ?i 4 = run_op (CacheFlags 10001 2) ?i"
    by (simp add: moment_def run_op_def cache_process_flags_def slot)
  then have "cached_flags (\<lambda>k. moment [CacheFlags 10001 2] ?i ((\<lambda>_. 4) k)) 10001 = Some 2"
    using cache_lookup [of ?i 10001 10001 2] room_while_few [of "[]" 10001] cache.ok_empty
    by (simp add: shm_lookup_def [symmetric] NO_UID_def SHM_HASH_MAP_SIZE_def)
  then show ?thesis
    by (intro flag_cache_linearizable [of "[CacheFlags 10001 2]" "\<lambda>_. 4" 10001 2]) (simp_all add: NO_UID_def mono_def)
qed

text \<open>
  C34: Before \<open>SHM_HASH_MAP_SIZE\<close> writes no entry is dropped: caching flags for a uid makes an
  undisturbed read of that uid find them, and changes the answer for no other uid.
\<close>

theorem flag_cache_roundtrip:
  assumes "valid_ops ws" "length ws < SHM_HASH_MAP_SIZE" "uid \<noteq> NO_UID" "v \<noteq> NO_UID"
  shows "shm_lookup (run_op (CacheFlags uid flags) (fold run_op ws initialize_shared_memory)) v =
    (if v = uid then Some flags else shm_lookup (fold run_op ws initialize_shared_memory) v)"
  using assms cache.run_ok [OF cache.ok_empty assms(1)] room_while_few [OF assms(2)]
  by (simp add: cache_lookup cache_step)

theorem flag_cache_roundtrip_witness:
  "shm_lookup (run_op (CacheFlags 18193 5) (fold run_op [CacheFlags 10001 2] initialize_shared_memory)) 18193 = Some 5"
  using flag_cache_roundtrip [of "[CacheFlags 10001 2]" 18193 18193 5] by (simp add: NO_UID_def SHM_HASH_MAP_SIZE_def)

end
