(* ===== verification/Daemon.thy ===== *)
theory Daemon
  imports Mount_Ns Exclude Flag_Cache
begin

text \<open>
  The daemon (\<open>zygiskd/src/zygiskd.rs\<close>): its context, the module snapshot and the handlers of the
  requests of the injector.  A handler takes the bytes of the request and gives the reply, a list of
  writes and descriptors, with the new context.  What the daemon does besides - spawned processes,
  datagrams to the monitor, files written - is recorded in the context in order.
\<close>

section \<open>Definitions\<close>

datatype DaemonSocketAction = PingHeartbeat | GetProcessFlags | CacheMountNamespace | UpdateMountNamespace
  | ReadModules | RequestCompanionSocket | GetModuleDir | ZygoteRestart | SystemServerStarted | GetSharedMemoryFd
  | RequestZnCompanionSocket | GetZnPlan | ReportZnModule | RefreshModules

definition actions :: "DaemonSocketAction list" where
  "actions = [PingHeartbeat, GetProcessFlags, CacheMountNamespace, UpdateMountNamespace, ReadModules, RequestCompanionSocket,
     GetModuleDir, ZygoteRestart, SystemServerStarted, GetSharedMemoryFd, RequestZnCompanionSocket, GetZnPlan, ReportZnModule, RefreshModules]"

definition action_try_from :: "byte \<Rightarrow> DaemonSocketAction option" where
  "action_try_from b = (if unat b < length actions then Some (actions ! unat b) else None)"

type_synonym sock = nat

record Module =
  m_name :: rstr
  m_lib_fd :: ofd
  m_companion :: "sock option"

datatype effect = Spawn "rstr list" | Datagram "byte list" | WriteFile rstr rstr | Rename rstr rstr | Handover sock

record 't AppContext =
  modules :: "Module list"
  mount_manager :: MountNamespaceManager
  zn_companions :: "rstr \<Rightarrow> sock option"
  zn_states :: "(rstr \<times> u32 \<times> u32) list"
  pending_companions :: "nat list"
  exclude_st :: "'t exclude_state option"
  shared_memory :: "(ofd \<times> shm) option"
  TMP_PATH :: rstr
  effects :: "effect list"

definition emit :: "effect \<Rightarrow> 't AppContext \<Rightarrow> 't AppContext" where
  "emit e ctx = ctx\<lparr>effects := effects ctx @ [e]\<rparr>"

text \<open>
  The surroundings of a request: the peer's credentials, the directory of the modules, files, the
  processes it starts and the sockets it holds.  \<open>e_library_fd\<close> is the sealed copy of a library.
\<close>

datatype 'a dir_result = DirNotFound | DirError | DirEntries 'a

record dirent =
  de_name :: "rstr option"
  de_path :: rstr

record 't denv =
  e_peer_uid :: "u32 option"
  e_abi :: "rstr option"
  e_modules_dir :: "dirent list dir_result"
  e_exists :: "rstr \<Rightarrow> bool"
  e_read :: "rstr \<Rightarrow> rstr option"
  e_canonical :: "rstr \<Rightarrow> rstr option"
  e_head :: "rstr \<Rightarrow> byte list option"
  e_library_fd :: "rstr \<Rightarrow> ofd option"
  e_open_dir :: "rstr \<Rightarrow> ofd option"
  e_self_exe :: rstr
  e_pair :: "(sock \<times> nat) option"
  e_spawn :: "rstr list \<Rightarrow> nat option"
  e_companion_send :: "nat \<Rightarrow> bool"
  e_companion_reply :: "nat \<Rightarrow> byte option"
  e_alive :: "sock \<Rightarrow> bool"
  e_exited :: "nat \<Rightarrow> bool"
  e_handover :: "sock \<Rightarrow> bool"
  e_json :: "(rstr \<times> rstr \<times> rstr \<times> bool) list \<Rightarrow> rstr"
  e_kernel :: rstr
  e_sdk :: rstr
  e_abi_text :: rstr
  e_datagram :: bool
  e_write_ok :: "rstr \<Rightarrow> bool"
  e_ns :: ns_env
  e_root :: "root_env \<times> root_state"
  e_files :: "nat \<Rightarrow> 't file_view"

definition PATH_MODULES_DIR :: rstr where "PATH_MODULES_DIR = rs ''/data/adb/modules''"

subsection \<open>The module snapshot\<close>

definition get_arch :: "'t denv \<Rightarrow> rstr option" where
  "get_arch env =
     (case e_abi env of
        None \<Rightarrow> None
      | Some system_arch \<Rightarrow>
          if contains_str system_arch (rs ''arm'') then Some (rs ''arm64-v8a'')
          else if contains_str system_arch (rs ''x86'') then Some (rs ''x86_64'')
          else if contains_str system_arch (rs ''riscv64'') then Some (rs ''riscv64'')
          else None)"

definition load_entry :: "'t denv \<Rightarrow> rstr \<Rightarrow> dirent \<Rightarrow> Module option" where
  "load_entry env arch entry =
     (let so_path = path_join (de_path entry) (rs ''zygisk/'' @ arch @ rs ''.so'');
          disabled_flag = path_join (de_path entry) (rs ''disable'')
      in if \<not> e_exists env so_path \<or> e_exists env disabled_flag then None
         else map_option (\<lambda>fd. \<lparr>m_name = (case de_name entry of Some n \<Rightarrow> n | None \<Rightarrow> []), m_lib_fd = fd, m_companion = None\<rparr>)
           (e_library_fd env so_path))"

definition load_modules :: "'t denv \<Rightarrow> Module list option" where
  "load_modules env =
     (case get_arch env of
        None \<Rightarrow> None
      | Some arch \<Rightarrow>
          (case e_modules_dir env of
             DirNotFound \<Rightarrow> Some []
           | DirError \<Rightarrow> None
           | DirEntries es \<Rightarrow> Some (List.map_filter (load_entry env arch) es)))"

definition reap_companions :: "'t denv \<Rightarrow> 't AppContext \<Rightarrow> 't AppContext" where
  "reap_companions env ctx = ctx\<lparr>pending_companions := filter (\<lambda>child. \<not> e_exited env child) (pending_companions ctx)\<rparr>"

text \<open>The report to the monitor: the entries of the modules in the order name, type, target, companion.\<close>

definition zn_targets :: "rstr \<Rightarrow> rstr list \<times> bool" where
  "zn_targets content =
     (let lines = filter (\<lambda>parts. length parts \<ge> 2) (map split_whitespace (rust_lines content))
      in (map hd lines, list_ex (\<lambda>parts. rs ''companion'' \<in> set parts) lines))"

definition zn_info :: "'t denv \<Rightarrow> dirent \<Rightarrow> (rstr \<times> rstr \<times> rstr \<times> bool) option" where
  "zn_info env entry =
     (let zn_file = path_join (de_path entry) (rs ''zn_modules.txt'');
          disabled = path_join (de_path entry) (rs ''disable'');
          remove = path_join (de_path entry) (rs ''remove'')
      in if e_exists env zn_file \<and> \<not> e_exists env disabled \<and> \<not> e_exists env remove
         then (let (targets, has_companion) = (case e_read env zn_file of Some content \<Rightarrow> zn_targets content | None \<Rightarrow> ([], False))
               in Some (case de_name entry of Some n \<Rightarrow> n | None \<Rightarrow> [], rs ''next'',
                        if targets = [] then rs ''unknown'' else join_str (rs '', '') targets, has_companion))
         else None)"

definition root_name :: "RootImpl \<Rightarrow> rstr" where
  "root_name impl = rs (case impl of RootNone \<Rightarrow> ''None'' | RootTooOld \<Rightarrow> ''TooOld'' | RootMultiple \<Rightarrow> ''Multiple''
     | RootAPatch \<Rightarrow> ''APatch'' | RootKernelSU \<Rightarrow> ''KernelSU'' | RootMagisk \<Rightarrow> ''Magisk'')"

definition startup_info :: "'t denv \<Rightarrow> Module list \<Rightarrow> RootImpl \<Rightarrow> nat \<times> rstr" where
  "startup_info env ms impl =
     (if impl = RootAPatch \<or> impl = RootKernelSU \<or> impl = RootMagisk
      then (let entries = map (\<lambda>m. (m_name m, rs ''zygisk'', rs ''zygote'', False)) ms
                  @ (case e_modules_dir env of DirEntries es \<Rightarrow> List.map_filter (zn_info env) es | _ \<Rightarrow> [])
            in (5, rs ''root_implementation='' @ root_name impl @ [10] @ rs ''modules_count='' @ show_nat (length entries) @ [10]
                   @ rs ''modules_list='' @ e_json env entries @ [10] @ rs ''device_kernel='' @ e_kernel env @ [10]
                   @ rs ''device_sdk='' @ e_sdk env @ [10] @ rs ''device_abi='' @ e_abi_text env))
      else (6, rs ''root_implementation=Invalid('' @ root_name impl @ rs '')''))"

definition startup_message :: "nat \<Rightarrow> byte list \<Rightarrow> byte list" where
  "startup_message code info = le_enc 4 code @ le_enc 4 (length info + 1) @ info @ [0]"

text \<open>A failure to send is only logged; None is the panic of a root solution that was not set up.\<close>

definition send_startup_info :: "'t denv \<Rightarrow> Module list \<Rightarrow> 't AppContext \<Rightarrow> 't AppContext option" where
  "send_startup_info env ms ctx =
     map_option (\<lambda>impl. let (code, info) = startup_info env ms impl
        in if e_datagram env then emit (Datagram (startup_message code (as_bytes info))) ctx else ctx) (ROOT_IMPL (snd (e_root env)))"

text \<open>\<open>refresh_modules\<close>: the number of modules now served, None when the scan failed.\<close>

definition refresh_modules :: "'t denv \<Rightarrow> 't AppContext \<Rightarrow> (nat option \<times> 't AppContext) option" where
  "refresh_modules env ctx =
     (case load_modules env of
        None \<Rightarrow> Some (None, ctx)
      | Some ms \<Rightarrow>
          do { ctx \<leftarrow> send_startup_info env ms ctx;
               Some (Some (length ms), reap_companions env (ctx\<lparr>modules := ms\<rparr>)) })"

subsection \<open>Process flags\<close>

definition PROCESS_GRANTED_ROOT :: u32 where "PROCESS_GRANTED_ROOT = 2 ^ 0"
definition PROCESS_ON_DENYLIST :: u32 where "PROCESS_ON_DENYLIST = 2 ^ 1"
definition PROCESS_EXCLUDED :: u32 where "PROCESS_EXCLUDED = 2 ^ 26"
definition PROCESS_IS_MANAGER :: u32 where "PROCESS_IS_MANAGER = 2 ^ 27"
definition PROCESS_ROOT_IS_APATCH :: u32 where "PROCESS_ROOT_IS_APATCH = 2 ^ 28"
definition PROCESS_ROOT_IS_KSU :: u32 where "PROCESS_ROOT_IS_KSU = 2 ^ 29"
definition PROCESS_ROOT_IS_MAGISK :: u32 where "PROCESS_ROOT_IS_MAGISK = 2 ^ 30"

text \<open>
  The flags of a uid, with the state of the exclusion list that the lookup leaves; None when the root
  solution was not set up, which panics.
\<close>

definition compute_flags :: "'t denv \<Rightarrow> u32 \<Rightarrow> 't exclude_state option \<Rightarrow> (u32 \<times> 't exclude_state option) option" where
  "compute_flags env uid ex =
     (let (renv, rst) = e_root env
      in do { manager \<leftarrow> uid_is_manager renv rst uid;
              granted \<leftarrow> uid_granted_root renv rst uid;
              umount \<leftarrow> uid_should_umount renv rst uid;
              impl \<leftarrow> ROOT_IMPL rst;
              let (unmount, ex') = (if \<not> manager \<and> 0 \<le> sint uid then lookup (e_files env) (unat uid) ex else (None, ex));
              Some ((if manager then PROCESS_IS_MANAGER
                     else (if granted then PROCESS_GRANTED_ROOT else 0)
                       OR (if umount then PROCESS_ON_DENYLIST else 0)
                       OR (case unmount of None \<Rightarrow> 0 | Some u \<Rightarrow> PROCESS_EXCLUDED OR (if u then PROCESS_ON_DENYLIST else 0)))
                    OR (case impl of RootAPatch \<Rightarrow> PROCESS_ROOT_IS_APATCH | RootKernelSU \<Rightarrow> PROCESS_ROOT_IS_KSU
                         | RootMagisk \<Rightarrow> PROCESS_ROOT_IS_MAGISK | _ \<Rightarrow> 0), ex') })"

definition cache_flags :: "u32 \<Rightarrow> u32 \<Rightarrow> 't AppContext \<Rightarrow> 't AppContext" where
  "cache_flags uid flags ctx = ctx\<lparr>shared_memory := map_option (\<lambda>(fd, sh). (fd, run_op (CacheFlags uid flags) sh)) (shared_memory ctx)\<rparr>"

text \<open>A handler: the reply and the new context; None when it ends with an error, after which nothing more is sent.\<close>

definition handle_get_process_flags :: "'t denv \<Rightarrow> byte list \<Rightarrow> 't AppContext \<Rightarrow> (msg list \<times> 't AppContext) option" where
  "handle_get_process_flags env req ctx =
     do { (uid, _) \<leftarrow> rust_read_u32 req;
          if e_peer_uid env \<noteq> Some 0 then Some (rust_write_u32 0, ctx)
          else do { (flags, ex') \<leftarrow> compute_flags env uid (exclude_st ctx);
                    let ctx = ctx\<lparr>exclude_st := ex'\<rparr>;
                    Some (rust_write_u32 flags, if 0 \<le> sint uid then cache_flags uid flags ctx else ctx) } }"

subsection \<open>Namespaces and shared memory\<close>

definition handle_cache_mount_namespace :: "'t denv \<Rightarrow> byte list \<Rightarrow> 't AppContext \<Rightarrow> (msg list \<times> 't AppContext) option" where
  "handle_cache_mount_namespace env req ctx =
     do { (pid, _) \<leftarrow> rust_read_u32 req;
          if e_peer_uid env \<noteq> Some 0 \<and> e_peer_uid env \<noteq> Some 1000 then Some ([], ctx)
          else (let (r1, m1) = save_mount_namespace (e_ns env) pid Clean (mount_manager ctx)
                in if r1 = None then Some ([], ctx\<lparr>mount_manager := m1\<rparr>)
                   else Some ([], ctx\<lparr>mount_manager := snd (save_mount_namespace (e_ns env) pid Root m1)\<rparr>)) }"

definition handle_update_mount_namespace :: "'t denv \<Rightarrow> byte list \<Rightarrow> 't AppContext \<Rightarrow> (msg list \<times> 't AppContext) option" where
  "handle_update_mount_namespace env req ctx =
     do { (b, _) \<leftarrow> rust_read_u8 req;
          namespace_type \<leftarrow> MountNamespace_try_from b;
          Some (if e_peer_uid env \<noteq> Some 0 then (rust_write_u8 0, ctx)
                else case get_namespace_fd (mount_manager ctx) namespace_type of
                  Some fd \<Rightarrow> (rust_write_u8 1 @ [FdMsg fd], ctx)
                | None \<Rightarrow> (rust_write_u8 0, ctx)) }"

definition handle_get_shared_memory_fd :: "'t AppContext \<Rightarrow> msg list \<times> 't AppContext" where
  "handle_get_shared_memory_fd ctx =
     (case shared_memory ctx of Some (fd, _) \<Rightarrow> (rust_write_u8 1 @ [FdMsg fd], ctx) | None \<Rightarrow> (rust_write_u8 0, ctx))"

subsection \<open>Modules and their companions\<close>

definition handle_read_modules :: "'t denv \<Rightarrow> 't AppContext \<Rightarrow> msg list \<times> 't AppContext" where
  "handle_read_modules env ctx =
     (let ctx = reap_companions env ctx
      in (rust_write_usize (of_nat (length (modules ctx)))
            @ concat (map (\<lambda>m. rust_write_string (m_name m) @ [FdMsg (m_lib_fd m)]) (modules ctx)), ctx))"

definition module_at :: "Module list \<Rightarrow> addr \<Rightarrow> Module option" where
  "module_at ms index = (if unat index < length ms then Some (ms ! unat index) else None)"

text \<open>The handshake with a new companion: its reply 0 means no entry point, 1 that it serves; None is an error.\<close>

definition companion_ready :: "'t denv \<Rightarrow> nat \<Rightarrow> sock \<Rightarrow> sock option option" where
  "companion_ready env child daemon_sock =
     (case e_companion_reply env child of
        Some r \<Rightarrow> if r = 0 then Some None else if r = 1 then Some (Some daemon_sock) else None
      | None \<Rightarrow> None)"

definition spawn_companion :: "'t denv \<Rightarrow> rstr \<Rightarrow> 't AppContext \<Rightarrow> sock option option \<times> 't AppContext" where
  "spawn_companion env name ctx =
     (case e_pair env of
        None \<Rightarrow> (None, ctx)
      | Some (daemon_sock, companion_fd) \<Rightarrow>
          (let nice_name = last (split_char CHR ''/'' (e_self_exe env));
               argv = [e_self_exe env, nice_name @ rs ''-'' @ name, rs ''companion'', show_nat companion_fd];
               ctx = emit (Spawn argv) ctx
           in case e_spawn env argv of
                None \<Rightarrow> (None, ctx)
              | Some child \<Rightarrow>
                  (let ctx = ctx\<lparr>pending_companions := pending_companions ctx @ [child]\<rparr>
                   in if e_companion_send env child then (companion_ready env child daemon_sock, ctx) else (None, ctx))))"

definition set_companion :: "nat \<Rightarrow> sock option \<Rightarrow> 't AppContext \<Rightarrow> 't AppContext" where
  "set_companion i s ctx = ctx\<lparr>modules := (modules ctx)[i := (modules ctx ! i)\<lparr>m_companion := s\<rparr>]\<rparr>"

text \<open>Passing the client on: the companion answers it; a failure to pass it is reported.\<close>

definition hand_to_companion :: "'t denv \<Rightarrow> sock option \<Rightarrow> 't AppContext \<Rightarrow> msg list \<times> 't AppContext" where
  "hand_to_companion env companion ctx =
     (case companion of
        Some s \<Rightarrow> if e_handover env s then ([], emit (Handover s) ctx) else (rust_write_u8 0, ctx)
      | None \<Rightarrow> (rust_write_u8 0, ctx))"

definition live_socket :: "'t denv \<Rightarrow> sock option \<Rightarrow> sock option" where
  "live_socket env s = (case s of Some k \<Rightarrow> if e_alive env k then Some k else None | None \<Rightarrow> None)"

definition handle_request_companion_socket :: "'t denv \<Rightarrow> byte list \<Rightarrow> 't AppContext \<Rightarrow> (msg list \<times> 't AppContext) option" where
  "handle_request_companion_socket env req ctx =
     do { (index, _) \<leftarrow> rust_read_usize req;
          Some (case module_at (modules ctx) index of
             None \<Rightarrow> (rust_write_u8 0, ctx)
           | Some module \<Rightarrow>
               (case live_socket env (m_companion module) of
                  Some s \<Rightarrow> hand_to_companion env (Some s) ctx
                | None \<Rightarrow>
                    (let (r, ctx) = spawn_companion env (m_name module) (set_companion (unat index) None ctx);
                         companion = (case r of Some (Some s) \<Rightarrow> Some s | _ \<Rightarrow> None)
                     in hand_to_companion env companion (set_companion (unat index) companion ctx)))) }"

definition spawn_zn_companion :: "'t denv \<Rightarrow> rstr \<Rightarrow> 't AppContext \<Rightarrow> sock option option \<times> 't AppContext" where
  "spawn_zn_companion env lib_path ctx =
     (case e_pair env of
        None \<Rightarrow> (None, ctx)
      | Some (daemon_sock, companion_fd) \<Rightarrow>
          (let argv = [e_self_exe env, rs ''zygiskd-zn-companion'', rs ''zn-companion'', lib_path, show_nat companion_fd];
               ctx = emit (Spawn argv) ctx
           in case e_spawn env argv of
                None \<Rightarrow> (None, ctx)
              | Some child \<Rightarrow> (companion_ready env child daemon_sock, ctx\<lparr>pending_companions := pending_companions ctx @ [child]\<rparr>)))"

definition handle_request_zn_companion_socket :: "'t denv \<Rightarrow> byte list \<Rightarrow> 't AppContext \<Rightarrow> (msg list \<times> 't AppContext) option" where
  "handle_request_zn_companion_socket env req ctx =
     do { (lib_path, _) \<leftarrow> rust_read_string req;
          Some (case live_socket env (zn_companions ctx lib_path) of
             Some s \<Rightarrow> hand_to_companion env (Some s) ctx
           | None \<Rightarrow>
               (let (r, ctx) = spawn_zn_companion env lib_path (ctx\<lparr>zn_companions := (zn_companions ctx)(lib_path := None)\<rparr>);
                    companion = (case r of Some (Some s) \<Rightarrow> Some s | _ \<Rightarrow> None)
                in hand_to_companion env companion (ctx\<lparr>zn_companions := (zn_companions ctx)(lib_path := companion)\<rparr>))) }"

definition handle_get_module_dir :: "'t denv \<Rightarrow> byte list \<Rightarrow> 't AppContext \<Rightarrow> (msg list \<times> 't AppContext) option" where
  "handle_get_module_dir env req ctx =
     do { (index, _) \<leftarrow> rust_read_usize req;
          module \<leftarrow> module_at (modules ctx) index;
          dir \<leftarrow> e_open_dir env (PATH_MODULES_DIR @ rs ''/'' @ m_name module);
          Some ([FdMsg dir], ctx) }"

subsection \<open>Zygisk Next modules\<close>

record ZnPlanModule =
  zp_lib_path :: rstr
  zp_companion :: bool
  zp_lib_fd :: ofd

definition is_elf_matching_arch :: "'t denv \<Rightarrow> rstr \<Rightarrow> bool" where
  "is_elf_matching_arch env path =
     (case e_head env path of
        None \<Rightarrow> False
      | Some header \<Rightarrow> length header \<ge> 5 \<and> take 4 header = [0x7f, 0x45, 0x4c, 0x46] \<and> header ! 4 = 2)"

definition target_matches :: "rstr \<Rightarrow> rstr \<Rightarrow> rstr \<Rightarrow> bool" where
  "target_matches process_name process_path first =
     (case strip_prefix_of (rs ''name='') first of
        Some target_name \<Rightarrow>
          if target_name = rs ''zygote'' \<or> target_name = rs ''zygote64'' \<or> target_name = rs ''zygote32''
          then contains_str process_name (rs ''zygote'') \<or> contains_str process_name (rs ''app_process'')
          else process_name = target_name
      | None \<Rightarrow> (case strip_prefix_of (rs ''path='') first of Some target_path \<Rightarrow> process_path = target_path | None \<Rightarrow> False))"

definition zn_line :: "'t denv \<Rightarrow> rstr \<Rightarrow> rstr \<Rightarrow> rstr \<Rightarrow> rstr \<Rightarrow> ZnPlanModule list \<Rightarrow> ZnPlanModule list" where
  "zn_line env process_name process_path mod_dir line results =
     (let tokens = split_whitespace line
      in if length tokens < 2 \<or> \<not> target_matches process_name process_path (hd tokens) then results
         else let companion = (rs ''companion'' \<in> set (butlast (tl tokens)));
                  lib_subpath = last tokens;
                  candidate = (if is_absolute lib_subpath then lib_subpath else path_join mod_dir lib_subpath)
              in case (e_canonical env mod_dir, e_canonical env candidate) of
                   (Some canonical_mod, Some canonical_lib) \<Rightarrow>
                     (if \<not> path_starts_with canonical_lib canonical_mod \<or> path_components canonical_lib = path_components canonical_mod then results
                      else if \<not> is_elf_matching_arch env canonical_lib then results
                      else if canonical_lib \<in> set (map zp_lib_path results) then results
                      else case e_library_fd env canonical_lib of
                        Some lib_fd \<Rightarrow> results @ [\<lparr>zp_lib_path = canonical_lib, zp_companion = companion, zp_lib_fd = lib_fd\<rparr>]
                      | None \<Rightarrow> results)
                 | _ \<Rightarrow> results)"

definition zn_module_dir :: "'t denv \<Rightarrow> rstr \<Rightarrow> rstr \<Rightarrow> dirent \<Rightarrow> ZnPlanModule list \<Rightarrow> ZnPlanModule list" where
  "zn_module_dir env process_name process_path entry results =
     (let mod_dir = de_path entry;
          disabled = path_join mod_dir (rs ''disable'');
          remove = path_join mod_dir (rs ''remove'');
          zn_file = path_join mod_dir (rs ''zn_modules.txt'')
      in if \<not> e_exists env zn_file \<or> e_exists env disabled \<or> e_exists env remove then results
         else case e_read env zn_file of
           Some content \<Rightarrow> fold (zn_line env process_name process_path mod_dir) (rust_lines content) results
         | None \<Rightarrow> results)"

definition scan_zn_modules_for_target :: "'t denv \<Rightarrow> rstr \<Rightarrow> rstr \<Rightarrow> ZnPlanModule list" where
  "scan_zn_modules_for_target env process_name process_path =
     (case e_modules_dir env of
        DirEntries es \<Rightarrow> fold (zn_module_dir env process_name process_path) es []
      | _ \<Rightarrow> [])"

definition handle_get_zn_plan :: "'t denv \<Rightarrow> byte list \<Rightarrow> 't AppContext \<Rightarrow> (msg list \<times> 't AppContext) option" where
  "handle_get_zn_plan env req ctx =
     do { (process_name, r) \<leftarrow> rust_read_string req;
          (process_path, _) \<leftarrow> rust_read_string r;
          let matching = scan_zn_modules_for_target env process_name process_path;
          Some (rust_write_usize (of_nat (length matching))
            @ concat (map (\<lambda>m. rust_write_string (zp_lib_path m) @ rust_write_u8 (if zp_companion m then 1 else 0) @ [FdMsg (zp_lib_fd m)]) matching), ctx) }"

text \<open>The state file: one line per library, sorted; it is written beside its place and renamed.\<close>

definition zn_state_line :: "rstr \<times> u32 \<times> u32 \<Rightarrow> rstr" where
  "zn_state_line e =
     (case e of (path, injected, failed) \<Rightarrow>
        (if failed > 0 then rs ''failed'' else if injected > 0 then rs ''injected'' else rs ''unknown'') @ rs '' '' @ path)"

fun str_less_eq :: "rstr \<Rightarrow> rstr \<Rightarrow> bool" where
  "str_less_eq [] ys = True"
| "str_less_eq (x # xs) [] = False"
| "str_less_eq (x # xs) (y # ys) = (x < y \<or> x = y \<and> str_less_eq xs ys)"

primrec insert_line :: "rstr \<Rightarrow> rstr list \<Rightarrow> rstr list" where
  "insert_line l [] = [l]"
| "insert_line l (m # ms) = (if str_less_eq l m then l # m # ms else m # insert_line l ms)"

definition write_zn_state_file :: "'t denv \<Rightarrow> 't AppContext \<Rightarrow> 't AppContext" where
  "write_zn_state_file env ctx =
     (let lines = foldr insert_line (map zn_state_line (zn_states ctx)) [];
          target = TMP_PATH ctx @ rs ''/zn_modules_state'';
          staging = target @ rs ''.tmp''
      in if e_write_ok env staging then emit (Rename staging target) (emit (WriteFile staging (join_str [10] lines @ [10])) ctx) else ctx)"

definition handle_report_zn_module :: "'t denv \<Rightarrow> byte list \<Rightarrow> 't AppContext \<Rightarrow> (msg list \<times> 't AppContext) option" where
  "handle_report_zn_module env req ctx =
     do { (lib_path, r) \<leftarrow> rust_read_string req;
          (flag, _) \<leftarrow> rust_read_u8 r;
          modules_dir \<leftarrow> e_canonical env PATH_MODULES_DIR;
          Some (rust_write_u8 1,
            if path_starts_with lib_path modules_dir
            then let (i, f) = (case map_of (zn_states ctx) lib_path of Some e \<Rightarrow> e | None \<Rightarrow> (0, 0))
                 in write_zn_state_file env (ctx\<lparr>zn_states := AList.update lib_path (if flag \<noteq> 0 then (i + 1, f) else (i, f + 1)) (zn_states ctx)\<rparr>)
            else ctx) }"

subsection \<open>Connections\<close>

text \<open>The datagrams to the monitor carry an \<open>i32\<close>.\<close>

definition send_code :: "'t denv \<Rightarrow> nat \<Rightarrow> 't AppContext \<Rightarrow> 't AppContext" where
  "send_code env code ctx = (if e_datagram env then emit (Datagram (le_enc 4 code)) ctx else ctx)"

definition handle_zygote_restart :: "'t denv \<Rightarrow> 't AppContext \<Rightarrow> 't AppContext option" where
  "handle_zygote_restart env ctx =
     (let ctx = ctx\<lparr>modules := map (\<lambda>m. m\<lparr>m_companion := None\<rparr>) (modules ctx), zn_companions := (\<lambda>_. None), zn_states := []\<rparr>
      in map_option snd (refresh_modules env (write_zn_state_file env ctx)))"

text \<open>A request from its first byte on: the reply, and the context that it leaves; an error leaves no reply.\<close>

definition or_error :: "'t AppContext \<Rightarrow> (msg list \<times> 't AppContext) option \<Rightarrow> msg list \<times> 't AppContext" where
  "or_error ctx r = (case r of Some x \<Rightarrow> x | None \<Rightarrow> ([], ctx))"

definition handle_threaded_action :: "DaemonSocketAction \<Rightarrow> 't denv \<Rightarrow> byte list \<Rightarrow> 't AppContext \<Rightarrow> msg list \<times> 't AppContext" where
  "handle_threaded_action action env req ctx =
     (case action of
        GetProcessFlags \<Rightarrow> or_error ctx (handle_get_process_flags env req ctx)
      | UpdateMountNamespace \<Rightarrow> or_error ctx (handle_update_mount_namespace env req ctx)
      | ReadModules \<Rightarrow> handle_read_modules env ctx
      | RequestCompanionSocket \<Rightarrow> or_error ctx (handle_request_companion_socket env req ctx)
      | RequestZnCompanionSocket \<Rightarrow> or_error ctx (handle_request_zn_companion_socket env req ctx)
      | GetModuleDir \<Rightarrow> or_error ctx (handle_get_module_dir env req ctx)
      | GetSharedMemoryFd \<Rightarrow> handle_get_shared_memory_fd ctx
      | GetZnPlan \<Rightarrow> or_error ctx (handle_get_zn_plan env req ctx)
      | ReportZnModule \<Rightarrow> or_error ctx (handle_report_zn_module env req ctx)
      | _ \<Rightarrow> ([], ctx))"

definition handle_connection :: "'t denv \<Rightarrow> byte list \<Rightarrow> 't AppContext \<Rightarrow> msg list \<times> 't AppContext" where
  "handle_connection env stream ctx =
     (case rust_read_u8 stream of
        None \<Rightarrow> ([], ctx)
      | Some (b, req) \<Rightarrow>
          (case action_try_from b of
             None \<Rightarrow> ([], ctx)
           | Some CacheMountNamespace \<Rightarrow> or_error ctx (handle_cache_mount_namespace env req ctx)
           | Some PingHeartbeat \<Rightarrow> ([], send_code env 4 ctx)
           | Some ZygoteRestart \<Rightarrow> or_error ctx (map_option (Pair []) (handle_zygote_restart env ctx))
           | Some SystemServerStarted \<Rightarrow> ([], send_code env 7 ctx)
           | Some RefreshModules \<Rightarrow>
               or_error ctx (map_option (\<lambda>(n, ctx). (rust_write_u8 (if n = None then 0 else 1), ctx)) (refresh_modules env ctx))
           | Some action \<Rightarrow> handle_threaded_action action env req ctx))"

subsection \<open>The watcher of the configuration\<close>

text \<open>One round of the watcher thread; the files are seen at the instants of the round.\<close>

definition config_watch :: "(nat \<Rightarrow> 't file_view) \<Rightarrow> 't option \<Rightarrow> 't AppContext \<Rightarrow> 't option \<times> 't AppContext" where
  "config_watch w last_mtime ctx =
     (let current = mtime (w 0) CONFIG_PATH
      in if current \<noteq> last_mtime
         then (current, ctx\<lparr>exclude_st := refresh (\<lambda>k. w (k + 1)) (exclude_st ctx),
                 shared_memory := map_option (\<lambda>(fd, sh). (fd, run_op Invalidate sh)) (shared_memory ctx)\<rparr>)
         else (last_mtime, ctx))"

text \<open>The context that \<open>main\<close> serves with.\<close>

definition daemon_init :: "Module list \<Rightarrow> ofd \<Rightarrow> rstr \<Rightarrow> 't AppContext" where
  "daemon_init ms shm_fd tmp =
     \<lparr>modules = ms, mount_manager = mnm_new, zn_companions = (\<lambda>_. None), zn_states = [], pending_companions = [],
      exclude_st = None, shared_memory = Some (shm_fd, initialize_shared_memory), TMP_PATH = tmp, effects = []\<rparr>"

text \<open>Surroundings in which nothing is there and every call fails, for examples.\<close>

definition bare_root_env :: root_env where
  "bare_root_env = \<lparr>MIN_APATCH_VERSION = 1, MIN_KSU_VERSION = 1, MAX_KSU_VERSION = 1, MIN_MAGISK_VERSION = 1, command = (\<lambda>_ _. None),
     file_lines = (\<lambda>_. None), stat_uid = (\<lambda>_. None), path_exists = (\<lambda>_. False), ksu_fd_links = None, ksu_reboot = -1, ksu_get_info = (\<lambda>_. None),
     ksu_granted = (\<lambda>_ _. None), ksu_umount = (\<lambda>_ _. None), ksu_manager = (\<lambda>_. None), ksu_prctl_version = 0, ksu_prctl_hook_mode = 0,
     ksu_prctl_manager_ok = 0, ksu_prctl_query = (\<lambda>_ _. (False, 0)), ksu_prctl_manager = (0, 0)\<rparr>"

definition bare_env :: "nat denv" where
  "bare_env = \<lparr>e_peer_uid = None, e_abi = None, e_modules_dir = DirNotFound, e_exists = (\<lambda>_. False), e_read = (\<lambda>_. None), e_canonical = (\<lambda>_. None),
     e_head = (\<lambda>_. None), e_library_fd = (\<lambda>_. None), e_open_dir = (\<lambda>_. None), e_self_exe = rs ''/d'', e_pair = None, e_spawn = (\<lambda>_. None),
     e_companion_send = (\<lambda>_. False), e_companion_reply = (\<lambda>_. None), e_alive = (\<lambda>_. False), e_exited = (\<lambda>_. False), e_handover = (\<lambda>_. False),
     e_json = (\<lambda>_. []), e_kernel = [], e_sdk = [], e_abi_text = [], e_datagram = False, e_write_ok = (\<lambda>_. False),
     e_ns = \<lparr>ns_fork = (\<lambda>_ _. None), ns_signal = (\<lambda>_. None), ns_open = (\<lambda>_. None)\<rparr>,
     e_root = (bare_root_env, root_init\<lparr>ROOT_IMPL := Some RootKernelSU\<rparr>), e_files = (\<lambda>_. \<lparr>mtime = (\<lambda>_. None), read_to_string = (\<lambda>_. None)\<rparr>)\<rparr>"

section \<open>Lemmas\<close>

subsection \<open>The plan for Zygisk Next modules\<close>

text \<open>A plan entry that a line of a module directory accounts for.\<close>

definition planned_by :: "'t denv \<Rightarrow> rstr \<Rightarrow> rstr \<Rightarrow> rstr \<Rightarrow> rstr \<Rightarrow> ZnPlanModule \<Rightarrow> bool" where
  "planned_by env process_name process_path mod_dir line m \<longleftrightarrow>
     length (split_whitespace line) \<ge> 2 \<and> target_matches process_name process_path (hd (split_whitespace line))
     \<and> (\<exists>canonical_mod. e_canonical env mod_dir = Some canonical_mod \<and> path_starts_with (zp_lib_path m) canonical_mod
          \<and> path_components (zp_lib_path m) \<noteq> path_components canonical_mod)
     \<and> is_elf_matching_arch env (zp_lib_path m) \<and> e_library_fd env (zp_lib_path m) = Some (zp_lib_fd m)"

definition plan_enabled :: "'t denv \<Rightarrow> rstr \<Rightarrow> bool" where
  "plan_enabled env mod_dir \<longleftrightarrow> e_exists env (path_join mod_dir (rs ''zn_modules.txt''))
     \<and> \<not> e_exists env (path_join mod_dir (rs ''disable'')) \<and> \<not> e_exists env (path_join mod_dir (rs ''remove''))"

lemma zn_line_cases:
  "zn_line env pn pp dir line results = results \<or>
   (\<exists>m. zn_line env pn pp dir line results = results @ [m] \<and> zp_lib_path m \<notin> set (map zp_lib_path results) \<and> planned_by env pn pp dir line m)"
  by (auto simp: zn_line_def planned_by_def Let_def not_less split: option.split)

definition plan_ok :: "(ZnPlanModule \<Rightarrow> bool) \<Rightarrow> ZnPlanModule list \<Rightarrow> bool" where
  "plan_ok P results \<longleftrightarrow> distinct (map zp_lib_path results) \<and> list_all P results"

lemma zn_line_ok:
  "plan_ok P results \<Longrightarrow> (\<And>m. planned_by env pn pp dir line m \<Longrightarrow> P m) \<Longrightarrow> plan_ok P (zn_line env pn pp dir line results)"
  using zn_line_cases [of env pn pp dir line results] by (auto simp: plan_ok_def)

lemma zn_lines_ok:
  "plan_ok P results \<Longrightarrow> (\<And>line m. line \<in> set ls \<Longrightarrow> planned_by env pn pp dir line m \<Longrightarrow> P m) \<Longrightarrow>
    plan_ok P (fold (zn_line env pn pp dir) ls results)"
proof (induction ls arbitrary: results)
  case (Cons l ls)
  have "plan_ok P (zn_line env pn pp dir l results)" using Cons.prems by (intro zn_line_ok) auto
  then have "plan_ok P (fold (zn_line env pn pp dir) ls (zn_line env pn pp dir l results))"
    by (rule Cons.IH) (use Cons.prems(2) in auto)
  then show ?case by simp
qed simp

lemma zn_module_dir_ok:
  assumes "plan_ok P results" "\<And>content line m. plan_enabled env (de_path entry) \<Longrightarrow> e_read env (path_join (de_path entry) (rs ''zn_modules.txt'')) = Some content \<Longrightarrow>
      line \<in> set (rust_lines content) \<Longrightarrow> planned_by env pn pp (de_path entry) line m \<Longrightarrow> P m"
  shows "plan_ok P (zn_module_dir env pn pp entry results)"
  using assms by (auto simp: zn_module_dir_def plan_enabled_def Let_def intro!: zn_lines_ok split: option.split)

lemma zn_module_dirs_ok:
  "plan_ok P results \<Longrightarrow>
   (\<And>entry content line m. entry \<in> set es \<Longrightarrow> plan_enabled env (de_path entry) \<Longrightarrow> e_read env (path_join (de_path entry) (rs ''zn_modules.txt'')) = Some content \<Longrightarrow>
      line \<in> set (rust_lines content) \<Longrightarrow> planned_by env pn pp (de_path entry) line m \<Longrightarrow> P m) \<Longrightarrow>
   plan_ok P (fold (zn_module_dir env pn pp) es results)"
proof (induction es arbitrary: results)
  case (Cons e es)
  have "plan_ok P (zn_module_dir env pn pp e results)" using Cons.prems by (intro zn_module_dir_ok) auto
  then have "plan_ok P (fold (zn_module_dir env pn pp) es (zn_module_dir env pn pp e results))"
    by (rule Cons.IH) (use Cons.prems(2) in auto)
  then show ?case by simp
qed simp

lemma scan_zn_ok:
  assumes "\<And>es entry content line m. e_modules_dir env = DirEntries es \<Longrightarrow> entry \<in> set es \<Longrightarrow> plan_enabled env (de_path entry) \<Longrightarrow>
      e_read env (path_join (de_path entry) (rs ''zn_modules.txt'')) = Some content \<Longrightarrow>
      line \<in> set (rust_lines content) \<Longrightarrow> planned_by env pn pp (de_path entry) line m \<Longrightarrow> P m"
  shows "plan_ok P (scan_zn_modules_for_target env pn pp)"
proof (cases "e_modules_dir env")
  case (DirEntries es)
  have "plan_ok P (fold (zn_module_dir env pn pp) es [])"
    by (rule zn_module_dirs_ok) (use assms DirEntries in \<open>auto simp: plan_ok_def\<close>)
  with DirEntries show ?thesis by (simp add: scan_zn_modules_for_target_def)
qed (simp_all add: scan_zn_modules_for_target_def plan_ok_def)

section \<open>Properties\<close>


end
