(* ===== verification/Daemon_Client.thy ===== *)
theory Daemon_Client
  imports Daemon
begin

text \<open>
  The injector's calls to the daemon (\<open>loader/src/common/daemon.cpp\<close>, namespace \<open>zygiskd\<close>).  A call is
  given the outcomes of its connection attempts and the connection they lead to; its result comes
  with the connection as it leaves it, None when there was none.  A result None altogether is a use
  of memory that was not initialised or lies outside its object.
\<close>

section \<open>Definitions\<close>

subsection \<open>Connecting\<close>

primrec SocketAction :: "DaemonSocketAction \<Rightarrow> byte" where
  "SocketAction PingHeartbeat = 0"
| "SocketAction GetProcessFlags = 1"
| "SocketAction CacheMountNamespace = 2"
| "SocketAction UpdateMountNamespace = 3"
| "SocketAction ReadModules = 4"
| "SocketAction RequestCompanionSocket = 5"
| "SocketAction GetModuleDir = 6"
| "SocketAction ZygoteRestart = 7"
| "SocketAction SystemServerStarted = 8"
| "SocketAction GetSharedMemoryFd = 9"
| "SocketAction RequestZnCompanionSocket = 10"
| "SocketAction GetZnPlan = 11"
| "SocketAction ReportZnModule = 12"
| "SocketAction RefreshModules = 13"

record link =
  lk_tmp_path :: cstr
  lk_attempts :: "bool list"
  lk_conn :: conn

definition kCPSocketName :: cstr where "kCPSocketName = cstring ''/cp64.sock''"

definition SetSocketTimeout :: "nat \<Rightarrow> conn \<Rightarrow> conn" where
  "SetSocketTimeout timeout_ms c = c\<lparr>c_timeout := (timeout_ms div 1000, timeout_ms mod 1000 * 1000)\<rparr>"

fun connect_loop :: "nat \<Rightarrow> bool list \<Rightarrow> bool" where
  "connect_loop (Suc retry) (r # later) = (r \<or> connect_loop retry later)"
| "connect_loop _ _ = False"

text \<open>The path is copied into the 108 bytes of \<open>sun_path\<close> without a check of its length.\<close>

definition Connect :: "nat \<Rightarrow> link \<Rightarrow> conn option option" where
  "Connect retry lk =
     (if length (lk_tmp_path lk @ kCPSocketName) \<ge> 108 then None
      else Some (if connect_loop retry (lk_attempts lk) then Some (SetSocketTimeout 3000 (lk_conn lk)) else None))"

definition recv :: "(rd_event list \<Rightarrow> 'a \<times> rd_event list) \<Rightarrow> conn \<Rightarrow> 'a \<times> conn" where
  "recv f c = (let (v, evs) = f (c_in c) in (v, c\<lparr>c_in := evs\<rparr>))"

definition recv_opt :: "(rd_event list \<Rightarrow> ('a \<times> rd_event list) option) \<Rightarrow> conn \<Rightarrow> ('a \<times> conn) option" where
  "recv_opt f c = map_option (\<lambda>(v, evs). (v, c\<lparr>c_in := evs\<rparr>)) (f (c_in c))"

definition send_action :: "DaemonSocketAction \<Rightarrow> conn \<Rightarrow> conn" where
  "send_action a c = snd (write_u8 (SocketAction a) c)"

subsection \<open>Calls\<close>

definition zygiskd_PingHeartbeat :: "link \<Rightarrow> (bool \<times> conn option) option" where
  "zygiskd_PingHeartbeat lk =
     do { fd \<leftarrow> Connect 5 lk;
          Some (case fd of None \<Rightarrow> (False, None) | Some c \<Rightarrow> (True, Some (send_action PingHeartbeat c))) }"

text \<open>Without a connection the writes go to descriptor -1 and fail.\<close>

definition zygiskd_CacheMountNamespace :: "u32 \<Rightarrow> link \<Rightarrow> (conn option) option" where
  "zygiskd_CacheMountNamespace pid lk =
     do { fd \<leftarrow> Connect 1 lk;
          Some (map_option (\<lambda>c. snd (write_u32 pid (send_action CacheMountNamespace c))) fd) }"

definition recv_status_fd :: "conn \<Rightarrow> (rfd \<times> conn) option" where
  "recv_status_fd c = (let (status, c) = recv read_u8 c in if status = 0 then Some (NoFd, c) else recv_opt recv_fd c)"

definition zygiskd_UpdateMountNamespace :: "MountNamespace \<Rightarrow> link \<Rightarrow> (rfd \<times> conn option) option" where
  "zygiskd_UpdateMountNamespace type lk =
     do { fd \<leftarrow> Connect 1 lk;
          case fd of
            None \<Rightarrow> Some (NoFd, None)
          | Some c \<Rightarrow> map_option (map_prod id Some)
              (recv_status_fd (snd (write_u8 (case type of Clean \<Rightarrow> 0 | Root \<Rightarrow> 1) (send_action UpdateMountNamespace c)))) }"

primrec read_modules_loop :: "nat \<Rightarrow> conn \<Rightarrow> ((cstr \<times> rfd) list \<times> conn) option" where
  "read_modules_loop 0 c = Some ([], c)"
| "read_modules_loop (Suc n) c =
     do { (name, c) \<leftarrow> recv_opt read_string c;
          (module_fd, c) \<leftarrow> recv_opt recv_fd c;
          (ms, c) \<leftarrow> read_modules_loop n c;
          Some ((name, module_fd) # ms, c) }"

definition zygiskd_ReadModules :: "link \<Rightarrow> ((cstr \<times> rfd) list \<times> conn option) option" where
  "zygiskd_ReadModules lk =
     do { fd \<leftarrow> Connect 1 lk;
          case fd of
            None \<Rightarrow> Some ([], None)
          | Some c \<Rightarrow> (let (len, c) = recv read_usize (send_action ReadModules c)
                       in map_option (map_prod id Some) (read_modules_loop (unat len) c)) }"

text \<open>The result of the companion calls is the connection itself, without a timeout.\<close>

definition companion_answer :: "conn \<Rightarrow> conn option" where
  "companion_answer c = (let (r, c) = recv read_u8 c in if r = 1 then Some (SetSocketTimeout 0 c) else None)"

definition zygiskd_ConnectCompanion :: "addr \<Rightarrow> link \<Rightarrow> (conn option) option" where
  "zygiskd_ConnectCompanion index lk =
     do { fd \<leftarrow> Connect 1 lk;
          Some (Option.bind fd (\<lambda>c. companion_answer (snd (write_usize index (send_action RequestCompanionSocket c))))) }"

definition zygiskd_ConnectZnCompanion :: "cstr \<Rightarrow> link \<Rightarrow> (conn option) option" where
  "zygiskd_ConnectZnCompanion lib_path lk =
     do { fd \<leftarrow> Connect 1 lk;
          Some (Option.bind fd (\<lambda>c. companion_answer (snd (write_string lib_path (send_action RequestZnCompanionSocket c))))) }"

text \<open>An entry whose descriptor does not arrive is left out.\<close>

primrec zn_plan_loop :: "nat \<Rightarrow> conn \<Rightarrow> ((cstr \<times> bool \<times> ofd) list \<times> conn) option" where
  "zn_plan_loop 0 c = Some ([], c)"
| "zn_plan_loop (Suc n) c =
     do { (lib_path, c) \<leftarrow> recv_opt read_string c;
          let (companion, c) = recv read_u8 c;
          (memfd, c) \<leftarrow> recv_opt recv_fd c;
          (es, c) \<leftarrow> zn_plan_loop n c;
          Some (case memfd of NoFd \<Rightarrow> es | Fd f \<Rightarrow> (lib_path, companion \<noteq> 0, f) # es, c) }"

definition zygiskd_GetZnPlan :: "cstr \<Rightarrow> cstr \<Rightarrow> nat \<Rightarrow> link \<Rightarrow> ((cstr \<times> bool \<times> ofd) list \<times> conn option) option" where
  "zygiskd_GetZnPlan process_name process_path retry lk =
     do { fd \<leftarrow> Connect retry lk;
          case fd of
            None \<Rightarrow> Some ([], None)
          | Some c \<Rightarrow>
              (let (ok1, c) = write_u8 (SocketAction GetZnPlan) c
               in if \<not> ok1 then Some ([], Some c)
                  else let (ok2, c) = write_string process_name c
                  in if \<not> ok2 then Some ([], Some c)
                  else let (ok3, c) = write_string process_path c
                  in if \<not> ok3 then Some ([], Some c)
                  else let (count, c) = recv read_usize c
                  in map_option (map_prod id Some) (zn_plan_loop (unat count) c)) }"

definition zygiskd_ReportZnModule :: "cstr \<Rightarrow> bool \<Rightarrow> link \<Rightarrow> (conn option) option" where
  "zygiskd_ReportZnModule lib_path injected lk =
     do { fd \<leftarrow> Connect 1 lk;
          Some (map_option (\<lambda>c.
            let (ok1, c) = write_u8 (SocketAction ReportZnModule) c
            in if \<not> ok1 then c
               else let (ok2, c) = write_string lib_path c
               in if \<not> ok2 then c
               else let (ok3, c) = write_u8 (if injected then 1 else 0) c
               in if \<not> ok3 then c else snd (recv read_u8 c)) fd) }"

definition zygiskd_GetModuleDir :: "addr \<Rightarrow> link \<Rightarrow> (rfd \<times> conn option) option" where
  "zygiskd_GetModuleDir index lk =
     do { fd \<leftarrow> Connect 1 lk;
          case fd of
            None \<Rightarrow> Some (NoFd, None)
          | Some c \<Rightarrow> map_option (map_prod id Some) (recv_opt recv_fd (snd (write_usize index (send_action GetModuleDir c)))) }"

definition zygiskd_ZygoteRestart :: "link \<Rightarrow> (conn option) option" where
  "zygiskd_ZygoteRestart lk = do { fd \<leftarrow> Connect 1 lk; Some (map_option (send_action ZygoteRestart) fd) }"

definition zygiskd_SystemServerStarted :: "link \<Rightarrow> (conn option) option" where
  "zygiskd_SystemServerStarted lk = do { fd \<leftarrow> Connect 1 lk; Some (map_option (send_action SystemServerStarted) fd) }"

definition zygiskd_GetSharedMemoryFd :: "link \<Rightarrow> (rfd \<times> conn option) option" where
  "zygiskd_GetSharedMemoryFd lk =
     do { fd \<leftarrow> Connect 1 lk;
          case fd of
            None \<Rightarrow> Some (NoFd, None)
          | Some c \<Rightarrow> map_option (map_prod id Some) (recv_status_fd (send_action GetSharedMemoryFd c)) }"

definition zygiskd_RefreshModules :: "link \<Rightarrow> (bool \<times> conn option) option" where
  "zygiskd_RefreshModules lk =
     do { fd \<leftarrow> Connect 5 lk;
          Some (case fd of
            None \<Rightarrow> (False, None)
          | Some c \<Rightarrow>
              (let (ok, c) = write_u8 (SocketAction RefreshModules) c
               in if \<not> ok then (False, Some c) else let (r, c) = recv read_u8 c in (r = 1, Some c))) }"

text \<open>
  \<open>GetProcessFlags\<close>.  The state is the pair of statics: whether the mapping was tried, and the mapping.
  \<open>mapped\<close> is what \<open>mmap\<close> gives for the descriptor, with the table at the moment of each load.
\<close>

record client_shm =
  g_shm_init_attempted :: bool
  g_shm_base :: "(nat \<Rightarrow> shm) option"

definition zygiskd_GetProcessFlags ::
  "link \<Rightarrow> (ofd \<Rightarrow> (nat \<Rightarrow> shm) option) \<Rightarrow> link \<Rightarrow> u32 \<Rightarrow> client_shm \<Rightarrow> (u32 \<times> conn option \<times> client_shm) option" where
  "zygiskd_GetProcessFlags shm_lk mapped lk uid g =
     do { g \<leftarrow> (if g_shm_init_attempted g then Some g
               else do { (shm_fd, _) \<leftarrow> zygiskd_GetSharedMemoryFd shm_lk;
                         Some (\<lparr>g_shm_init_attempted = True,
                           g_shm_base = (case shm_fd of Fd f \<Rightarrow> (case mapped f of Some at \<Rightarrow> Some at | None \<Rightarrow> g_shm_base g) | NoFd \<Rightarrow> g_shm_base g)\<rparr>) });
          case Option.bind (g_shm_base g) (\<lambda>at. cached_flags at uid) of
            Some flags \<Rightarrow> Some (flags, None, g)
          | None \<Rightarrow>
              do { fd \<leftarrow> Connect 1 lk;
                   Some (case fd of
                     None \<Rightarrow> (0, None, g)
                   | Some c \<Rightarrow> (let (flags, c) = recv read_u32 (snd (write_u32 uid (send_action GetProcessFlags c))) in (flags, Some c, g))) } }"

definition UnmapSharedMemory :: "client_shm \<Rightarrow> client_shm" where
  "UnmapSharedMemory g = g\<lparr>g_shm_base := None\<rparr>"

section \<open>Lemmas\<close>

subsection \<open>Receiving on a connection\<close>

definition delivers :: "byte list \<Rightarrow> conn \<Rightarrow> token list \<Rightarrow> bool" where
  "delivers d c ts \<longleftrightarrow> delivery d (c_in c) = Some ts"

lemma recv_delivers:
  assumes "\<exists>evs'. f (c_in c) = (v, evs') \<and> delivery d evs' = Some ts"
  shows "\<exists>c'. recv f c = (v, c') \<and> delivers d c' ts \<and> c_sent c' = c_sent c"
  using assms by (auto simp: recv_def delivers_def)

lemma recv_opt_delivers:
  assumes "\<exists>evs'. f (c_in c) = Some (v, evs') \<and> delivery d evs' = Some ts"
  shows "\<exists>c'. recv_opt f c = Some (v, c') \<and> delivers d c' ts \<and> c_sent c' = c_sent c"
  using assms by (auto simp: recv_opt_def delivers_def)

lemma recv_u8: "delivers d c (tokens (rust_write_u8 v) @ ts) \<Longrightarrow> \<exists>c'. recv read_u8 c = (v, c') \<and> delivers d c' ts \<and> c_sent c' = c_sent c"
  by (rule recv_delivers, rule read_u8_delivery) (simp add: delivers_def)

lemma recv_u32: "delivers d c (tokens (rust_write_u32 v) @ ts) \<Longrightarrow> \<exists>c'. recv read_u32 c = (v, c') \<and> delivers d c' ts \<and> c_sent c' = c_sent c"
  by (rule recv_delivers, rule read_u32_delivery) (simp add: delivers_def)

lemma recv_usize: "delivers d c (tokens (rust_write_usize v) @ ts) \<Longrightarrow> \<exists>c'. recv read_usize c = (v, c') \<and> delivers d c' ts \<and> c_sent c' = c_sent c"
  by (rule recv_delivers, rule read_usize_delivery) (simp add: delivers_def)

lemma recv_string:
  "delivers d c (tokens (rust_write_string s) @ ts) \<Longrightarrow> wire_string s \<Longrightarrow>
    \<exists>c'. recv_opt read_string c = Some (as_bytes s, c') \<and> delivers d c' ts \<and> c_sent c' = c_sent c"
  by (rule recv_opt_delivers, rule read_string_delivery) (simp_all add: delivers_def)

lemma recv_descriptor:
  "delivers d c (TF f # ts) \<Longrightarrow> length d = 4 \<Longrightarrow> \<exists>c'. recv_opt recv_fd c = Some (Fd f, c') \<and> delivers d c' ts \<and> c_sent c' = c_sent c"
  by (rule recv_opt_delivers, rule recv_fd_delivery) (simp_all add: delivers_def)

lemma read_modules_loop_delivers:
  assumes "length d = 4"
  shows "\<forall>m \<in> set ms. wire_string (m_name m) \<Longrightarrow>
    delivers d c (tokens (concat (map (\<lambda>m. rust_write_string (m_name m) @ [FdMsg (m_lib_fd m)]) ms)) @ ts) \<Longrightarrow>
    \<exists>c'. read_modules_loop (length ms) c = Some (map (\<lambda>m. (as_bytes (m_name m), Fd (m_lib_fd m))) ms, c') \<and> delivers d c' ts \<and> c_sent c' = c_sent c"
proof (induction ms arbitrary: c)
  case (Cons m ms)
  let ?rest = "tokens (concat (map (\<lambda>m. rust_write_string (m_name m) @ [FdMsg (m_lib_fd m)]) ms)) @ ts"
  obtain c1 where c1: "recv_opt read_string c = Some (as_bytes (m_name m), c1)" "delivers d c1 (TF (m_lib_fd m) # ?rest)" "c_sent c1 = c_sent c"
    using recv_string [of d c "m_name m" "TF (m_lib_fd m) # ?rest"] Cons.prems by auto
  obtain c2 where c2: "recv_opt recv_fd c1 = Some (Fd (m_lib_fd m), c2)" "delivers d c2 ?rest" "c_sent c2 = c_sent c"
    using recv_descriptor [OF c1(2) assms] c1(3) by auto
  with Cons.IH [of c2] Cons.prems obtain c3 where
    "read_modules_loop (length ms) c2 = Some (map (\<lambda>m. (as_bytes (m_name m), Fd (m_lib_fd m))) ms, c3)" "delivers d c3 ts" "c_sent c3 = c_sent c" by auto
  with c1(1) c2(1) show ?case by simp
qed (simp add: delivers_def)

lemma zn_plan_loop_delivers:
  assumes "length d = 4"
  shows "\<forall>m \<in> set ms. wire_string (zp_lib_path m) \<Longrightarrow>
    delivers d c (tokens (concat (map (\<lambda>m. rust_write_string (zp_lib_path m) @ rust_write_u8 (if zp_companion m then 1 else 0) @ [FdMsg (zp_lib_fd m)]) ms)) @ ts) \<Longrightarrow>
    \<exists>c'. zn_plan_loop (length ms) c = Some (map (\<lambda>m. (as_bytes (zp_lib_path m), zp_companion m, zp_lib_fd m)) ms, c') \<and> delivers d c' ts \<and> c_sent c' = c_sent c"
proof (induction ms arbitrary: c)
  case (Cons m ms)
  let ?rest = "tokens (concat (map (\<lambda>m. rust_write_string (zp_lib_path m) @ rust_write_u8 (if zp_companion m then 1 else 0) @ [FdMsg (zp_lib_fd m)]) ms)) @ ts"
  let ?b = "if zp_companion m then 1 else 0 :: byte"
  obtain c1 where c1: "recv_opt read_string c = Some (as_bytes (zp_lib_path m), c1)" "delivers d c1 (tokens (rust_write_u8 ?b) @ TF (zp_lib_fd m) # ?rest)" "c_sent c1 = c_sent c"
    using recv_string [of d c "zp_lib_path m" "tokens (rust_write_u8 ?b) @ TF (zp_lib_fd m) # ?rest"] Cons.prems by auto
  obtain c2 where c2: "recv read_u8 c1 = (?b, c2)" "delivers d c2 (TF (zp_lib_fd m) # ?rest)" "c_sent c2 = c_sent c"
    using recv_u8 [OF c1(2)] c1(3) by auto
  obtain c3 where c3: "recv_opt recv_fd c2 = Some (Fd (zp_lib_fd m), c3)" "delivers d c3 ?rest" "c_sent c3 = c_sent c"
    using recv_descriptor [OF c2(2) assms] c2(3) by auto
  with Cons.IH [of c3] Cons.prems obtain c4 where
    "zn_plan_loop (length ms) c3 = Some (map (\<lambda>m. (as_bytes (zp_lib_path m), zp_companion m, zp_lib_fd m)) ms, c4)" "delivers d c4 ts" "c_sent c4 = c_sent c" by auto
  with c1(1) c2(1) c3(1) show ?case by simp
qed (simp add: delivers_def)

subsection \<open>Requests on a new connection\<close>

text \<open>A link whose first attempt succeeds, to a connection nothing has been sent on and that takes what is written.\<close>

definition link_up :: "link \<Rightarrow> bool" where
  "link_up lk \<longleftrightarrow> length (lk_tmp_path lk @ kCPSocketName) < 108 \<and> lk_attempts lk \<noteq> [] \<and> hd (lk_attempts lk)
     \<and> healthy (lk_conn lk) \<and> c_sent (lk_conn lk) = []"

lemma link_up_Connect:
  assumes "link_up lk" "0 < retry"
  shows "\<exists>c. Connect retry lk = Some (Some c) \<and> healthy c \<and> c_sent c = [] \<and> c_in c = c_in (lk_conn lk)"
proof -
  have "connect_loop retry (lk_attempts lk)" using assms by (cases retry; cases "lk_attempts lk") (auto simp: link_up_def)
  with assms(1) show ?thesis by (auto simp: Connect_def link_up_def SetSocketTimeout_def healthy_def)
qed

lemma send_action_healthy:
  assumes "healthy c"
  shows "healthy (send_action a c) \<and> c_sent (send_action a c) = c_sent c @ [SocketAction a] \<and> c_in (send_action a c) = c_in c"
  using write_bytes_healthy [OF assms, of "[SocketAction a]"] by (auto simp: send_action_def write_u8_def)

lemma action_code: "action_try_from (SocketAction a) = Some a"
  by (cases a) (simp_all add: action_try_from_def actions_def)

definition synchronous :: "DaemonSocketAction \<Rightarrow> bool" where
  "synchronous a \<longleftrightarrow> a \<in> {CacheMountNamespace, PingHeartbeat, ZygoteRestart, SystemServerStarted, RefreshModules}"

lemma handle_connection_threaded:
  "\<not> synchronous a \<Longrightarrow> handle_connection env (SocketAction a # req) ctx = handle_threaded_action a env req ctx"
proof -
  have "rust_read_u8 (SocketAction a # req) = Some (SocketAction a, req)" using u8_wire.dec_enc [of "SocketAction a" req] by simp
  then show "\<not> synchronous a \<Longrightarrow> ?thesis" unfolding handle_connection_def
    by (simp only: option.case prod.case action_code) (cases a; simp add: synchronous_def)
qed

section \<open>Properties\<close>

text \<open>
  The numbers that the injector writes for its requests are those by which the daemon knows them,
  and every other number is refused.
\<close>

theorem socket_action_codes:
  "action_try_from (SocketAction a) = Some a \<and> (action_try_from b = Some a \<longleftrightarrow> b = SocketAction a)"
proof -
  have "b = SocketAction a" if "action_try_from b = Some a"
  proof -
    have "unat b < 14" "actions ! unat b = a" using that by (auto simp: action_try_from_def actions_def split: if_splits)
    moreover from this have "unat b \<in> set [0..<14]" by simp
    ultimately have "unat (SocketAction a) = unat b" by (auto simp: actions_def upt_rec split: if_splits)
    then show ?thesis by (simp add: word_unat_eq_iff)
  qed
  with action_code show ?thesis by auto
qed

text \<open>
  C11: \<open>ReadModules\<close> end to end.  However the daemon's reply is cut into pieces and whatever signals
  arrive between them, the injector receives exactly the modules of the daemon's snapshot, in order,
  each name with the descriptor of its library.
\<close>

theorem read_modules_end_to_end:
  assumes "link_up lk" "length d = 4" "\<forall>m \<in> set (modules ctx). wire_string (m_name m)" "length (modules ctx) < 2 ^ 64"
    and "delivery d (c_in (lk_conn lk)) = Some (tokens (fst (handle_connection env [SocketAction ReadModules] ctx)))"
  shows "\<exists>c. zygiskd_ReadModules lk = Some (map (\<lambda>m. (as_bytes (m_name m), Fd (m_lib_fd m))) (modules ctx), Some c)
    \<and> c_sent c = [SocketAction ReadModules]"
proof -
  let ?ms = "concat (map (\<lambda>m. rust_write_string (m_name m) @ [FdMsg (m_lib_fd m)]) (modules ctx))"
  have reply: "fst (handle_connection env [SocketAction ReadModules] ctx) = rust_write_usize (of_nat (length (modules ctx))) @ ?ms"
    by (simp add: handle_connection_threaded synchronous_def handle_threaded_action_def handle_read_modules_def reap_companions_def
        Let_def del: SocketAction.simps)
  obtain c0 where c0: "Connect 1 lk = Some (Some c0)" "healthy c0" "c_sent c0 = []" "c_in c0 = c_in (lk_conn lk)"
    using link_up_Connect [OF assms(1)] by auto
  let ?c = "send_action ReadModules c0"
  have c: "delivers d ?c (tokens (rust_write_usize (of_nat (length (modules ctx)))) @ tokens ?ms)" "c_sent ?c = [SocketAction ReadModules]"
    using send_action_healthy [OF c0(2), of ReadModules] assms(5) c0(3,4) reply by (simp_all add: delivers_def)
  obtain c1 where c1: "recv read_usize ?c = (of_nat (length (modules ctx)), c1)" "delivers d c1 (tokens ?ms)" "c_sent c1 = [SocketAction ReadModules]"
    using recv_usize [OF c(1)] c(2) by auto
  moreover have "unat (of_nat (length (modules ctx)) :: addr) = length (modules ctx)" using assms(4) by (simp add: unat_of_nat)
  ultimately show ?thesis
    using read_modules_loop_delivers [OF assms(2,3), of c1 "[]"] c0(1) by (auto simp: zygiskd_ReadModules_def)
qed

text \<open>A daemon with one module; its reply arrives in three pieces with a signal in between.\<close>

definition sample_link :: "rd_event list \<Rightarrow> link" where
  "sample_link evs = \<lparr>lk_tmp_path = cstring ''/data'', lk_attempts = [True], lk_conn = \<lparr>c_in = evs, c_wr = [], c_sent = [], c_timeout = (0, 0)\<rparr>\<rparr>"

lemma sample_link_up: "link_up (sample_link evs)"
  by (simp add: link_up_def sample_link_def kCPSocketName_def cstring_def healthy_def)

lemma le_enc_numeral: "le_enc (numeral k) v = of_nat v # le_enc (pred_numeral k) (v div 256)"
  by (metis le_enc.simps(2) numeral_eq_Suc)

theorem read_modules_end_to_end_witness:
  "\<exists>c. zygiskd_ReadModules (sample_link [Seg None [1, 0, 0], RIntr, Seg None [0, 0, 0, 0, 0, 1], Seg None [0, 0, 0, 0, 0, 0, 0, 109], Seg (Some 9) [0, 0, 0, 0]])
    = Some ([([109], Fd 9)], Some c) \<and> c_sent c = [4]"
proof -
  let ?ctx = "daemon_init [\<lparr>m_name = [109], m_lib_fd = 9, m_companion = None\<rparr>] 5 [] :: nat AppContext"
  let ?evs = "[Seg None [1, 0, 0], RIntr, Seg None [0, 0, 0, 0, 0, 1], Seg None [0, 0, 0, 0, 0, 0, 0, 109], Seg (Some 9) [0, 0, 0, 0]]"
  have "delivery [0, 0, 0, 0] (c_in (lk_conn (sample_link ?evs))) = Some (tokens (fst (handle_connection bare_env [SocketAction ReadModules] ?ctx)))"
    by (simp add: sample_link_def handle_connection_threaded [of ReadModules, simplified] synchronous_def handle_threaded_action_def handle_read_modules_def
        reap_companions_def daemon_init_def rust_write_usize_def rust_write_string_def as_bytes_def utf8_enc_def le_enc_numeral Let_def)
  from read_modules_end_to_end [OF sample_link_up _ _ _ this]
  show ?thesis by (simp add: daemon_init_def wire_string_def is_scalar_def as_bytes_def utf8_enc_def)
qed

definition zn_plan_request :: "rstr \<Rightarrow> rstr \<Rightarrow> byte list" where
  "zn_plan_request process_name process_path =
     SocketAction GetZnPlan # le_enc 8 (unat (of_nat (length (as_bytes process_name)) :: addr)) @ as_bytes process_name
       @ le_enc 8 (unat (of_nat (length (as_bytes process_path)) :: addr)) @ as_bytes process_path"

lemma zn_plan_reply:
  assumes "wire_string process_name" "wire_string process_path"
  shows "fst (handle_connection env (zn_plan_request process_name process_path) ctx) =
    (let plan = scan_zn_modules_for_target env process_name process_path
     in rust_write_usize (of_nat (length plan))
       @ concat (map (\<lambda>m. rust_write_string (zp_lib_path m) @ rust_write_u8 (if zp_companion m then 1 else 0) @ [FdMsg (zp_lib_fd m)]) plan))"
  using rust_read_string_sent [OF assms(1)] rust_read_string_sent [OF assms(2), of "[]"]
  by (simp add: zn_plan_request_def handle_connection_threaded synchronous_def handle_threaded_action_def handle_get_zn_plan_def or_error_def Let_def
      del: SocketAction.simps)

lemma zn_plan_request_sent:
  assumes "link_up lk" "0 < retry"
  shows "\<exists>c. zygiskd_GetZnPlan (as_bytes process_name) (as_bytes process_path) retry lk =
      (let (count, c) = recv read_usize c in map_option (map_prod id Some) (zn_plan_loop (unat count) c))
    \<and> c_in c = c_in (lk_conn lk) \<and> c_sent c = zn_plan_request process_name process_path"
proof -
  obtain c0 where c0: "Connect retry lk = Some (Some c0)" "healthy c0" "c_sent c0 = []" "c_in c0 = c_in (lk_conn lk)"
    using link_up_Connect [OF assms] by auto
  obtain c1 where c1: "write_u8 (SocketAction GetZnPlan) c0 = (True, c1)" "healthy c1" "c_sent c1 = [SocketAction GetZnPlan]" "c_in c1 = c_in c0"
    using write_bytes_healthy [OF c0(2), of "[SocketAction GetZnPlan]"] c0(3) unfolding write_u8_def by auto
  obtain c2 where c2: "write_string (as_bytes process_name) c1 = (True, c2)" "healthy c2" "c_in c2 = c_in c0"
    "c_sent c2 = SocketAction GetZnPlan # le_enc 8 (unat (of_nat (length (as_bytes process_name)) :: addr)) @ as_bytes process_name"
    using write_string_healthy [OF c1(2), of "as_bytes process_name"] c1(3,4) by auto
  obtain c3 where c3: "write_string (as_bytes process_path) c2 = (True, c3)" "c_sent c3 = zn_plan_request process_name process_path" "c_in c3 = c_in c0"
    using write_string_healthy [OF c2(2), of "as_bytes process_path"] c2(3,4) by (auto simp: zn_plan_request_def)
  with c0(1,4) c1(1) c2(1) show ?thesis by (intro exI [of _ c3]) (simp add: zygiskd_GetZnPlan_def)
qed

text \<open>
  C28: \<open>GetZnPlan\<close> end to end.  The injector's request names the process to the daemon as it was given,
  and what it receives is exactly the daemon's plan for that process, in order: path, companion flag
  and descriptor of each library.
\<close>

theorem zn_plan_end_to_end:
  assumes "link_up lk" "0 < retry" "length d = 4" "wire_string process_name" "wire_string process_path"
    and "list_all (\<lambda>m. wire_string (zp_lib_path m)) (scan_zn_modules_for_target env process_name process_path)"
    and "length (scan_zn_modules_for_target env process_name process_path) < 2 ^ 64"
    and "delivery d (c_in (lk_conn lk)) = Some (tokens (fst (handle_connection env (zn_plan_request process_name process_path) ctx)))"
  shows "\<exists>c. zygiskd_GetZnPlan (as_bytes process_name) (as_bytes process_path) retry lk =
      Some (map (\<lambda>m. (as_bytes (zp_lib_path m), zp_companion m, zp_lib_fd m)) (scan_zn_modules_for_target env process_name process_path), Some c)
    \<and> c_sent c = zn_plan_request process_name process_path"
proof -
  let ?plan = "scan_zn_modules_for_target env process_name process_path"
  obtain c where c: "zygiskd_GetZnPlan (as_bytes process_name) (as_bytes process_path) retry lk =
      (let (count, c) = recv read_usize c in map_option (map_prod id Some) (zn_plan_loop (unat count) c))"
    "c_in c = c_in (lk_conn lk)" "c_sent c = zn_plan_request process_name process_path"
    using zn_plan_request_sent [OF assms(1,2)] by blast
  let ?ms = "concat (map (\<lambda>m. rust_write_string (zp_lib_path m) @ rust_write_u8 (if zp_companion m then 1 else 0) @ [FdMsg (zp_lib_fd m)]) ?plan)"
  have "delivers d c (tokens (rust_write_usize (of_nat (length ?plan))) @ tokens ?ms)"
    using assms(8) c(2) by (simp add: delivers_def zn_plan_reply [OF assms(4,5)] Let_def)
  from recv_usize [OF this] obtain c4 where c4: "recv read_usize c = (of_nat (length ?plan), c4)" "delivers d c4 (tokens ?ms)" "c_sent c4 = c_sent c" by auto
  moreover have "unat (of_nat (length ?plan) :: addr) = length ?plan" using assms(7) by (simp add: unat_of_nat)
  ultimately show ?thesis
    using zn_plan_loop_delivers [OF assms(3), of ?plan c4 "[]"] assms(6) c(1,3) by (auto simp: list_all_iff)
qed

text \<open>A daemon without modules: the plan is empty.\<close>

theorem zn_plan_end_to_end_witness:
  "\<exists>c. zygiskd_GetZnPlan [122] [47] 1 (sample_link [Seg None [0, 0, 0, 0, 0], RIntr, RIntr, Seg None [0, 0, 0]]) = Some ([], Some c) \<and> c_sent c = zn_plan_request [122] [47]"
proof -
  let ?evs = "[Seg None [0, 0, 0, 0, 0], RIntr, RIntr, Seg None [0, 0, 0]]"
  have w: "wire_string [122]" "wire_string [47]" by (simp_all add: wire_string_def is_scalar_def as_bytes_def utf8_enc_def)
  have plan: "scan_zn_modules_for_target bare_env [122] [47] = []" by (simp add: scan_zn_modules_for_target_def bare_env_def)
  have "delivery [0, 0, 0, 0] (c_in (lk_conn (sample_link ?evs))) = Some (tokens (fst (handle_connection bare_env (zn_plan_request [122] [47]) (daemon_init [] 5 []))))"
    by (simp add: zn_plan_reply [OF w] plan sample_link_def rust_write_usize_def le_enc_numeral)
  from zn_plan_end_to_end [OF sample_link_up _ _ w _ _ this, of 1] show ?thesis by (simp add: plan as_bytes_def utf8_enc_def)
qed

text \<open>
  When \<open>recvmsg\<close> fails - the receive timeout of the connection, or a signal - \<open>recv_fd\<close> does not
  report it: it takes the descriptor out of a control buffer that nothing has written.  So a daemon
  that stalls after its status byte leaves \<open>UpdateMountNamespace\<close> with an indeterminate descriptor.
\<close>

theorem recv_fd_after_timeout:
  assumes "link_up lk" "c_in (lk_conn lk) = [Seg None [1], RErr]"
  shows "recv_fd (RErr # evs) = None \<and> recv_fd (RIntr # evs) = None \<and> zygiskd_UpdateMountNamespace ns lk = None"
proof -
  obtain c0 where c0: "Connect 1 lk = Some (Some c0)" "healthy c0" "c_in c0 = [Seg None [1], RErr]"
    using link_up_Connect [OF assms(1)] assms(2) by auto
  let ?c = "snd (write_u8 (case ns of Clean \<Rightarrow> 0 | Root \<Rightarrow> 1) (send_action UpdateMountNamespace c0))"
  have "c_in ?c = [Seg None [1], RErr]"
    using c0(2,3) write_bytes_healthy [of "send_action UpdateMountNamespace c0" "[case ns of Clean \<Rightarrow> 0 | Root \<Rightarrow> 1]"]
      send_action_healthy [of c0 UpdateMountNamespace] by (auto simp: write_u8_def)
  moreover have "read_u8 [Seg None [1], RErr] = (1, [RErr])"
    by (simp add: read_u8_def read_exact_or_def xread_def xread_loop.simps [of "Suc 0" "[]" "[Seg None [1], RErr]"])
  ultimately have "recv_status_fd ?c = None" by (simp add: recv_status_fd_def recv_def recv_opt_def recv_fd_def)
  then show ?thesis using c0(1) by (simp add: zygiskd_UpdateMountNamespace_def recv_fd_def)
qed

theorem recv_fd_after_timeout_witness: "zygiskd_UpdateMountNamespace Clean (sample_link [Seg None [1], RErr]) = None"
  using recv_fd_after_timeout [OF sample_link_up, of "[Seg None [1], RErr]"] by (simp add: sample_link_def)

end
