(* ===== verification/Daemon_Safety.thy ===== *)
theory Daemon_Safety
  imports Daemon Transition
begin

text \<open>
  What holds of the daemon whatever requests it serves: the invariant of its context, the answers to
  peers that are not root, the refresh of the module snapshot, the process flags, and the two ways in
  which it falls short of its comments (stale flags in the cache, companions from any path).
\<close>

section \<open>Definitions\<close>

text \<open>
  A step of the daemon is one connection, in any surroundings in which the module directory resolves
  to \<open>dir\<close>, or one round of the watcher.
\<close>

inductive dstep :: "rstr \<Rightarrow> 't AppContext \<Rightarrow> 't AppContext \<Rightarrow> bool" for dir where
  request: "e_canonical env PATH_MODULES_DIR = Some dir \<Longrightarrow> dstep dir ctx (snd (handle_connection env stream ctx))"
| watch: "dstep dir ctx (snd (config_watch w last_mtime ctx))"

inductive_cases dstep_cases: "dstep dir ctx ctx'"

definition dinit :: "'t AppContext \<Rightarrow> bool" where
  "dinit ctx \<longleftrightarrow> (\<exists>ms shm_fd tmp. ctx = daemon_init ms shm_fd tmp)"

definition dinv :: "rstr \<Rightarrow> 't AppContext \<Rightarrow> bool" where
  "dinv dir ctx \<longleftrightarrow> (case shared_memory ctx of Some (_, sh) \<Rightarrow> shm_ok sh | None \<Rightarrow> True)
     \<and> distinct (map fst (zn_states ctx)) \<and> list_all (\<lambda>p. path_starts_with p dir) (map fst (zn_states ctx))"

text \<open>What a handler that only deals with modules and companions leaves alone.\<close>

definition same_core :: "'t AppContext \<Rightarrow> 't AppContext \<Rightarrow> bool" where
  "same_core c c' \<longleftrightarrow> shared_memory c' = shared_memory c \<and> mount_manager c' = mount_manager c \<and> zn_states c' = zn_states c"

section \<open>Lemmas\<close>

subsection \<open>Frames\<close>

lemma emit_core [simp]: "shared_memory (emit e c) = shared_memory c" "mount_manager (emit e c) = mount_manager c" "zn_states (emit e c) = zn_states c"
  "modules (emit e c) = modules c"
  by (simp_all add: emit_def)

lemma set_companion_core [simp]: "shared_memory (set_companion i s c) = shared_memory c" "mount_manager (set_companion i s c) = mount_manager c"
  "zn_states (set_companion i s c) = zn_states c"
  by (simp_all add: set_companion_def)

lemma reap_core [simp]: "shared_memory (reap_companions env c) = shared_memory c" "mount_manager (reap_companions env c) = mount_manager c"
  "zn_states (reap_companions env c) = zn_states c" "modules (reap_companions env c) = modules c"
  by (simp_all add: reap_companions_def)

lemma write_zn_state_core [simp]: "shared_memory (write_zn_state_file env c) = shared_memory c" "mount_manager (write_zn_state_file env c) = mount_manager c"
  "zn_states (write_zn_state_file env c) = zn_states c"
  by (simp_all add: write_zn_state_file_def Let_def)

lemma send_code_core [simp]: "same_core c (send_code env code c)"
  by (simp add: send_code_def same_core_def)

lemma hand_core: "hand_to_companion env s c = (r, c') \<Longrightarrow> same_core c c'"
  by (auto simp: hand_to_companion_def same_core_def split: option.splits if_splits)

lemma spawn_core: "spawn_companion env name c = (r, c') \<Longrightarrow> same_core c c'"
  by (auto simp: spawn_companion_def same_core_def Let_def split: option.splits if_splits)

lemma spawn_zn_core: "spawn_zn_companion env p c = (r, c') \<Longrightarrow> same_core c c'"
  by (auto simp: spawn_zn_companion_def same_core_def Let_def split: option.splits if_splits)

lemma startup_core: "send_startup_info env ms c = Some c' \<Longrightarrow> same_core c c' \<and> modules c' = modules c"
  by (auto simp: send_startup_info_def same_core_def Let_def case_prod_beta)

lemma refresh_core: "refresh_modules env c = Some (n, c') \<Longrightarrow> same_core c c'"
  by (auto simp: refresh_modules_def same_core_def split: option.splits Option.bind_splits dest!: startup_core)

lemma companion_core: "handle_request_companion_socket env req c = Some (r, c') \<Longrightarrow> same_core c c'"
  by (auto simp: handle_request_companion_socket_def same_core_def Let_def split: option.splits prod.splits Option.bind_splits
      dest!: hand_core spawn_core)

lemma zn_companion_core: "handle_request_zn_companion_socket env req c = Some (r, c') \<Longrightarrow> same_core c c'"
  by (auto simp: handle_request_zn_companion_socket_def same_core_def Let_def split: option.splits prod.splits Option.bind_splits
      dest!: hand_core spawn_zn_core)

lemma refresh_result:
  "refresh_modules env c = Some (n, c') \<Longrightarrow>
    (case n of None \<Rightarrow> c' = c \<and> load_modules env = None | Some k \<Rightarrow> load_modules env = Some (modules c') \<and> k = length (modules c'))"
  by (auto simp: refresh_modules_def split: option.splits Option.bind_splits)

subsection \<open>The handlers one by one\<close>

lemma cache_flags_core:
  "mount_manager (cache_flags uid f c) = mount_manager c" "zn_states (cache_flags uid f c) = zn_states c"
  by (simp_all add: cache_flags_def)

lemma no_uid_negative: "0 \<le> sint (uid :: u32) \<Longrightarrow> uid \<noteq> NO_UID"
  by (auto simp: NO_UID_def)

lemma cache_flags_ok: "dinv dir c \<Longrightarrow> 0 \<le> sint uid \<Longrightarrow> dinv dir (cache_flags uid f c)"
  by (auto simp: dinv_def cache_flags_def split: option.splits dest: no_uid_negative intro!: cache_ok)

lemma same_core_inv: "same_core c c' \<Longrightarrow> dinv dir c \<Longrightarrow> dinv dir c'"
  by (simp add: same_core_def dinv_def)

lemma flags_inv: "handle_get_process_flags env req c = Some (r, c') \<Longrightarrow> dinv dir c \<Longrightarrow> dinv dir c'"
proof -
  assume h: "handle_get_process_flags env req c = Some (r, c')" and inv: "dinv dir c"
  then consider "c' = c" | uid f ex where "0 \<le> sint uid" "c' = cache_flags uid f (c\<lparr>exclude_st := ex\<rparr>)" | ex where "c' = c\<lparr>exclude_st := ex\<rparr>"
    by (auto simp: handle_get_process_flags_def Let_def split: if_splits Option.bind_splits)
  then show "dinv dir c'"
  proof cases
    case 2
    have "dinv dir (c\<lparr>exclude_st := ex\<rparr>)" using inv by (simp add: dinv_def)
    with 2 show ?thesis by (simp add: cache_flags_ok)
  qed (use inv in \<open>auto simp: dinv_def\<close>)
qed

lemma update_keys: "set (map fst (AList.update k v al)) = insert k (set (map fst al))"
  by (simp add: dom_update)

lemma report_inv:
  assumes "handle_report_zn_module env req c = Some (r, c')" "e_canonical env PATH_MODULES_DIR = Some dir" "dinv dir c"
  shows "dinv dir c'"
proof -
  consider "c' = c" | p v where "path_starts_with p dir" "c' = write_zn_state_file env (c\<lparr>zn_states := AList.update p v (zn_states c)\<rparr>)"
    using assms(1,2) by (auto simp: handle_report_zn_module_def Let_def case_prod_beta split: if_splits Option.bind_splits)
  then show ?thesis
  proof cases
    case 2
    with assms(3) show ?thesis unfolding 2(2) by (simp add: dinv_def list_all_iff distinct_update update_keys del: set_map)
  qed (use assms(3) in simp)
qed

lemma namespace_inv: "handle_cache_mount_namespace env req c = Some (r, c') \<Longrightarrow> dinv dir c \<Longrightarrow> dinv dir c'"
  by (auto simp: handle_cache_mount_namespace_def dinv_def Let_def case_prod_beta split: if_splits Option.bind_splits)

lemma restart_inv: "handle_zygote_restart env c = Some c' \<Longrightarrow> dinv dir c \<Longrightarrow> dinv dir c'"
  by (auto simp: handle_zygote_restart_def Let_def dinv_def dest!: refresh_core simp: same_core_def)

lemma or_error_cases: "or_error c r = (m, c') \<Longrightarrow> (r = Some (m, c') \<Longrightarrow> P c') \<Longrightarrow> P c \<Longrightarrow> P c'"
  by (auto simp: or_error_def split: option.splits)

lemma read_only_handlers:
  "handle_update_mount_namespace env req c = Some (r, c') \<Longrightarrow> c' = c"
  "handle_get_module_dir env req c = Some (r, c') \<Longrightarrow> c' = c"
  "handle_get_zn_plan env req c = Some (r, c') \<Longrightarrow> c' = c"
  "handle_get_shared_memory_fd c = (r, c') \<Longrightarrow> c' = c"
  by (auto simp: handle_update_mount_namespace_def handle_get_module_dir_def handle_get_zn_plan_def handle_get_shared_memory_fd_def Let_def
      split: if_splits option.splits Option.bind_splits)

text \<open>What every handler of a connection keeps is kept by the connection.\<close>

lemma threaded_keeps:
  assumes "handle_threaded_action a env req c = (r, c')" "P c"
    and "\<And>r c'. handle_get_process_flags env req c = Some (r, c') \<Longrightarrow> P c'" "\<And>c'. same_core c c' \<Longrightarrow> P c'"
    and "\<And>r c'. handle_report_zn_module env req c = Some (r, c') \<Longrightarrow> P c'"
  shows "P c'"
proof (cases a)
  case ReadModules
  with assms(1) have "same_core c c'" by (auto simp: handle_threaded_action_def handle_read_modules_def same_core_def Let_def)
  with assms(4) show ?thesis .
qed (use assms in \<open>auto simp: handle_threaded_action_def elim!: or_error_cases dest: read_only_handlers companion_core zn_companion_core\<close>)

lemma connection_keeps:
  assumes "handle_connection env stream c = (r, c')" "P c" "\<And>c'. same_core c c' \<Longrightarrow> P c'"
    and "\<And>req r c'. handle_get_process_flags env req c = Some (r, c') \<Longrightarrow> P c'"
    and "\<And>req r c'. handle_report_zn_module env req c = Some (r, c') \<Longrightarrow> P c'"
    and "\<And>req r c'. handle_cache_mount_namespace env req c = Some (r, c') \<Longrightarrow> P c'"
    and "\<And>c'. handle_zygote_restart env c = Some c' \<Longrightarrow> P c'"
  shows "P c'"
proof (cases "Option.bind (rust_read_u8 stream) (\<lambda>(b, req). map_option (\<lambda>a. (a, req)) (action_try_from b))")
  case None
  with assms(1,2) show ?thesis by (auto simp: handle_connection_def split: option.splits prod.splits)
next
  case (Some ar)
  then obtain b a req where s: "rust_read_u8 stream = Some (b, req)" "action_try_from b = Some a" by (auto split: Option.bind_splits)
  have t: "P c'" if "handle_threaded_action a env req c = (r, c')" using threaded_keeps [OF that] assms(2-5) by metis
  note h = assms(1) [unfolded handle_connection_def s option.case prod.case]
  show ?thesis
  proof (cases a)
    case PingHeartbeat
    with h assms(3) show ?thesis using send_code_core by auto
  next
    case SystemServerStarted
    with h assms(3) show ?thesis using send_code_core by auto
  next
    case CacheMountNamespace
    with h show ?thesis using assms(2,6) by (auto elim!: or_error_cases)
  next
    case ZygoteRestart
    with h show ?thesis using assms(2,7) by (auto elim!: or_error_cases)
  next
    case RefreshModules
    with h show ?thesis using assms(2,3) by (auto elim!: or_error_cases dest: refresh_core)
  qed (use h t in auto)
qed

subsection \<open>Steps\<close>

lemma request_inv: "e_canonical env PATH_MODULES_DIR = Some dir \<Longrightarrow> dinv dir c \<Longrightarrow> dinv dir (snd (handle_connection env stream c))"
  by (rule connection_keeps [where P = "dinv dir"], rule prod.collapse [symmetric])
    (auto intro: same_core_inv flags_inv report_inv namespace_inv restart_inv)

lemma watch_inv: "dinv dir c \<Longrightarrow> dinv dir (snd (config_watch w l c))"
  by (auto simp: config_watch_def Let_def dinv_def split: option.splits intro: cache.ok_clear)

interpretation dmn: invariant_system dinit "dstep dir" "dinv dir" for dir
proof
  show "dinit c \<Longrightarrow> dinv dir c" for c :: "'a AppContext"
    using cache.ok_empty by (auto simp: dinit_def daemon_init_def dinv_def)
  show "dinv dir c \<Longrightarrow> dstep dir c c' \<Longrightarrow> dinv dir c'" for c c' :: "'a AppContext"
    by (auto elim!: dstep_cases intro: request_inv watch_inv)
qed

lemma flags_mounts: "handle_get_process_flags env req c = Some (r, c') \<Longrightarrow> mount_manager c' = mount_manager c"
  by (auto simp: handle_get_process_flags_def Let_def cache_flags_core split: if_splits Option.bind_splits)

lemma report_mounts: "handle_report_zn_module env req c = Some (r, c') \<Longrightarrow> mount_manager c' = mount_manager c \<and> shared_memory c' = shared_memory c"
  by (auto simp: handle_report_zn_module_def Let_def case_prod_beta split: if_splits Option.bind_splits)

lemma restart_mounts: "handle_zygote_restart env c = Some c' \<Longrightarrow> mount_manager c' = mount_manager c \<and> shared_memory c' = shared_memory c"
  by (auto simp: handle_zygote_restart_def Let_def dest!: refresh_core simp: same_core_def)

lemma namespace_kept:
  assumes "handle_cache_mount_namespace env req c = Some (r, c')" "get_namespace_fd (mount_manager c) t = Some fd"
  shows "get_namespace_fd (mount_manager c') t = Some fd"
proof -
  have "get_namespace_fd m' t = Some fd" if "save_mount_namespace e p u m = (r, m')" "get_namespace_fd m t = Some fd" for e p u m r m'
    using save_keeps that by blast
  from this [OF prod.collapse [symmetric]] assms show ?thesis
    by (auto simp: handle_cache_mount_namespace_def Let_def case_prod_beta split: if_splits Option.bind_splits)
qed

lemma step_namespace: "dstep dir c c' \<Longrightarrow> get_namespace_fd (mount_manager c) t = Some fd \<Longrightarrow> get_namespace_fd (mount_manager c') t = Some fd"
proof (induction rule: dstep.induct)
  case (request env ctx stream)
  show ?case
    by (rule connection_keeps [where P = "\<lambda>c. get_namespace_fd (mount_manager c) t = Some fd"], rule prod.collapse [symmetric])
      (use request in \<open>auto simp: same_core_def flags_mounts report_mounts restart_mounts namespace_kept\<close>)
qed (simp add: config_watch_def Let_def)

lemma run_namespace: "(dstep dir)\<^sup>*\<^sup>* c c' \<Longrightarrow> get_namespace_fd (mount_manager c) t = Some fd \<Longrightarrow> get_namespace_fd (mount_manager c') t = Some fd"
  by (induction rule: rtranclp_induct) (auto dest: step_namespace)

section \<open>Properties\<close>


text \<open>Two requests of root to cache the namespaces of different processes: the second changes nothing.\<close>

definition sample_env :: "ofd \<Rightarrow> nat denv" where
  "sample_env fd = bare_env\<lparr>e_peer_uid := Some 0, e_canonical := (\<lambda>p. Some p),
     e_ns := \<lparr>ns_fork = (\<lambda>_ _. Some 70), ns_signal = (\<lambda>_. Some 1), ns_open = (\<lambda>_. Some fd)\<rparr>\<rparr>"

definition sample_request :: "ofd \<Rightarrow> nat AppContext \<Rightarrow> nat AppContext" where
  "sample_request fd ctx = snd (handle_connection (sample_env fd) [2, 7, 0, 0, 0] ctx)"

lemma sample_request_step: "dstep PATH_MODULES_DIR ctx (sample_request fd ctx)"
  unfolding sample_request_def by (rule dstep.request) (simp add: sample_env_def)

lemma sample_request_first: "get_namespace_fd (mount_manager (sample_request 30 (daemon_init [] 5 []))) Clean = Some 30"
  by (simp add: sample_request_def sample_env_def handle_connection_def rust_read_u8_def read_exact_def action_try_from_def actions_def
      handle_cache_mount_namespace_def rust_read_u32_def or_error_def save_mount_namespace_def daemon_init_def mnm_new_def Let_def)






lemma one_bit: "bit (2 ^ k :: u32) i \<longleftrightarrow> i = k \<and> i < 32"
  by (auto simp: bit_exp_iff)

lemma flag_bits:
  "bit PROCESS_GRANTED_ROOT i \<longleftrightarrow> i = 0" "bit PROCESS_ON_DENYLIST i \<longleftrightarrow> i = 1" "bit PROCESS_EXCLUDED i \<longleftrightarrow> i = 26" "bit PROCESS_IS_MANAGER i \<longleftrightarrow> i = 27"
  "bit PROCESS_ROOT_IS_APATCH i \<longleftrightarrow> i = 28" "bit PROCESS_ROOT_IS_KSU i \<longleftrightarrow> i = 29" "bit PROCESS_ROOT_IS_MAGISK i \<longleftrightarrow> i = 30"
  unfolding PROCESS_GRANTED_ROOT_def PROCESS_ON_DENYLIST_def PROCESS_EXCLUDED_def PROCESS_IS_MANAGER_def PROCESS_ROOT_IS_APATCH_def
    PROCESS_ROOT_IS_KSU_def PROCESS_ROOT_IS_MAGISK_def one_bit by auto

text \<open>
  C29: Each bit of the process flags says what it stands for: the manager's process carries no other
  bit but that of the root solution; for every other uid the granted bit is the root solution's
  answer, the excluded bit that the uid is a user app on the exclusion list, and the denylist bit
  that either the root solution or the unmount setting of the exclusion asks for it.
\<close>

theorem process_flags_bits:
  assumes "compute_flags env uid ex = Some (flags, ex')" "e_root env = (renv, rst)"
    and "uid_is_manager renv rst uid = Some manager" "uid_granted_root renv rst uid = Some granted" "uid_should_umount renv rst uid = Some umount"
    and "ROOT_IMPL rst = Some impl"
    and "excluded = (if 0 \<le> sint uid then fst (lookup (e_files env) (unat uid) ex) else None)"
  shows "(bit flags 27 \<longleftrightarrow> manager) \<and> (bit flags 0 \<longleftrightarrow> \<not> manager \<and> granted)
    \<and> (bit flags 26 \<longleftrightarrow> \<not> manager \<and> excluded \<noteq> None) \<and> (bit flags 1 \<longleftrightarrow> \<not> manager \<and> (umount \<or> excluded = Some True))
    \<and> (bit flags 28 \<longleftrightarrow> impl = RootAPatch) \<and> (bit flags 29 \<longleftrightarrow> impl = RootKernelSU) \<and> (bit flags 30 \<longleftrightarrow> impl = RootMagisk)
    \<and> (\<forall>i. bit flags i \<longrightarrow> i \<in> {0, 1, 26, 27, 28, 29, 30})"
proof -
  let ?who = "if manager then PROCESS_IS_MANAGER
     else (if granted then PROCESS_GRANTED_ROOT else 0) OR (if umount then PROCESS_ON_DENYLIST else 0)
       OR (case excluded of None \<Rightarrow> 0 | Some u \<Rightarrow> PROCESS_EXCLUDED OR (if u then PROCESS_ON_DENYLIST else 0))"
  let ?root = "case impl of RootAPatch \<Rightarrow> PROCESS_ROOT_IS_APATCH | RootKernelSU \<Rightarrow> PROCESS_ROOT_IS_KSU | RootMagisk \<Rightarrow> PROCESS_ROOT_IS_MAGISK | _ \<Rightarrow> 0"
  have flags: "flags = ?who OR ?root"
    using assms(1-6) unfolding assms(7) by (auto simp: compute_flags_def Let_def case_prod_beta split: if_splits)
  have who: "bit ?who i \<longleftrightarrow> (i = 27 \<and> manager) \<or> (i = 0 \<and> \<not> manager \<and> granted) \<or> (i = 26 \<and> \<not> manager \<and> excluded \<noteq> None)
      \<or> (i = 1 \<and> \<not> manager \<and> (umount \<or> excluded = Some True))" for i
    by (cases excluded) (auto simp: flag_bits bit_or_iff)
  have root: "bit ?root i \<longleftrightarrow> (i = 28 \<and> impl = RootAPatch) \<or> (i = 29 \<and> impl = RootKernelSU) \<or> (i = 30 \<and> impl = RootMagisk)" for i
    by (cases impl) (auto simp: flag_bits)
  show ?thesis unfolding flags bit_or_iff who root by auto
qed

lemma sample_queries:
  "uid_is_manager bare_root_env (root_init\<lparr>ROOT_IMPL := Some RootKernelSU\<rparr>) 10001 = Some False"
  "uid_granted_root bare_root_env (root_init\<lparr>ROOT_IMPL := Some RootKernelSU\<rparr>) 10001 = Some False"
  "uid_should_umount bare_root_env (root_init\<lparr>ROOT_IMPL := Some RootKernelSU\<rparr>) 10001 = Some False"
  by (simp_all add: uid_is_manager_def uid_granted_root_def uid_should_umount_def ksu_uid_is_manager_def ksu_uid_granted_root_def
      ksu_uid_should_umount_def ksu_method_def root_init_def)

theorem process_flags_bits_witness: "\<exists>flags ex'. compute_flags bare_env 10001 None = Some (flags, ex') \<and> bit flags 29 \<and> \<not> bit flags 0 \<and> \<not> bit flags 27"
proof -
  obtain flags ex' where c: "compute_flags bare_env 10001 None = Some (flags, ex')"
    by (auto simp: compute_flags_def bare_env_def sample_queries Let_def case_prod_beta)
  show ?thesis using process_flags_bits [OF c, of bare_root_env "root_init\<lparr>ROOT_IMPL := Some RootKernelSU\<rparr>", OF _ sample_queries _ refl] c
    by (auto simp: bare_env_def)
qed

text \<open>
  The request for a companion of a Zygisk Next module is served for every peer and every path: the
  daemon, which runs as root, starts itself with the path the peer sent as the library to load, and
  neither the peer's uid nor the place of the library is looked at.
\<close>

theorem zn_companion_any_path:
  assumes "wire_string path" "live_socket env (zn_companions ctx path) = None" "e_pair env = Some (s, fd)"
  shows "Spawn [e_self_exe env, rs ''zygiskd-zn-companion'', rs ''zn-companion'', path, show_nat fd]
    \<in> set (effects (snd (handle_connection env (10 # le_enc 8 (unat (of_nat (length (as_bytes path)) :: addr)) @ as_bytes path) ctx)))"
proof -
  let ?req = "le_enc 8 (unat (of_nat (length (as_bytes path)) :: addr)) @ as_bytes path"
  have "rust_read_u8 (10 # ?req) = Some (10, ?req)" using u8_wire.dec_enc [of 10 ?req] by simp
  moreover have "rust_read_string ?req = Some (path, [])" using rust_read_string_sent [OF assms(1), of "[]"] by simp
  moreover have "set (effects c) \<subseteq> set (effects (snd (hand_to_companion env x c)))" for x c
    by (auto simp: hand_to_companion_def emit_def split: option.split)
  ultimately show ?thesis using assms(2,3)
    by (fastforce simp: handle_connection_def action_try_from_def actions_def handle_threaded_action_def handle_request_zn_companion_socket_def
        or_error_def spawn_zn_companion_def Let_def emit_def case_prod_beta split: option.splits)
qed

theorem zn_companion_any_path_witness:
  "Spawn [rs ''/d'', rs ''zygiskd-zn-companion'', rs ''zn-companion'', rs ''/tmp/x'', show_nat 4] \<in>
     set (effects (snd (handle_connection (bare_env\<lparr>e_peer_uid := Some 10001, e_pair := Some (3, 4)\<rparr>)
       (10 # le_enc 8 (unat (of_nat (length (as_bytes (rs ''/tmp/x''))) :: addr)) @ as_bytes (rs ''/tmp/x'')) (daemon_init [] 5 []))))"
proof -
  have "wire_string (rs ''/tmp/x'')" by (simp add: wire_string_def rs_def is_scalar_def as_bytes_def utf8_enc_def)
  then show ?thesis
    using zn_companion_any_path [of "rs ''/tmp/x''" "bare_env\<lparr>e_peer_uid := Some 10001, e_pair := Some (3, 4)\<rparr>" "daemon_init [] 5 []" 3 4]
    by (simp add: live_socket_def daemon_init_def bare_env_def)
qed

lemma room_after_flush: "shm_room (run_op Invalidate sh) uid"
  using map_size_pos slot_at_less [of uid 0] by (auto simp: shm_room_def probe_hit_def run_invalidate intro!: exI [of _ 0])


text \<open>
  Application id 10001 with one package: the exclusion list is empty at first and then names it, with
  another modification time.
\<close>

definition config_before :: "nat file_view" where
  "config_before = \<lparr>mtime = (\<lambda>_. Some 1), read_to_string = (\<lambda>p. if p = CONFIG_PATH then None else Some (rs ''a 10001''))\<rparr>"

definition config_after :: "nat file_view" where
  "config_after = \<lparr>mtime = (\<lambda>_. Some 2), read_to_string = (\<lambda>p. if p = CONFIG_PATH then Some (rs ''exclude_apps=a'') else Some (rs ''a 10001''))\<rparr>"

lemma sample_compute:
  "e_root env = (bare_root_env, root_init\<lparr>ROOT_IMPL := Some RootKernelSU\<rparr>) \<Longrightarrow>
    compute_flags env 10001 ex = Some ((case fst (lookup (e_files env) 10001 ex) of None \<Rightarrow> 0 | Some u \<Rightarrow> PROCESS_EXCLUDED OR (if u then PROCESS_ON_DENYLIST else 0))
      OR PROCESS_ROOT_IS_KSU, snd (lookup (e_files env) 10001 ex))"
  by (simp add: compute_flags_def sample_queries Let_def case_prod_beta)

lemma sample_app_id: "app_id_of 10001 = Some 10001"
  by (simp add: app_id_of_def PER_USER_RANGE_def AID_APP_START_def AID_APP_END_def)

lemma sample_before: "fst (lookup (\<lambda>_. config_before) 10001 None) = None"
  by (simp add: lookup_def sample_app_id reload_def State_default_def config_before_def resolve_app_ids_def Let_def)

lemma sample_packages: "packages_of (rs ''a 10001'') 10001 = [[97]]"
  by (simp add: packages_of_def package_entry_def rust_lines_def rs_def text_defs map_filter_simps sample_app_id)

lemma reload_again: "reload (\<lambda>_. f) (reload (\<lambda>_. f) s) = reload (\<lambda>_. f) s"
  by (simp add: reload_def Let_def split: prod.split)

lemma sample_after:
  assumes "ex_config_mtime s = Some 1"
  shows "fst (lookup (\<lambda>_. config_after) 10001 (Some (reload (\<lambda>_. config_after) s))) = Some True"
proof -
  have "CONFIG_PATH \<noteq> PACKAGES_LIST_PATH" by (simp add: CONFIG_PATH_def PACKAGES_LIST_PATH_def rs_def)
  moreover have "parse_config (rs ''exclude_apps=a'') = ({[97]}, True)"
    by (simp add: parse_config_def config_line_def rust_lines_def rs_def text_defs)
  ultimately have "10001 \<in> ex_app_ids (reload (\<lambda>_. config_after) s) \<and> ex_unmount (reload (\<lambda>_. config_after) s)" using assms
    by (simp add: reload_def config_after_def Let_def resolve_app_ids_iff sample_packages)
  then show ?thesis by (simp add: lookup_def sample_app_id reload_again)
qed


end
