(* ===== verification/Xz_Lzma.thy ===== *)
theory Xz_Lzma
  imports Prelude
begin

text \<open>
  The LZMA decoder of XZ Embedded (\<open>external/lzma/xz_dec_lzma2.c\<close>, \<open>xz_lzma2.h\<close>): the dictionary, the range
  decoder and the decoding of one symbol.  The library is built with \<open>XZ_DEC_DYNALLOC\<close> alone, so the
  branches of single-call mode and of preallocated dictionaries are compiled away.

  A buffer is a list or, for the dictionary, a partial map: a byte that was never written is absent.  An
  operation is \<open>None\<close> when it reads or writes outside a buffer, reads a byte that was never written, or
  does not return.
\<close>

section \<open>Buffers and results\<close>

datatype xz_mode = XZ_SINGLE | XZ_PREALLOC | XZ_DYNALLOC

datatype xz_ret = XZ_OK | XZ_STREAM_END | XZ_UNSUPPORTED_CHECK | XZ_MEM_ERROR | XZ_MEMLIMIT_ERROR
  | XZ_FORMAT_ERROR | XZ_OPTIONS_ERROR | XZ_DATA_ERROR | XZ_BUF_ERROR

text \<open>The sizes of the two arrays are the lengths of the lists.\<close>

record xz_buf =
  b_in :: "byte list"
  in_pos :: nat
  b_out :: "byte list"
  out_pos :: nat

abbreviation in_size :: "xz_buf \<Rightarrow> nat" where "in_size b \<equiv> length (b_in b)"
abbreviation out_size :: "xz_buf \<Rightarrow> nat" where "out_size b \<equiv> length (b_out b)"

text \<open>\<open>memcpy\<close> from and to an array.\<close>

definition slice :: "byte list \<Rightarrow> nat \<Rightarrow> nat \<Rightarrow> byte list option" where
  "slice xs i n = (if i + n \<le> length xs then Some (take n (drop i xs)) else None)"

definition blit :: "byte list \<Rightarrow> nat \<Rightarrow> byte list \<Rightarrow> byte list option" where
  "blit dst i src =
     (if i + length src \<le> length dst then Some (take i dst @ src @ drop (i + length src) dst) else None)"

section \<open>The dictionary\<close>

text \<open>\<open>dict_cap\<close> is the size of the block behind \<open>dict_buf\<close>.\<close>

record dictionary =
  dict_buf :: "nat \<Rightarrow> byte option"
  dict_cap :: nat
  dict_start :: nat
  dict_pos :: nat
  dict_full :: nat
  dict_lim :: nat
  dict_end :: nat
  dict_size :: u32
  dict_size_max :: u32
  dict_allocated :: u32
  dict_mode :: xz_mode

definition dict_read :: "dictionary \<Rightarrow> int \<Rightarrow> byte option" where
  "dict_read d i = (if 0 \<le> i \<and> i < int (dict_cap d) then dict_buf d (nat i) else None)"

definition dict_write :: "dictionary \<Rightarrow> nat \<Rightarrow> byte \<Rightarrow> dictionary option" where
  "dict_write d i v = (if i < dict_cap d then Some (d\<lparr>dict_buf := (dict_buf d)(i \<mapsto> v)\<rparr>) else None)"

definition dict_reset :: "dictionary \<Rightarrow> dictionary" where
  "dict_reset d = d\<lparr>dict_start := 0, dict_pos := 0, dict_lim := 0, dict_full := 0\<rparr>"

text \<open>A difference of positions that is negative wraps around to a huge number.\<close>

definition dict_limit :: "dictionary \<Rightarrow> nat \<Rightarrow> dictionary" where
  "dict_limit d out_max =
     (if dict_pos d \<le> dict_end d \<and> dict_end d - dict_pos d \<le> out_max then d\<lparr>dict_lim := dict_end d\<rparr>
      else d\<lparr>dict_lim := dict_pos d + out_max\<rparr>)"

definition dict_has_space :: "dictionary \<Rightarrow> bool" where
  "dict_has_space d \<longleftrightarrow> dict_pos d < dict_lim d"

definition dict_back :: "dictionary \<Rightarrow> u32 \<Rightarrow> int" where
  "dict_back d dist =
     int (dict_pos d) - int (unat dist) - 1 + (if unat dist \<ge> dict_pos d then int (dict_end d) else 0)"

definition dict_get :: "dictionary \<Rightarrow> u32 \<Rightarrow> u32 option" where
  "dict_get d dist = (if dict_full d > 0 then map_option ucast (dict_read d (dict_back d dist)) else Some 0)"

definition dict_raise_full :: "dictionary \<Rightarrow> dictionary" where
  "dict_raise_full d = (if dict_full d < dict_pos d then d\<lparr>dict_full := dict_pos d\<rparr> else d)"

definition dict_put :: "dictionary \<Rightarrow> byte \<Rightarrow> dictionary option" where
  "dict_put d v = do {
     d \<leftarrow> dict_write d (dict_pos d) v;
     Some (dict_raise_full (d\<lparr>dict_pos := dict_pos d + 1\<rparr>)) }"

primrec dict_copy :: "nat \<Rightarrow> int \<Rightarrow> dictionary \<Rightarrow> dictionary option" where
  "dict_copy 0 back d = Some d"
| "dict_copy (Suc n) back d = do {
     v \<leftarrow> dict_read d back;
     d \<leftarrow> dict_write d (dict_pos d) v;
     dict_copy n (if back + 1 = int (dict_end d) then 0 else back + 1) (d\<lparr>dict_pos := dict_pos d + 1\<rparr>) }"

text \<open>The loop counts down before its test, so it would run \<open>2\<^sup>32\<close> times for a count of zero.\<close>

definition rounds :: "u32 \<Rightarrow> nat" where
  "rounds n = (if n = 0 then 2 ^ 32 else unat n)"

definition dict_repeat :: "dictionary \<Rightarrow> u32 \<Rightarrow> u32 \<Rightarrow> (bool \<times> u32 \<times> dictionary) option" where
  "dict_repeat d len dist =
     (if unat dist \<ge> dict_full d \<or> dist \<ge> dict_size d then Some (False, len, d)
      else let left = (if dict_pos d \<le> dict_lim d \<and> dict_lim d - dict_pos d < unat len
                       then of_nat (dict_lim d - dict_pos d) else len)
           in map_option (\<lambda>d. (True, len - left, dict_raise_full d)) (dict_copy (rounds left) (dict_back d dist) d))"

text \<open>Copying uncompressed data: the input goes to the dictionary and to the output.\<close>

primrec dict_fill :: "byte list \<Rightarrow> dictionary \<Rightarrow> dictionary option" where
  "dict_fill [] d = Some d"
| "dict_fill (v # vs) d = do {
     d \<leftarrow> dict_write d (dict_pos d) v;
     dict_fill vs (d\<lparr>dict_pos := dict_pos d + 1\<rparr>) }"

definition dict_wrap :: "dictionary \<Rightarrow> dictionary" where
  "dict_wrap d = (if dict_pos d = dict_end d then d\<lparr>dict_pos := 0\<rparr> else d)"

partial_function (option) dict_uncompressed :: "dictionary \<Rightarrow> xz_buf \<Rightarrow> u32 \<Rightarrow> (u32 \<times> dictionary \<times> xz_buf) option" where
  "dict_uncompressed d b left =
     (if left > 0 \<and> in_pos b < in_size b \<and> out_pos b < out_size b
      then let n0 = min (in_size b - in_pos b) (out_size b - out_pos b);
               n1 = (if dict_pos d \<le> dict_end d \<and> dict_end d - dict_pos d < n0 then dict_end d - dict_pos d else n0);
               copy_size = (if unat left < n1 then unat left else n1)
           in do {
             data \<leftarrow> slice (b_in b) (in_pos b) copy_size;
             d \<leftarrow> dict_fill data d;
             let d = dict_wrap (dict_raise_full d);
             out \<leftarrow> blit (b_out b) (out_pos b) data;
             dict_uncompressed (d\<lparr>dict_start := dict_pos d\<rparr>)
               (b\<lparr>b_out := out, out_pos := out_pos b + copy_size, in_pos := in_pos b + copy_size\<rparr>)
               (left - of_nat copy_size) }
      else Some (left, d, b))"

declare dict_uncompressed.simps [code]

text \<open>The pending bytes \<open>[start, pos)\<close> of the dictionary.\<close>

primrec dict_bytes :: "nat \<Rightarrow> nat \<Rightarrow> dictionary \<Rightarrow> byte list option" where
  "dict_bytes i 0 d = Some []"
| "dict_bytes i (Suc n) d = do { v \<leftarrow> dict_read d (int i); vs \<leftarrow> dict_bytes (i + 1) n d; Some (v # vs) }"

definition dict_flush :: "dictionary \<Rightarrow> xz_buf \<Rightarrow> (u32 \<times> dictionary \<times> xz_buf) option" where
  "dict_flush d b =
     (if dict_pos d < dict_start d then None
      else do {
        let copy_size = dict_pos d - dict_start d;
        data \<leftarrow> dict_bytes (dict_start d) copy_size d;
        out \<leftarrow> blit (b_out b) (out_pos b) data;
        let d = dict_wrap d;
        Some (of_nat copy_size, d\<lparr>dict_start := dict_pos d\<rparr>, b\<lparr>b_out := out, out_pos := out_pos b + copy_size\<rparr>) })"

section \<open>The state of the decoder\<close>

record rc_dec =
  rc_range :: u32
  rc_code :: u32
  init_bytes_left :: u32
  rc_in :: "byte list"
  rc_in_pos :: nat
  rc_in_limit :: nat

text \<open>
  All probabilities form one array, as \<open>lzma_reset\<close> takes them: the members from \<open>is_match\<close> to \<open>literal\<close>
  in the order of \<open>struct lzma_dec\<close>.  An \<open>lzma_state\<close> is its number, on which the code does arithmetic.
\<close>

record lzma_dec =
  rep0 :: u32
  rep1 :: u32
  rep2 :: u32
  rep3 :: u32
  lzma_state :: nat
  len :: u32
  lc :: u32
  literal_pos_mask :: u32
  pos_mask :: u32
  probs :: "nat \<Rightarrow> u16"

datatype lzma2_seq = SEQ_CONTROL | SEQ_UNCOMPRESSED_1 | SEQ_UNCOMPRESSED_2 | SEQ_COMPRESSED_0
  | SEQ_COMPRESSED_1 | SEQ_PROPERTIES | SEQ_LZMA_PREPARE | SEQ_LZMA_RUN | SEQ_COPY

record lzma2_dec =
  l2_sequence :: lzma2_seq
  next_sequence :: lzma2_seq
  l2_uncompressed :: u32
  l2_compressed :: u32
  need_dict_reset :: bool
  need_props :: bool

record xz_dec_lzma2 =
  rc :: rc_dec
  dict :: dictionary
  lzma2 :: lzma2_dec
  lzma :: lzma_dec
  temp_size :: u32
  temp_buf :: "byte list"

section \<open>The range decoder\<close>

definition RC_TOP_VALUE :: u32 where "RC_TOP_VALUE = 0x1000000"
definition RC_INIT_BYTES :: u32 where "RC_INIT_BYTES = 5"

definition rc_reset :: "rc_dec \<Rightarrow> rc_dec" where
  "rc_reset r = r\<lparr>rc_range := - 1, rc_code := 0, init_bytes_left := RC_INIT_BYTES\<rparr>"

text \<open>Reading past the end of the input is \<open>None\<close>.\<close>

function rc_read_init :: "rc_dec \<Rightarrow> xz_buf \<Rightarrow> (bool \<times> rc_dec \<times> xz_buf) option" where
  "rc_read_init r b =
     (if init_bytes_left r > 0
      then if in_pos b = in_size b then Some (False, r, b)
        else if in_pos b > in_size b then None
        else rc_read_init (r\<lparr>rc_code := push_bit 8 (rc_code r) + ucast (b_in b ! in_pos b),
                             init_bytes_left := init_bytes_left r - 1\<rparr>)
               (b\<lparr>in_pos := in_pos b + 1\<rparr>)
      else Some (True, r, b))"
  by pat_completeness auto
termination
  by (relation "measure (\<lambda>(r, b). in_size b - in_pos b)") auto

declare rc_read_init.simps [simp del]

definition rc_limit_exceeded :: "rc_dec \<Rightarrow> bool" where
  "rc_limit_exceeded r \<longleftrightarrow> rc_in_pos r > rc_in_limit r"

definition rc_is_finished :: "rc_dec \<Rightarrow> bool" where
  "rc_is_finished r \<longleftrightarrow> rc_code r = 0"

definition rc_normalize :: "rc_dec \<Rightarrow> rc_dec option" where
  "rc_normalize r =
     (if rc_range r < RC_TOP_VALUE
      then if rc_in_pos r < length (rc_in r)
        then Some (r\<lparr>rc_range := push_bit 8 (rc_range r),
                     rc_code := push_bit 8 (rc_code r) + ucast (rc_in r ! rc_in_pos r),
                     rc_in_pos := rc_in_pos r + 1\<rparr>)
        else None
      else Some r)"

text \<open>
  A pointer to probabilities is a part of the array with a start and a length, and an offset into it.
  The offset may be outside the part as long as no access is.
\<close>

type_synonym prob_ptr = "nat \<times> nat \<times> int"

definition prob_index :: "prob_ptr \<Rightarrow> nat \<Rightarrow> nat option" where
  "prob_index p i = (case p of (base, n, off) \<Rightarrow>
     if 0 \<le> off + int i \<and> off + int i < int n then Some (base + nat (off + int i)) else None)"

text \<open>The row \<open>i\<close> of a matrix.\<close>

definition prob_row :: "nat \<Rightarrow> nat \<Rightarrow> nat \<Rightarrow> nat \<Rightarrow> prob_ptr option" where
  "prob_row base rws cols i = (if i < rws then Some (base + i * cols, cols, 0) else None)"

definition rc_bit :: "prob_ptr \<Rightarrow> nat \<Rightarrow> xz_dec_lzma2 \<Rightarrow> (bool \<times> xz_dec_lzma2) option" where
  "rc_bit p i s = do {
     k \<leftarrow> prob_index p i;
     r \<leftarrow> rc_normalize (rc s);
     let prob = probs (lzma s) k;
     let bound = drop_bit 11 (rc_range r) * ucast prob;
     (if rc_code r < bound
      then Some (False, s\<lparr>rc := r\<lparr>rc_range := bound\<rparr>,
             lzma := (lzma s)\<lparr>probs := (probs (lzma s))(k := prob + of_int ((2048 - uint prob) div 32))\<rparr>\<rparr>)
      else Some (True, s\<lparr>rc := r\<lparr>rc_range := rc_range r - bound, rc_code := rc_code r - bound\<rparr>,
             lzma := (lzma s)\<lparr>probs := (probs (lzma s))(k := prob - drop_bit 5 prob)\<rparr>\<rparr>)) }"

text \<open>The symbol of a bit tree stays below twice the limit, far from the width of its type.\<close>

partial_function (option) bittree_loop :: "prob_ptr \<Rightarrow> nat \<Rightarrow> nat \<Rightarrow> xz_dec_lzma2 \<Rightarrow> (nat \<times> xz_dec_lzma2) option" where
  "bittree_loop p limit symbol s = do {
     (bit1, s) \<leftarrow> rc_bit p symbol s;
     let symbol = (if bit1 then 2 * symbol + 1 else 2 * symbol);
     (if symbol < limit then bittree_loop p limit symbol s else Some (symbol, s)) }"

declare bittree_loop.simps [code]

definition rc_bittree :: "prob_ptr \<Rightarrow> nat \<Rightarrow> xz_dec_lzma2 \<Rightarrow> (nat \<times> xz_dec_lzma2) option" where
  "rc_bittree p limit s = bittree_loop p limit 1 s"

primrec reverse_loop :: "nat \<Rightarrow> prob_ptr \<Rightarrow> nat \<Rightarrow> nat \<Rightarrow> u32 \<Rightarrow> xz_dec_lzma2 \<Rightarrow> (u32 \<times> xz_dec_lzma2) option" where
  "reverse_loop 0 p i symbol dest s = Some (dest, s)"
| "reverse_loop (Suc n) p i symbol dest s = do {
     (bit1, s) \<leftarrow> rc_bit p symbol s;
     (if bit1 then reverse_loop n p (i + 1) (2 * symbol + 1) (dest + 2 ^ i) s
      else reverse_loop n p (i + 1) (2 * symbol) dest s) }"

definition rc_bittree_reverse :: "prob_ptr \<Rightarrow> u32 \<Rightarrow> nat \<Rightarrow> xz_dec_lzma2 \<Rightarrow> (u32 \<times> xz_dec_lzma2) option" where
  "rc_bittree_reverse p dest limit s = reverse_loop (max 1 limit) p 0 1 dest s"

primrec direct_loop :: "nat \<Rightarrow> u32 \<Rightarrow> rc_dec \<Rightarrow> (u32 \<times> rc_dec) option" where
  "direct_loop 0 dest r = Some (dest, r)"
| "direct_loop (Suc n) dest r = do {
     r \<leftarrow> rc_normalize r;
     let rng = drop_bit 1 (rc_range r);
     let code = rc_code r - rng;
     let mask = 0 - drop_bit 31 code;
     direct_loop n (push_bit 1 dest + (mask + 1)) (r\<lparr>rc_range := rng, rc_code := code + (rng AND mask)\<rparr>) }"

definition rc_direct :: "u32 \<Rightarrow> u32 \<Rightarrow> xz_dec_lzma2 \<Rightarrow> (u32 \<times> xz_dec_lzma2) option" where
  "rc_direct dest limit s = map_option (\<lambda>(dest, r). (dest, s\<lparr>rc := r\<rparr>)) (direct_loop (rounds limit) dest (rc s))"

section \<open>Symbols\<close>

subsection \<open>The probabilities\<close>

definition is_match_row :: "nat \<Rightarrow> prob_ptr option" where "is_match_row st = prob_row 0 12 16 st"
definition is_rep :: prob_ptr where "is_rep = (192, 12, 0)"
definition is_rep0 :: prob_ptr where "is_rep0 = (204, 12, 0)"
definition is_rep1 :: prob_ptr where "is_rep1 = (216, 12, 0)"
definition is_rep2 :: prob_ptr where "is_rep2 = (228, 12, 0)"
definition is_rep0_long_row :: "nat \<Rightarrow> prob_ptr option" where "is_rep0_long_row st = prob_row 240 12 16 st"
definition dist_slot_row :: "nat \<Rightarrow> prob_ptr option" where "dist_slot_row st = prob_row 432 4 64 st"
definition dist_special :: "int \<Rightarrow> prob_ptr" where "dist_special off = (688, 114, off)"
definition dist_align :: prob_ptr where "dist_align = (802, 16, 0)"
definition match_len_dec :: nat where "match_len_dec = 818"
definition rep_len_dec :: nat where "rep_len_dec = 1332"
definition literal_row :: "nat \<Rightarrow> prob_ptr option" where "literal_row i = prob_row 1846 16 0x300 i"
definition PROBS_TOTAL :: nat where "PROBS_TOTAL = 1846 + 16 * 0x300"

text \<open>The members of a \<open>struct lzma_len_dec\<close> that starts at \<open>l\<close>.\<close>

definition len_choice :: "nat \<Rightarrow> prob_ptr" where "len_choice l = (l, 1, 0)"
definition len_choice2 :: "nat \<Rightarrow> prob_ptr" where "len_choice2 l = (l + 1, 1, 0)"
definition len_low_row :: "nat \<Rightarrow> nat \<Rightarrow> prob_ptr option" where "len_low_row l i = prob_row (l + 2) 16 8 i"
definition len_mid_row :: "nat \<Rightarrow> nat \<Rightarrow> prob_ptr option" where "len_mid_row l i = prob_row (l + 130) 16 8 i"
definition len_high :: "nat \<Rightarrow> prob_ptr" where "len_high l = (l + 258, 256, 0)"

subsection \<open>The kinds of the last symbols\<close>

definition lzma_state_literal :: "nat \<Rightarrow> nat" where
  "lzma_state_literal st = (if st \<le> 3 then 0 else if st \<le> 9 then st - 3 else st - 6)"

definition lzma_state_match :: "nat \<Rightarrow> nat" where
  "lzma_state_match st = (if st < 7 then 7 else 10)"

definition lzma_state_long_rep :: "nat \<Rightarrow> nat" where
  "lzma_state_long_rep st = (if st < 7 then 8 else 11)"

definition lzma_state_short_rep :: "nat \<Rightarrow> nat" where
  "lzma_state_short_rep st = (if st < 7 then 9 else 11)"

definition lzma_state_is_literal :: "nat \<Rightarrow> bool" where
  "lzma_state_is_literal st \<longleftrightarrow> st < 7"

definition lzma_get_dist_state :: "u32 \<Rightarrow> u32" where
  "lzma_get_dist_state n = (if n < 6 then n - 2 else 3)"

abbreviation map_lzma :: "(lzma_dec \<Rightarrow> lzma_dec) \<Rightarrow> xz_dec_lzma2 \<Rightarrow> xz_dec_lzma2" where
  "map_lzma f s \<equiv> s\<lparr>lzma := f (lzma s)\<rparr>"

subsection \<open>Literals\<close>

definition lzma_literal_probs :: "xz_dec_lzma2 \<Rightarrow> prob_ptr option" where
  "lzma_literal_probs s = do {
     prev_byte \<leftarrow> dict_get (dict s) 0;
     let low = drop_bit (unat (8 - lc (lzma s))) prev_byte;
     let high = push_bit (unat (lc (lzma s))) (of_nat (dict_pos (dict s)) AND literal_pos_mask (lzma s));
     literal_row (unat (low + high)) }"

partial_function (option) matched_loop :: "prob_ptr \<Rightarrow> nat \<Rightarrow> u32 \<Rightarrow> u32 \<Rightarrow> xz_dec_lzma2 \<Rightarrow> (nat \<times> xz_dec_lzma2) option" where
  "matched_loop p symbol match_byte offset s = do {
     let match_bit = match_byte AND offset;
     (bit1, s) \<leftarrow> rc_bit p (unat (offset + match_bit) + symbol) s;
     let symbol = (if bit1 then 2 * symbol + 1 else 2 * symbol);
     let offset = (if bit1 then offset AND match_bit else offset AND NOT match_bit);
     (if symbol < 0x100 then matched_loop p symbol (push_bit 1 match_byte) offset s else Some (symbol, s)) }"

declare matched_loop.simps [code]

definition literal_symbol :: "prob_ptr \<Rightarrow> xz_dec_lzma2 \<Rightarrow> (nat \<times> xz_dec_lzma2) option" where
  "literal_symbol p s =
     (if lzma_state_is_literal (lzma_state (lzma s)) then rc_bittree p 0x100 s
      else do {
        match_byte \<leftarrow> dict_get (dict s) (rep0 (lzma s));
        matched_loop p 1 (push_bit 1 match_byte) 0x100 s })"

definition lzma_literal :: "xz_dec_lzma2 \<Rightarrow> xz_dec_lzma2 option" where
  "lzma_literal s = do {
     p \<leftarrow> lzma_literal_probs s;
     (symbol, s) \<leftarrow> literal_symbol p s;
     d \<leftarrow> dict_put (dict s) (of_nat symbol);
     Some (map_lzma (\<lambda>l. l\<lparr>lzma_state := lzma_state_literal (lzma_state l)\<rparr>) (s\<lparr>dict := d\<rparr>)) }"

subsection \<open>Matches\<close>

definition lzma_len :: "nat \<Rightarrow> nat \<Rightarrow> xz_dec_lzma2 \<Rightarrow> xz_dec_lzma2 option" where
  "lzma_len l pos_state s = do {
     (bit1, s) \<leftarrow> rc_bit (len_choice l) 0 s;
     (p, limit, base, s) \<leftarrow>
       (if \<not> bit1 then do { p \<leftarrow> len_low_row l pos_state; Some (p, 8, 2, s) }
        else do {
          (bit2, s) \<leftarrow> rc_bit (len_choice2 l) 0 s;
          (if \<not> bit2 then do { p \<leftarrow> len_mid_row l pos_state; Some (p, 8, 10, s) }
           else Some (len_high l, 256, 18, s)) });
     (symbol, s) \<leftarrow> rc_bittree p limit s;
     Some (map_lzma (\<lambda>z. z\<lparr>len := base + (of_nat symbol - of_nat limit)\<rparr>) s) }"

definition lzma_match :: "nat \<Rightarrow> xz_dec_lzma2 \<Rightarrow> xz_dec_lzma2 option" where
  "lzma_match pos_state s = do {
     let s = map_lzma (\<lambda>z. z\<lparr>lzma_state := lzma_state_match (lzma_state z),
                             rep3 := rep2 z, rep2 := rep1 z, rep1 := rep0 z\<rparr>) s;
     s \<leftarrow> lzma_len match_len_dec pos_state s;
     p \<leftarrow> dist_slot_row (unat (lzma_get_dist_state (len (lzma s))));
     (symbol, s) \<leftarrow> rc_bittree p 64 s;
     let slot = symbol - 64;
     (if slot < 4 then Some (map_lzma (\<lambda>z. z\<lparr>rep0 := of_nat slot\<rparr>) s)
      else do {
        let limit = slot div 2 - 1;
        let rep = (2 + of_nat (slot mod 2) :: u32);
        (dist, s) \<leftarrow>
          (if slot < 14
           then do {
             let rep = push_bit limit rep;
             rc_bittree_reverse (dist_special (int (unat rep) - int slot - 1)) rep limit s }
           else do {
             (rep, s) \<leftarrow> rc_direct rep (of_nat limit - 4) s;
             rc_bittree_reverse dist_align (push_bit 4 rep) 4 s });
        Some (map_lzma (\<lambda>z. z\<lparr>rep0 := dist\<rparr>) s) }) }"

definition lzma_long_rep :: "nat \<Rightarrow> xz_dec_lzma2 \<Rightarrow> xz_dec_lzma2 option" where
  "lzma_long_rep pos_state s =
     lzma_len rep_len_dec pos_state (map_lzma (\<lambda>z. z\<lparr>lzma_state := lzma_state_long_rep (lzma_state z)\<rparr>) s)"

definition lzma_rep_match :: "nat \<Rightarrow> xz_dec_lzma2 \<Rightarrow> xz_dec_lzma2 option" where
  "lzma_rep_match pos_state s = do {
     let st = lzma_state (lzma s);
     (bit0, s) \<leftarrow> rc_bit is_rep0 st s;
     (if \<not> bit0
      then do {
        p \<leftarrow> is_rep0_long_row st;
        (bitl, s) \<leftarrow> rc_bit p pos_state s;
        (if \<not> bitl
         then Some (map_lzma (\<lambda>z. z\<lparr>lzma_state := lzma_state_short_rep (lzma_state z), len := 1\<rparr>) s)
         else lzma_long_rep pos_state s) }
      else do {
        (bit1, s) \<leftarrow> rc_bit is_rep1 st s;
        (if \<not> bit1
         then lzma_long_rep pos_state (map_lzma (\<lambda>z. z\<lparr>rep1 := rep0 z, rep0 := rep1 z\<rparr>) s)
         else do {
           (bit2, s) \<leftarrow> rc_bit is_rep2 st s;
           (if \<not> bit2
            then lzma_long_rep pos_state
                   (map_lzma (\<lambda>z. z\<lparr>rep2 := rep1 z, rep1 := rep0 z, rep0 := rep2 z\<rparr>) s)
            else lzma_long_rep pos_state
                   (map_lzma (\<lambda>z. z\<lparr>rep3 := rep2 z, rep2 := rep1 z, rep1 := rep0 z, rep0 := rep3 z\<rparr>) s)) }) }) }"

definition lzma_repeat :: "xz_dec_lzma2 \<Rightarrow> (bool \<times> xz_dec_lzma2) option" where
  "lzma_repeat s =
     map_option (\<lambda>(ok, n, d). (ok, map_lzma (\<lambda>z. z\<lparr>len := n\<rparr>) (s\<lparr>dict := d\<rparr>)))
       (dict_repeat (dict s) (len (lzma s)) (rep0 (lzma s)))"

subsection \<open>The main loop\<close>

definition lzma_symbol :: "xz_dec_lzma2 \<Rightarrow> (bool \<times> xz_dec_lzma2) option" where
  "lzma_symbol s = do {
     let pos_state = unat (of_nat (dict_pos (dict s)) AND pos_mask (lzma s));
     p \<leftarrow> is_match_row (lzma_state (lzma s));
     (matched, s) \<leftarrow> rc_bit p pos_state s;
     (if \<not> matched then map_option (Pair True) (lzma_literal s)
      else do {
        (rep, s) \<leftarrow> rc_bit is_rep (lzma_state (lzma s)) s;
        s \<leftarrow> (if rep then lzma_rep_match pos_state s else lzma_match pos_state s);
        lzma_repeat s }) }"

partial_function (option) lzma_loop :: "xz_dec_lzma2 \<Rightarrow> (bool \<times> xz_dec_lzma2) option" where
  "lzma_loop s =
     (if dict_has_space (dict s) \<and> \<not> rc_limit_exceeded (rc s)
      then do { (ok, s) \<leftarrow> lzma_symbol s; (if ok then lzma_loop s else Some (False, s)) }
      else Some (True, s))"

declare lzma_loop.simps [code]

definition lzma_main :: "xz_dec_lzma2 \<Rightarrow> (bool \<times> xz_dec_lzma2) option" where
  "lzma_main s = do {
     s \<leftarrow> (if dict_has_space (dict s) \<and> len (lzma s) > 0 then map_option snd (lzma_repeat s) else Some s);
     (ok, s) \<leftarrow> lzma_loop s;
     (if ok then do { r \<leftarrow> rc_normalize (rc s); Some (True, s\<lparr>rc := r\<rparr>) } else Some (False, s)) }"

definition lzma_reset :: "xz_dec_lzma2 \<Rightarrow> xz_dec_lzma2" where
  "lzma_reset s = map_lzma (\<lambda>z. z\<lparr>lzma_state := 0, rep0 := 0, rep1 := 0, rep2 := 0, rep3 := 0,
      probs := (\<lambda>i. if i < PROBS_TOTAL then 1024 else probs z i)\<rparr>) (s\<lparr>rc := rc_reset (rc s)\<rparr>)"

text \<open>How often \<open>step\<close> can be taken from \<open>props\<close>, and what is left.\<close>

fun props_loop :: "nat \<Rightarrow> nat \<Rightarrow> nat \<Rightarrow> nat \<times> nat" where
  "props_loop step n props = (if 0 < step \<and> step \<le> props then props_loop step (n + 1) (props - step) else (n, props))"

declare props_loop.simps [simp del]

definition lzma_props :: "byte \<Rightarrow> xz_dec_lzma2 \<Rightarrow> bool \<times> xz_dec_lzma2" where
  "lzma_props props s =
     (if props > 224 then (False, s)
      else let (pb, rest) = props_loop 45 0 (unat props);
               (lp, lc') = props_loop 9 0 rest;
               s = map_lzma (\<lambda>z. z\<lparr>pos_mask := push_bit pb 1 - 1, literal_pos_mask := of_nat lp, lc := of_nat lc'\<rparr>) s
           in if lc' + lp > 4 then (False, s)
              else (True, lzma_reset (map_lzma (\<lambda>z. z\<lparr>literal_pos_mask := push_bit lp 1 - 1\<rparr>) s)))"

end
