(* ===== verification/Returns.thy ===== *)
theory Returns
  imports Prelude
begin

text \<open>
  Total correctness of computations in the option type: \<open>returns m Q\<close> says that \<open>m\<close> has a value and that the
  value satisfies \<open>Q\<close>.  The rules follow the structure of a computation.
\<close>

definition returns :: "'a option \<Rightarrow> ('a \<Rightarrow> bool) \<Rightarrow> bool" where
  "returns m Q \<longleftrightarrow> (\<exists>x. m = Some x \<and> Q x)"

lemma returns_Some [simp]: "returns (Some x) Q \<longleftrightarrow> Q x"
  by (simp add: returns_def)

lemma returns_None [simp]: "\<not> returns None Q"
  by (simp add: returns_def)

lemma returns_bind [simp]: "returns (m \<bind> f) Q \<longleftrightarrow> returns m (\<lambda>x. returns (f x) Q)"
  by (auto simp: returns_def bind_eq_Some_conv)

lemma returns_map [simp]: "returns (map_option f m) Q \<longleftrightarrow> returns m (\<lambda>x. Q (f x))"
  by (auto simp: returns_def)

lemma returns_if [simp]: "returns (if c then a else b) Q \<longleftrightarrow> (c \<longrightarrow> returns a Q) \<and> (\<not> c \<longrightarrow> returns b Q)"
  by simp

lemma returns_mono: "returns m P \<Longrightarrow> (\<And>x. P x \<Longrightarrow> Q x) \<Longrightarrow> returns m Q"
  by (auto simp: returns_def)

lemma returnsE:
  assumes "returns m Q" obtains x where "m = Some x" "Q x"
  using assms by (auto simp: returns_def)

lemma returnsE2:
  assumes "returns m (\<lambda>(x, y). Q x y)" obtains x y where "m = Some (x, y)" "Q x y"
  using assms by (auto simp: returns_def)

lemma returnsE3:
  assumes "returns m (\<lambda>(x, y, z). Q x y z)" obtains x y z where "m = Some (x, y, z)" "Q x y z"
  using assms by (auto simp: returns_def)

lemma returns_value: "m = Some x \<Longrightarrow> returns m Q \<Longrightarrow> Q x"
  by (simp add: returns_def)

lemma returnsI: "m = Some x \<Longrightarrow> Q x \<Longrightarrow> returns m Q"
  by (simp add: returns_def)

lemma returns_conj: "returns m P \<Longrightarrow> returns m Q \<Longrightarrow> returns m (\<lambda>x. P x \<and> Q x)"
  by (auto simp: returns_def)

end
