(* ===== verification/Xz_Range.thy ===== *)
theory Xz_Range
  imports Xz_Lzma Returns
begin

text \<open>
  How much input the range decoder reads.  A byte is read when the range has dropped below \<open>2\<^sup>24\<close> and
  multiplies it by 256; a bit with a probability divides it by at most 67 and a direct bit by at most 33/16.
  One symbol takes at most 22 bits with probabilities and 26 direct ones, or 23 bits with probabilities, so
  that it reads at most 21 bytes together with the normalisation that follows: \<open>LZMA_IN_REQUIRED\<close>.
\<close>

section \<open>Consumption\<close>

abbreviation rng :: "rc_dec \<Rightarrow> nat" where "rng r \<equiv> unat (rc_range r)"

definition burn :: "rc_dec \<Rightarrow> nat \<Rightarrow> nat \<Rightarrow> rc_dec \<Rightarrow> bool" where
  "burn r0 n d r \<longleftrightarrow> rc_in r = rc_in r0 \<and> rc_in_limit r = rc_in_limit r0 \<and> rc_in_pos r0 \<le> rc_in_pos r \<and>
     253952 \<le> rng r0 \<and> 253952 \<le> rng r \<and>
     rng r0 * 256 ^ (rc_in_pos r - rc_in_pos r0) * 16 ^ d \<le> rng r * 67 ^ n * 33 ^ d"

definition room :: "rc_dec \<Rightarrow> bool" where
  "room r \<longleftrightarrow> rc_in_pos r + 21 \<le> length (rc_in r)"

lemma burn_refl: "253952 \<le> rng r \<Longrightarrow> burn r 0 0 r"
  by (simp add: burn_def)

lemma burn_mono:
  assumes "burn r0 n d r" "n \<le> n'" "d \<le> d'"
  shows "burn r0 n' d' r"
proof -
  let ?k = "rc_in_pos r - rc_in_pos r0"
  have "rng r0 * 256 ^ ?k * 16 ^ d' = rng r0 * 256 ^ ?k * 16 ^ d * 16 ^ (d' - d)"
    using assms(3) by (simp add: power_add [symmetric])
  also have "\<dots> \<le> rng r * 67 ^ n * 33 ^ d * 33 ^ (d' - d)"
    using assms(1) unfolding burn_def by (intro mult_mono [of "rng r0 * 256 ^ ?k * 16 ^ d"] power_mono) simp_all
  also have "\<dots> = rng r * 67 ^ n * 33 ^ d'"
    using assms(3) by (simp add: power_add [symmetric])
  also have "\<dots> \<le> rng r * 67 ^ n' * 33 ^ d'"
    using assms(2) by (intro mult_right_mono mult_left_mono power_increasing) auto
  finally show ?thesis using assms(1) by (simp add: burn_def)
qed

definition within :: "nat \<Rightarrow> nat \<Rightarrow> bool" where
  "within n d \<longleftrightarrow> n \<le> 22 \<and> d \<le> 26 \<or> n \<le> 26 \<and> d = 0"

lemma within_mono: "within n d \<Longrightarrow> n' \<le> n \<Longrightarrow> d' \<le> d \<Longrightarrow> within n' d'"
  by (auto simp: within_def)

lemma burn_budget:
  assumes "burn r0 n d r" "within n d"
  shows "rc_in_pos r \<le> rc_in_pos r0 + 21"
proof (rule ccontr)
  let ?k = "rc_in_pos r - rc_in_pos r0"
  assume "\<not> rc_in_pos r \<le> rc_in_pos r0 + 21"
  hence k: "22 \<le> ?k" by simp
  have over: False if "burn r0 n d r" "4294967296 * 67 ^ n * 33 ^ d < (253952::nat) * 256 ^ 22 * 16 ^ d" for n d
  proof -
    have "rng r0 * 256 ^ ?k * 16 ^ d \<le> rng r * 67 ^ n * 33 ^ d" and r0: "253952 \<le> rng r0"
      using that(1) by (auto simp: burn_def)
    moreover have "rng r * 67 ^ n * 33 ^ d \<le> 4294967296 * 67 ^ n * 33 ^ d"
      using unsigned_less [of "rc_range r", where ?'a = nat] by (intro mult_right_mono) auto
    moreover have "253952 * 256 ^ 22 * 16 ^ d \<le> rng r0 * 256 ^ ?k * 16 ^ d"
      using k r0 by (intro mult_right_mono mult_mono power_increasing) auto
    ultimately show False using that(2) by linarith
  qed
  from assms(2) consider "burn r0 22 26 r" | "burn r0 26 0 r"
    using burn_mono [OF assms(1)] by (auto simp: within_def)
  thus False using over [of 22 26] over [of 26 0] by cases simp_all
qed

lemma unat_push8: "r < RC_TOP_VALUE \<Longrightarrow> unat (push_bit 8 r) = 256 * unat r" for r :: u32
proof -
  assume "r < RC_TOP_VALUE"
  hence "unat r < 16777216" by (simp add: RC_TOP_VALUE_def word_less_nat_alt)
  thus ?thesis by (simp add: push_bit_eq_mult unat_word_ariths)
qed

lemma rc_normalize_burn:
  assumes b: "burn r0 n d r" and "room r0" "within n d"
  shows "returns (rc_normalize r) (\<lambda>r'. burn r0 n d r' \<and> 16777216 \<le> rng r')"
proof (cases "rc_range r < RC_TOP_VALUE")
  case False
  thus ?thesis using b by (simp add: rc_normalize_def RC_TOP_VALUE_def word_less_nat_alt)
next
  case True
  define r' where "r' = r\<lparr>rc_range := push_bit 8 (rc_range r),
    rc_code := push_bit 8 (rc_code r) + ucast (rc_in r ! rc_in_pos r), rc_in_pos := rc_in_pos r + 1\<rparr>"
  have rng: "rng r' = 256 * rng r" using unat_push8 [OF True] by (simp add: r'_def)
  have "rc_in_pos r' - rc_in_pos r0 = Suc (rc_in_pos r - rc_in_pos r0)"
    using b by (auto simp: r'_def burn_def)
  hence b': "burn r0 n d r'" using b rng by (auto simp: burn_def r'_def)
  have "rc_in_pos r < length (rc_in r)"
    using burn_budget [OF b' assms(3)] assms(2) b by (auto simp: room_def burn_def r'_def)
  moreover have "16777216 \<le> rng r'" using rng b by (simp add: burn_def)
  ultimately show ?thesis using True b' by (simp add: rc_normalize_def r'_def)
qed


section \<open>Probabilities\<close>

definition prob_ok :: "(nat \<Rightarrow> u16) \<Rightarrow> bool" where
  "prob_ok p \<longleftrightarrow> (\<forall>i < PROBS_TOTAL. 31 \<le> unat (p i) \<and> unat (p i) \<le> 2017)"

lemma prob_up:
  fixes p :: u16
  assumes "31 \<le> unat p" "unat p \<le> 2017"
  shows "31 \<le> unat (p + of_int ((2048 - uint p) div 32))" "unat (p + of_int ((2048 - uint p) div 32)) \<le> 2017"
proof -
  have "(2048 - uint p) div 32 = int ((2048 - unat p) div 32)"
    using assms by (simp add: zdiv_int of_nat_diff)
  hence "of_int ((2048 - uint p) div 32) = (of_nat ((2048 - unat p) div 32) :: u16)"
    by (metis of_int_of_nat_eq)
  hence "unat (p + of_int ((2048 - uint p) div 32)) = unat p + (2048 - unat p) div 32"
    using assms by (simp add: unat_word_ariths unat_of_nat del: of_nat_numeral)
  thus "31 \<le> unat (p + of_int ((2048 - uint p) div 32))" "unat (p + of_int ((2048 - uint p) div 32)) \<le> 2017"
    using assms by linarith+
qed

lemma prob_down:
  fixes p :: u16
  assumes "31 \<le> unat p" "unat p \<le> 2017"
  shows "31 \<le> unat (p - drop_bit 5 p)" "unat (p - drop_bit 5 p) \<le> 2017"
proof -
  have "unat (drop_bit 5 p) = unat p div 32" by (simp add: drop_bit_eq_div unat_div_distrib)
  hence "unat (p - drop_bit 5 p) = unat p - unat p div 32"
    by (simp add: unat_sub_if')
  thus "31 \<le> unat (p - drop_bit 5 p)" "unat (p - drop_bit 5 p) \<le> 2017" using assms by linarith+
qed

lemma prob_ok_upd: "prob_ok p \<Longrightarrow> 31 \<le> unat v \<Longrightarrow> unat v \<le> 2017 \<Longrightarrow> prob_ok (p(k := v))"
  by (simp add: prob_ok_def)

lemma part_arith:
  fixes q x y :: nat
  assumes "8192 \<le> q" "x < 2048 * (q + 1)" "q * 31 \<le> y"
  shows "253952 \<le> y" "x \<le> y * 67"
proof -
  show "253952 \<le> y" using assms by simp
  have "q * 31 * 67 \<le> y * 67" using assms(3) by (intro mult_right_mono) auto
  thus "x \<le> y * 67" using assms(1,2) by simp
qed

text \<open>The two parts into which a bit splits a normalised range.\<close>

lemma bound_parts:
  fixes r :: u32 and p :: u16
  assumes r: "16777216 \<le> unat r" and p: "31 \<le> unat p" "unat p \<le> 2017"
  defines "bnd \<equiv> drop_bit 11 r * ucast p"
  shows "253952 \<le> unat bnd" "unat r \<le> unat bnd * 67" "253952 \<le> unat (r - bnd)" "unat r \<le> unat (r - bnd) * 67"
proof -
  define q where "q = unat r div 2048"
  have q: "8192 \<le> q" "unat r < 2048 * (q + 1)" "2048 * q \<le> unat r" using r by (auto simp: q_def)
  have q2: "q < 2097152" using unsigned_less [of r, where ?'a = nat] by (simp add: q_def)
  have "q * 31 \<le> q * unat p" "q * unat p \<le> q * 2017" using p by simp_all
  moreover have "unat bnd = q * unat p"
  proof -
    have "unat (ucast p :: u32) = unat p"
      using unsigned_less [of p, where ?'a = nat] by (simp add: unsigned_ucast_eq take_bit_nat_eq_self)
    moreover have "q * unat p < 4294967296" using \<open>q * unat p \<le> q * 2017\<close> q2 by linarith
    ultimately show ?thesis using q2 by (simp add: bnd_def unat_word_ariths unat_div_distrib drop_bit_eq_div q_def)
  qed
  ultimately have b: "q * 31 \<le> unat bnd" "unat bnd \<le> q * 2017" by simp_all
  hence d: "unat (r - bnd) = unat r - unat bnd" using q by (simp add: unat_sub_if')
  have "q * 31 \<le> unat r - unat bnd" using b(2) q(3) by linarith
  thus "253952 \<le> unat bnd" "unat r \<le> unat bnd * 67" "253952 \<le> unat (r - bnd)" "unat r \<le> unat (r - bnd) * 67"
    using part_arith [OF q(1,2)] b(1) d by simp_all
qed

section \<open>Bits\<close>

text \<open>What decoding bits leaves alone.\<close>

definition coded :: "xz_dec_lzma2 \<Rightarrow> xz_dec_lzma2 \<Rightarrow> bool" where
  "coded s s' \<longleftrightarrow> (\<exists>r p. s' = s\<lparr>rc := r, lzma := (lzma s)\<lparr>probs := p\<rparr>\<rparr>)"

lemma coded_refl [simp]: "coded s s"
  unfolding coded_def by (rule exI [of _ "rc s"], rule exI [of _ "probs (lzma s)"]) simp

lemma coded_trans: assumes "coded s t" "coded t u" shows "coded s u"
proof -
  obtain r p r' p' where "t = s\<lparr>rc := r, lzma := (lzma s)\<lparr>probs := p\<rparr>\<rparr>" "u = t\<lparr>rc := r', lzma := (lzma t)\<lparr>probs := p'\<rparr>\<rparr>"
    using assms by (auto simp: coded_def)
  hence "u = s\<lparr>rc := r', lzma := (lzma s)\<lparr>probs := p'\<rparr>\<rparr>" by simp
  thus ?thesis unfolding coded_def by blast
qed

lemma codedD:
  assumes "coded s s'"
  shows "dict s' = dict s" "lzma2 s' = lzma2 s" "temp_size s' = temp_size s" "temp_buf s' = temp_buf s"
    "lzma_state (lzma s') = lzma_state (lzma s)" "rep0 (lzma s') = rep0 (lzma s)" "len (lzma s') = len (lzma s)"
    "lc (lzma s') = lc (lzma s)" "literal_pos_mask (lzma s') = literal_pos_mask (lzma s)"
    "pos_mask (lzma s') = pos_mask (lzma s)"
  using assms by (auto simp: coded_def)

text \<open>A state in the middle of a symbol, after at most \<open>n\<close> bits with probabilities and \<open>d\<close> direct bits.\<close>

definition mid :: "rc_dec \<Rightarrow> nat \<Rightarrow> nat \<Rightarrow> xz_dec_lzma2 \<Rightarrow> bool" where
  "mid r0 n d s \<longleftrightarrow> burn r0 n d (rc s) \<and> prob_ok (probs (lzma s)) \<and> room r0"

definition ptr_ok :: "prob_ptr \<Rightarrow> bool" where
  "ptr_ok p \<longleftrightarrow> (case p of (base, n, off) \<Rightarrow> base + n \<le> PROBS_TOTAL)"

lemma rc_bit_mid:
  assumes m: "mid r0 n d s" and "within (n + 1) d" and p: "ptr_ok p" "prob_index p i \<noteq> None"
  shows "returns (rc_bit p i s) (\<lambda>(v, s'). mid r0 (n + 1) d s' \<and> coded s s')"
proof -
  obtain k where k: "prob_index p i = Some k" "k < PROBS_TOTAL"
    using p by (auto simp: prob_index_def ptr_ok_def split: prod.splits if_splits)
  from m have b: "burn r0 n d (rc s)" and po: "prob_ok (probs (lzma s))" and rm: "room r0" by (auto simp: mid_def)
  obtain r where r: "rc_normalize (rc s) = Some r" "burn r0 n d r" "16777216 \<le> rng r"
    using rc_normalize_burn [OF b rm within_mono [OF assms(2)]] by (auto elim: returnsE)
  let ?p = "probs (lzma s) k"
  have pk: "31 \<le> unat ?p" "unat ?p \<le> 2017" using po k(2) by (auto simp: prob_ok_def)
  note parts = bound_parts [OF r(3) pk]
  have step: "burn r0 (n + 1) d (r\<lparr>rc_range := v, rc_code := c\<rparr>)" if "253952 \<le> unat v" "rng r \<le> unat v * 67" for v c
  proof -
    let ?e = "rc_in_pos r - rc_in_pos r0"
    have "rng r0 * 256 ^ ?e * 16 ^ d \<le> rng r * 67 ^ n * 33 ^ d" using r(2) by (simp add: burn_def)
    also have "\<dots> \<le> unat v * 67 * 67 ^ n * 33 ^ d" using that(2) by (intro mult_right_mono) auto
    finally show ?thesis using r(2) that(1) by (simp add: burn_def)
  qed
  have lo: "burn r0 (n + 1) d (r\<lparr>rc_range := drop_bit 11 (rc_range r) * ucast ?p\<rparr>)"
    using step [OF parts(1,2), of "rc_code r"] by simp
  have hi: "burn r0 (n + 1) d (r\<lparr>rc_range := rc_range r - drop_bit 11 (rc_range r) * ucast ?p, rc_code := c\<rparr>)" for c
    using step [OF parts(3,4)] by simp
  show ?thesis
    using lo hi rm prob_ok_upd [OF po prob_up [OF pk]] prob_ok_upd [OF po prob_down [OF pk]]
    by (auto simp: rc_bit_def k(1) r(1) mid_def coded_def Let_def)
qed

lemma bittree_loop_mid:
  assumes "mid r0 n d s" "within (n + k) d" "ptr_ok (base, sz, 0)" "2 ^ m \<le> sz"
    "2 ^ j \<le> sy" "sy < 2 ^ (j + 1)" "j + k = m" "0 < k"
  shows "returns (bittree_loop (base, sz, 0) (2 ^ m) sy s)
    (\<lambda>(v, s'). 2 ^ m \<le> v \<and> v < 2 ^ (m + 1) \<and> mid r0 (n + k) d s' \<and> coded s s')"
  using assms
proof (induction k arbitrary: n j sy s)
  case (Suc k)
  have "sy < sz"
  proof -
    have "sy < 2 ^ (j + 1)" by fact
    also have "(2::nat) ^ (j + 1) \<le> 2 ^ m" using Suc.prems(7) by (intro power_increasing) auto
    finally show ?thesis using Suc.prems(4) by linarith
  qed
  hence ix: "prob_index (base, sz, 0) sy \<noteq> None" by (simp add: prob_index_def)
  have "within (n + 1) d" using within_mono [OF Suc.prems(2)] by simp
  from rc_bit_mid [OF Suc.prems(1) this Suc.prems(3) ix]
  obtain v t where t: "rc_bit (base, sz, 0) sy s = Some (v, t)" "mid r0 (n + 1) d t" "coded s t"
    by (auto elim!: returnsE)
  define sy' where "sy' = (if v then 2 * sy + 1 else 2 * sy)"
  have b: "2 ^ (j + 1) \<le> sy'" "sy' < 2 ^ (j + 1 + 1)" using Suc.prems(5,6) by (auto simp: sy'_def)
  show ?case
  proof (cases "k = 0")
    case True
    hence "\<not> sy' < 2 ^ m" "sy' < 2 ^ (m + 1)" using b Suc.prems(7) by auto
    thus ?thesis using t True
      by (subst bittree_loop.simps) (simp add: sy'_def [symmetric])
  next
    case False
    have "(2::nat) ^ (j + 1 + 1) \<le> 2 ^ m" using False Suc.prems(7) by (intro power_increasing) auto
    hence lt: "sy' < 2 ^ m" using b by linarith
    have "returns (bittree_loop (base, sz, 0) (2 ^ m) sy' t)
      (\<lambda>(v, s'). 2 ^ m \<le> v \<and> v < 2 ^ (m + 1) \<and> mid r0 (n + 1 + k) d s' \<and> coded t s')"
      by (rule Suc.IH [of "n + 1" t "j + 1"]) (use t b Suc.prems False in auto)
    thus ?thesis using t(1) lt coded_trans [OF t(3)]
      by (subst bittree_loop.simps) (auto simp: sy'_def [symmetric] elim!: returns_mono)
  qed
qed simp

lemma rc_bittree_mid:
  assumes "mid r0 n d s" "within (n + m) d" "ptr_ok (base, sz, 0)" "2 ^ m \<le> sz" "0 < m"
  shows "returns (rc_bittree (base, sz, 0) (2 ^ m) s)
    (\<lambda>(v, s'). 2 ^ m \<le> v \<and> v < 2 ^ (m + 1) \<and> mid r0 (n + m) d s' \<and> coded s s')"
  unfolding rc_bittree_def by (rule bittree_loop_mid [where j = 0]) (use assms in auto)

lemma reverse_loop_mid:
  assumes "mid r0 n d s" "within (n + k) d" "ptr_ok p" "\<forall>sy. 1 \<le> sy \<and> sy < 2 ^ (i + k) \<longrightarrow> prob_index p sy \<noteq> None"
    "2 ^ i \<le> sy" "sy < 2 ^ (i + 1)"
  shows "returns (reverse_loop k p i sy dest s) (\<lambda>(v, s'). mid r0 (n + k) d s' \<and> coded s s')"
  using assms
proof (induction k arbitrary: n i sy dest s)
  case (Suc k)
  have "(2::nat) ^ (i + 1) \<le> 2 ^ (i + Suc k)" by (intro power_increasing) auto
  moreover have "(1::nat) \<le> 2 ^ i" by simp
  ultimately have ix: "prob_index p sy \<noteq> None" using Suc.prems(4-6) by (meson le_trans less_le_trans)
  have "within (n + 1) d" using within_mono [OF Suc.prems(2)] by simp
  from rc_bit_mid [OF Suc.prems(1) this Suc.prems(3) ix]
  obtain v t where t: "rc_bit p sy s = Some (v, t)" "mid r0 (n + 1) d t" "coded s t"
    by (auto elim!: returnsE)
  have IH: "returns (reverse_loop k p (i + 1) sy' dest' t) (\<lambda>(v, s'). mid r0 (n + 1 + k) d s' \<and> coded t s')"
    if "2 ^ (i + 1) \<le> sy'" "sy' < 2 ^ (i + 1 + 1)" for sy' dest'
    by (rule Suc.IH) (use t Suc.prems that in auto)
  show ?case using IH [of "2 * sy + 1" "dest + 2 ^ i"] IH [of "2 * sy" dest] Suc.prems(5,6) t(1) coded_trans [OF t(3)]
    by (auto elim!: returns_mono)
qed simp

lemma rc_bittree_reverse_mid:
  assumes "mid r0 n d s" "within (n + k) d" "ptr_ok p" "0 < k"
    "\<forall>sy. 1 \<le> sy \<and> sy < 2 ^ k \<longrightarrow> prob_index p sy \<noteq> None"
  shows "returns (rc_bittree_reverse p dest k s) (\<lambda>(v, s'). mid r0 (n + k) d s' \<and> coded s s')"
proof -
  have "max 1 k = k" using assms(4) by simp
  thus ?thesis unfolding rc_bittree_reverse_def using reverse_loop_mid [of r0 n d s k p 0 1] assms by auto
qed

lemma direct_loop_burn:
  assumes "burn r0 n d r" "room r0" "within n (d + k)"
  shows "returns (direct_loop k dest r) (\<lambda>(v, r'). burn r0 n (d + k) r')"
  using assms
proof (induction k arbitrary: d dest r)
  case (Suc k)
  obtain q where q: "rc_normalize r = Some q" "burn r0 n d q" "16777216 \<le> rng q"
    using rc_normalize_burn [OF Suc.prems(1,2) within_mono [OF Suc.prems(3)]] by (auto elim: returnsE)
  have h: "unat (drop_bit (Suc 0) (rc_range q)) = rng q div 2" by (simp add: drop_bit_eq_div unat_div_distrib)
  have "burn r0 n (d + 1) (q\<lparr>rc_range := drop_bit 1 (rc_range q), rc_code := c\<rparr>)" for c
  proof -
    let ?e = "rc_in_pos q - rc_in_pos r0"
    have "rng q * 16 \<le> rng q div 2 * 33" using q(3) by linarith
    have "rng r0 * 256 ^ ?e * 16 ^ d * 16 \<le> rng q * 67 ^ n * 33 ^ d * 16"
      using q(2) unfolding burn_def by (intro mult_right_mono) auto
    also have "\<dots> = (rng q * 16) * 67 ^ n * 33 ^ d" by simp
    also have "\<dots> \<le> (rng q div 2 * 33) * 67 ^ n * 33 ^ d"
      using \<open>rng q * 16 \<le> rng q div 2 * 33\<close> by (intro mult_right_mono) auto
    finally have "rng r0 * 256 ^ ?e * 16 ^ (d + 1) \<le> rng q div 2 * 67 ^ n * 33 ^ (d + 1)" by simp
    moreover have "253952 \<le> rng q div 2" using q(3) by linarith
    ultimately show ?thesis using q(2) h unfolding burn_def by simp
  qed
  from Suc.IH [OF this] Suc.prems q(1) show ?case by (simp add: Let_def)
qed simp

lemma rc_direct_mid:
  assumes "mid r0 n d s" "within n (d + unat k)" "0 < k"
  shows "returns (rc_direct dest k s) (\<lambda>(v, s'). mid r0 n (d + unat k) s' \<and> coded s s')"
proof -
  have "rounds k = unat k" using assms(3) by (auto simp: rounds_def)
  moreover have "coded s (s\<lparr>rc := r\<rparr>)" for r
    unfolding coded_def by (rule exI [of _ r], rule exI [of _ "probs (lzma s)"]) simp
  ultimately show ?thesis using direct_loop_burn [of r0 n d "rc s" "unat k" dest] assms
    by (auto simp: rc_direct_def mid_def case_prod_beta elim!: returns_mono)
qed

end
