(* ===== verification/Xz_Dict.thy ===== *)
theory Xz_Dict
  imports Xz_Lzma Returns
begin

text \<open>
  The dictionary of the LZMA decoder: its invariant, that its operations stay inside the buffer and read only
  bytes that were written, and what they do to the history of decoded bytes.
\<close>

section \<open>The invariant\<close>

definition dict_ok :: "dictionary \<Rightarrow> bool" where
  "dict_ok d \<longleftrightarrow> 0 < dict_end d \<and> dict_cap d = dict_end d \<and> dict_end d = unat (dict_size d) \<and>
     dict_start d \<le> dict_pos d \<and> dict_pos d \<le> dict_full d \<and> dict_full d \<le> dict_end d \<and>
     (dict_pos d = dict_full d \<or> dict_full d = dict_end d) \<and> (\<forall>i < dict_full d. dict_buf d i \<noteq> None) \<and>
     dict_mode d = XZ_DYNALLOC \<and> dict_allocated d = 0"

text \<open>What an operation on the contents leaves alone.\<close>

definition same_dict :: "dictionary \<Rightarrow> dictionary \<Rightarrow> bool" where
  "same_dict d d' \<longleftrightarrow> dict_cap d' = dict_cap d \<and> dict_start d' = dict_start d \<and> dict_lim d' = dict_lim d \<and>
     dict_end d' = dict_end d \<and> dict_size d' = dict_size d \<and> dict_size_max d' = dict_size_max d \<and>
     dict_allocated d' = dict_allocated d \<and> dict_mode d' = dict_mode d"

text \<open>Bytes were added at the position.\<close>

definition grown :: "dictionary \<Rightarrow> dictionary \<Rightarrow> bool" where
  "grown d d' \<longleftrightarrow> same_dict d d' \<and> dict_pos d \<le> dict_pos d' \<and> dict_full d \<le> dict_full d' \<and>
     (\<forall>i. i < dict_pos d \<or> dict_pos d' \<le> i \<longrightarrow> dict_buf d' i = dict_buf d i)"

lemma grown_refl [simp]: "grown d d"
  by (simp add: grown_def same_dict_def)

lemma grown_trans: "grown d e \<Longrightarrow> grown e f \<Longrightarrow> grown d f"
  by (auto simp: grown_def same_dict_def)

lemma dict_back_range:
  assumes "dict_ok d" "unat dist < dict_full d"
  shows "0 \<le> dict_back d dist" "dict_back d dist < int (dict_end d)"
    "dict_full d = dict_end d \<or> dict_back d dist < int (dict_pos d)" "dict_back d dist < int (dict_full d)"
proof -
  define x where "x = unat dist"
  have ok: "dict_pos d \<le> dict_full d" "dict_full d \<le> dict_end d" "dict_pos d = dict_full d \<or> dict_full d = dict_end d" "x < dict_full d"
    using assms by (auto simp: dict_ok_def x_def)
  show "0 \<le> dict_back d dist" "dict_back d dist < int (dict_end d)"
      "dict_full d = dict_end d \<or> dict_back d dist < int (dict_pos d)" "dict_back d dist < int (dict_full d)"
    unfolding dict_back_def x_def [symmetric] using ok by auto
qed

lemma dict_get_safe:
  assumes "dict_ok d" "dict_full d = 0 \<or> unat dist < dict_full d"
  shows "returns (dict_get d dist) (\<lambda>v. unat v < 256)"
proof (cases "dict_full d = 0")
  case True
  thus ?thesis by (simp add: dict_get_def)
next
  case False
  hence dist: "unat dist < dict_full d" using assms(2) by simp
  note r = dict_back_range [OF assms(1) dist]
  have "nat (dict_back d dist) < dict_full d" using r(1,4) by linarith
  hence "dict_buf d (nat (dict_back d dist)) \<noteq> None" using assms(1) by (simp add: dict_ok_def)
  then obtain v where "dict_buf d (nat (dict_back d dist)) = Some v" by blast
  moreover have "unat (ucast v :: u32) < 256"
    using unsigned_less [of v, where ?'a = nat] by (simp add: unsigned_ucast_eq le_less_trans [OF take_bit_nat_less_eq_self])
  ultimately show ?thesis using False r assms(1) by (simp add: dict_get_def dict_read_def dict_ok_def)
qed

lemma dict_put_safe:
  assumes "dict_ok d" "dict_pos d < dict_end d"
  shows "returns (dict_put d v) (\<lambda>d'. dict_ok d' \<and> grown d d' \<and> dict_pos d' = dict_pos d + 1)"
  using assms by (auto simp: dict_put_def dict_write_def dict_raise_full_def dict_ok_def grown_def same_dict_def)

lemma dict_copy_safe:
  assumes "dict_cap d = dict_end d" "dict_pos d + n \<le> dict_end d" "0 \<le> bk" "bk < int (dict_end d)"
    "\<forall>i. i < dict_pos d \<or> i < dict_full d \<longrightarrow> dict_buf d i \<noteq> None" "dict_full d = dict_end d \<or> bk < int (dict_pos d)"
  shows "returns (dict_copy n bk d) (\<lambda>d'. same_dict d d' \<and> dict_pos d' = dict_pos d + n \<and> dict_full d' = dict_full d \<and>
    (\<forall>i. i < dict_pos d + n \<or> i < dict_full d \<longrightarrow> dict_buf d' i \<noteq> None) \<and>
    (\<forall>i. i < dict_pos d \<or> dict_pos d + n \<le> i \<longrightarrow> dict_buf d' i = dict_buf d i))"
  using assms
proof (induction n arbitrary: bk d)
  case 0
  thus ?case by (simp add: same_dict_def)
next
  case (Suc n)
  have "dict_buf d (nat bk) \<noteq> None" using Suc.prems by (auto simp: nat_less_iff)
  then obtain v where v: "dict_read d bk = Some v" using Suc.prems by (auto simp: dict_read_def)
  define e where "e = d\<lparr>dict_buf := (dict_buf d)(dict_pos d \<mapsto> v), dict_pos := dict_pos d + 1\<rparr>"
  define bk' where "bk' = (if bk + 1 = int (dict_end d) then 0 else bk + 1)"
  have "returns (dict_copy n bk' e) (\<lambda>d'. same_dict e d' \<and> dict_pos d' = dict_pos e + n \<and> dict_full d' = dict_full e \<and>
    (\<forall>i. i < dict_pos e + n \<or> i < dict_full e \<longrightarrow> dict_buf d' i \<noteq> None) \<and>
    (\<forall>i. i < dict_pos e \<or> dict_pos e + n \<le> i \<longrightarrow> dict_buf d' i = dict_buf e i))"
    by (rule Suc.IH) (use Suc.prems in \<open>auto simp: e_def bk'_def less_Suc_eq\<close>)
  moreover have "dict_copy (Suc n) bk d = dict_copy n bk' e"
    using v Suc.prems by (simp add: dict_write_def e_def bk'_def)
  ultimately show ?case by (auto simp: e_def same_dict_def elim!: returns_mono)
qed

lemma dict_repeat_safe:
  assumes d: "dict_ok d" and l: "dict_pos d < dict_lim d" "dict_lim d \<le> dict_end d" and n: "1 \<le> unat n"
  shows "returns (dict_repeat d n dist) (\<lambda>(ok, n', d').
    if ok then dict_ok d' \<and> grown d d' \<and> dict_pos d < dict_pos d' \<and> dict_pos d' \<le> dict_lim d \<and>
               unat dist < dict_full d' \<and> dist < dict_size d'
    else d' = d)"
proof (cases "unat dist \<ge> dict_full d \<or> dist \<ge> dict_size d")
  case True
  thus ?thesis by (simp add: dict_repeat_def)
next
  case False
  hence dist: "unat dist < dict_full d" "dist < dict_size d" by auto
  define left :: u32 where "left = (if dict_pos d \<le> dict_lim d \<and> dict_lim d - dict_pos d < unat n
                       then of_nat (dict_lim d - dict_pos d) else n)"
  have "unat left = min (dict_lim d - dict_pos d) (unat n)"
  proof (cases "dict_lim d - dict_pos d < unat n")
    case True
    hence "dict_lim d - dict_pos d < 4294967296" using unsigned_less [of n, where ?'a = nat] by simp
    hence "unat (of_nat (dict_lim d - dict_pos d) :: u32) = dict_lim d - dict_pos d" by (subst unat_of_nat) simp
    thus ?thesis using True l by (simp add: left_def)
  qed (use l in \<open>simp add: left_def\<close>)
  hence left: "1 \<le> unat left" "unat left \<le> dict_lim d - dict_pos d" using l n by auto
  hence rl: "rounds left = unat left" by (auto simp: rounds_def)
  have "returns (dict_copy (unat left) (dict_back d dist) d) (\<lambda>d'. same_dict d d' \<and> dict_pos d' = dict_pos d + unat left \<and> dict_full d' = dict_full d \<and>
    (\<forall>i. i < dict_pos d + unat left \<or> i < dict_full d \<longrightarrow> dict_buf d' i \<noteq> None) \<and>
    (\<forall>i. i < dict_pos d \<or> dict_pos d + unat left \<le> i \<longrightarrow> dict_buf d' i = dict_buf d i))"
    by (rule dict_copy_safe) (use d l left dict_back_range [OF d dist(1)] in \<open>auto simp: dict_ok_def\<close>)
  moreover have "dict_repeat d n dist =
      map_option (\<lambda>d. (True, n - left, dict_raise_full d)) (dict_copy (unat left) (dict_back d dist) d)"
    using False by (simp add: dict_repeat_def Let_def left_def [symmetric] rl)
  ultimately show ?thesis using d l left dist
    by (auto simp: dict_raise_full_def dict_ok_def grown_def same_dict_def elim!: returns_mono)
qed

end
