(* ===== verification/Xz_Symbol.thy ===== *)
theory Xz_Symbol
  imports Xz_Range Xz_Dict
begin

text \<open>
  Decoding one symbol and the main loop of the LZMA decoder never leave their buffers and always return:
  the probabilities, the dictionary and the input are accessed inside their bounds, and no byte of the
  dictionary is read before it was written.
\<close>

section \<open>Matches\<close>

definition framed :: "xz_dec_lzma2 \<Rightarrow> xz_dec_lzma2 \<Rightarrow> bool" where
  "framed s s' \<longleftrightarrow> dict s' = dict s \<and> lzma2 s' = lzma2 s \<and> temp_size s' = temp_size s \<and> temp_buf s' = temp_buf s \<and>
     lc (lzma s') = lc (lzma s) \<and> literal_pos_mask (lzma s') = literal_pos_mask (lzma s) \<and>
     pos_mask (lzma s') = pos_mask (lzma s)"

lemma framed_trans: "framed s t \<Longrightarrow> framed t u \<Longrightarrow> framed s u"
  by (simp add: framed_def)

lemma framed_coded: "coded s s' \<Longrightarrow> framed s s'"
  by (simp add: framed_def codedD)

lemma mid_mono: "mid r0 n d s \<Longrightarrow> n \<le> n' \<Longrightarrow> d \<le> d' \<Longrightarrow> mid r0 n' d' s"
  using burn_mono by (auto simp: mid_def)

lemma mid_lzma [simp]: "probs z = probs (lzma s) \<Longrightarrow> mid r0 n d (s\<lparr>lzma := z\<rparr>) \<longleftrightarrow> mid r0 n d s"
  by (simp add: mid_def)

text \<open>One bit, in the form in which the proofs use it.\<close>

lemma rc_bit_ex:
  assumes "mid r0 n d s" "within (n + 1) d" "ptr_ok p" "prob_index p i \<noteq> None"
  obtains v t where "rc_bit p i s = Some (v, t)" "mid r0 (n + 1) d t" "coded s t"
  using rc_bit_mid [OF assms] by (auto elim!: returnsE)

definition len_dec_ok :: "nat \<Rightarrow> bool" where
  "len_dec_ok l \<longleftrightarrow> l + 514 \<le> PROBS_TOTAL"

lemma len_decs_ok [simp]: "len_dec_ok match_len_dec" "len_dec_ok rep_len_dec"
  by (simp_all add: len_dec_ok_def PROBS_TOTAL_def match_len_dec_def rep_len_dec_def)

text \<open>The symbol that follows the choice bits.\<close>

lemma len_symbol:
  assumes "mid r0 n d s" "within (n + m) d" "ptr_ok (base, sz, 0)" "2 ^ m \<le> sz" "0 < m"
    and "2 \<le> lo" "lo + 2 ^ m \<le> 274"
  shows "returns (rc_bittree (base, sz, 0) (2 ^ m) s \<bind> (\<lambda>(symbol, s).
             Some (map_lzma (\<lambda>z. z\<lparr>len := of_nat lo + (of_nat symbol - of_nat (2 ^ m))\<rparr>) s)))
    (\<lambda>s'. mid r0 (n + m) d s' \<and> framed s s' \<and> lzma_state (lzma s') = lzma_state (lzma s) \<and>
          2 \<le> unat (len (lzma s')) \<and> unat (len (lzma s')) \<le> 273)"
proof -
  obtain v t where v: "rc_bittree (base, sz, 0) (2 ^ m) s = Some (v, t)" "2 ^ m \<le> v" "v < 2 ^ (m + 1)"
      and t: "mid r0 (n + m) d t" "coded s t"
    using rc_bittree_mid [OF assms(1-5)] by (auto elim!: returnsE)
  have e: "of_nat lo + (of_nat v - of_nat (2 ^ m)) = (of_nat (lo + (v - 2 ^ m)) :: u32)"
    using v(2) by (simp add: of_nat_diff)
  have "lo + (v - 2 ^ m) \<le> 273" using v assms(7) by simp
  hence "unat (of_nat (lo + (v - 2 ^ m)) :: u32) = lo + (v - 2 ^ m)" by (subst unat_of_nat) simp
  thus ?thesis
    using t framed_coded [OF t(2)] codedD(5) [OF t(2)] \<open>lo + (v - 2 ^ m) \<le> 273\<close> assms(6)
    by (simp only: v(1) bind.bind_lunit e prod.case returns_Some) (auto simp: framed_def)
qed

lemma lzma_len_mid:
  assumes m: "mid r0 n d s" "within (n + 10) d" and l: "len_dec_ok l" and ps: "pos_state < 16"
  shows "returns (lzma_len l pos_state s) (\<lambda>s'. mid r0 (n + 10) d s' \<and> framed s s' \<and>
    lzma_state (lzma s') = lzma_state (lzma s) \<and> 2 \<le> unat (len (lzma s')) \<and> unat (len (lzma s')) \<le> 273)"
proof -
  let ?Q = "\<lambda>s'. mid r0 (n + 10) d s' \<and> framed s s' \<and> lzma_state (lzma s') = lzma_state (lzma s) \<and>
    2 \<le> unat (len (lzma s')) \<and> unat (len (lzma s')) \<le> 273"
  have fin: "returns (rc_bittree (base, sz, 0) (2 ^ k) t \<bind> (\<lambda>(symbol, s).
             Some (map_lzma (\<lambda>z. z\<lparr>len := of_nat lo + (of_nat symbol - of_nat (2 ^ k))\<rparr>) s))) ?Q"
    if "mid r0 n' d t" "n' + k \<le> n + 10" "base + sz \<le> PROBS_TOTAL" "2 ^ k \<le> sz" "0 < k" "2 \<le> lo" "lo + 2 ^ k \<le> 274"
      "framed s t" "lzma_state (lzma t) = lzma_state (lzma s)" for base sz k lo t n'
  proof (rule returns_mono [OF len_symbol [OF that(1) _ _ that(4,5,6,7)]])
    show "within (n' + k) d" using within_mono [OF m(2)] that(2) by simp
    show "ptr_ok (base, sz, 0)" using that(3) by (simp add: ptr_ok_def)
  qed (use that(2,8,9) mid_mono framed_trans in auto)
  have ix: "ptr_ok (len_choice l)" "prob_index (len_choice l) 0 \<noteq> None"
      "ptr_ok (len_choice2 l)" "prob_index (len_choice2 l) 0 \<noteq> None"
    using l by (auto simp: len_dec_ok_def ptr_ok_def len_choice_def len_choice2_def prob_index_def)
  have low: "len_low_row l pos_state = Some (l + 2 + pos_state * 8, 8, 0)" "l + 2 + pos_state * 8 + 8 \<le> PROBS_TOTAL"
    and mids: "len_mid_row l pos_state = Some (l + 130 + pos_state * 8, 8, 0)" "l + 130 + pos_state * 8 + 8 \<le> PROBS_TOTAL"
    using ps l by (auto simp: len_low_row_def len_mid_row_def prob_row_def len_dec_ok_def)
  obtain v t where t: "rc_bit (len_choice l) 0 s = Some (v, t)" "mid r0 (n + 1) d t" "coded s t"
    by (rule rc_bit_ex [OF m(1) within_mono [OF m(2)] ix(1,2)]) auto
  note ft = framed_coded [OF t(3)] codedD(5) [OF t(3)]
  show ?thesis
  proof (cases v)
    case False
    thus ?thesis using fin [of "n + 1" t 3 "l + 2 + pos_state * 8" 8 2] t ft low by (simp add: lzma_len_def)
  next
    case True
    obtain w u where u: "rc_bit (len_choice2 l) 0 t = Some (w, u)" "mid r0 (n + 1 + 1) d u" "coded t u"
      by (rule rc_bit_ex [OF t(2) within_mono [OF m(2)] ix(3,4)]) auto
    have fu: "framed s u" "lzma_state (lzma u) = lzma_state (lzma s)"
      using ft framed_coded [OF u(3)] framed_trans codedD(5) [OF u(3)] by auto
    show ?thesis
    proof (cases w)
      case False
      thus ?thesis using fin [of "n + 2" u 3 "l + 130 + pos_state * 8" 8 10] u t fu mids True by (simp add: lzma_len_def)
    next
      case w: True
      thus ?thesis using fin [of "n + 2" u 8 "l + 258" 256 18] u t fu l True
        by (simp add: lzma_len_def len_high_def len_dec_ok_def)
    qed
  qed
qed

text \<open>What a match leaves in the state.\<close>

definition match_post :: "rc_dec \<Rightarrow> nat \<Rightarrow> nat \<Rightarrow> xz_dec_lzma2 \<Rightarrow> xz_dec_lzma2 \<Rightarrow> bool" where
  "match_post r0 n d s s' \<longleftrightarrow> mid r0 n d s' \<and> framed s s' \<and> 7 \<le> lzma_state (lzma s') \<and> lzma_state (lzma s') < 12 \<and>
     1 \<le> unat (len (lzma s'))"

lemma dist_state_less: "2 \<le> unat n \<Longrightarrow> unat (lzma_get_dist_state n) < 4"
  by (auto simp: lzma_get_dist_state_def word_less_nat_alt unat_sub_if' not_less)

lemma special_index:
  assumes "4 \<le> slot" "slot < 14" "1 \<le> sy" "sy < 2 ^ (slot div 2 - 1)"
  shows "prob_index (dist_special (int (unat (push_bit (slot div 2 - 1) (2 + of_nat (slot mod 2)) :: u32)) - int slot - 1)) sy \<noteq> None"
proof -
  have "slot \<in> {4, 5, 6, 7, 8, 9, 10, 11, 12, 13}" using assms(1,2) by (simp, presburger)
  thus ?thesis using assms(3,4) by (auto simp: prob_index_def dist_special_def push_bit_eq_mult)
qed

lemma lzma_match_mid:
  assumes m: "mid r0 n 0 s" "n \<le> 2" and ps: "pos_state < 16"
  shows "returns (lzma_match pos_state s) (\<lambda>s'. \<exists>n' d'. within n' d' \<and> match_post r0 n' d' s s')"
proof -
  define s1 where "s1 = map_lzma (\<lambda>z. z\<lparr>lzma_state := lzma_state_match (lzma_state z),
                             rep3 := rep2 z, rep2 := rep1 z, rep1 := rep0 z\<rparr>) s"
  have "mid r0 n 0 s1" using m by (simp add: s1_def)
  from lzma_len_mid [OF this _ len_decs_ok(1) ps] m(2)
  obtain s2 where s2: "lzma_len match_len_dec pos_state s1 = Some s2" "mid r0 (n + 10) 0 s2" "framed s1 s2"
      "lzma_state (lzma s2) = lzma_state (lzma s1)" "2 \<le> unat (len (lzma s2))"
    by (auto simp: within_def elim!: returnsE)
  define i where "i = unat (lzma_get_dist_state (len (lzma s2)))"
  have i: "i < 4" using dist_state_less [OF s2(5)] by (simp add: i_def)
  have "ptr_ok (432 + i * 64, 64, 0)" using i by (simp add: ptr_ok_def PROBS_TOTAL_def)
  from rc_bittree_mid [OF s2(2) _ this, of 6] m(2)
  obtain v s3 where s3: "rc_bittree (432 + i * 64, 64, 0) 64 s2 = Some (v, s3)" "64 \<le> v" "v < 128"
      "mid r0 (n + 10 + 6) 0 s3" "coded s2 s3"
    by (simp add: within_def) (blast elim!: returnsE)
  define slot where "slot = v - 64"
  have st: "lzma_state (lzma s3) \<in> {7, 10}" "1 \<le> unat (len (lzma s3))" "framed s s3"
    using s2 codedD [OF s3(5)] framed_coded [OF s3(5)] framed_trans [of s s1] framed_trans [of s s2]
    by (auto simp: s1_def lzma_state_match_def framed_def)
  have row: "dist_slot_row i = Some (432 + i * 64, 64, 0)" using i by (simp add: dist_slot_row_def prob_row_def)
  have fin: "\<exists>n' d'. within n' d' \<and> match_post r0 n' d' s (map_lzma (\<lambda>z. z\<lparr>rep0 := w\<rparr>) t)"
    if "mid r0 n' d' t" "within n' d'" "coded s3 t" for n' d' t w
    using that st codedD [OF that(3)] framed_trans [OF st(3) framed_coded [OF that(3)]]
    by (intro exI [of _ n'] exI [of _ d']) (auto simp: match_post_def framed_def)
  note unfold = lzma_match_def s1_def [symmetric] s2(1) i_def [symmetric] row s3(1) slot_def [symmetric]
  consider "slot < 4" | "4 \<le> slot" "slot < 14" | "14 \<le> slot" "slot < 64" using s3 by (force simp: slot_def)
  thus ?thesis
  proof cases
    case 1
    thus ?thesis using fin [OF s3(4)] m(2) by (simp add: unfold within_def)
  next
    case 2
    define lim where "lim = slot div 2 - 1"
    define p where "p = dist_special (int (unat (push_bit lim (2 + of_nat (slot mod 2)) :: u32)) - int slot - 1)"
    have lim: "0 < lim" "lim \<le> 5" using 2 by (auto simp: lim_def)
    have w: "within (n + 10 + 6 + lim) 0" using lim m(2) by (simp add: within_def)
    have p: "ptr_ok p" by (simp add: p_def ptr_ok_def dist_special_def PROBS_TOTAL_def)
    have "\<forall>sy. 1 \<le> sy \<and> sy < 2 ^ lim \<longrightarrow> prob_index p sy \<noteq> None"
      using special_index [OF 2] by (simp add: p_def lim_def)
    from rc_bittree_reverse_mid [OF s3(4) w p lim(1) this]
    have "returns (rc_bittree_reverse p (push_bit lim (2 + of_nat (slot mod 2))) lim s3)
        (\<lambda>(w, t). \<exists>n' d'. within n' d' \<and> match_post r0 n' d' s (map_lzma (\<lambda>z. z\<lparr>rep0 := w\<rparr>) t))"
      by (rule returns_mono) (use fin w in auto)
    thus ?thesis using 2 by (simp add: unfold Let_def lim_def p_def case_prod_beta')
  next
    case 3
    define k :: u32 where "k = of_nat (slot div 2 - 1) - 4"
    have k: "unat k = slot div 2 - 5" using 3 by (simp add: k_def unat_sub_if' unat_of_nat)
    have w: "within (n + 10 + 6) (0 + unat k)" "within (n + 10 + 6 + 4) (0 + unat k)" using 3 m(2) k by (auto simp: within_def)
    have "0 < k" using 3 k by (simp add: word_less_nat_alt)
    from rc_direct_mid [OF s3(4) w(1) this]
    obtain rep t where t: "rc_direct (2 + of_nat (slot mod 2)) k s3 = Some (rep, t)" "mid r0 (n + 10 + 6) (0 + unat k) t" "coded s3 t"
      by (blast elim!: returnsE)
    have p: "ptr_ok dist_align" "\<forall>sy. 1 \<le> sy \<and> sy < 2 ^ 4 \<longrightarrow> prob_index dist_align sy \<noteq> None"
      by (auto simp: dist_align_def ptr_ok_def prob_index_def PROBS_TOTAL_def)
    from rc_bittree_reverse_mid [OF t(2) w(2) p(1) _ p(2)]
    have "returns (rc_bittree_reverse dist_align (push_bit 4 rep) 4 t)
        (\<lambda>(w, t). \<exists>n' d'. within n' d' \<and> match_post r0 n' d' s (map_lzma (\<lambda>z. z\<lparr>rep0 := w\<rparr>) t))"
      by (rule returns_mono) (use fin w(2) coded_trans [OF t(3)] in auto)
    thus ?thesis using 3 t(1) by (simp add: unfold Let_def k_def case_prod_beta')
  qed
qed

lemma lzma_long_rep_mid:
  assumes "mid r0 n 0 s" "n \<le> 6" "pos_state < 16"
  shows "returns (lzma_long_rep pos_state s) (match_post r0 16 0 s)"
proof -
  define s1 where "s1 = map_lzma (\<lambda>z. z\<lparr>lzma_state := lzma_state_long_rep (lzma_state z)\<rparr>) s"
  have "mid r0 n 0 s1" using assms by (simp add: s1_def)
  from lzma_len_mid [OF this _ len_decs_ok(2) assms(3)] assms(2)
  have "returns (lzma_len rep_len_dec pos_state s1) (\<lambda>s'. mid r0 (n + 10) 0 s' \<and> framed s1 s' \<and>
    lzma_state (lzma s') = lzma_state (lzma s1) \<and> 2 \<le> unat (len (lzma s')))"
    by (auto simp: within_def elim: returns_mono)
  thus ?thesis unfolding lzma_long_rep_def s1_def [symmetric]
    by (rule returns_mono) (use assms(2) mid_mono in \<open>auto simp: match_post_def framed_def s1_def lzma_state_long_rep_def\<close>)
qed

lemma match_post_framed: "match_post r0 n d t s' \<Longrightarrow> framed s t \<Longrightarrow> match_post r0 n d s s'"
  by (auto simp: match_post_def framed_def)

lemma lzma_rep_match_mid:
  assumes m: "mid r0 2 0 s" and ps: "pos_state < 16" and st: "lzma_state (lzma s) < 12"
  shows "returns (lzma_rep_match pos_state s) (match_post r0 16 0 s)"
proof -
  let ?st = "lzma_state (lzma s)"
  have ix: "ptr_ok is_rep0" "prob_index is_rep0 ?st \<noteq> None" "ptr_ok is_rep1" "prob_index is_rep1 ?st \<noteq> None"
      "ptr_ok is_rep2" "prob_index is_rep2 ?st \<noteq> None"
    using st by (auto simp: is_rep0_def is_rep1_def is_rep2_def ptr_ok_def prob_index_def PROBS_TOTAL_def)
  define p where "p = (240 + ?st * 16, 16::nat, 0::int)"
  have p: "is_rep0_long_row ?st = Some p" "ptr_ok p" "prob_index p pos_state \<noteq> None"
    using st ps by (auto simp: p_def is_rep0_long_row_def prob_row_def ptr_ok_def prob_index_def PROBS_TOTAL_def)
  have rep: "returns (lzma_long_rep pos_state (t\<lparr>lzma := z\<rparr>)) (match_post r0 16 0 s)"
    if "mid r0 n 0 t" "n \<le> 6" "framed s t" "probs z = probs (lzma t)" "lc z = lc (lzma t)"
      "literal_pos_mask z = literal_pos_mask (lzma t)" "pos_mask z = pos_mask (lzma t)" for n t z
    by (rule returns_mono [OF lzma_long_rep_mid [of r0 n]])
       (use that ps match_post_framed [of r0 16 0] in \<open>auto simp: framed_def\<close>)
  obtain b0 t where t: "rc_bit is_rep0 ?st s = Some (b0, t)" "mid r0 (2 + 1) 0 t" "coded s t"
    by (rule rc_bit_ex [OF m _ ix(1,2)]) (auto simp: within_def)
  note ft = framed_coded [OF t(3)]
  show ?thesis
  proof (cases b0)
    case False
    obtain bl u where u: "rc_bit p pos_state t = Some (bl, u)" "mid r0 (2 + 1 + 1) 0 u" "coded t u"
      by (rule rc_bit_ex [OF t(2) _ p(2,3)]) (auto simp: within_def)
    have fu: "framed s u" using framed_trans [OF ft framed_coded [OF u(3)]] .
    have "match_post r0 16 0 s (map_lzma (\<lambda>z. z\<lparr>lzma_state := lzma_state_short_rep (lzma_state z), len := 1\<rparr>) u)"
      using fu mid_mono [OF u(2), of 16 0] by (auto simp: match_post_def framed_def lzma_state_short_rep_def)
    thus ?thesis using rep [OF u(2) _ fu, of "lzma u"] t(1) u(1) p(1) False by (simp add: lzma_rep_match_def)
  next
    case b0: True
    obtain b1 u where u: "rc_bit is_rep1 ?st t = Some (b1, u)" "mid r0 (2 + 1 + 1) 0 u" "coded t u"
      by (rule rc_bit_ex [OF t(2) _ ix(3,4)]) (auto simp: within_def)
    have fu: "framed s u" using framed_trans [OF ft framed_coded [OF u(3)]] .
    obtain b2 w where w: "rc_bit is_rep2 ?st u = Some (b2, w)" "mid r0 (2 + 1 + 1 + 1) 0 w" "coded u w"
      by (rule rc_bit_ex [OF u(2) _ ix(5,6)]) (auto simp: within_def)
    have fw: "framed s w" using framed_trans [OF fu framed_coded [OF w(3)]] .
    show ?thesis using b0 t(1) u(1) w(1) rep [OF u(2) _ fu] rep [OF w(2) _ fw] by (simp add: lzma_rep_match_def)
  qed
qed

end
