(* ===== verification/Xz_Main.thy ===== *)
theory Xz_Main
  imports Xz_Symbol
begin

text \<open>
  Literals, whole symbols and the main loop of the LZMA decoder: every symbol returns and either refuses a
  distance that is not in the dictionary or adds to the dictionary.
\<close>

section \<open>Literals\<close>

definition props_ok :: "lzma_dec \<Rightarrow> bool" where
  "props_ok z \<longleftrightarrow> (\<exists>lp. literal_pos_mask z = mask lp \<and> unat (lc z) + lp \<le> 4) \<and> unat (pos_mask z) \<le> 15"

lemma and_le_right: "unat (v AND w) \<le> unat w" for v w :: u32
  by (metis and.commute word_and_le1 word_le_nat_alt)

lemma pos_state_less: "props_ok z \<Longrightarrow> unat (v AND pos_mask z) < 16"
  using and_le_right [of v "pos_mask z"] by (simp add: props_ok_def)

lemma unat_drop_bit: "unat (drop_bit n w) = unat w div 2 ^ n" for w :: u32
proof -
  have "take_bit 32 (unat w) = unat w"
    by (rule take_bit_nat_eq_self) (use unsigned_less [of w, where ?'a = nat] in simp)
  thus ?thesis by (subst unsigned_drop_bit_eq) (simp add: drop_bit_eq_div)
qed

lemma unat_push_bit: "unat (push_bit n w) = unat w * 2 ^ n mod 4294967296" for w :: u32
  by (subst unsigned_push_bit_eq) (simp add: push_bit_eq_mult take_bit_eq_mod)

lemma literal_coder_less:
  fixes prev x c :: u32
  assumes "unat prev < 256" "unat c + lp \<le> 4"
  shows "unat (drop_bit (unat (8 - c)) prev + push_bit (unat c) (x AND mask lp)) < 16"
proof -
  define k where "k = unat c"
  have k: "k \<le> 4" "k + lp \<le> 4" using assms(2) by (auto simp: k_def)
  have "unat (8 - c) = 8 - k" using k(1) by (simp add: k_def unat_sub_if')
  moreover have "unat prev div 2 ^ (8 - k) < 2 ^ k"
  proof -
    have "(2::nat) ^ (8 - k) * 2 ^ k = 256" using k(1) by (simp flip: power_add)
    thus ?thesis using assms(1) by (simp add: div_less_iff_less_mult mult.commute)
  qed
  ultimately have low: "unat (drop_bit (unat (8 - c)) prev) < 2 ^ k" by (simp add: unat_drop_bit)
  define y where "y = x AND mask lp"
  have "unat y < 2 ^ lp"
    unfolding y_def by (simp add: unsigned_take_bit_eq flip: take_bit_eq_mask)
  hence "unat y * 2 ^ k + 2 ^ k \<le> 2 ^ lp * 2 ^ k"
    by (metis add_mult_distrib Suc_eq_plus1 Suc_leI mult_le_mono1 mult_1)
  also have "(2::nat) ^ lp * 2 ^ k = 2 ^ (lp + k)" by (simp add: power_add)
  also have "\<dots> \<le> 2 ^ 4" using k(2) by (intro power_increasing) auto
  finally have "unat y * 2 ^ k + 2 ^ k \<le> 16" by simp
  thus ?thesis using low unfolding y_def [symmetric] by (simp add: k_def unat_word_ariths unat_push_bit)
qed

lemma literal_probs_safe:
  assumes "dict_ok (dict s)" "props_ok (lzma s)"
  shows "returns (lzma_literal_probs s) (\<lambda>p. \<exists>base. p = (base, 0x300, 0) \<and> ptr_ok p)"
proof -
  obtain lp where lp: "literal_pos_mask (lzma s) = mask lp" "unat (lc (lzma s)) + lp \<le> 4"
    using assms(2) by (auto simp: props_ok_def)
  obtain prev where prev: "dict_get (dict s) 0 = Some prev" "unat prev < 256"
    using dict_get_safe [OF assms(1), of 0] by (auto elim!: returnsE)
  note less = literal_coder_less [OF prev(2) lp(2), of "of_nat (dict_pos (dict s))"]
  show ?thesis using less prev(1) lp(1)
    by (auto simp: lzma_literal_probs_def literal_row_def prob_row_def Let_def ptr_ok_def PROBS_TOTAL_def)
qed

lemma and_pow: "v AND 2 ^ k = (if bit v k then 2 ^ k else 0)" for v :: u32
  by (rule bit_word_eqI) (auto simp: bit_simps)

lemma and_256: "v AND 0x100 \<in> {0, 0x100}" for v :: u32
  using and_pow [of v 8] by (simp split: if_splits)

lemma matched_loop_mid:
  assumes "mid r0 n d s" "within (n + k) d" "ptr_ok (base, 0x300, 0)" "off \<in> {0, 0x100}"
    "2 ^ j \<le> sy" "sy < 2 ^ (j + 1)" "j + k = 8" "0 < k"
  shows "returns (matched_loop (base, 0x300, 0) sy mb off s) (\<lambda>(v, s'). mid r0 (n + k) d s' \<and> coded s s')"
  using assms
proof (induction k arbitrary: n j sy mb off s)
  case (Suc k)
  define mbit where "mbit = mb AND off"
  have mb: "mbit \<in> {0, off}" using Suc.prems(4) and_256 [of mb] by (auto simp: mbit_def)
  have "sy < 256"
  proof -
    have "(2::nat) ^ (j + 1) \<le> 2 ^ 8" using Suc.prems(7) by (intro power_increasing) auto
    thus ?thesis using Suc.prems(6) by simp
  qed
  hence ix: "prob_index (base, 0x300, 0) (unat (off + mbit) + sy) \<noteq> None"
    using Suc.prems(4) mb by (auto simp: prob_index_def)
  have "within (n + 1) d" using within_mono [OF Suc.prems(2)] by simp
  from rc_bit_ex [OF Suc.prems(1) this Suc.prems(3) ix]
  obtain v t where t: "rc_bit (base, 0x300, 0) (unat (off + mbit) + sy) s = Some (v, t)" "mid r0 (n + 1) d t" "coded s t" .
  define sy' where "sy' = (if v then 2 * sy + 1 else 2 * sy)"
  define off' where "off' = (if v then off AND mbit else off AND NOT mbit)"
  have off': "off' \<in> {0, 0x100}" using Suc.prems(4) mb by (auto simp: off'_def)
  have b: "2 ^ (j + 1) \<le> sy'" "sy' < 2 ^ (j + 1 + 1)" using Suc.prems(5,6) by (auto simp: sy'_def)
  note unfold = matched_loop.simps [of _ sy] mbit_def [symmetric] t(1) sy'_def [symmetric] off'_def [symmetric]
  show ?case
  proof (cases "k = 0")
    case True
    hence "(256::nat) = 2 ^ (j + 1)" using Suc.prems(7) by (simp flip: power_Suc)
    hence "\<not> sy' < 256" using b(1) by simp
    thus ?thesis using t True by (simp add: unfold)
  next
    case False
    have "(2::nat) ^ (j + 1 + 1) \<le> 2 ^ 8" using False Suc.prems(7) by (intro power_increasing) auto
    hence "sy' < 256" using b(2) by simp
    moreover have "returns (matched_loop (base, 0x300, 0) sy' (push_bit 1 mb) off' t) (\<lambda>(v, s'). mid r0 (n + 1 + k) d s' \<and> coded t s')"
      by (rule Suc.IH [of "n + 1" t off' "j + 1"]) (use t off' b Suc.prems False in auto)
    ultimately show ?thesis using coded_trans [OF t(3)]
      by (simp add: unfold) (auto elim!: returns_mono)
  qed
qed simp

section \<open>Symbols\<close>

text \<open>The decoder between two symbols: a match left its distance in \<open>rep0\<close>.\<close>

definition lz_ok :: "xz_dec_lzma2 \<Rightarrow> bool" where
  "lz_ok s \<longleftrightarrow> dict_ok (dict s) \<and> props_ok (lzma s) \<and> prob_ok (probs (lzma s)) \<and> lzma_state (lzma s) < 12 \<and>
     (7 \<le> lzma_state (lzma s) \<longrightarrow> unat (rep0 (lzma s)) < dict_full (dict s) \<and> rep0 (lzma s) < dict_size (dict s))"

text \<open>What a symbol leaves alone.\<close>

definition kept :: "xz_dec_lzma2 \<Rightarrow> xz_dec_lzma2 \<Rightarrow> bool" where
  "kept s s' \<longleftrightarrow> lzma2 s' = lzma2 s \<and> temp_size s' = temp_size s \<and> temp_buf s' = temp_buf s \<and>
     rc_in (rc s') = rc_in (rc s) \<and> rc_in_limit (rc s') = rc_in_limit (rc s) \<and> grown (dict s) (dict s')"

lemma kept_refl [simp]: "kept s s"
  by (simp add: kept_def)

lemma kept_trans: "kept s t \<Longrightarrow> kept t u \<Longrightarrow> kept s u"
  by (auto simp: kept_def intro: grown_trans)

lemma props_framed: "framed s s' \<Longrightarrow> props_ok (lzma s') \<longleftrightarrow> props_ok (lzma s)"
  by (simp add: framed_def props_ok_def)

lemma literal_state_less: "st < 12 \<Longrightarrow> lzma_state_literal st < 7"
  by (auto simp: lzma_state_literal_def)

lemma lzma_literal_safe:
  assumes s: "lz_ok s" "mid r0 1 0 s" and sp: "dict_pos (dict s) < dict_end (dict s)"
  shows "returns (lzma_literal s) (\<lambda>s'. mid r0 9 0 s' \<and> lz_ok s' \<and> lzma2 s' = lzma2 s \<and> temp_size s' = temp_size s \<and>
    temp_buf s' = temp_buf s \<and> grown (dict s) (dict s') \<and> dict_pos (dict s') = dict_pos (dict s) + 1)"
proof -
  have ok: "dict_ok (dict s)" "props_ok (lzma s)" "lzma_state (lzma s) < 12" using s(1) by (auto simp: lz_ok_def)
  obtain base where p: "lzma_literal_probs s = Some (base, 0x300, 0)" "ptr_ok (base, 0x300, 0)"
    using literal_probs_safe [OF ok(1,2)] by (auto elim!: returnsE)
  have w: "within (1 + 8) 0" by (simp add: within_def)
  have "returns (literal_symbol (base, 0x300, 0) s) (\<lambda>(v, s'). mid r0 (1 + 8) 0 s' \<and> coded s s')"
  proof (cases "lzma_state (lzma s) < 7")
    case True
    thus ?thesis using rc_bittree_mid [OF s(2) w p(2)]
      by (auto simp: literal_symbol_def lzma_state_is_literal_def elim!: returns_mono)
  next
    case False
    obtain mb where "dict_get (dict s) (rep0 (lzma s)) = Some mb"
      using dict_get_safe [OF ok(1), of "rep0 (lzma s)"] False s(1) by (auto simp: lz_ok_def elim!: returnsE)
    thus ?thesis using False matched_loop_mid [OF s(2) w p(2), of "0x100" 0 1]
      by (simp add: literal_symbol_def lzma_state_is_literal_def)
  qed
  then obtain v t where t: "literal_symbol (base, 0x300, 0) s = Some (v, t)" "mid r0 9 0 t" "coded s t"
    by (auto elim!: returnsE)
  note c = codedD [OF t(3)]
  obtain d where d: "dict_put (dict s) (of_nat v) = Some d" "dict_ok d" "grown (dict s) d" "dict_pos d = dict_pos (dict s) + 1"
    using dict_put_safe [OF ok(1) sp, of "of_nat v"] by (auto elim!: returnsE)
  have "prob_ok (probs (lzma t))" using t(2) by (simp add: mid_def)
  thus ?thesis using t(1,2) d c ok(2) literal_state_less [OF ok(3)] p(1)
    by (auto simp: lzma_literal_def lz_ok_def mid_def props_ok_def)
qed

lemma burn_frame: "burn r0 n d r \<Longrightarrow> rc_in r = rc_in r0 \<and> rc_in_limit r = rc_in_limit r0"
  by (simp add: burn_def)

lemma lzma_symbol_safe:
  assumes s: "lz_ok s" and sp: "dict_pos (dict s) < dict_lim (dict s)" "dict_lim (dict s) \<le> dict_end (dict s)"
    and r: "room (rc s)" "253952 \<le> rng (rc s)"
  shows "returns (lzma_symbol s) (\<lambda>(ok, s'). (\<exists>n d. within n d \<and> burn (rc s) n d (rc s')) \<and> kept s s' \<and>
    (ok \<longrightarrow> lz_ok s' \<and> dict_pos (dict s) < dict_pos (dict s') \<and> dict_pos (dict s') \<le> dict_lim (dict s)))"
proof -
  let ?st = "lzma_state (lzma s)"
  define ps where "ps = unat (of_nat (dict_pos (dict s)) AND pos_mask (lzma s))"
  have ok: "dict_ok (dict s)" "props_ok (lzma s)" "?st < 12" "prob_ok (probs (lzma s))" using s by (auto simp: lz_ok_def)
  have ps: "ps < 16" using pos_state_less [OF ok(2)] by (simp add: ps_def)
  have m0: "mid (rc s) 0 0 s" using burn_refl [OF r(2)] r(1) ok(4) by (simp add: mid_def)
  define p where "p = (0 + ?st * 16, 16::nat, 0::int)"
  have p: "is_match_row ?st = Some p" "ptr_ok p" "prob_index p ps \<noteq> None"
    using ok(3) ps by (auto simp: p_def is_match_row_def prob_row_def ptr_ok_def prob_index_def PROBS_TOTAL_def)
  obtain matched t where t: "rc_bit p ps s = Some (matched, t)" "mid (rc s) (0 + 1) 0 t" "coded s t"
    by (rule rc_bit_ex [OF m0 _ p(2,3)]) (auto simp: within_def)
  note ct = codedD [OF t(3)]
  have lt: "lz_ok t" using s t(2) ct t(3) by (auto simp: lz_ok_def mid_def props_ok_def)
  have w9: "within 9 0" by (simp add: within_def)
  show ?thesis
  proof (cases matched)
    case False
    from lzma_literal_safe [OF lt, of "rc s"] t(2) ct(1) sp
    have "returns (lzma_literal t) (\<lambda>s'. (\<exists>n d. within n d \<and> burn (rc s) n d (rc s')) \<and> kept s s' \<and>
      lz_ok s' \<and> dict_pos (dict s) < dict_pos (dict s') \<and> dict_pos (dict s') \<le> dict_lim (dict s))"
      using burn_frame w9 by (auto elim!: returns_mono simp: kept_def ct mid_def)
    thus ?thesis using False t(1) p(1) by (simp add: lzma_symbol_def ps_def [symmetric])
  next
    case True
    have ix: "ptr_ok is_rep" "prob_index is_rep (lzma_state (lzma t)) \<noteq> None"
      using ok(3) ct by (auto simp: is_rep_def ptr_ok_def prob_index_def PROBS_TOTAL_def)
    obtain rep u where u: "rc_bit is_rep (lzma_state (lzma t)) t = Some (rep, u)" "mid (rc s) 2 0 u" "coded t u"
      by (rule rc_bit_ex [OF t(2) _ ix]) (auto simp: within_def numeral_2_eq_2)
    note cu = codedD [OF u(3)]
    have "returns (if rep then lzma_rep_match ps u else lzma_match ps u) (\<lambda>s'. \<exists>n d. within n d \<and> match_post (rc s) n d u s')"
    proof (cases rep)
      case True
      have "within 16 0" by (simp add: within_def)
      with True lzma_rep_match_mid [of "rc s" u ps] u(2) ps ok(3) ct cu show ?thesis by (auto elim!: returns_mono)
    next
      case False
      with lzma_match_mid [of "rc s" 2 u ps] u(2) ps show ?thesis by simp
    qed
    then obtain n d w where w: "(if rep then lzma_rep_match ps u else lzma_match ps u) = Some w" "within n d" "match_post (rc s) n d u w"
      by (rule returnsE) blast
    have fw: "dict w = dict s" "lzma2 w = lzma2 s" "temp_size w = temp_size s" "temp_buf w = temp_buf s" "props_ok (lzma w)"
        "prob_ok (probs (lzma w))" "7 \<le> lzma_state (lzma w)" "lzma_state (lzma w) < 12" "1 \<le> unat (len (lzma w))" "burn (rc s) n d (rc w)"
      using w(3) ct cu ok(2) by (auto simp: match_post_def framed_def mid_def props_ok_def)
    obtain ok' n' d' where d': "dict_repeat (dict s) (len (lzma w)) (rep0 (lzma w)) = Some (ok', n', d')"
        "if ok' then dict_ok d' \<and> grown (dict s) d' \<and> dict_pos (dict s) < dict_pos d' \<and> dict_pos d' \<le> dict_lim (dict s) \<and>
           unat (rep0 (lzma w)) < dict_full d' \<and> rep0 (lzma w) < dict_size d' else d' = dict s"
      using dict_repeat_safe [OF ok(1) sp fw(9), of "rep0 (lzma w)"] by (auto elim!: returnsE)
    have "lzma_repeat w = Some (ok', map_lzma (\<lambda>z. z\<lparr>len := n'\<rparr>) (w\<lparr>dict := d'\<rparr>)) \<and>
        kept s (map_lzma (\<lambda>z. z\<lparr>len := n'\<rparr>) (w\<lparr>dict := d'\<rparr>)) \<and>
        (ok' \<longrightarrow> lz_ok (map_lzma (\<lambda>z. z\<lparr>len := n'\<rparr>) (w\<lparr>dict := d'\<rparr>)))"
      using d' fw burn_frame [OF fw(10)] by (auto simp: lzma_repeat_def kept_def lz_ok_def props_ok_def split: if_splits)
    thus ?thesis using True t(1) p(1) u(1) w(1,2) fw(10) d'(2) by (auto simp: lzma_symbol_def ps_def [symmetric])
  qed
qed

section \<open>The main loop\<close>

text \<open>A range that is not normalised has a byte to read.\<close>

definition readable :: "rc_dec \<Rightarrow> bool" where
  "readable r \<longleftrightarrow> 253952 \<le> rng r \<and> rc_in_pos r \<le> length (rc_in r) \<and>
     (rng r < 16777216 \<longrightarrow> rc_in_pos r < length (rc_in r))"

lemma burn_readable:
  assumes "burn r0 n d r" "within n d" "room r0"
  shows "readable r" "rc_in_pos r0 \<le> rc_in_pos r"
proof -
  show "rc_in_pos r0 \<le> rc_in_pos r" using assms(1) by (simp add: burn_def)
  have "rc_in_pos r \<le> length (rc_in r)"
    using burn_budget [OF assms(1,2)] assms(1,3) by (simp add: burn_def room_def)
  moreover have "rc_in_pos r < length (rc_in r)" if "rng r < 16777216"
    using rc_normalize_burn [OF assms(1,3,2)] that
    by (auto simp: rc_normalize_def RC_TOP_VALUE_def word_less_nat_alt split: if_splits)
  ultimately show "readable r" using assms(1) by (simp add: readable_def burn_def)
qed

lemma rc_normalize_readable:
  assumes "readable r"
  shows "returns (rc_normalize r) (\<lambda>r'. 16777216 \<le> rng r' \<and> rc_in r' = rc_in r \<and> rc_in_limit r' = rc_in_limit r \<and>
    rc_in_pos r \<le> rc_in_pos r' \<and> rc_in_pos r' \<le> length (rc_in r))"
  using assms unat_push8 [of "rc_range r"]
  by (auto simp: rc_normalize_def readable_def RC_TOP_VALUE_def word_less_nat_alt)

text \<open>The decoder inside the main loop, with its write limit and its input.\<close>

definition loop_ok :: "xz_dec_lzma2 \<Rightarrow> bool" where
  "loop_ok s \<longleftrightarrow> lz_ok s \<and> dict_pos (dict s) \<le> dict_lim (dict s) \<and> dict_lim (dict s) \<le> dict_end (dict s) \<and>
     rc_in_limit (rc s) + 21 \<le> length (rc_in (rc s)) \<and> readable (rc s)"

lemma kept_simps:
  assumes "kept s s'"
  shows "dict_lim (dict s') = dict_lim (dict s)" "dict_end (dict s') = dict_end (dict s)"
    "rc_in (rc s') = rc_in (rc s)" "rc_in_limit (rc s') = rc_in_limit (rc s)" "dict_pos (dict s) \<le> dict_pos (dict s')"
  using assms by (auto simp: kept_def grown_def same_dict_def)

lemma lzma_loop_safe:
  assumes "loop_ok s"
  shows "returns (lzma_loop s) (\<lambda>(ok, s'). kept s s' \<and> rc_in_pos (rc s) \<le> rc_in_pos (rc s') \<and>
    (ok \<longrightarrow> loop_ok s' \<and>
      (dict_has_space (dict s) \<and> \<not> rc_limit_exceeded (rc s) \<longrightarrow> dict_pos (dict s) < dict_pos (dict s'))))"
  using assms
proof (induction "dict_lim (dict s) - dict_pos (dict s)" arbitrary: s rule: less_induct)
  case less
  note s = less.prems [unfolded loop_ok_def]
  show ?case
  proof (cases "dict_has_space (dict s) \<and> \<not> rc_limit_exceeded (rc s)")
    case False
    thus ?thesis using less.prems by (subst lzma_loop.simps) auto
  next
    case True
    hence sp: "dict_pos (dict s) < dict_lim (dict s)" and rm: "room (rc s)"
      using s by (auto simp: dict_has_space_def rc_limit_exceeded_def room_def)
    have "253952 \<le> rng (rc s)" using s by (simp add: readable_def)
    from lzma_symbol_safe [OF _ sp _ rm this] s
    obtain ok t n d where t: "lzma_symbol s = Some (ok, t)" "within n d" "burn (rc s) n d (rc t)" "kept s t"
      "ok \<longrightarrow> lz_ok t \<and> dict_pos (dict s) < dict_pos (dict t) \<and> dict_pos (dict t) \<le> dict_lim (dict s)"
      by (auto elim!: returnsE)
    note rd = burn_readable [OF t(3,2) rm]
    show ?thesis
    proof (cases ok)
      case False
      thus ?thesis using True t rd by (subst lzma_loop.simps) auto
    next
      case ok: True
      have lt: "loop_ok t" using ok t(5) s rd kept_simps [OF t(4)] by (auto simp: loop_ok_def)
      have "dict_lim (dict t) - dict_pos (dict t) < dict_lim (dict s) - dict_pos (dict s)"
        using ok t(5) sp kept_simps [OF t(4)] by auto
      from less.hyps [OF this lt]
      have "returns (lzma_loop t) (\<lambda>(ok, s'). kept s s' \<and> rc_in_pos (rc s) \<le> rc_in_pos (rc s') \<and>
        (ok \<longrightarrow> loop_ok s' \<and> dict_pos (dict s) < dict_pos (dict s')))"
        using kept_trans [OF t(4)] rd ok t(5) kept_simps(5) by (fastforce elim!: returns_mono)
      thus ?thesis using True ok t(1) by (subst lzma_loop.simps) (auto elim!: returns_mono)
    qed
  qed
qed

lemma lzma_repeat_safe:
  assumes s: "loop_ok s" and sp: "dict_has_space (dict s)" "len (lzma s) > 0"
  shows "returns (lzma_repeat s) (\<lambda>(ok, s'). kept s s' \<and> loop_ok s' \<and> rc s' = rc s \<and>
    (ok \<longrightarrow> dict_pos (dict s) < dict_pos (dict s')) \<and> (\<not> ok \<longrightarrow> dict s' = dict s))"
proof -
  note ok = s [unfolded loop_ok_def lz_ok_def]
  have "1 \<le> unat (len (lzma s))" using sp(2) by (simp add: word_less_nat_alt)
  from dict_repeat_safe [OF _ _ _ this, of "dict s" "rep0 (lzma s)"] ok sp(1)
  obtain ok' n' d' where d': "dict_repeat (dict s) (len (lzma s)) (rep0 (lzma s)) = Some (ok', n', d')"
        "if ok' then dict_ok d' \<and> grown (dict s) d' \<and> dict_pos (dict s) < dict_pos d' \<and> dict_pos d' \<le> dict_lim (dict s) \<and>
           unat (rep0 (lzma s)) < dict_full d' \<and> rep0 (lzma s) < dict_size d' else d' = dict s"
    by (auto simp: dict_has_space_def elim!: returnsE)
  define s' where "s' = map_lzma (\<lambda>z. z\<lparr>len := n'\<rparr>) (s\<lparr>dict := d'\<rparr>)"
  have "lzma_repeat s = Some (ok', s')" using d'(1) by (simp add: lzma_repeat_def s'_def)
  moreover have "kept s s'" using d'(2) by (auto simp: kept_def s'_def split: if_splits)
  moreover have "loop_ok s'" using d'(2) ok
    by (auto simp: loop_ok_def lz_ok_def s'_def props_ok_def grown_def same_dict_def split: if_splits)
  ultimately show ?thesis using d'(2) by (auto simp: s'_def split: if_splits)
qed

lemma lzma_main_safe:
  assumes s: "loop_ok s"
  shows "returns (lzma_main s) (\<lambda>(ok, s'). kept s s' \<and> rc_in_pos (rc s) \<le> rc_in_pos (rc s') \<and>
    (ok \<longrightarrow> loop_ok s' \<and> 16777216 \<le> rng (rc s') \<and>
      (dict_has_space (dict s) \<and> \<not> rc_limit_exceeded (rc s) \<longrightarrow> dict_pos (dict s) < dict_pos (dict s'))))"
proof -
  have "returns (if dict_has_space (dict s) \<and> len (lzma s) > 0 then map_option snd (lzma_repeat s) else Some s)
    (\<lambda>t. kept s t \<and> loop_ok t \<and> rc t = rc s \<and> (dict_pos (dict s) < dict_pos (dict t) \<or> dict t = dict s))"
    using lzma_repeat_safe [OF s] s by (auto elim!: returns_mono)
  then obtain t where t: "(if dict_has_space (dict s) \<and> len (lzma s) > 0 then map_option snd (lzma_repeat s) else Some s) = Some t"
      "kept s t" "loop_ok t" "rc t = rc s" "dict_pos (dict s) < dict_pos (dict t) \<or> dict t = dict s"
    by (rule returnsE) blast
  obtain ok u where u: "lzma_loop t = Some (ok, u)" "kept t u" "rc_in_pos (rc t) \<le> rc_in_pos (rc u)"
      "ok \<longrightarrow> loop_ok u \<and> (dict_has_space (dict t) \<and> \<not> rc_limit_exceeded (rc t) \<longrightarrow> dict_pos (dict t) < dict_pos (dict u))"
    using lzma_loop_safe [OF t(3)] by (auto elim!: returnsE)
  have ku: "kept s u" using kept_trans [OF t(2) u(2)] .
  show ?thesis
  proof (cases ok)
    case False
    thus ?thesis using t u ku by (simp add: lzma_main_def)
  next
    case True
    hence lu: "loop_ok u" using u(4) by simp
    have "readable (rc u)" using lu by (simp add: loop_ok_def)
    from rc_normalize_readable [OF this]
    obtain r where r: "rc_normalize (rc u) = Some r" "16777216 \<le> rng r" "rc_in r = rc_in (rc u)" "rc_in_limit r = rc_in_limit (rc u)"
        "rc_in_pos (rc u) \<le> rc_in_pos r" "rc_in_pos r \<le> length (rc_in (rc u))"
      by (auto elim!: returnsE)
    define v where "v = u\<lparr>rc := r\<rparr>"
    have "kept s v" using ku r by (simp add: kept_def v_def)
    moreover have "loop_ok v" using lu r by (auto simp: loop_ok_def lz_ok_def readable_def v_def)
    moreover have "dict_pos (dict s) < dict_pos (dict v)" if "dict_has_space (dict s)" "\<not> rc_limit_exceeded (rc s)"
      using that u(4) True t(4,5) kept_simps(5) [OF u(2)] by (auto simp: v_def)
    ultimately have "lzma_main s = Some (True, v) \<and> kept s v \<and> loop_ok v \<and> rc_in_pos (rc s) \<le> rc_in_pos (rc v) \<and> 16777216 \<le> rng (rc v) \<and>
        (dict_has_space (dict s) \<and> \<not> rc_limit_exceeded (rc s) \<longrightarrow> dict_pos (dict s) < dict_pos (dict v))"
      using t(1,4) u(1,3) r True by (simp add: lzma_main_def v_def)
    thus ?thesis by simp
  qed
qed

end
