(* ===== verification/Xz_Lzma2.thy ===== *)
theory Xz_Lzma2
  imports Xz_Lzma
begin

text \<open>
  The LZMA2 layer of \<open>external/lzma/xz_dec_lzma2.c\<close>: the wrapper that gives the LZMA decoder its input from
  the caller's buffer or from the temporary buffer, the machine that reads the chunks, and the life cycle
  of a decoder.
\<close>

section \<open>Feeding the LZMA decoder\<close>

definition LZMA_IN_REQUIRED :: nat where "LZMA_IN_REQUIRED = 21"

abbreviation map_rc :: "(rc_dec \<Rightarrow> rc_dec) \<Rightarrow> xz_dec_lzma2 \<Rightarrow> xz_dec_lzma2" where
  "map_rc f s \<equiv> s\<lparr>rc := f (rc s)\<rparr>"

abbreviation map_lzma2 :: "(lzma2_dec \<Rightarrow> lzma2_dec) \<Rightarrow> xz_dec_lzma2 \<Rightarrow> xz_dec_lzma2" where
  "map_lzma2 f s \<equiv> s\<lparr>lzma2 := f (lzma2 s)\<rparr>"

text \<open>How many bytes of the input join the temporary buffer.\<close>

definition temp_take :: "xz_dec_lzma2 \<Rightarrow> xz_buf \<Rightarrow> u32" where
  "temp_take s b =
     (let compressed = l2_compressed (lzma2 s);
          tmp = 42 - temp_size s;
          tmp = (if tmp > compressed - temp_size s then compressed - temp_size s else tmp)
      in if unat tmp > in_size b - in_pos b then of_nat (in_size b - in_pos b) else tmp)"

text \<open>After \<open>used\<close> bytes of the temporary buffer were decoded.\<close>

definition temp_consume :: "nat \<Rightarrow> xz_dec_lzma2 \<Rightarrow> xz_buf \<Rightarrow> (bool option \<times> xz_dec_lzma2 \<times> xz_buf) option" where
  "temp_consume used s b =
     (let s = map_lzma2 (\<lambda>l. l\<lparr>l2_compressed := l2_compressed l - of_nat used\<rparr>) s
      in if used < unat (temp_size s)
         then do {
           rest \<leftarrow> slice (temp_buf s) used (unat (temp_size s) - used);
           buf \<leftarrow> blit (temp_buf s) 0 rest;
           Some (Some True, s\<lparr>temp_buf := buf, temp_size := temp_size s - of_nat used\<rparr>, b) }
         else Some (None, s\<lparr>temp_size := 0\<rparr>, b\<lparr>in_pos := in_pos b + (used - unat (temp_size s))\<rparr>))"

text \<open>Decoding from the temporary buffer.  A result \<open>Some r\<close> is a return of the whole wrapper.\<close>

definition lzma2_temp :: "xz_dec_lzma2 \<Rightarrow> xz_buf \<Rightarrow> (bool option \<times> xz_dec_lzma2 \<times> xz_buf) option" where
  "lzma2_temp s b = do {
     let tmp = temp_take s b;
     data \<leftarrow> slice (b_in b) (in_pos b) (unat tmp);
     buf \<leftarrow> blit (temp_buf s) (unat (temp_size s)) data;
     let filled = temp_size s + tmp;
     let last = (filled = l2_compressed (lzma2 s));
     (if \<not> last \<and> unat filled < LZMA_IN_REQUIRED
      then Some (Some True, s\<lparr>temp_buf := buf, temp_size := filled\<rparr>, b\<lparr>in_pos := in_pos b + unat tmp\<rparr>)
      else do {
        buf \<leftarrow> (if last then blit buf (unat filled) (replicate (63 - unat filled) 0) else Some buf);
        let limit = (if last then unat filled else unat filled - LZMA_IN_REQUIRED);
        (ok, s) \<leftarrow> lzma_main (map_rc (\<lambda>r. r\<lparr>rc_in := buf, rc_in_pos := 0, rc_in_limit := limit\<rparr>) (s\<lparr>temp_buf := buf\<rparr>));
        let used = rc_in_pos (rc s);
        (if \<not> ok \<or> used > unat filled then Some (Some False, s, b)
         else temp_consume used s b) }) }"

text \<open>Decoding from the caller's buffer while it has enough bytes.\<close>

definition lzma2_direct :: "xz_dec_lzma2 \<Rightarrow> xz_buf \<Rightarrow> (bool \<times> xz_dec_lzma2 \<times> xz_buf) option" where
  "lzma2_direct s b =
     (let in_avail = in_size b - in_pos b; compressed = l2_compressed (lzma2 s)
      in if in_avail \<ge> LZMA_IN_REQUIRED
         then do {
           let limit = (if in_avail \<ge> unat compressed + LZMA_IN_REQUIRED then in_pos b + unat compressed
                        else in_size b - LZMA_IN_REQUIRED);
           (ok, s) \<leftarrow> lzma_main (map_rc (\<lambda>r. r\<lparr>rc_in := b_in b, rc_in_pos := in_pos b, rc_in_limit := limit\<rparr>) s);
           let used = rc_in_pos (rc s) - in_pos b;
           (if \<not> ok \<or> used > unat compressed then Some (False, s, b)
            else Some (True, map_lzma2 (\<lambda>l. l\<lparr>l2_compressed := l2_compressed l - of_nat used\<rparr>) s,
                       b\<lparr>in_pos := rc_in_pos (rc s)\<rparr>)) }
         else Some (True, s, b))"

text \<open>Keeping the last bytes of the caller's buffer.\<close>

definition lzma2_stash :: "xz_dec_lzma2 \<Rightarrow> xz_buf \<Rightarrow> (bool \<times> xz_dec_lzma2 \<times> xz_buf) option" where
  "lzma2_stash s b =
     (let in_avail = in_size b - in_pos b
      in if in_avail < LZMA_IN_REQUIRED
         then do {
           let n = (if in_avail > unat (l2_compressed (lzma2 s)) then unat (l2_compressed (lzma2 s)) else in_avail);
           data \<leftarrow> slice (b_in b) (in_pos b) n;
           buf \<leftarrow> blit (temp_buf s) 0 data;
           Some (True, s\<lparr>temp_buf := buf, temp_size := of_nat n\<rparr>, b\<lparr>in_pos := in_pos b + n\<rparr>) }
         else Some (True, s, b))"

definition lzma2_lzma :: "xz_dec_lzma2 \<Rightarrow> xz_buf \<Rightarrow> (bool \<times> xz_dec_lzma2 \<times> xz_buf) option" where
  "lzma2_lzma s b = do {
     (ret, s, b) \<leftarrow> (if temp_size s > 0 \<or> l2_compressed (lzma2 s) = 0 then lzma2_temp s b else Some (None, s, b));
     (case ret of
        Some r \<Rightarrow> Some (r, s, b)
      | None \<Rightarrow> do {
          (ok, s, b) \<leftarrow> lzma2_direct s b;
          (if ok then lzma2_stash s b else Some (False, s, b)) }) }"

section \<open>The chunks\<close>

definition next_byte :: "xz_buf \<Rightarrow> (byte \<times> xz_buf) option" where
  "next_byte b = (if in_pos b < in_size b then Some (b_in b ! in_pos b, b\<lparr>in_pos := in_pos b + 1\<rparr>) else None)"

text \<open>One turn of the loop; a result \<open>Some ret\<close> leaves the loop.\<close>

definition lzma2_control :: "xz_dec_lzma2 \<Rightarrow> xz_buf \<Rightarrow> (xz_ret option \<times> xz_dec_lzma2 \<times> xz_buf) option" where
  "lzma2_control s b = do {
     (tmp, b) \<leftarrow> next_byte b;
     (if tmp = 0 then Some (Some XZ_STREAM_END, s, b)
      else let resets = (tmp \<ge> 0xE0 \<or> tmp = 1) in
        if \<not> resets \<and> need_dict_reset (lzma2 s) then Some (Some XZ_DATA_ERROR, s, b)
        else let s = (if resets then map_lzma2 (\<lambda>l. l\<lparr>need_props := True, need_dict_reset := False\<rparr>)
                                       (s\<lparr>dict := dict_reset (dict s)\<rparr>) else s) in
          if tmp \<ge> 0x80
          then let s = map_lzma2 (\<lambda>l. l\<lparr>l2_uncompressed := push_bit 16 (ucast (tmp AND 0x1F)),
                                        l2_sequence := SEQ_UNCOMPRESSED_1\<rparr>) s in
            if tmp \<ge> 0xC0 then Some (None, map_lzma2 (\<lambda>l. l\<lparr>need_props := False, next_sequence := SEQ_PROPERTIES\<rparr>) s, b)
            else if need_props (lzma2 s) then Some (Some XZ_DATA_ERROR, s, b)
            else let s = map_lzma2 (\<lambda>l. l\<lparr>next_sequence := SEQ_LZMA_PREPARE\<rparr>) s
                 in Some (None, (if tmp \<ge> 0xA0 then lzma_reset s else s), b)
          else if tmp > 2 then Some (Some XZ_DATA_ERROR, s, b)
          else Some (None, map_lzma2 (\<lambda>l. l\<lparr>l2_sequence := SEQ_COMPRESSED_0, next_sequence := SEQ_COPY\<rparr>) s, b)) }"

definition lzma2_run_chunk :: "xz_dec_lzma2 \<Rightarrow> xz_buf \<Rightarrow> (xz_ret option \<times> xz_dec_lzma2 \<times> xz_buf) option" where
  "lzma2_run_chunk s b = do {
     let s = s\<lparr>dict := dict_limit (dict s) (min (out_size b - out_pos b) (unat (l2_uncompressed (lzma2 s))))\<rparr>;
     (ok, s, b) \<leftarrow> lzma2_lzma s b;
     (if \<not> ok then Some (Some XZ_DATA_ERROR, s, b)
      else do {
        (n, d, b) \<leftarrow> dict_flush (dict s) b;
        let s = map_lzma2 (\<lambda>l. l\<lparr>l2_uncompressed := l2_uncompressed l - n\<rparr>) (s\<lparr>dict := d\<rparr>);
        (if l2_uncompressed (lzma2 s) = 0
         then if l2_compressed (lzma2 s) > 0 \<or> len (lzma s) > 0 \<or> \<not> rc_is_finished (rc s)
              then Some (Some XZ_DATA_ERROR, s, b)
              else Some (None, map_lzma2 (\<lambda>l. l\<lparr>l2_sequence := SEQ_CONTROL\<rparr>) (map_rc rc_reset s), b)
         else if out_pos b = out_size b \<or> in_pos b = in_size b \<and> temp_size s < l2_compressed (lzma2 s)
              then Some (Some XZ_OK, s, b)
         else Some (None, s, b)) }) }"

definition lzma2_prepare :: "xz_dec_lzma2 \<Rightarrow> xz_buf \<Rightarrow> (xz_ret option \<times> xz_dec_lzma2 \<times> xz_buf) option" where
  "lzma2_prepare s b =
     (if l2_compressed (lzma2 s) < RC_INIT_BYTES then Some (Some XZ_DATA_ERROR, s, b)
      else do {
        (ok, r, b) \<leftarrow> rc_read_init (rc s) b;
        let s = s\<lparr>rc := r\<rparr>;
        (if \<not> ok then Some (Some XZ_OK, s, b)
         else lzma2_run_chunk (map_lzma2 (\<lambda>l. l\<lparr>l2_compressed := l2_compressed l - RC_INIT_BYTES,
                                                l2_sequence := SEQ_LZMA_RUN\<rparr>) s) b) })"

definition lzma2_turn :: "xz_dec_lzma2 \<Rightarrow> xz_buf \<Rightarrow> (xz_ret option \<times> xz_dec_lzma2 \<times> xz_buf) option" where
  "lzma2_turn s b =
     (case l2_sequence (lzma2 s) of
        SEQ_CONTROL \<Rightarrow> lzma2_control s b
      | SEQ_UNCOMPRESSED_1 \<Rightarrow> do {
          (v, b) \<leftarrow> next_byte b;
          Some (None, map_lzma2 (\<lambda>l. l\<lparr>l2_uncompressed := l2_uncompressed l + push_bit 8 (ucast v),
                                       l2_sequence := SEQ_UNCOMPRESSED_2\<rparr>) s, b) }
      | SEQ_UNCOMPRESSED_2 \<Rightarrow> do {
          (v, b) \<leftarrow> next_byte b;
          Some (None, map_lzma2 (\<lambda>l. l\<lparr>l2_uncompressed := l2_uncompressed l + (ucast v + 1),
                                       l2_sequence := SEQ_COMPRESSED_0\<rparr>) s, b) }
      | SEQ_COMPRESSED_0 \<Rightarrow> do {
          (v, b) \<leftarrow> next_byte b;
          Some (None, map_lzma2 (\<lambda>l. l\<lparr>l2_compressed := push_bit 8 (ucast v), l2_sequence := SEQ_COMPRESSED_1\<rparr>) s, b) }
      | SEQ_COMPRESSED_1 \<Rightarrow> do {
          (v, b) \<leftarrow> next_byte b;
          Some (None, map_lzma2 (\<lambda>l. l\<lparr>l2_compressed := l2_compressed l + (ucast v + 1),
                                       l2_sequence := next_sequence l\<rparr>) s, b) }
      | SEQ_PROPERTIES \<Rightarrow> do {
          (v, b) \<leftarrow> next_byte b;
          (case lzma_props v s of (ok, s) \<Rightarrow>
             if ok then lzma2_prepare (map_lzma2 (\<lambda>l. l\<lparr>l2_sequence := SEQ_LZMA_PREPARE\<rparr>) s) b
             else Some (Some XZ_DATA_ERROR, s, b)) }
      | SEQ_LZMA_PREPARE \<Rightarrow> lzma2_prepare s b
      | SEQ_LZMA_RUN \<Rightarrow> lzma2_run_chunk s b
      | SEQ_COPY \<Rightarrow> do {
          (left, d, b) \<leftarrow> dict_uncompressed (dict s) b (l2_compressed (lzma2 s));
          let s = map_lzma2 (\<lambda>l. l\<lparr>l2_compressed := left\<rparr>) (s\<lparr>dict := d\<rparr>);
          (if left > 0 then Some (Some XZ_OK, s, b)
           else Some (None, map_lzma2 (\<lambda>l. l\<lparr>l2_sequence := SEQ_CONTROL\<rparr>) s, b)) })"

partial_function (option) xz_dec_lzma2_run :: "xz_dec_lzma2 \<Rightarrow> xz_buf \<Rightarrow> (xz_ret \<times> xz_dec_lzma2 \<times> xz_buf) option" where
  "xz_dec_lzma2_run s b =
     (if in_pos b < in_size b \<or> l2_sequence (lzma2 s) = SEQ_LZMA_RUN
      then do {
        (ret, s, b) \<leftarrow> lzma2_turn s b;
        (case ret of Some r \<Rightarrow> Some (r, s, b) | None \<Rightarrow> xz_dec_lzma2_run s b) }
      else Some (XZ_OK, s, b))"

declare xz_dec_lzma2_run.simps [code]

section \<open>The life cycle of a decoder\<close>

text \<open>
  \<open>malloc\<close> succeeds or not; the members of a new decoder hold arbitrary values, taken from \<open>junk\<close>.  A
  block has the size that was asked for and no byte of it is written.
\<close>

definition vmalloc_dict :: "bool \<Rightarrow> nat \<Rightarrow> dictionary \<Rightarrow> dictionary" where
  "vmalloc_dict ok n d = d\<lparr>dict_buf := (\<lambda>_. None), dict_cap := (if ok then n else 0)\<rparr>"

definition xz_dec_lzma2_create :: "bool \<Rightarrow> xz_dec_lzma2 \<Rightarrow> xz_mode \<Rightarrow> u32 \<Rightarrow> xz_dec_lzma2 option" where
  "xz_dec_lzma2_create ok junk mode dict_max =
     (if \<not> ok then None
      else Some (let s = junk\<lparr>dict := (dict junk)\<lparr>dict_mode := mode, dict_size_max := dict_max\<rparr>\<rparr>
                 in if mode = XZ_DYNALLOC
                    then s\<lparr>dict := (vmalloc_dict False 0 (dict s))\<lparr>dict_allocated := 0\<rparr>\<rparr> else s))"

definition xz_dec_lzma2_reset :: "(u32 \<Rightarrow> bool) \<Rightarrow> xz_dec_lzma2 \<Rightarrow> byte \<Rightarrow> xz_ret \<times> xz_dec_lzma2" where
  "xz_dec_lzma2_reset alloc s props =
     (if props > 39 then (XZ_OPTIONS_ERROR, s)
      else let size = push_bit (unat (drop_bit 1 props) + 11) (2 + ucast (props AND 1));
               s = s\<lparr>dict := (dict s)\<lparr>dict_size := size\<rparr>\<rparr>
           in if size > dict_size_max (dict s) then (XZ_MEMLIMIT_ERROR, s)
              else let s = s\<lparr>dict := (dict s)\<lparr>dict_end := unat size\<rparr>\<rparr>;
                       grow = (dict_mode (dict s) = XZ_DYNALLOC \<and> dict_allocated (dict s) < size);
                       s = (if grow then s\<lparr>dict := vmalloc_dict (alloc size) (unat size) (dict s)\<rparr> else s)
                   in if grow \<and> \<not> alloc size then (XZ_MEM_ERROR, s\<lparr>dict := (dict s)\<lparr>dict_allocated := 0\<rparr>\<rparr>)
                      else (XZ_OK, map_lzma2 (\<lambda>l. l\<lparr>l2_sequence := SEQ_CONTROL, need_dict_reset := True\<rparr>)
                                     (map_lzma (\<lambda>z. z\<lparr>len := 0\<rparr>) (s\<lparr>temp_size := 0\<rparr>))))"

end
