(* ===== verification/Xz_Feed.thy ===== *)
theory Xz_Feed
  imports Xz_Main Xz_Lzma2
begin

text \<open>
  The wrapper around the LZMA decoder gives it enough input on every path: decoding from the temporary buffer,
  from the caller's buffer, and keeping the rest for the next call.
\<close>

section \<open>Copies\<close>

lemma slice_safe: "i + n \<le> length xs \<Longrightarrow> slice xs i n = Some (take n (drop i xs))"
  by (simp add: slice_def)

lemma blit_safe: "i + length ys \<le> length xs \<Longrightarrow> returns (blit xs i ys) (\<lambda>zs. length zs = length xs)"
  by (simp add: blit_def)

section \<open>The state between two calls of the LZMA decoder\<close>

abbreviation csize :: "xz_dec_lzma2 \<Rightarrow> nat" where "csize s \<equiv> unat (l2_compressed (lzma2 s))"
abbreviation tsize :: "xz_dec_lzma2 \<Rightarrow> nat" where "tsize s \<equiv> unat (temp_size s)"
abbreviation dpos :: "xz_dec_lzma2 \<Rightarrow> nat" where "dpos s \<equiv> dict_pos (dict s)"

definition feed_ok :: "xz_dec_lzma2 \<Rightarrow> bool" where
  "feed_ok s \<longleftrightarrow> lz_ok s \<and> dpos s \<le> dict_lim (dict s) \<and> dict_lim (dict s) \<le> dict_end (dict s) \<and>
     16777216 \<le> rng (rc s) \<and> length (temp_buf s) = 63 \<and> tsize s \<le> 20 \<and> tsize s \<le> csize s"

definition fed :: "xz_dec_lzma2 \<Rightarrow> xz_dec_lzma2 \<Rightarrow> bool" where
  "fed s s' \<longleftrightarrow> grown (dict s) (dict s') \<and> (\<exists>c. lzma2 s' = (lzma2 s)\<lparr>l2_compressed := c\<rparr>)"

lemma fed_refl [simp]: "fed s s"
  unfolding fed_def by (simp, rule exI [of _ "l2_compressed (lzma2 s)"], simp)

lemma fed_same: "grown (dict s) (dict s') \<Longrightarrow> lzma2 s' = lzma2 s \<Longrightarrow> fed s s'"
  unfolding fed_def by (simp, rule exI [of _ "l2_compressed (lzma2 s)"], simp)

lemma fed_comp: "grown (dict s) (dict s') \<Longrightarrow> lzma2 s' = (lzma2 s)\<lparr>l2_compressed := c\<rparr> \<Longrightarrow> fed s s'"
  unfolding fed_def by blast

lemma fed_trans: "fed s t \<Longrightarrow> fed t u \<Longrightarrow> fed s u"
  by (auto simp: fed_def intro: grown_trans)

text \<open>The input moves forward and the output is not touched.\<close>

definition buf_ok :: "xz_buf \<Rightarrow> bool" where
  "buf_ok b \<longleftrightarrow> in_pos b \<le> in_size b \<and> out_pos b \<le> out_size b"

definition ate :: "xz_buf \<Rightarrow> xz_buf \<Rightarrow> bool" where
  "ate b b' \<longleftrightarrow> (\<exists>p. b' = b\<lparr>in_pos := p\<rparr> \<and> in_pos b \<le> p \<and> p \<le> in_size b)"

lemma ate_refl: "in_pos b \<le> in_size b \<Longrightarrow> ate b b"
  unfolding ate_def by (rule exI [of _ "in_pos b"]) simp

lemma ateI: "in_pos b \<le> p \<Longrightarrow> p \<le> in_size b \<Longrightarrow> ate b (b\<lparr>in_pos := p\<rparr>)"
  unfolding ate_def by blast

lemma ate_trans: "ate b c \<Longrightarrow> ate c d \<Longrightarrow> ate b d"
  by (auto simp: ate_def)

lemma ateD: "ate b b' \<Longrightarrow> b_in b' = b_in b \<and> b_out b' = b_out b \<and> out_pos b' = out_pos b \<and> in_pos b \<le> in_pos b' \<and> in_pos b' \<le> in_size b"
  by (auto simp: ate_def)

lemma main_feed:
  assumes f: "feed_ok s" and l: "lim + 21 \<le> length buf" "p \<le> length buf" "length tb = 63"
  defines "t \<equiv> map_rc (\<lambda>r. r\<lparr>rc_in := buf, rc_in_pos := p, rc_in_limit := lim\<rparr>) (s\<lparr>temp_buf := tb\<rparr>)"
  shows "returns (lzma_main t) (\<lambda>(ok, s'). lzma2 s' = lzma2 s \<and> temp_size s' = temp_size s \<and> temp_buf s' = tb \<and>
    grown (dict s) (dict s') \<and> p \<le> rc_in_pos (rc s') \<and>
    (ok \<longrightarrow> lz_ok s' \<and> dpos s' \<le> dict_lim (dict s') \<and> 16777216 \<le> rng (rc s') \<and> rc_in_pos (rc s') \<le> length buf \<and>
      (dict_has_space (dict s) \<and> p \<le> lim \<longrightarrow> dpos s < dpos s')))"
proof -
  have "loop_ok t" using f l by (auto simp: loop_ok_def feed_ok_def lz_ok_def readable_def t_def)
  from lzma_main_safe [OF this] show ?thesis
    by (rule returns_mono) (auto simp: t_def kept_def loop_ok_def readable_def rc_limit_exceeded_def)
qed

section \<open>The three phases\<close>

lemma unat_diff_of_nat: "n \<le> unat w \<Longrightarrow> unat (w - of_nat n) = unat w - n" for w :: u32
proof -
  assume "n \<le> unat w"
  hence "unat (of_nat n :: u32) = n"
    using unsigned_less [of w, where ?'a = nat] by (subst unat_of_nat) simp
  thus ?thesis using \<open>n \<le> unat w\<close> by (simp add: unat_sub_if')
qed

lemma temp_take_unat:
  assumes "tsize s \<le> 20" "tsize s \<le> csize s" "in_pos b \<le> in_size b"
  shows "unat (temp_take s b) = min (42 - tsize s) (min (csize s - tsize s) (in_size b - in_pos b))"
    "unat (temp_size s + temp_take s b) = tsize s + unat (temp_take s b)"
proof -
  let ?c = "l2_compressed (lzma2 s)" and ?a = "in_size b - in_pos b"
  have u: "unat (42 - temp_size s) = 42 - tsize s" "unat (?c - temp_size s) = csize s - tsize s"
    using assms by (auto simp: unat_sub_if')
  have a: "unat (of_nat ?a :: u32) = ?a" if "?a < unat (w :: u32)" for w
    using that unsigned_less [of w, where ?'a = nat] by (subst unat_of_nat) simp
  show t: "unat (temp_take s b) = min (42 - tsize s) (min (csize s - tsize s) ?a)"
    using a u by (auto simp: temp_take_def Let_def word_less_nat_alt min_def)
  show "unat (temp_size s + temp_take s b) = tsize s + unat (temp_take s b)"
  proof -
    have "unat (temp_take s b) \<le> 42" using t min.cobounded1 [of "42 - tsize s"] by (metis diff_le_self le_trans)
    thus ?thesis using assms(1) by (simp add: unat_word_ariths)
  qed
qed

text \<open>The temporary buffer.\<close>

lemma lzma2_temp_safe:
  assumes f: "feed_ok s" and b: "buf_ok b"
  shows "returns (lzma2_temp s b) (\<lambda>(ret, s', b'). ate b b' \<and> fed s s' \<and>
    (ret \<noteq> Some False \<longrightarrow> feed_ok s' \<and>
      (dict_has_space (dict s) \<longrightarrow> dpos s < dpos s' \<or> in_pos b' = in_size b \<and> tsize s' < csize s')) \<and>
    (ret = None \<longrightarrow> tsize s' = 0))"
proof -
  define tmp where "tmp = temp_take s b"
  define filled where "filled = temp_size s + tmp"
  have ts: "tsize s \<le> 20" "tsize s \<le> csize s" "length (temp_buf s) = 63" using f by (auto simp: feed_ok_def)
  have ip: "in_pos b \<le> in_size b" using b by (simp add: buf_ok_def)
  have tmp: "unat tmp = min (42 - tsize s) (min (csize s - tsize s) (in_size b - in_pos b))" and fl: "unat filled = tsize s + unat tmp"
    using temp_take_unat [OF ts(1,2) ip] by (auto simp: tmp_def filled_def)
  have tb: "unat tmp \<le> 42 - tsize s" "unat tmp \<le> csize s - tsize s" "unat tmp \<le> in_size b - in_pos b"
    unfolding tmp by (simp_all add: min_le_iff_disj)
  define data where "data = take (unat tmp) (drop (in_pos b) (b_in b))"
  have data: "slice (b_in b) (in_pos b) (unat tmp) = Some data" "length data = unat tmp"
    using tb(3) ip by (auto simp: data_def slice_def)
  have room: "tsize s + length data \<le> length (temp_buf s)" using data(2) tb(1) ts by linarith
  obtain buf where buf: "blit (temp_buf s) (tsize s) data = Some buf" "length buf = 63"
    using blit_safe [OF room] ts(3) by (auto elim!: returnsE)
  define last where "last = (filled = l2_compressed (lzma2 s))"
  have lst: "last \<longleftrightarrow> unat filled = csize s" by (simp add: last_def unsigned_word_eqI word_unat_eq_iff)
  have fc: "unat filled \<le> csize s" "unat filled \<le> 42" using fl tb ts by auto
  note unf = lzma2_temp_def tmp_def [symmetric] data(1) buf(1) filled_def [symmetric] last_def [symmetric]
  show ?thesis
  proof (cases "\<not> last \<and> unat filled < LZMA_IN_REQUIRED")
    case True
    define s' where "s' = s\<lparr>temp_buf := buf, temp_size := filled\<rparr>"
    have eq: "lzma2_temp s b = Some (Some True, s', b\<lparr>in_pos := in_pos b + unat tmp\<rparr>)"
      using True by (simp add: unf s'_def)
    have "in_pos b + unat tmp = in_size b"
      using True tmp fl lst ts ip by (auto simp: LZMA_IN_REQUIRED_def min_def split: if_splits)
    moreover have "unat filled < csize s" "unat filled \<le> 20" using True lst fc by (auto simp: LZMA_IN_REQUIRED_def)
    hence "feed_ok s'" "fed s s'" "tsize s' < csize s'"
      using f buf(2) by (auto simp: s'_def feed_ok_def lz_ok_def intro: fed_same)
    ultimately show ?thesis using ip by (auto simp: eq intro: ateI)
  next
    case False
    have "returns (if last then blit buf (unat filled) (replicate (63 - unat filled) 0) else Some buf) (\<lambda>x. length x = 63)"
      using blit_safe [of "unat filled" "replicate (63 - unat filled) 0" buf] buf(2) fc(2) by simp
    then obtain buf2 where b2: "(if last then blit buf (unat filled) (replicate (63 - unat filled) 0) else Some buf) = Some buf2" "length buf2 = 63"
      by (rule returnsE) blast
    define lim where "lim = (if last then unat filled else unat filled - LZMA_IN_REQUIRED)"
    have lim: "lim + 21 \<le> length buf2" using fc(2) b2(2) by (auto simp: lim_def)
    define t where "t = map_rc (\<lambda>r. r\<lparr>rc_in := buf2, rc_in_pos := 0, rc_in_limit := lim\<rparr>) (s\<lparr>temp_buf := buf2\<rparr>)"
    obtain ok u where u: "lzma_main t = Some (ok, u)" "lzma2 u = lzma2 s" "temp_size u = temp_size s" "temp_buf u = buf2"
        "grown (dict s) (dict u)"
        "ok \<longrightarrow> lz_ok u \<and> dpos u \<le> dict_lim (dict u) \<and> 16777216 \<le> rng (rc u) \<and> (dict_has_space (dict s) \<longrightarrow> dpos s < dpos u)"
      using main_feed [OF f lim _ b2(2), of 0] by (auto simp: t_def elim!: returnsE)
    define used where "used = rc_in_pos (rc u)"
    have step: "lzma2_temp s b = (if \<not> ok \<or> used > unat filled then Some (Some False, u, b) else temp_consume used u b)"
      unfolding unf Let_def used_def
      by (simp only: data(1) buf(1) False if_False b2(1) u(1) [unfolded t_def lim_def] bind.bind_lunit prod.case)
    show ?thesis
    proof (cases "\<not> ok \<or> used > unat filled")
      case True
      thus ?thesis using step u ip by (auto simp: ate_refl intro: fed_same)
    next
      case False
      hence ok: ok "used \<le> unat filled" by auto
      define v where "v = map_lzma2 (\<lambda>l. l\<lparr>l2_compressed := l2_compressed l - of_nat used\<rparr>) u"
      have v: "lz_ok v" "dpos v \<le> dict_lim (dict v)" "16777216 \<le> rng (rc v)" "dict_lim (dict v) \<le> dict_end (dict v)"
          "csize v = csize s - used" "temp_size v = temp_size s" "length (temp_buf v) = 63" "fed s v"
          "dict_has_space (dict s) \<longrightarrow> dpos s < dpos v"
        using u ok f fc b2 by (auto simp: v_def lz_ok_def feed_ok_def unat_diff_of_nat grown_def same_dict_def intro!: fed_comp)
      show ?thesis
      proof (cases "used < tsize s")
        case True
        have "0 + length (take (tsize s - used) (drop used buf2)) \<le> length buf2" by simp
        from blit_safe [OF this] obtain buf3 where "blit buf2 0 (take (tsize s - used) (drop used buf2)) = Some buf3" "length buf3 = 63"
          using b2(2) by (auto elim!: returnsE)
        note b3 = this
        define w where "w = v\<lparr>temp_buf := buf3, temp_size := temp_size s - of_nat used\<rparr>"
        have sl: "slice buf2 used (tsize s - used) = Some (take (tsize s - used) (drop used buf2))"
          using ts(1) b2(2) True by (intro slice_safe) simp
        have eq: "lzma2_temp s b = Some (Some True, w, b)"
          unfolding step temp_consume_def Let_def v_def [symmetric]
          using ok True u sl b3(1) by (simp add: w_def v_def)
        have "tsize w = tsize s - used" using True by (simp add: w_def unat_diff_of_nat)
        moreover have "tsize s - used \<le> 20" "tsize s - used \<le> csize s - used" using ts(1,2) by linarith+
        ultimately have "feed_ok w" using v(1-7) b3(2) by (simp add: feed_ok_def lz_ok_def w_def)
        moreover have "fed s w" "dict w = dict v" using v(8) by (simp_all add: fed_def w_def)
        ultimately show ?thesis using v(9) ip by (simp add: eq ate_refl)
      next
        case False
        define w where "w = v\<lparr>temp_size := 0\<rparr>"
        have eq: "lzma2_temp s b = Some (None, w, b\<lparr>in_pos := in_pos b + (used - tsize s)\<rparr>)"
          unfolding step temp_consume_def Let_def v_def [symmetric]
          using ok False u by (simp add: w_def v_def)
        have "in_pos b + (used - tsize s) \<le> in_size b" using ok(2) fl tb(3) ip by linarith
        moreover have "feed_ok w" using v(1-7) by (simp add: feed_ok_def lz_ok_def w_def)
        moreover have "fed s w" "dict w = dict v" using v(8) by (simp_all add: fed_def w_def)
        ultimately show ?thesis using v(9) by (simp add: eq ateI w_def)
      qed
    qed
  qed
qed

lemma lzma2_direct_safe:
  assumes f: "feed_ok s" and b: "buf_ok b" and ts: "tsize s = 0"
  shows "returns (lzma2_direct s b) (\<lambda>(ok, s', b'). ate b b' \<and> fed s s' \<and>
    (ok \<longrightarrow> feed_ok s' \<and> tsize s' = 0 \<and>
      (dict_has_space (dict s) \<and> 21 \<le> in_size b - in_pos b \<longrightarrow> dpos s < dpos s') \<and>
      (\<not> 21 \<le> in_size b - in_pos b \<longrightarrow> s' = s \<and> b' = b)))"
proof (cases "21 \<le> in_size b - in_pos b")
  case False
  thus ?thesis using f b ts by (simp add: lzma2_direct_def LZMA_IN_REQUIRED_def buf_ok_def ate_refl)
next
  case True
  define lim where "lim = (if in_size b - in_pos b \<ge> csize s + 21 then in_pos b + csize s else in_size b - 21)"
  have lim: "lim + 21 \<le> length (b_in b)" "in_pos b \<le> lim" using True by (auto simp: lim_def)
  have ip: "in_pos b \<le> in_size b" using b by (simp add: buf_ok_def)
  have tb: "length (temp_buf s) = 63" using f by (simp add: feed_ok_def)
  define t where "t = map_rc (\<lambda>r. r\<lparr>rc_in := b_in b, rc_in_pos := in_pos b, rc_in_limit := lim\<rparr>) s"
  obtain ok u where u: "lzma_main t = Some (ok, u)" "lzma2 u = lzma2 s" "temp_size u = temp_size s" "temp_buf u = temp_buf s"
        "grown (dict s) (dict u)" "in_pos b \<le> rc_in_pos (rc u)"
        "ok \<longrightarrow> lz_ok u \<and> dpos u \<le> dict_lim (dict u) \<and> 16777216 \<le> rng (rc u) \<and> rc_in_pos (rc u) \<le> in_size b \<and>
           (dict_has_space (dict s) \<longrightarrow> dpos s < dpos u)"
    using main_feed [OF f lim(1) ip tb] lim(2) by (auto simp: t_def elim!: returnsE)
  define used where "used = rc_in_pos (rc u) - in_pos b"
  have step: "lzma2_direct s b = (if \<not> ok \<or> used > csize s then Some (False, u, b)
     else Some (True, map_lzma2 (\<lambda>l. l\<lparr>l2_compressed := l2_compressed l - of_nat used\<rparr>) u, b\<lparr>in_pos := rc_in_pos (rc u)\<rparr>))"
    using True u(1) unfolding lzma2_direct_def LZMA_IN_REQUIRED_def Let_def used_def
    by (simp add: t_def lim_def u(2) split del: if_split)
  show ?thesis
  proof (cases "\<not> ok \<or> used > csize s")
    case True
    thus ?thesis using u ip by (auto simp: step ate_refl intro: fed_same)
  next
    case False
    define v where "v = map_lzma2 (\<lambda>l. l\<lparr>l2_compressed := l2_compressed l - of_nat used\<rparr>) u"
    have "feed_ok v" "fed s v" "temp_size v = temp_size s" "dict v = dict u"
      using False u f ts by (auto simp: v_def feed_ok_def lz_ok_def grown_def same_dict_def intro!: fed_comp)
    moreover have "ate b (b\<lparr>in_pos := rc_in_pos (rc u)\<rparr>)" using u(6,7) False by (intro ateI) auto
    ultimately show ?thesis using False u(7) ts \<open>21 \<le> in_size b - in_pos b\<close> by (simp add: step v_def [symmetric])
  qed
qed

lemma lzma2_stash_safe:
  assumes f: "feed_ok s" and b: "buf_ok b" and ts: "tsize s = 0"
  shows "returns (lzma2_stash s b) (\<lambda>(ok, s', b'). ok \<and> ate b b' \<and> fed s s' \<and> feed_ok s' \<and> dict s' = dict s \<and>
      (in_size b - in_pos b < 21 \<and> 0 < csize s \<longrightarrow> in_pos b < in_pos b' \<or> in_pos b' = in_size b \<and> tsize s' < csize s'))"
proof (cases "in_size b - in_pos b < 21")
  case False
  thus ?thesis using f b ts by (simp add: lzma2_stash_def LZMA_IN_REQUIRED_def buf_ok_def ate_refl)
next
  case True
  define n where "n = (if in_size b - in_pos b > csize s then csize s else in_size b - in_pos b)"
  have ip: "in_pos b \<le> in_size b" using b by (simp add: buf_ok_def)
  have n: "n \<le> 20" "n \<le> csize s" "in_pos b + n \<le> in_size b" using True ip by (auto simp: n_def)
  have un: "unat (of_nat n :: u32) = n" using n(1) by (subst unat_of_nat) simp
  define data where "data = take n (drop (in_pos b) (b_in b))"
  have data: "slice (b_in b) (in_pos b) n = Some data" "length data = n"
    using n(3) by (auto simp: data_def slice_def)
  have "0 + length data \<le> length (temp_buf s)" using data(2) n(1) f by (simp add: feed_ok_def)
  from blit_safe [OF this] obtain buf where buf: "blit (temp_buf s) 0 data = Some buf" "length buf = 63"
    using f by (auto simp: feed_ok_def elim!: returnsE)
  define w where "w = s\<lparr>temp_buf := buf, temp_size := of_nat n\<rparr>"
  have eq: "lzma2_stash s b = Some (True, w, b\<lparr>in_pos := in_pos b + n\<rparr>)"
    using True by (simp add: lzma2_stash_def LZMA_IN_REQUIRED_def Let_def n_def [symmetric] data(1) buf(1) w_def)
  have "feed_ok w" "fed s w" "dict w = dict s" "tsize w = n" "csize w = csize s"
    using f un n(1,2) buf(2) by (auto simp: w_def feed_ok_def lz_ok_def intro: fed_same)
  thus ?thesis using n(3) True ip by (auto simp: eq n_def intro: ateI)
qed

lemma feed_okD: "feed_ok s \<Longrightarrow> dpos s \<le> dict_lim (dict s)"
  by (simp add: feed_ok_def)

lemma fedD: "fed s s' \<Longrightarrow> dpos s \<le> dpos s' \<and> dict_lim (dict s') = dict_lim (dict s)"
  by (auto simp: fed_def grown_def same_dict_def)

lemma ate_ok: "buf_ok b \<Longrightarrow> ate b b' \<Longrightarrow> buf_ok b'"
  by (auto simp: buf_ok_def ate_def)

lemma lzma2_lzma_safe:
  assumes f: "feed_ok s" and b: "buf_ok b"
  shows "returns (lzma2_lzma s b) (\<lambda>(ok, s', b'). ate b b' \<and> fed s s' \<and>
    (ok \<longrightarrow> feed_ok s' \<and>
      (dict_has_space (dict s) \<longrightarrow> dpos s < dpos s' \<or> in_pos b < in_pos b' \<or> in_pos b' = in_size b \<and> tsize s' < csize s')))"
proof -
  have "returns (if temp_size s > 0 \<or> l2_compressed (lzma2 s) = 0 then lzma2_temp s b else Some (None, s, b))
    (\<lambda>(ret, t, c). ate b c \<and> fed s t \<and>
    (ret \<noteq> Some False \<longrightarrow> feed_ok t \<and>
      (dict_has_space (dict s) \<longrightarrow> dpos s < dpos t \<or> in_pos c = in_size b \<and> tsize t < csize t \<or> ret = None \<and> t = s \<and> c = b \<and> 0 < csize s)) \<and>
    (ret = None \<longrightarrow> tsize t = 0))"
    using lzma2_temp_safe [OF f b] f b
    by (auto simp: word_less_nat_alt unat_eq_0 buf_ok_def ate_refl word_gt_0 elim!: returns_mono)
  then obtain ret t c where t: "(if temp_size s > 0 \<or> l2_compressed (lzma2 s) = 0 then lzma2_temp s b else Some (None, s, b)) = Some (ret, t, c)"
      "ate b c" "fed s t" "ret \<noteq> Some False \<longrightarrow> feed_ok t \<and>
      (dict_has_space (dict s) \<longrightarrow> dpos s < dpos t \<or> in_pos c = in_size b \<and> tsize t < csize t \<or> ret = None \<and> t = s \<and> c = b \<and> 0 < csize s)"
      "ret = None \<longrightarrow> tsize t = 0"
    by (rule returnsE) auto
  note sz = ateD [OF t(2)]
  show ?thesis
  proof (cases ret)
    case (Some r)
    thus ?thesis using t sz by (cases r) (auto simp: lzma2_lzma_def)
  next
    case None
    hence ft: "feed_ok t" "tsize t = 0" using t(4,5) by auto
    have bc: "buf_ok c" using ate_ok [OF b t(2)] .
    obtain ok u e where u: "lzma2_direct t c = Some (ok, u, e)" "ate c e" "fed t u"
      "ok \<longrightarrow> feed_ok u \<and> tsize u = 0 \<and> (dict_has_space (dict t) \<and> 21 \<le> in_size c - in_pos c \<longrightarrow> dpos t < dpos u) \<and>
        (\<not> 21 \<le> in_size c - in_pos c \<longrightarrow> u = t \<and> e = c)"
      using lzma2_direct_safe [OF ft(1) bc ft(2)] by (auto elim!: returnsE)
    show ?thesis
    proof (cases ok)
      case False
      thus ?thesis using t(1) None u ate_trans [OF t(2) u(2)] fed_trans [OF t(3) u(3)] by (simp add: lzma2_lzma_def)
    next
      case True
      have be: "buf_ok e" using ate_ok [OF bc u(2)] .
      have fu: "feed_ok u" "tsize u = 0" using True u(4) by auto
      obtain ok' w g where w: "lzma2_stash u e = Some (ok', w, g)" "ok'" "ate e g" "fed u w" "feed_ok w" "dict w = dict u"
          "in_size e - in_pos e < 21 \<and> 0 < csize u \<longrightarrow> in_pos e < in_pos g \<or> in_pos g = in_size e \<and> tsize w < csize w"
        using lzma2_stash_safe [OF fu(1) be fu(2)] by (rule returnsE3) blast
      have "ate b g" "fed s w"
        using ate_trans [OF ate_trans [OF t(2) u(2)] w(3)] fed_trans [OF fed_trans [OF t(3) u(3)] w(4)] .
      moreover have "dpos s < dpos w \<or> in_pos b < in_pos g \<or> in_pos g = in_size b \<and> tsize w < csize w" if sp: "dict_has_space (dict s)"
      proof -
        consider "dpos s < dpos t" | "in_pos c = in_size b" "tsize t < csize t" "dpos t = dpos s" | "t = s" "c = b" "0 < csize s"
          using t(4) None sp fedD [OF t(3)] by fastforce
        thus ?thesis
        proof cases
          case 1
          thus ?thesis using fedD [OF u(3)] w(6) by simp
        next
          case 2
          hence "u = t" "e = c" using u(4) True sz by auto
          thus ?thesis using 2 w(7) sz ateD [OF w(3)] by auto
        next
          case 3
          show ?thesis
          proof (cases "21 \<le> in_size c - in_pos c")
            case True
            hence "dpos t < dpos u" using u(4) \<open>ok\<close> sp 3 by auto
            thus ?thesis using 3 w(6) by simp
          next
            case False
            hence "u = t" "e = c" using u(4) \<open>ok\<close> by auto
            thus ?thesis using 3 False w(7) by auto
          qed
        qed
      qed
      ultimately show ?thesis using t(1) None u(1) True w by (simp add: lzma2_lzma_def)
    qed
  qed
qed

end
