(* ===== verification/Xz_Safety.thy ===== *)
theory Xz_Safety
  imports Xz_Feed
begin

text \<open>
  The LZMA2 decoder on arbitrary input: every call returns, stays inside all its buffers, and leaves a state
  from which it can be called again.
\<close>

section \<open>Output\<close>

definition buf_step :: "xz_buf \<Rightarrow> xz_buf \<Rightarrow> bool" where
  "buf_step b b' \<longleftrightarrow> b_in b' = b_in b \<and> in_pos b \<le> in_pos b' \<and> in_pos b' \<le> in_size b \<and>
     out_size b' = out_size b \<and> out_pos b \<le> out_pos b' \<and> out_pos b' \<le> out_size b \<and>
     take (out_pos b) (b_out b') = take (out_pos b) (b_out b) \<and> drop (out_pos b') (b_out b') = drop (out_pos b') (b_out b)"

lemma buf_step_refl: "buf_ok b \<Longrightarrow> buf_step b b"
  by (simp add: buf_step_def buf_ok_def)

lemma buf_step_trans:
  assumes "buf_step b c" "buf_step c d" shows "buf_step b d"
proof -
  have le: "out_pos b \<le> out_pos c" using assms by (simp add: buf_step_def)
  have "take (out_pos b) (b_out d) = take (out_pos b) (take (out_pos c) (b_out d))" using le by (simp add: min_absorb1)
  also have "\<dots> = take (out_pos b) (take (out_pos c) (b_out c))" using assms(2) by (simp add: buf_step_def)
  also have "\<dots> = take (out_pos b) (b_out b)" using le assms(1) by (simp add: buf_step_def min_absorb1)
  finally have t: "take (out_pos b) (b_out d) = take (out_pos b) (b_out b)" .
  have cd: "out_pos c \<le> out_pos d" using assms(2) by (simp add: buf_step_def)
  have "drop (out_pos d) (b_out c) = drop (out_pos d - out_pos c) (drop (out_pos c) (b_out c))" using cd by simp
  also have "\<dots> = drop (out_pos d - out_pos c) (drop (out_pos c) (b_out b))" using assms(1) by (simp add: buf_step_def)
  also have "\<dots> = drop (out_pos d) (b_out b)" using cd by simp
  finally show ?thesis using assms t by (auto simp: buf_step_def)
qed

lemma buf_step_pos: "buf_step b b' \<Longrightarrow> in_pos b \<le> in_pos b' \<and> out_pos b \<le> out_pos b'"
  by (simp add: buf_step_def)

lemma buf_step_size: "buf_step b b' \<Longrightarrow> in_size b' = in_size b \<and> out_size b' = out_size b"
  by (simp add: buf_step_def)

lemma buf_step_ok: "buf_step b b' \<Longrightarrow> buf_ok b'"
  by (simp add: buf_step_def buf_ok_def)

lemma ate_step: "buf_ok b \<Longrightarrow> ate b b' \<Longrightarrow> buf_step b b'"
  by (auto simp: buf_step_def buf_ok_def ate_def)

lemma blit_step:
  assumes "i + length ys \<le> length xs" "blit xs i ys = Some zs"
  shows "length zs = length xs" "take i zs = take i xs" "drop (i + length ys) zs = drop (i + length ys) xs"
  using assms by (auto simp: blit_def)

section \<open>Flushing and copying\<close>

text \<open>The dictionary between two calls: nothing is pending and there is space.\<close>

definition dict_rest :: "dictionary \<Rightarrow> bool" where
  "dict_rest d \<longleftrightarrow> dict_ok d \<and> dict_start d = dict_pos d \<and> dict_pos d < dict_end d"

lemma dict_bytes_safe:
  assumes "dict_ok d" "i + n \<le> dict_full d"
  shows "returns (dict_bytes i n d) (\<lambda>vs. length vs = n)"
  using assms(2)
proof (induction n arbitrary: i)
  case (Suc n)
  have "dict_buf d i \<noteq> None" "i < dict_cap d" using assms(1) Suc.prems by (auto simp: dict_ok_def)
  then obtain v where "dict_read d (int i) = Some v" by (auto simp: dict_read_def)
  thus ?case using Suc.IH [of "i + 1"] Suc.prems by (auto elim!: returns_mono)
qed simp

lemma dict_wrap_ok: "dict_ok d \<Longrightarrow> dict_rest ((dict_wrap d)\<lparr>dict_start := dict_pos (dict_wrap d)\<rparr>)"
  by (auto simp: dict_ok_def dict_rest_def dict_wrap_def)

lemma dict_wrap_same: "dict_full (dict_wrap d) = dict_full d" "dict_size (dict_wrap d) = dict_size d"
  by (simp_all add: dict_wrap_def)

lemma dict_flush_safe:
  assumes "dict_ok d" "buf_ok b" "dict_pos d - dict_start d \<le> out_size b - out_pos b" "dict_pos d - dict_start d < 2 ^ 32"
  shows "returns (dict_flush d b) (\<lambda>(n, d', b'). buf_step b b' \<and> in_pos b' = in_pos b \<and>
    unat n = dict_pos d - dict_start d \<and> out_pos b' = out_pos b + unat n \<and> dict_rest d' \<and>
    dict_full d' = dict_full d \<and> dict_size d' = dict_size d)"
proof -
  define n where "n = dict_pos d - dict_start d"
  have st: "dict_start d \<le> dict_pos d" "dict_pos d \<le> dict_full d" using assms(1) by (auto simp: dict_ok_def)
  obtain vs where vs: "dict_bytes (dict_start d) n d = Some vs" "length vs = n"
    using dict_bytes_safe [OF assms(1), of "dict_start d" n] st by (auto simp: n_def elim!: returnsE)
  have fits: "out_pos b + length vs \<le> out_size b" using assms(2,3) vs(2) unfolding n_def buf_ok_def by linarith
  obtain zs where zs: "blit (b_out b) (out_pos b) vs = Some zs" using fits by (simp add: blit_def)
  note bs = blit_step [OF fits zs]
  have "unat (of_nat n :: u32) = n" using assms(4) by (subst unat_of_nat) (simp add: n_def)
  moreover have "buf_step b (b\<lparr>b_out := zs, out_pos := out_pos b + n\<rparr>)"
    using bs fits vs(2) assms(2) by (auto simp: buf_step_def buf_ok_def)
  ultimately show ?thesis using st vs(1) zs dict_wrap_ok [OF assms(1)]
    by (simp add: dict_flush_def n_def [symmetric] dict_wrap_same Let_def)
qed

lemma dict_fill_eq:
  assumes "dict_cap d = dict_end d" "dict_pos d + length vs \<le> dict_end d"
  shows "dict_fill vs d = Some (d\<lparr>dict_pos := dict_pos d + length vs,
    dict_buf := (\<lambda>i. if dict_pos d \<le> i \<and> i < dict_pos d + length vs then Some (vs ! (i - dict_pos d)) else dict_buf d i)\<rparr>)"
  using assms
proof (induction vs arbitrary: d)
  case (Cons v vs)
  define e where "e = d\<lparr>dict_buf := (dict_buf d)(dict_pos d \<mapsto> v), dict_pos := dict_pos d + 1\<rparr>"
  have "dict_fill (v # vs) d = dict_fill vs e" using Cons.prems by (simp add: dict_write_def e_def)
  also have "\<dots> = Some (e\<lparr>dict_pos := dict_pos e + length vs,
    dict_buf := (\<lambda>i. if dict_pos e \<le> i \<and> i < dict_pos e + length vs then Some (vs ! (i - dict_pos e)) else dict_buf e i)\<rparr>)"
    by (rule Cons.IH) (use Cons.prems in \<open>auto simp: e_def\<close>)
  finally show ?case by (auto simp: e_def fun_eq_iff nth_Cons' le_eq_less_or_eq Suc_diff_Suc)
next
  case Nil
  have "(\<lambda>i. if dict_pos d \<le> i \<and> i < dict_pos d + length [] then Some ([] ! (i - dict_pos d)) else dict_buf d i) = dict_buf d"
    by (auto simp: fun_eq_iff)
  thus ?case by simp
qed

text \<open>The effect of one round of \<open>dict_uncompressed\<close> on the dictionary.\<close>

lemma dict_fill_rest:
  assumes "dict_rest d" "dict_pos d + length vs \<le> dict_end d"
  shows "returns (dict_fill vs d) (\<lambda>e. dict_rest ((dict_wrap (dict_raise_full e))\<lparr>dict_start := dict_pos (dict_wrap (dict_raise_full e))\<rparr>) \<and>
    dict_full d \<le> dict_full (dict_wrap (dict_raise_full e)) \<and> dict_size (dict_wrap (dict_raise_full e)) = dict_size d)"
proof -
  have "returns (dict_fill vs d) (\<lambda>e. dict_ok (dict_raise_full e) \<and> dict_full d \<le> dict_full (dict_raise_full e) \<and>
      dict_size (dict_raise_full e) = dict_size d)"
    using dict_fill_eq [OF _ assms(2)] assms by (auto simp: dict_rest_def dict_ok_def dict_raise_full_def)
  thus ?thesis using dict_wrap_ok by (auto simp: dict_wrap_same elim!: returns_mono)
qed

lemma dict_uncompressed_safe:
  assumes "dict_rest d" "buf_ok b"
  shows "returns (dict_uncompressed d b left) (\<lambda>(left', d', b'). buf_step b b' \<and> dict_rest d' \<and>
    dict_full d \<le> dict_full d' \<and> dict_size d' = dict_size d \<and>
    (left' > 0 \<longrightarrow> in_pos b' = in_size b \<or> out_pos b' = out_size b) \<and> (left > 0 \<and> left' = 0 \<longrightarrow> in_pos b < in_pos b'))"
  using assms
proof (induction "unat left" arbitrary: left d b rule: less_induct)
  case less
  show ?case
  proof (cases "left > 0 \<and> in_pos b < in_size b \<and> out_pos b < out_size b")
    case False
    thus ?thesis using less.prems by (subst dict_uncompressed.simps) (auto simp: buf_step_refl buf_ok_def)
  next
    case True
    define n0 where "n0 = min (in_size b - in_pos b) (out_size b - out_pos b)"
    define n1 where "n1 = (if dict_pos d \<le> dict_end d \<and> dict_end d - dict_pos d < n0 then dict_end d - dict_pos d else n0)"
    define n where "n = (if unat left < n1 then unat left else n1)"
    have n: "0 < n" "n \<le> unat left" "in_pos b + n \<le> in_size b" "out_pos b + n \<le> out_size b" "dict_pos d + n \<le> dict_end d"
      using True less.prems by (auto simp: n_def n1_def n0_def dict_rest_def word_less_nat_alt)
    define data where "data = take n (drop (in_pos b) (b_in b))"
    have data: "slice (b_in b) (in_pos b) n = Some data" "length data = n"
      using n(3) by (auto simp: data_def slice_def)
    obtain e where e: "dict_fill data d = Some e"
        "dict_rest ((dict_wrap (dict_raise_full e))\<lparr>dict_start := dict_pos (dict_wrap (dict_raise_full e))\<rparr>)"
        "dict_full d \<le> dict_full (dict_wrap (dict_raise_full e))" "dict_size (dict_wrap (dict_raise_full e)) = dict_size d"
      using dict_fill_rest [OF less.prems(1), of data] data(2) n(5) by (auto elim!: returnsE)
    define d' where "d' = (dict_wrap (dict_raise_full e))\<lparr>dict_start := dict_pos (dict_wrap (dict_raise_full e))\<rparr>"
    have fits: "out_pos b + length data \<le> out_size b" using n(4) data(2) by simp
    obtain zs where zs: "blit (b_out b) (out_pos b) data = Some zs" using fits by (simp add: blit_def)
    define b' where "b' = b\<lparr>b_out := zs, out_pos := out_pos b + n, in_pos := in_pos b + n\<rparr>"
    have bs: "buf_step b b'" using blit_step [OF fits zs] n data(2) by (auto simp: buf_step_def b'_def)
    have left: "unat (left - of_nat n) = unat left - n" using n(2) by (rule unat_diff_of_nat)
    have IH: "returns (dict_uncompressed d' b' (left - of_nat n)) (\<lambda>(left', d'', b''). buf_step b' b'' \<and> dict_rest d'' \<and>
      dict_full d' \<le> dict_full d'' \<and> dict_size d'' = dict_size d' \<and>
      (left' > 0 \<longrightarrow> in_pos b'' = in_size b' \<or> out_pos b'' = out_size b') \<and> (left - of_nat n > 0 \<and> left' = 0 \<longrightarrow> in_pos b' < in_pos b''))"
      by (rule less.hyps) (use n left e(2) buf_step_ok [OF bs] in \<open>auto simp: d'_def\<close>)
    have "dict_uncompressed d b left = dict_uncompressed d' b' (left - of_nat n)"
      unfolding dict_uncompressed.simps [of d b left] n0_def [symmetric] n1_def [symmetric] n_def [symmetric] Let_def
      using True by (simp add: data(1) e(1) zs d'_def b'_def)
    moreover have "in_pos b < in_pos b'" "in_size b' = in_size b" "out_size b' = out_size b"
      using n(1) bs by (auto simp: b'_def buf_step_def)
    moreover have "dict_full d \<le> dict_full d'" "dict_size d' = dict_size d" using e by (auto simp: d'_def)
    ultimately show ?thesis using IH buf_step_trans [OF bs]
      by (fastforce dest: buf_step_pos elim!: returns_mono)
  qed
qed

section \<open>Chunks\<close>

definition dict_mem :: "dictionary \<Rightarrow> bool" where
  "dict_mem d \<longleftrightarrow> 0 < dict_end d \<and> dict_cap d = dict_end d \<and> dict_end d = unat (dict_size d) \<and>
     dict_mode d = XZ_DYNALLOC \<and> dict_allocated d = 0"

definition lz_ready :: "xz_dec_lzma2 \<Rightarrow> bool" where
  "lz_ready s \<longleftrightarrow> lz_ok s \<and> 16777216 \<le> rng (rc s)"

abbreviation seq :: "xz_dec_lzma2 \<Rightarrow> lzma2_seq" where "seq s \<equiv> l2_sequence (lzma2 s)"
abbreviation nxt :: "xz_dec_lzma2 \<Rightarrow> lzma2_seq" where "nxt s \<equiv> next_sequence (lzma2 s)"
abbreviation usize :: "xz_dec_lzma2 \<Rightarrow> nat" where "usize s \<equiv> unat (l2_uncompressed (lzma2 s))"

text \<open>What is known at each position of the machine, once the dictionary has been reset.\<close>

definition seq_ok :: "xz_dec_lzma2 \<Rightarrow> bool" where
  "seq_ok s \<longleftrightarrow> (case seq s of
      SEQ_CONTROL \<Rightarrow> \<not> need_props (lzma2 s) \<longrightarrow> lz_ready s
    | SEQ_UNCOMPRESSED_1 \<Rightarrow> usize s \<le> 2031616 \<and> (nxt s = SEQ_PROPERTIES \<or> nxt s = SEQ_LZMA_PREPARE \<and> lz_ready s)
    | SEQ_UNCOMPRESSED_2 \<Rightarrow> usize s \<le> 2096896 \<and> (nxt s = SEQ_PROPERTIES \<or> nxt s = SEQ_LZMA_PREPARE \<and> lz_ready s)
    | SEQ_COMPRESSED_0 \<Rightarrow> nxt s = SEQ_COPY \<and> (\<not> need_props (lzma2 s) \<longrightarrow> lz_ready s) \<or>
        0 < usize s \<and> (nxt s = SEQ_PROPERTIES \<or> nxt s = SEQ_LZMA_PREPARE \<and> lz_ready s)
    | SEQ_COMPRESSED_1 \<Rightarrow> csize s \<le> 65280 \<and> (nxt s = SEQ_COPY \<and> (\<not> need_props (lzma2 s) \<longrightarrow> lz_ready s) \<or>
        0 < usize s \<and> (nxt s = SEQ_PROPERTIES \<or> nxt s = SEQ_LZMA_PREPARE \<and> lz_ready s))
    | SEQ_PROPERTIES \<Rightarrow> 0 < usize s
    | SEQ_LZMA_PREPARE \<Rightarrow> 0 < usize s \<and> lz_ready s
    | SEQ_LZMA_RUN \<Rightarrow> 0 < usize s \<and> lz_ready s \<and> tsize s \<le> 20 \<and> tsize s \<le> csize s
    | SEQ_COPY \<Rightarrow> 0 < csize s \<and> (\<not> need_props (lzma2 s) \<longrightarrow> lz_ready s))"

definition lzma2_inv :: "xz_dec_lzma2 \<Rightarrow> bool" where
  "lzma2_inv s \<longleftrightarrow> dict_mem (dict s) \<and> length (temp_buf s) = 63 \<and> (seq s \<noteq> SEQ_LZMA_RUN \<longrightarrow> temp_size s = 0) \<and>
     (if need_dict_reset (lzma2 s) then seq s = SEQ_CONTROL else dict_rest (dict s) \<and> seq_ok s)"

text \<open>The result of one turn: the loop goes on with less to do, or it returns.\<close>

definition turn_post :: "xz_buf \<Rightarrow> xz_ret option \<times> xz_dec_lzma2 \<times> xz_buf \<Rightarrow> bool" where
  "turn_post b x = (case x of (ret, s', b') \<Rightarrow> buf_step b b' \<and> ret \<noteq> Some XZ_UNSUPPORTED_CHECK \<and>
     (ret = None \<longrightarrow> lzma2_inv s' \<and> (in_pos b < in_pos b' \<or> out_pos b < out_pos b')) \<and>
     (ret = Some XZ_STREAM_END \<longrightarrow> lzma2_inv s' \<and> in_pos b < in_pos b') \<and>
     (ret = Some XZ_OK \<longrightarrow> lzma2_inv s' \<and> (in_pos b' = in_size b \<or> out_pos b' = out_size b)))"

lemma dict_rest_mem: "dict_rest d \<Longrightarrow> dict_mem d"
  by (simp add: dict_rest_def dict_ok_def dict_mem_def)

lemma lz_ok_grown: "lz_ok s \<Longrightarrow> dict_ok d \<Longrightarrow> dict_full (dict s) \<le> dict_full d \<Longrightarrow> dict_size d = dict_size (dict s) \<Longrightarrow> lz_ok (s\<lparr>dict := d\<rparr>)"
  by (auto simp: lz_ok_def)

lemma rng_reset [simp]: "16777216 \<le> rng (rc_reset r)"
  by (simp add: rc_reset_def unsigned_minus_1_eq_mask mask_eq_exp_minus_1)

lemma dict_limit_props:
  assumes "dict_rest d"
  shows "dict_ok (dict_limit d m)" "dict_pos (dict_limit d m) = dict_pos d" "dict_start (dict_limit d m) = dict_pos d"
    "dict_full (dict_limit d m) = dict_full d" "dict_size (dict_limit d m) = dict_size d" "dict_end (dict_limit d m) = dict_end d"
    "dict_pos d \<le> dict_lim (dict_limit d m)" "dict_lim (dict_limit d m) \<le> dict_end d" "dict_lim (dict_limit d m) \<le> dict_pos d + m"
    "0 < m \<Longrightarrow> dict_has_space (dict_limit d m)"
  using assms by (auto simp: dict_limit_def dict_rest_def dict_ok_def dict_has_space_def)

lemma seq_run_ok:
  "seq s = SEQ_LZMA_RUN \<Longrightarrow> \<not> need_dict_reset (lzma2 s) \<Longrightarrow> lzma2_inv s \<longleftrightarrow>
     dict_rest (dict s) \<and> length (temp_buf s) = 63 \<and> 0 < usize s \<and> lz_ready s \<and> tsize s \<le> 20 \<and> tsize s \<le> csize s"
  using dict_rest_mem by (auto simp: lzma2_inv_def seq_ok_def)

lemma lzma2_run_chunk_safe:
  assumes inv: "lzma2_inv s" and sq: "seq s = SEQ_LZMA_RUN" and nr: "\<not> need_dict_reset (lzma2 s)" and b: "buf_ok b"
  shows "returns (lzma2_run_chunk s b) (turn_post b)"
proof -
  have i: "dict_rest (dict s)" "length (temp_buf s) = 63" "0 < usize s" "lz_ready s" "tsize s \<le> 20" "tsize s \<le> csize s"
    using inv seq_run_ok [OF sq nr] by auto
  define m where "m = min (out_size b - out_pos b) (usize s)"
  define t where "t = s\<lparr>dict := dict_limit (dict s) m\<rparr>"
  note dl = dict_limit_props [OF i(1), of m]
  have "lz_ok t" unfolding t_def by (rule lz_ok_grown) (use i(4) dl in \<open>auto simp: lz_ready_def\<close>)
  hence ft: "feed_ok t" using i dl by (auto simp: feed_ok_def t_def lz_ready_def)
  obtain ok u c where u: "lzma2_lzma t b = Some (ok, u, c)" "ate b c" "fed t u" "ok \<longrightarrow> feed_ok u \<and>
      (dict_has_space (dict t) \<longrightarrow> dpos t < dpos u \<or> in_pos b < in_pos c \<or> in_pos c = in_size b \<and> tsize u < csize u)"
    using lzma2_lzma_safe [OF ft b] by (rule returnsE3) blast
  have bc: "buf_step b c" using ate_step [OF b u(2)] .
  show ?thesis
  proof (cases ok)
    case False
    thus ?thesis using u(1) bc by (simp add: lzma2_run_chunk_def m_def [symmetric] t_def [symmetric] turn_post_def)
  next
    case True
    hence fu: "feed_ok u" using u(4) by simp
    define n where "n = dpos u - dpos s"
    have g: "dict_start (dict u) = dpos s" "dpos s \<le> dpos u" "dpos u \<le> dpos s + m" "dict_full (dict s) \<le> dict_full (dict u)"
        "dict_size (dict u) = dict_size (dict s)"
      using u(3) dl feed_okD [OF fu] by (auto simp: fed_def grown_def same_dict_def t_def)
    have n: "n \<le> m" "n \<le> usize s" "n \<le> out_size b - out_pos b" using g by (auto simp: n_def m_def)
    have du: "dict_ok (dict u)" using fu by (simp add: feed_ok_def lz_ok_def)
    have "usize s < 2 ^ 32" using unsigned_less [of "l2_uncompressed (lzma2 s)", where ?'a = nat] by simp
    with dict_flush_safe [OF du buf_step_ok [OF bc]] g n ateD [OF u(2)]
    obtain k d e where e: "dict_flush (dict u) c = Some (k, d, e)" "buf_step c e" "in_pos e = in_pos c" "unat k = n"
        "out_pos e = out_pos b + n" "dict_rest d" "dict_full d = dict_full (dict u)" "dict_size d = dict_size (dict u)"
      by (auto simp: n_def elim!: returnsE)
    have be: "buf_step b e" using buf_step_trans [OF bc e(2)] .
    define v where "v = map_lzma2 (\<lambda>l. l\<lparr>l2_uncompressed := l2_uncompressed l - k\<rparr>) (u\<lparr>dict := d\<rparr>)"
    obtain cc where lu: "lzma2 u = (lzma2 s)\<lparr>l2_compressed := cc\<rparr>" using u(3) by (auto simp: fed_def t_def)
    have us: "usize v = usize s - n" using e(4) n(2) lu by (simp add: v_def unat_sub_if')
    have "lz_ok (u\<lparr>dict := d\<rparr>)" by (rule lz_ok_grown) (use fu e in \<open>auto simp: feed_ok_def dict_rest_def\<close>)
    hence vr: "lz_ready v" using fu by (auto simp: lz_ready_def lz_ok_def v_def feed_ok_def)
    have vo: "dict_rest (dict v)" "length (temp_buf v) = 63" "tsize v \<le> 20" "tsize v \<le> csize v" "seq v = SEQ_LZMA_RUN"
        "\<not> need_dict_reset (lzma2 v)"
      using e(6) fu lu sq nr by (auto simp: v_def feed_ok_def)
    have eq: "lzma2_run_chunk s b = (if l2_uncompressed (lzma2 v) = 0
         then if l2_compressed (lzma2 v) > 0 \<or> len (lzma v) > 0 \<or> \<not> rc_is_finished (rc v)
              then Some (Some XZ_DATA_ERROR, v, e)
              else Some (None, map_lzma2 (\<lambda>l. l\<lparr>l2_sequence := SEQ_CONTROL\<rparr>) (map_rc rc_reset v), e)
         else if out_pos e = out_size e \<or> in_pos e = in_size e \<and> temp_size v < l2_compressed (lzma2 v)
              then Some (Some XZ_OK, v, e)
         else Some (None, v, e))"
      unfolding lzma2_run_chunk_def Let_def m_def [symmetric] t_def [symmetric]
      by (simp only: u(1) e(1) True bind.bind_lunit prod.case not_True_eq_False if_False v_def [symmetric])
    show ?thesis
    proof (cases "l2_uncompressed (lzma2 v) = 0")
      case z: True
      hence "0 < n" using us i(3) by simp
      hence out: "out_pos b < out_pos e" using e(5) by simp
      define w where "w = map_lzma2 (\<lambda>l. l\<lparr>l2_sequence := SEQ_CONTROL\<rparr>) (map_rc rc_reset v)"
      have "lzma2_inv w" if "csize v = 0"
        using that vo vr dict_rest_mem [OF vo(1)]
        by (auto simp: w_def lzma2_inv_def seq_ok_def lz_ready_def lz_ok_def rng_reset unat_eq_zero)
      hence "lzma2_inv w" if "\<not> l2_compressed (lzma2 v) > 0" using that by (simp add: word_gt_0)
      thus ?thesis using be out unfolding eq w_def [symmetric] by (simp add: z turn_post_def)
    next
      case nz: False
      hence vi: "lzma2_inv v" using vo vr seq_run_ok [OF vo(5,6)] by (simp add: word_neq_0_conv unat_gt_0)
      show ?thesis
      proof (cases "out_pos e = out_size e \<or> in_pos e = in_size e \<and> temp_size v < l2_compressed (lzma2 v)")
        case True
        thus ?thesis using nz vi be buf_step_size [OF be] by (auto simp: eq turn_post_def)
      next
        case False
        have "0 < m" using False e(5) n(3) i(3) buf_step_size [OF be] be by (auto simp: m_def buf_step_def)
        hence "dpos t < dpos u \<or> in_pos b < in_pos c \<or> in_pos c = in_size b \<and> tsize u < csize u"
          using u(4) True dl(10) by (auto simp: t_def)
        moreover have "\<not> (in_pos c = in_size b \<and> tsize u < csize u)"
          using False e(3) buf_step_size [OF be] by (auto simp: v_def word_less_nat_alt)
        moreover have "dpos t = dpos s" using dl(2) by (simp add: t_def)
        ultimately have "in_pos b < in_pos e \<or> out_pos b < out_pos e" using e(3,5) by (auto simp: n_def)
        thus ?thesis using nz False vi be by (simp only: eq if_False turn_post_def prod.case returns_Some simp_thms option.distinct)
      qed
    qed
  qed
qed

section \<open>The other positions\<close>

lemma next_byte_safe:
  assumes "in_pos b < in_size b" "buf_ok b"
  shows "next_byte b = Some (b_in b ! in_pos b, b\<lparr>in_pos := in_pos b + 1\<rparr>)" "buf_step b (b\<lparr>in_pos := in_pos b + 1\<rparr>)"
  using assms by (auto simp: next_byte_def buf_step_def buf_ok_def)

lemma rc_read_init_safe:
  assumes "buf_ok b"
  shows "returns (rc_read_init r b) (\<lambda>(ok, r', b'). ate b b' \<and> rc_range r' = rc_range r \<and> (\<not> ok \<longrightarrow> in_pos b' = in_size b))"
  using assms
proof (induction r b rule: rc_read_init.induct)
  case (1 r b)
  show ?case
  proof (cases "init_bytes_left r > 0 \<and> in_pos b \<noteq> in_size b")
    case True
    hence lt: "in_pos b < in_size b" using "1.prems" by (simp add: buf_ok_def)
    define r' where "r' = r\<lparr>rc_code := push_bit 8 (rc_code r) + ucast (b_in b ! in_pos b), init_bytes_left := init_bytes_left r - 1\<rparr>"
    define b' where "b' = b\<lparr>in_pos := in_pos b + 1\<rparr>"
    have "ate b b'" using lt by (auto simp: b'_def intro: ateI)
    moreover have "returns (rc_read_init r' b') (\<lambda>(ok, r'', b''). ate b' b'' \<and> rc_range r'' = rc_range r' \<and> (\<not> ok \<longrightarrow> in_pos b'' = in_size b'))"
      unfolding r'_def b'_def by (rule "1.IH") (use True lt "1.prems" in \<open>auto simp: buf_ok_def\<close>)
    moreover have "rc_read_init r b = rc_read_init r' b'" using True lt by (simp add: rc_read_init.simps [of r b] r'_def b'_def)
    ultimately show ?thesis by (auto simp: r'_def b'_def elim!: returns_mono intro: ate_trans)
  next
    case False
    thus ?thesis using "1.prems" by (auto simp: rc_read_init.simps [of r b] buf_ok_def ate_refl)
  qed
qed

lemma lz_ready_reset:
  assumes "props_ok (lzma s)" "dict_ok (dict s)"
  shows "lz_ready (lzma_reset s)"
  using assms by (simp add: lz_ready_def lz_ok_def lzma_reset_def prob_ok_def props_ok_def)

lemma turn_post_trans: "buf_step b c \<Longrightarrow> returns m (turn_post c) \<Longrightarrow> returns m (turn_post b)"
  by (erule returns_mono) (auto simp: turn_post_def intro: buf_step_trans dest: buf_step_pos buf_step_size)

lemma lzma2_prepare_safe:
  assumes inv: "lzma2_inv s" and sq: "seq s = SEQ_LZMA_PREPARE" and b: "buf_ok b"
  shows "returns (lzma2_prepare s b) (turn_post b)"
proof -
  have nr: "\<not> need_dict_reset (lzma2 s)" using inv sq by (auto simp: lzma2_inv_def split: if_splits)
  have i: "dict_rest (dict s)" "0 < usize s" "lz_ready s" "temp_size s = 0" "length (temp_buf s) = 63"
    using inv nr sq by (auto simp: lzma2_inv_def seq_ok_def)
  obtain ok r c where r: "rc_read_init (rc s) b = Some (ok, r, c)" "ate b c" "rc_range r = rc_range (rc s)" "\<not> ok \<longrightarrow> in_pos c = in_size b"
    using rc_read_init_safe [OF b] by (rule returnsE3) blast
  have bc: "buf_step b c" using ate_step [OF b r(2)] .
  define t where "t = s\<lparr>rc := r\<rparr>"
  have rt: "lz_ready t" using i(3) r(3) by (auto simp: lz_ready_def lz_ok_def t_def)
  define u where "u = map_lzma2 (\<lambda>l. l\<lparr>l2_compressed := l2_compressed l - RC_INIT_BYTES, l2_sequence := SEQ_LZMA_RUN\<rparr>) t"
  have ru: "lz_ready u" using rt by (auto simp: lz_ready_def lz_ok_def u_def)
  have "lzma2_inv t" using inv sq nr i rt by (auto simp: lzma2_inv_def seq_ok_def t_def)
  moreover have "lzma2_inv u" "seq u = SEQ_LZMA_RUN" "\<not> need_dict_reset (lzma2 u)"
    using i nr ru dict_rest_mem [OF i(1)] by (auto simp: lzma2_inv_def seq_ok_def u_def t_def)
  ultimately show ?thesis using r lzma2_run_chunk_safe [of u c] turn_post_trans [OF bc] buf_step_ok [OF bc] bc buf_step_refl [OF b]
    by (auto simp: lzma2_prepare_def Let_def t_def [symmetric] u_def [symmetric] turn_post_def)
qed

lemma props_loop_eq: "0 < step \<Longrightarrow> props_loop step n p = (n + p div step, p mod step)"
proof (induction step n p rule: props_loop.induct)
  case (1 step n p)
  thus ?case by (cases "step \<le> p") (simp_all add: props_loop.simps [of step n p] le_div_geq le_mod_geq)
qed

lemma lzma_props_safe:
  assumes "lzma_props v s = (ok, s')" "dict_ok (dict s)"
  shows "ok \<longrightarrow> lz_ready s' \<and> dict s' = dict s \<and> lzma2 s' = lzma2 s \<and> temp_size s' = temp_size s \<and> temp_buf s' = temp_buf s"
proof (intro impI)
  assume ok
  define pb where "pb = unat v div 45"
  define lp where "lp = unat v mod 45 div 9"
  define lc' where "lc' = unat v mod 45 mod 9"
  have v: "\<not> v > 224" "lc' + lp \<le> 4"
    and s': "s' = lzma_reset (map_lzma (\<lambda>z. z\<lparr>pos_mask := push_bit pb 1 - 1, lc := of_nat lc', literal_pos_mask := push_bit lp 1 - 1\<rparr>) s)"
    using assms(1) \<open>ok\<close> by (auto simp: lzma_props_def props_loop_eq Let_def pb_def lp_def lc'_def split: if_splits)
  have pb: "pb \<le> 4" using v(1) by (simp add: pb_def not_less word_le_nat_alt)
  have "unat (push_bit pb 1 - 1 :: u32) \<le> 15"
  proof -
    have "pb \<in> {0, 1, 2, 3, 4}" using pb by auto
    thus ?thesis by auto
  qed
  moreover have "push_bit lp 1 - 1 = (mask lp :: u32)" by (simp add: mask_eq_exp_minus_1 push_bit_eq_mult)
  moreover have "unat (of_nat lc' :: u32) = lc'" using v(2) by (subst unat_of_nat) simp
  ultimately show "lz_ready s' \<and> dict s' = dict s \<and> lzma2 s' = lzma2 s \<and> temp_size s' = temp_size s \<and> temp_buf s' = temp_buf s"
    using v(2) assms(2) unfolding s'
    by (intro conjI lz_ready_reset) (auto simp: props_ok_def lzma_reset_def)
qed

lemma dict_reset_rest: "dict_mem d \<Longrightarrow> dict_rest (dict_reset d)"
  by (simp add: dict_mem_def dict_rest_def dict_ok_def dict_reset_def)

lemma chunk_size_bound: "unat (push_bit 16 (ucast (v AND 0x1F)) :: u32) \<le> 2031616" for v :: byte
proof -
  have "unat (v AND 0x1F) \<le> 31"
    using word_and_le1 [of v "0x1F"] by (simp add: word_le_nat_alt)
  hence "unat (ucast (v AND 0x1F) :: u32) \<le> 31" by (simp add: unsigned_ucast_eq take_bit_nat_eq_self)
  thus ?thesis by (simp only: unat_push_bit) simp
qed

lemma lzma2_control_safe:
  assumes inv: "lzma2_inv s" and sq: "seq s = SEQ_CONTROL" and b: "buf_ok b" and i: "in_pos b < in_size b"
  shows "returns (lzma2_control s b) (turn_post b)"
proof -
  define v where "v = b_in b ! in_pos b"
  define c where "c = b\<lparr>in_pos := in_pos b + 1\<rparr>"
  have c: "next_byte b = Some (v, c)" "buf_step b c" "in_pos b < in_pos c"
    using next_byte_safe [OF i b] by (auto simp: v_def c_def)
  have s: "dict_mem (dict s)" "length (temp_buf s) = 63" "temp_size s = 0"
      "\<not> need_dict_reset (lzma2 s) \<Longrightarrow> dict_rest (dict s)"
      "\<not> need_dict_reset (lzma2 s) \<Longrightarrow> \<not> need_props (lzma2 s) \<Longrightarrow> lz_ready s"
    using inv sq by (auto simp: lzma2_inv_def seq_ok_def split: if_splits)
  have rst: "lz_ready (lzma_reset t)" if "lz_ready t" for t
    using that by (intro lz_ready_reset) (auto simp: lz_ready_def lz_ok_def)
  define resets where "resets \<longleftrightarrow> v \<ge> 0xE0 \<or> v = 1"
  define t where "t = (if resets then map_lzma2 (\<lambda>l. l\<lparr>need_props := True, need_dict_reset := False\<rparr>) (s\<lparr>dict := dict_reset (dict s)\<rparr>) else s)"
  have t: "dict_rest (dict t)" "dict_mem (dict t)" "length (temp_buf t) = 63" "temp_size t = 0" "\<not> need_dict_reset (lzma2 t)"
      "\<not> need_props (lzma2 t) \<Longrightarrow> lz_ready t" if "resets \<or> \<not> need_dict_reset (lzma2 s)"
    using s that by (auto simp: t_def dict_reset_rest intro: dict_rest_mem split: if_splits)
  have keep: "lz_ready (map_lzma2 f u) = lz_ready u" for f u by (simp add: lz_ready_def lz_ok_def)
  have keep': "lz_ready (u\<lparr>lzma2 := x\<rparr>) = lz_ready u" for x u by (simp add: lz_ready_def lz_ok_def)
  have body: "turn_post b (None, u, c)" if "lzma2_inv u" for u using that c by (simp add: turn_post_def)
  have stop: "turn_post b (Some r, u, c)" if "r \<noteq> XZ_OK" "r \<noteq> XZ_UNSUPPORTED_CHECK" "r = XZ_STREAM_END \<longrightarrow> lzma2_inv u" for u r using that c by (simp add: turn_post_def)
  show ?thesis
  proof (cases "resets \<or> \<not> need_dict_reset (lzma2 s)")
    case False
    thus ?thesis using c(1) stop inv by (auto simp: lzma2_control_def resets_def Let_def)
  next
    case True
    note t = t [OF True]
    have g: "(\<not> resets \<and> need_dict_reset (lzma2 s)) = False" using True by blast
    define u where "u = map_lzma2 (\<lambda>l. l\<lparr>l2_uncompressed := push_bit 16 (ucast (v AND 0x1F)), l2_sequence := SEQ_UNCOMPRESSED_1\<rparr>) t"
    define w where "w = map_lzma2 (\<lambda>l. l\<lparr>next_sequence := SEQ_LZMA_PREPARE\<rparr>) u"
    define p where "p = map_lzma2 (\<lambda>l. l\<lparr>need_props := False, next_sequence := SEQ_PROPERTIES\<rparr>) u"
    define q where "q = map_lzma2 (\<lambda>l. l\<lparr>l2_sequence := SEQ_COMPRESSED_0, next_sequence := SEQ_COPY\<rparr>) t"
    have eq: "lzma2_control s b = (if v = 0 then Some (Some XZ_STREAM_END, s, c)
      else if v \<ge> 0x80 then
         if v \<ge> 0xC0 then Some (None, p, c)
         else if need_props (lzma2 u) then Some (Some XZ_DATA_ERROR, u, c)
         else Some (None, (if v \<ge> 0xA0 then lzma_reset w else w), c)
      else if v > 2 then Some (Some XZ_DATA_ERROR, t, c) else Some (None, q, c))"
      by (simp only: lzma2_control_def Let_def c(1) bind.bind_lunit prod.case resets_def [symmetric] t_def [symmetric] g if_False
        u_def [symmetric] w_def [symmetric] p_def [symmetric] q_def [symmetric])
    have p: "lzma2_inv p" using t chunk_size_bound [of v] by (simp add: lzma2_inv_def seq_ok_def p_def u_def)
    have q: "lzma2_inv q" using t by (simp add: lzma2_inv_def seq_ok_def q_def keep')
    have w: "lzma2_inv w" "lz_ready w" if "\<not> need_props (lzma2 u)"
      using that t chunk_size_bound [of v] by (simp_all add: lzma2_inv_def seq_ok_def w_def u_def keep')
    have "lzma2_inv (lzma_reset w)" if "\<not> need_props (lzma2 u)"
      using w [OF that] rst [OF w(2) [OF that]] by (auto simp: lzma2_inv_def seq_ok_def w_def u_def lzma_reset_def)
    thus ?thesis using p q w body stop inv by (simp add: eq)
  qed
qed

lemma size_bytes:
  fixes a :: u32 and v :: byte
  shows "unat (push_bit 8 (ucast v) :: u32) \<le> 65280"
    "unat a \<le> 2031616 \<Longrightarrow> unat (a + push_bit 8 (ucast v)) \<le> 2096896"
    "unat a \<le> 2096896 \<Longrightarrow> 0 < unat (a + (ucast v + 1))"
proof -
  have v: "unat v \<le> 255" using unsigned_less [of v, where ?'a = nat] by (simp add: less_Suc_eq_le flip: Suc_le_eq)
  have u: "unat (ucast v :: u32) = unat v" using v by (simp add: unsigned_ucast_eq take_bit_nat_eq_self)
  have p: "unat (push_bit 8 (ucast v) :: u32) = 256 * unat v" using v by (simp only: unat_push_bit u) simp
  show "unat (push_bit 8 (ucast v) :: u32) \<le> 65280" using p v by simp
  show "unat a \<le> 2031616 \<Longrightarrow> unat (a + push_bit 8 (ucast v)) \<le> 2096896"
    using v by (simp only: unat_word_ariths p) simp
  have o: "unat (ucast v + 1 :: u32) = unat v + 1" using v by (simp only: unat_word_ariths u) simp
  show "unat a \<le> 2096896 \<Longrightarrow> 0 < unat (a + (ucast v + 1))"
    using v by (subst unat_word_ariths) (simp add: o)
qed

lemma lz_ready_lzma2 [simp]: "lz_ready (u\<lparr>lzma2 := x\<rparr>) = lz_ready u"
  by (simp add: lz_ready_def lz_ok_def)

lemma lzma2_turn_header:
  assumes inv: "lzma2_inv s" and b: "buf_ok b" and i: "in_pos b < in_size b"
    and sq: "seq s \<in> {SEQ_UNCOMPRESSED_1, SEQ_UNCOMPRESSED_2, SEQ_COMPRESSED_0, SEQ_COMPRESSED_1}"
  shows "returns (lzma2_turn s b) (turn_post b)"
proof -
  define v where "v = b_in b ! in_pos b"
  define c where "c = b\<lparr>in_pos := in_pos b + 1\<rparr>"
  have c: "next_byte b = Some (v, c)" "buf_step b c" "in_pos b < in_pos c"
    using next_byte_safe [OF i b] by (auto simp: v_def c_def)
  have "\<not> need_dict_reset (lzma2 s)" using inv sq by (auto simp: lzma2_inv_def split: if_splits)
  thus ?thesis using inv sq c size_bytes(1) [of v] size_bytes(2,3) [of "l2_uncompressed (lzma2 s)" v]
      size_bytes(3) [of "l2_compressed (lzma2 s)" v]
    by (auto simp: lzma2_turn_def turn_post_def lzma2_inv_def seq_ok_def)
qed

lemma lzma2_turn_safe:
  assumes inv: "lzma2_inv s" and b: "buf_ok b" and i: "in_pos b < in_size b \<or> seq s = SEQ_LZMA_RUN"
  shows "returns (lzma2_turn s b) (turn_post b)"
proof (cases "seq s")
  case SEQ_CONTROL
  thus ?thesis using lzma2_control_safe [OF inv _ b] i by (simp add: lzma2_turn_def)
next
  case SEQ_PROPERTIES
  define v where "v = b_in b ! in_pos b"
  define c where "c = b\<lparr>in_pos := in_pos b + 1\<rparr>"
  have c: "next_byte b = Some (v, c)" "buf_step b c" "buf_ok c"
    using next_byte_safe i b SEQ_PROPERTIES buf_step_ok by (auto simp: v_def c_def)
  have s: "\<not> need_dict_reset (lzma2 s)" "dict_rest (dict s)" "0 < usize s" "temp_size s = 0" "length (temp_buf s) = 63"
    using inv SEQ_PROPERTIES by (auto simp: lzma2_inv_def seq_ok_def split: if_splits)
  obtain ok t where t: "lzma_props v s = (ok, t)" by fastforce
  define u where "u = map_lzma2 (\<lambda>l. l\<lparr>l2_sequence := SEQ_LZMA_PREPARE\<rparr>) t"
  have "lzma2_inv u" if ok
    using that lzma_props_safe [OF t] s dict_rest_mem [OF s(2)] by (auto simp: u_def lzma2_inv_def seq_ok_def dict_rest_def)
  moreover have "lzma2_turn s b = (if ok then lzma2_prepare u c else Some (Some XZ_DATA_ERROR, t, c))"
    using SEQ_PROPERTIES c(1) t by (simp add: lzma2_turn_def u_def)
  moreover have "seq u = SEQ_LZMA_PREPARE" by (simp add: u_def)
  ultimately show ?thesis using lzma2_prepare_safe [of u c] turn_post_trans [OF c(2)] c(2,3) by (simp add: turn_post_def)
next
  case SEQ_LZMA_PREPARE
  thus ?thesis using lzma2_prepare_safe [OF inv _ b] by (simp add: lzma2_turn_def)
next
  case SEQ_LZMA_RUN
  moreover have "\<not> need_dict_reset (lzma2 s)" using inv SEQ_LZMA_RUN by (auto simp: lzma2_inv_def split: if_splits)
  ultimately show ?thesis using lzma2_run_chunk_safe [OF inv _ _ b] by (simp add: lzma2_turn_def)
next
  case SEQ_COPY
  have s: "\<not> need_dict_reset (lzma2 s)" "dict_rest (dict s)" "0 < l2_compressed (lzma2 s)" "temp_size s = 0"
      "length (temp_buf s) = 63" "\<not> need_props (lzma2 s) \<longrightarrow> lz_ready s"
    using inv SEQ_COPY by (auto simp: lzma2_inv_def seq_ok_def word_gt_0 split: if_splits)
  obtain left d c where c: "dict_uncompressed (dict s) b (l2_compressed (lzma2 s)) = Some (left, d, c)" "buf_step b c" "dict_rest d"
      "dict_full (dict s) \<le> dict_full d" "dict_size d = dict_size (dict s)"
      "left > 0 \<longrightarrow> in_pos c = in_size b \<or> out_pos c = out_size b" "left = 0 \<longrightarrow> in_pos b < in_pos c"
    using dict_uncompressed_safe [OF s(2) b, of "l2_compressed (lzma2 s)"] s(3) by (elim returnsE3) blast
  have "lz_ready (s\<lparr>dict := d\<rparr>)" if "lz_ready s"
    using that lz_ok_grown [of s d] c by (auto simp: lz_ready_def dict_rest_def)
  thus ?thesis using SEQ_COPY s c dict_rest_mem [OF c(3)]
    by (auto simp: lzma2_turn_def Let_def turn_post_def lzma2_inv_def seq_ok_def word_gt_0 unat_gt_0)
qed (use lzma2_turn_header [OF inv b] i in auto)

lemma xz_dec_lzma2_run_safe:
  assumes "lzma2_inv s" "buf_ok b"
  shows "returns (xz_dec_lzma2_run s b) (\<lambda>(ret, s', b'). buf_step b b' \<and> ret \<noteq> XZ_UNSUPPORTED_CHECK \<and>
    (ret = XZ_STREAM_END \<longrightarrow> lzma2_inv s' \<and> in_pos b < in_pos b') \<and>
    (ret = XZ_OK \<longrightarrow> lzma2_inv s' \<and> (in_pos b' = in_size b \<or> out_pos b' = out_size b)))"
  using assms
proof (induction "(in_size b - in_pos b) + (out_size b - out_pos b)" arbitrary: s b rule: less_induct)
  case less
  show ?case
  proof (cases "in_pos b < in_size b \<or> seq s = SEQ_LZMA_RUN")
    case False
    thus ?thesis using less.prems by (subst xz_dec_lzma2_run.simps) (auto simp: buf_step_refl buf_ok_def)
  next
    case True
    obtain ret t c where t: "lzma2_turn s b = Some (ret, t, c)" "turn_post b (ret, t, c)"
      using lzma2_turn_safe [OF less.prems True] by (auto elim!: returnsE)
    have bc: "buf_step b c" using t(2) by (simp add: turn_post_def)
    note eq = xz_dec_lzma2_run.simps [of s b]
    show ?thesis
    proof (cases ret)
      case (Some r)
      thus ?thesis using t True by (auto simp: eq turn_post_def)
    next
      case None
      hence "lzma2_inv t" "in_pos b < in_pos c \<or> out_pos b < out_pos c" using t(2) by (auto simp: turn_post_def)
      moreover have "in_pos b \<le> in_pos c" "in_pos c \<le> in_size b" "out_pos b \<le> out_pos c" "out_pos c \<le> out_size b"
          "in_size c = in_size b" "out_size c = out_size b"
        using bc by (auto simp: buf_step_def)
      ultimately have "returns (xz_dec_lzma2_run t c) (\<lambda>(ret, s', b'). buf_step c b' \<and> ret \<noteq> XZ_UNSUPPORTED_CHECK \<and>
          (ret = XZ_STREAM_END \<longrightarrow> lzma2_inv s' \<and> in_pos c < in_pos b') \<and>
          (ret = XZ_OK \<longrightarrow> lzma2_inv s' \<and> (in_pos b' = in_size c \<or> out_pos b' = out_size c)))"
        by (intro less.hyps buf_step_ok [OF bc]) auto
      moreover have "xz_dec_lzma2_run s b = xz_dec_lzma2_run t c" using None t(1) True by (simp add: eq)
      ultimately show ?thesis using \<open>in_size c = in_size b\<close> \<open>out_size c = out_size b\<close> \<open>in_pos b \<le> in_pos c\<close>
        by (auto elim!: returns_mono intro: buf_step_trans [OF bc])
    qed
  qed
qed

lemma size_props: "v \<le> 39 \<Longrightarrow> 0 < unat (push_bit (unat (drop_bit 1 v) + 11) (2 + ucast (v AND 1)) :: u32)" for v :: byte
proof -
  assume "v \<le> 39"
  define k where "k = unat (drop_bit 1 v)"
  have "k = unat v div 2" by (simp add: k_def unat_div drop_bit_Suc)
  hence k: "k \<le> 19" using \<open>v \<le> 39\<close> by (simp add: word_le_nat_alt)
  have "v AND 1 = 0 \<or> v AND 1 = 1" by (simp add: and_one_eq mod_2_eq_odd)
  hence w: "unat (2 + ucast (v AND 1) :: u32) \<in> {2, 3}" by auto
  have "(2::nat) ^ (k + 11) \<le> 2 ^ 30" using k by (intro power_increasing) auto
  hence "unat (2 + ucast (v AND 1) :: u32) * 2 ^ (k + 11) < 4294967296" using w by auto
  thus ?thesis using w unfolding k_def [symmetric] unat_push_bit by auto
qed

lemma xz_dec_lzma2_reset_inv:
  assumes "xz_dec_lzma2_reset alloc s v = (XZ_OK, s')" "dict_mode (dict s) = XZ_DYNALLOC" "dict_allocated (dict s) = 0"
    "length (temp_buf s) = 63"
  shows "lzma2_inv s' \<and> dict_mode (dict s') = XZ_DYNALLOC \<and> dict_allocated (dict s') = 0 \<and> length (temp_buf s') = 63"
  using assms size_props [of v]
  by (auto simp: xz_dec_lzma2_reset_def Let_def lzma2_inv_def dict_mem_def vmalloc_dict_def word_gt_0 unat_gt_0 not_less split: if_splits)

lemma lzma2_inv_static: "lzma2_inv s \<Longrightarrow> dict_mode (dict s) = XZ_DYNALLOC \<and> dict_allocated (dict s) = 0 \<and> length (temp_buf s) = 63"
  by (simp add: lzma2_inv_def dict_mem_def)

lemma create_static:
  "xz_dec_lzma2_create ok junk XZ_DYNALLOC n = Some s \<Longrightarrow>
     dict_mode (dict s) = XZ_DYNALLOC \<and> dict_allocated (dict s) = 0 \<and> temp_buf s = temp_buf junk"
  by (auto simp: xz_dec_lzma2_create_def vmalloc_dict_def Let_def split: if_splits)

text \<open>
  The states in which the container calls \<open>xz_dec_lzma2_run\<close>: after a reset of a new decoder or of one that
  reached the end of a block, and after a call that asks for more input or more space.
\<close>

inductive lzma2_live :: "xz_dec_lzma2 \<Rightarrow> bool" where
  first: "xz_dec_lzma2_create ok junk XZ_DYNALLOC n = Some s \<Longrightarrow> length (temp_buf junk) = 63 \<Longrightarrow>
    xz_dec_lzma2_reset alloc s v = (XZ_OK, s') \<Longrightarrow> lzma2_live s'"
| again: "lzma2_live s \<Longrightarrow> buf_ok b \<Longrightarrow> xz_dec_lzma2_run s b = Some (XZ_OK, s', b') \<Longrightarrow> lzma2_live s'"
| block: "lzma2_live s \<Longrightarrow> buf_ok b \<Longrightarrow> xz_dec_lzma2_run s b = Some (XZ_STREAM_END, s', b') \<Longrightarrow>
    xz_dec_lzma2_reset alloc s' v = (XZ_OK, s'') \<Longrightarrow> lzma2_live s''"

lemma lzma2_live_inv: "lzma2_live s \<Longrightarrow> lzma2_inv s"
proof (induction rule: lzma2_live.induct)
  case (first ok junk n s alloc v s')
  thus ?case using xz_dec_lzma2_reset_inv create_static by metis
next
  case (again s b s' b')
  thus ?case using returns_value [OF again(3) xz_dec_lzma2_run_safe] by simp
next
  case (block s b s' b' alloc v s'')
  have "lzma2_inv s'" using returns_value [OF block(3) xz_dec_lzma2_run_safe] block by simp
  thus ?case using xz_dec_lzma2_reset_inv [OF block(4)] lzma2_inv_static by blast
qed

text \<open>A decoder with a dictionary of 4 KiB, after its first reset (for examples).\<close>

definition new_lzma2 :: xz_dec_lzma2 where
  "new_lzma2 = \<lparr>rc = \<lparr>rc_range = 0, rc_code = 0, init_bytes_left = 0, rc_in = [], rc_in_pos = 0, rc_in_limit = 0\<rparr>,
     dict = \<lparr>dict_buf = (\<lambda>_. None), dict_cap = 0, dict_start = 0, dict_pos = 0, dict_full = 0, dict_lim = 0, dict_end = 0,
       dict_size = 0, dict_size_max = 0, dict_allocated = 0, dict_mode = XZ_SINGLE\<rparr>,
     lzma2 = \<lparr>l2_sequence = SEQ_CONTROL, next_sequence = SEQ_CONTROL, l2_uncompressed = 0, l2_compressed = 0,
       need_dict_reset = False, need_props = False\<rparr>,
     lzma = \<lparr>rep0 = 0, rep1 = 0, rep2 = 0, rep3 = 0, lzma_state = 0, len = 0, lc = 0, literal_pos_mask = 0, pos_mask = 0,
       probs = (\<lambda>_. 0)\<rparr>,
     temp_size = 0, temp_buf = replicate 63 0\<rparr>"

definition sample_lzma2 :: xz_dec_lzma2 where
  "sample_lzma2 = snd (xz_dec_lzma2_reset (\<lambda>_. True) (the (xz_dec_lzma2_create True new_lzma2 XZ_DYNALLOC 4096)) 0)"

lemma sample_lzma2_live: "lzma2_live sample_lzma2"
proof (rule lzma2_live.first)
  show "xz_dec_lzma2_create True new_lzma2 XZ_DYNALLOC 4096 = Some (the (xz_dec_lzma2_create True new_lzma2 XZ_DYNALLOC 4096))"
    by (simp add: xz_dec_lzma2_create_def)
  show "length (temp_buf new_lzma2) = 63" by (simp add: new_lzma2_def)
  show "xz_dec_lzma2_reset (\<lambda>_. True) (the (xz_dec_lzma2_create True new_lzma2 XZ_DYNALLOC 4096)) 0 = (XZ_OK, sample_lzma2)"
    by (simp add: sample_lzma2_def xz_dec_lzma2_create_def xz_dec_lzma2_reset_def vmalloc_dict_def Let_def)
qed

text \<open>
  C15: The LZMA2 decoder on arbitrary, possibly hostile, input.  However the decoder got where it is, and
  whatever bytes it is given, a call returns: it reads only inside the input, inside its dictionary and
  only bytes of it that were written, inside its temporary buffer and inside the array of probabilities.  It writes no
  byte of the output but those from the old output position to the new one, moves both positions forward
  and never past the end, and reports \<open>XZ_OK\<close> only when the input is used up or the output is full.
\<close>

theorem lzma2_decoder_total:
  assumes "lzma2_live s" "in_pos b \<le> in_size b" "out_pos b \<le> out_size b"
  shows "\<exists>ret s' b'. xz_dec_lzma2_run s b = Some (ret, s', b') \<and> b_in b' = b_in b \<and>
    in_pos b \<le> in_pos b' \<and> in_pos b' \<le> in_size b \<and>
    out_size b' = out_size b \<and> out_pos b \<le> out_pos b' \<and> out_pos b' \<le> out_size b \<and>
    take (out_pos b) (b_out b') = take (out_pos b) (b_out b) \<and> drop (out_pos b') (b_out b') = drop (out_pos b') (b_out b) \<and>
    (ret = XZ_OK \<longrightarrow> in_pos b' = in_size b \<or> out_pos b' = out_size b)"
proof -
  have "buf_ok b" using assms by (simp add: buf_ok_def)
  from xz_dec_lzma2_run_safe [OF lzma2_live_inv [OF assms(1)] this]
  obtain ret s' b' where "xz_dec_lzma2_run s b = Some (ret, s', b')" "buf_step b b'"
      "ret = XZ_OK \<longrightarrow> in_pos b' = in_size b \<or> out_pos b' = out_size b"
    by (auto elim!: returnsE)
  thus ?thesis by (auto simp: buf_step_def)
qed

theorem lzma2_decoder_total_witness:
  "lzma2_live sample_lzma2 \<and> xz_dec_lzma2_run sample_lzma2 \<lparr>b_in = [1, 0, 0, 7], in_pos = 0, b_out = [0, 0], out_pos = 1\<rparr> \<noteq> None"
proof -
  have "lzma2_live sample_lzma2" by (rule sample_lzma2_live)
  thus ?thesis using lzma2_decoder_total [of sample_lzma2 "\<lparr>b_in = [1, 0, 0, 7], in_pos = 0, b_out = [0, 0], out_pos = 1\<rparr>"] by fastforce
qed

end
