(* ===== verification/Xz_Stream.thy ===== *)
theory Xz_Stream
  imports Xz_Lzma2
begin

text \<open>
  The container of XZ Embedded (\<open>external/lzma/xz_dec_stream.c\<close>) and its caller \<open>decompress_xz\<close>
  (\<open>loader/src/common/elf_util.cpp\<close>).  The library is built with \<open>XZ_DEC_ANY_CHECK\<close> and without
  \<open>XZ_DEC_BCJ\<close>.  As in the decoder below it, \<open>None\<close> is an access outside an array, a shift by the width of its
  operand or more, or a loop that does not end.
\<close>

section \<open>CRC32\<close>

definition crc_bit :: "u32 \<Rightarrow> u32" where
  "crc_bit crc = drop_bit 1 crc XOR (0xedb88320 AND (0 - (crc AND 1)))"

definition crc_byte :: "byte \<Rightarrow> u32 \<Rightarrow> u32" where
  "crc_byte v crc = (crc_bit ^^ 8) (crc XOR ucast v)"

definition xz_crc32 :: "byte list \<Rightarrow> u32 \<Rightarrow> u32" where
  "xz_crc32 buf crc = NOT (fold crc_byte buf (NOT crc))"

section \<open>The state of the decoder\<close>

type_synonym vli_type = addr

definition VLI_UNKNOWN :: vli_type where "VLI_UNKNOWN = - 1"
definition VLI_BYTES_MAX :: nat where "VLI_BYTES_MAX = 9"
definition STREAM_HEADER_SIZE :: nat where "STREAM_HEADER_SIZE = 12"
definition HEADER_MAGIC :: "byte list" where "HEADER_MAGIC = [0xFD, 0x37, 0x7A, 0x58, 0x5A, 0]"
definition HEADER_MAGIC_SIZE :: nat where "HEADER_MAGIC_SIZE = 6"
definition FOOTER_MAGIC :: "byte list" where "FOOTER_MAGIC = [0x59, 0x5A]"
definition FOOTER_MAGIC_SIZE :: nat where "FOOTER_MAGIC_SIZE = 2"
definition XZ_CHECK_CRC32 :: u32 where "XZ_CHECK_CRC32 = 1"
definition XZ_CHECK_MAX :: u32 where "XZ_CHECK_MAX = 15"

definition check_sizes :: "byte list" where
  "check_sizes = [0, 4, 4, 4, 8, 8, 8, 16, 16, 16, 32, 32, 32, 64, 64, 64]"

definition check_size :: "u32 \<Rightarrow> byte option" where
  "check_size t = (if unat t < length check_sizes then Some (check_sizes ! unat t) else None)"

datatype dec_seq = SEQ_STREAM_HEADER | SEQ_BLOCK_START | SEQ_BLOCK_HEADER | SEQ_BLOCK_UNCOMPRESS | SEQ_BLOCK_PADDING
  | SEQ_BLOCK_CHECK | SEQ_INDEX | SEQ_INDEX_PADDING | SEQ_INDEX_CRC32 | SEQ_STREAM_FOOTER

datatype index_seq = SEQ_INDEX_COUNT | SEQ_INDEX_UNPADDED | SEQ_INDEX_UNCOMPRESSED

record xz_dec_hash =
  h_unpadded :: vli_type
  h_uncompressed :: vli_type
  h_crc32 :: u32

record xz_block_header =
  bh_compressed :: vli_type
  bh_uncompressed :: vli_type
  bh_size :: u32

record xz_block =
  blk_compressed :: vli_type
  blk_uncompressed :: vli_type
  blk_count :: vli_type
  blk_hash :: xz_dec_hash

record xz_index =
  ix_sequence :: index_seq
  ix_size :: vli_type
  ix_count :: vli_type
  ix_hash :: xz_dec_hash

text \<open>\<open>hdr_pos\<close>, \<open>hdr_size\<close> and \<open>hdr_buf\<close> are the members of \<open>temp\<close>; \<open>vmallocs\<close> counts the dictionaries asked for.\<close>

record xz_dec =
  sequence :: dec_seq
  vpos :: u32
  vli :: vli_type
  in_start :: nat
  out_start :: nat
  dec_crc32 :: u32
  check_type :: u32
  dec_mode :: xz_mode
  allow_buf_error :: bool
  block_header :: xz_block_header
  dec_block_info :: xz_block
  dec_index_info :: xz_index
  hdr_pos :: nat
  hdr_size :: nat
  hdr_buf :: "byte list"
  dec_lzma2 :: xz_dec_lzma2
  vmallocs :: nat

abbreviation map_header :: "(xz_block_header \<Rightarrow> xz_block_header) \<Rightarrow> xz_dec \<Rightarrow> xz_dec" where
  "map_header f s \<equiv> s\<lparr>block_header := f (block_header s)\<rparr>"
abbreviation map_block :: "(xz_block \<Rightarrow> xz_block) \<Rightarrow> xz_dec \<Rightarrow> xz_dec" where
  "map_block f s \<equiv> s\<lparr>dec_block_info := f (dec_block_info s)\<rparr>"
abbreviation map_index :: "(xz_index \<Rightarrow> xz_index) \<Rightarrow> xz_dec \<Rightarrow> xz_dec" where
  "map_index f s \<equiv> s\<lparr>dec_index_info := f (dec_index_info s)\<rparr>"

text \<open>A hash as its 24 bytes in memory; the padding behind the last member is zero.\<close>

definition hash_bytes :: "xz_dec_hash \<Rightarrow> byte list" where
  "hash_bytes h = le_enc 8 (unat (h_unpadded h)) @ le_enc 8 (unat (h_uncompressed h)) @ le_enc 4 (unat (h_crc32 h)) @ replicate 4 0"

definition hash_update :: "xz_dec_hash \<Rightarrow> xz_dec_hash" where
  "hash_update h = h\<lparr>h_crc32 := xz_crc32 (hash_bytes h) (h_crc32 h)\<rparr>"

section \<open>The fields of the container\<close>

definition get_le32 :: "byte list \<Rightarrow> nat \<Rightarrow> u32 option" where
  "get_le32 buf i = do {
     v \<leftarrow> slice buf i 4;
     Some (ucast (v ! 0) OR push_bit 8 (ucast (v ! 1)) OR push_bit 16 (ucast (v ! 2)) OR push_bit 24 (ucast (v ! 3))) }"

definition read_at :: "byte list \<Rightarrow> nat \<Rightarrow> byte option" where
  "read_at buf i = (if i < length buf then Some (buf ! i) else None)"

text \<open>The elements from one position to another; with the positions in the wrong order the length wraps around.\<close>

definition span :: "byte list \<Rightarrow> nat \<Rightarrow> nat \<Rightarrow> byte list option" where
  "span xs i j = (if i \<le> j then slice xs i (j - i) else None)"

definition fill_temp :: "xz_dec \<Rightarrow> xz_buf \<Rightarrow> (bool \<times> xz_dec \<times> xz_buf) option" where
  "fill_temp s b =
     (if in_size b < in_pos b \<or> hdr_size s < hdr_pos s then None
      else do {
        let copy_size = min (in_size b - in_pos b) (hdr_size s - hdr_pos s);
        data \<leftarrow> slice (b_in b) (in_pos b) copy_size;
        buf \<leftarrow> blit (hdr_buf s) (hdr_pos s) data;
        let b = b\<lparr>in_pos := in_pos b + copy_size\<rparr>;
        let s = s\<lparr>hdr_buf := buf, hdr_pos := hdr_pos s + copy_size\<rparr>;
        (if hdr_pos s = hdr_size s then Some (True, s\<lparr>hdr_pos := 0\<rparr>, b) else Some (False, s, b)) })"

function vli_loop :: "byte list \<Rightarrow> nat \<Rightarrow> xz_dec \<Rightarrow> nat \<Rightarrow> (xz_ret \<times> xz_dec \<times> nat) option" where
  "vli_loop buf n s p =
     (if p < n
      then do {
        v \<leftarrow> read_at buf p;
        (if 64 \<le> unat (vpos s) then None
         else let s = s\<lparr>vli := vli s OR push_bit (unat (vpos s)) (ucast (v AND 0x7F))\<rparr> in
           if v AND 0x80 = 0
           then if v = 0 \<and> vpos s \<noteq> 0 then Some (XZ_DATA_ERROR, s, p + 1) else Some (XZ_STREAM_END, s\<lparr>vpos := 0\<rparr>, p + 1)
           else let s = s\<lparr>vpos := vpos s + 7\<rparr> in
             if vpos s = of_nat (7 * VLI_BYTES_MAX) then Some (XZ_DATA_ERROR, s, p + 1) else vli_loop buf n s (p + 1)) }
      else Some (XZ_OK, s, p))"
  by pat_completeness auto
termination by (relation "measure (\<lambda>(_, n, _, p). n - p)") auto

declare vli_loop.simps [simp del]

definition dec_vli :: "byte list \<Rightarrow> nat \<Rightarrow> xz_dec \<Rightarrow> nat \<Rightarrow> (xz_ret \<times> xz_dec \<times> nat) option" where
  "dec_vli buf n s p = vli_loop buf n (if vpos s = 0 then s\<lparr>vli := 0\<rparr> else s) p"

text \<open>The sizes and the hash after the last byte of a block.\<close>

definition block_done :: "xz_dec \<Rightarrow> xz_ret \<Rightarrow> (xz_ret \<times> xz_dec) option" where
  "block_done s ret =
     (if ret \<noteq> XZ_STREAM_END then Some (ret, s)
      else if bh_compressed (block_header s) \<noteq> VLI_UNKNOWN \<and> bh_compressed (block_header s) \<noteq> blk_compressed (dec_block_info s)
      then Some (XZ_DATA_ERROR, s)
      else if bh_uncompressed (block_header s) \<noteq> VLI_UNKNOWN \<and> bh_uncompressed (block_header s) \<noteq> blk_uncompressed (dec_block_info s)
      then Some (XZ_DATA_ERROR, s)
      else do {
        cs \<leftarrow> check_size (check_type s);
        let k = dec_block_info s;
        let h = blk_hash k;
        let h = h\<lparr>h_unpadded := h_unpadded h + (ucast (bh_size (block_header s)) + blk_compressed k) + ucast cs,
                  h_uncompressed := h_uncompressed h + blk_uncompressed k\<rparr>;
        Some (ret, s\<lparr>dec_block_info := k\<lparr>blk_hash := hash_update h, blk_count := blk_count k + 1\<rparr>\<rparr>) })"

definition dec_block :: "xz_dec \<Rightarrow> xz_buf \<Rightarrow> (xz_ret \<times> xz_dec \<times> xz_buf) option" where
  "dec_block s b = do {
     let s = s\<lparr>in_start := in_pos b, out_start := out_pos b\<rparr>;
     (ret, l, b) \<leftarrow> xz_dec_lzma2_run (dec_lzma2 s) b;
     let s = map_block (\<lambda>k. k\<lparr>blk_compressed := blk_compressed k + (of_nat (in_pos b) - of_nat (in_start s)),
                              blk_uncompressed := blk_uncompressed k + (of_nat (out_pos b) - of_nat (out_start s))\<rparr>) (s\<lparr>dec_lzma2 := l\<rparr>);
     (if blk_compressed (dec_block_info s) > bh_compressed (block_header s)
          \<or> blk_uncompressed (dec_block_info s) > bh_uncompressed (block_header s)
      then Some (XZ_DATA_ERROR, s, b)
      else do {
        data \<leftarrow> span (b_out b) (out_start s) (out_pos b);
        let s = (if check_type s = XZ_CHECK_CRC32 then s\<lparr>dec_crc32 := xz_crc32 data (dec_crc32 s)\<rparr> else s);
        (ret, s) \<leftarrow> block_done s ret;
        Some (ret, s, b) }) }"

definition index_update :: "xz_dec \<Rightarrow> xz_buf \<Rightarrow> xz_dec option" where
  "index_update s b = do {
     data \<leftarrow> span (b_in b) (in_start s) (in_pos b);
     Some (map_index (\<lambda>i. i\<lparr>ix_size := ix_size i + of_nat (length data)\<rparr>) (s\<lparr>dec_crc32 := xz_crc32 data (dec_crc32 s)\<rparr>)) }"

text \<open>One integer of the index: \<open>None\<close> in the result is \<open>break\<close>, the loop goes on.\<close>

definition index_field :: "xz_dec \<Rightarrow> xz_ret option \<times> xz_dec" where
  "index_field s = (let i = dec_index_info s in
     case ix_sequence i of
       SEQ_INDEX_COUNT \<Rightarrow>
         let s = s\<lparr>dec_index_info := i\<lparr>ix_count := vli s\<rparr>\<rparr> in
         if vli s \<noteq> blk_count (dec_block_info s) then (Some XZ_DATA_ERROR, s)
         else (None, map_index (\<lambda>i. i\<lparr>ix_sequence := SEQ_INDEX_UNPADDED\<rparr>) s)
     | SEQ_INDEX_UNPADDED \<Rightarrow>
         (None, s\<lparr>dec_index_info := i\<lparr>ix_hash := (ix_hash i)\<lparr>h_unpadded := h_unpadded (ix_hash i) + vli s\<rparr>,
                                      ix_sequence := SEQ_INDEX_UNCOMPRESSED\<rparr>\<rparr>)
     | SEQ_INDEX_UNCOMPRESSED \<Rightarrow>
         (None, s\<lparr>dec_index_info := i\<lparr>ix_hash := hash_update ((ix_hash i)\<lparr>h_uncompressed := h_uncompressed (ix_hash i) + vli s\<rparr>),
                                      ix_count := ix_count i - 1, ix_sequence := SEQ_INDEX_UNPADDED\<rparr>\<rparr>))"

partial_function (option) dec_index :: "xz_dec \<Rightarrow> xz_buf \<Rightarrow> (xz_ret \<times> xz_dec \<times> xz_buf) option" where
  "dec_index s b = do {
     (ret, s, p) \<leftarrow> dec_vli (b_in b) (in_size b) s (in_pos b);
     let b = b\<lparr>in_pos := p\<rparr>;
     (if ret \<noteq> XZ_STREAM_END then do { s \<leftarrow> index_update s b; Some (ret, s, b) }
      else case index_field s of
          (Some ret, s) \<Rightarrow> Some (ret, s, b)
        | (None, s) \<Rightarrow> if ix_count (dec_index_info s) > 0 then dec_index s b else Some (XZ_STREAM_END, s, b)) }"

declare dec_index.simps [code]

function crc32_validate :: "xz_dec \<Rightarrow> xz_buf \<Rightarrow> (xz_ret \<times> xz_dec \<times> xz_buf) option" where
  "crc32_validate s b =
     (if in_pos b = in_size b then Some (XZ_OK, s, b)
      else do {
        v \<leftarrow> read_at (b_in b) (in_pos b);
        let b' = b\<lparr>in_pos := in_pos b + 1\<rparr>;
        (if 32 \<le> unat (vpos s) then None
         else if drop_bit (unat (vpos s)) (dec_crc32 s) AND 0xFF \<noteq> ucast v then Some (XZ_DATA_ERROR, s, b')
         else let s' = s\<lparr>vpos := vpos s + 8\<rparr> in
           if vpos s' < 32 then crc32_validate s' b'
           else Some (XZ_STREAM_END, s'\<lparr>dec_crc32 := 0, vpos := 0\<rparr>, b')) })"
  by pat_completeness auto
termination by (relation "measure (\<lambda>(_, b). in_size b - in_pos b)") (auto simp: read_at_def split: if_splits)

declare crc32_validate.simps [simp del]

function skip_loop :: "byte \<Rightarrow> xz_dec \<Rightarrow> xz_buf \<Rightarrow> bool \<times> xz_dec \<times> xz_buf" where
  "skip_loop n s b =
     (if unat (vpos s) < unat n
      then if in_pos b = in_size b then (False, s, b)
           else skip_loop n (s\<lparr>vpos := vpos s + 1\<rparr>) (b\<lparr>in_pos := in_pos b + 1\<rparr>)
      else (True, s\<lparr>vpos := 0\<rparr>, b))"
  by pat_completeness auto
termination
proof (relation "measure (\<lambda>(n, s, _). unat n - unat (vpos s))", goal_cases)
  case (2 n s b)
  hence "unat (vpos s) < 256" using unat_byte_less [of n] by linarith
  hence "unat (vpos s + 1) = unat (vpos s) + 1" by (subst unat_word_ariths) simp
  thus ?case using 2 by simp
qed simp

declare skip_loop.simps [simp del]

definition check_skip :: "xz_dec \<Rightarrow> xz_buf \<Rightarrow> (bool \<times> xz_dec \<times> xz_buf) option" where
  "check_skip s b = do { n \<leftarrow> check_size (check_type s); Some (skip_loop n s b) }"

definition dec_stream_header :: "xz_dec \<Rightarrow> (xz_ret \<times> xz_dec) option" where
  "dec_stream_header s = do {
     magic \<leftarrow> slice (hdr_buf s) 0 HEADER_MAGIC_SIZE;
     (if magic \<noteq> HEADER_MAGIC then Some (XZ_FORMAT_ERROR, s)
      else do {
        flags \<leftarrow> slice (hdr_buf s) HEADER_MAGIC_SIZE 2;
        crc \<leftarrow> get_le32 (hdr_buf s) (HEADER_MAGIC_SIZE + 2);
        (if xz_crc32 flags 0 \<noteq> crc then Some (XZ_DATA_ERROR, s)
         else if flags ! 0 \<noteq> 0 then Some (XZ_OPTIONS_ERROR, s)
         else let s = s\<lparr>check_type := ucast (flags ! 1)\<rparr> in
           if check_type s > XZ_CHECK_MAX then Some (XZ_OPTIONS_ERROR, s)
           else if check_type s > XZ_CHECK_CRC32 then Some (XZ_UNSUPPORTED_CHECK, s)
           else Some (XZ_OK, s)) }) }"

definition dec_stream_footer :: "xz_dec \<Rightarrow> xz_ret option" where
  "dec_stream_footer s = do {
     magic \<leftarrow> slice (hdr_buf s) 10 FOOTER_MAGIC_SIZE;
     (if magic \<noteq> FOOTER_MAGIC then Some XZ_DATA_ERROR
      else do {
        body \<leftarrow> slice (hdr_buf s) 4 6;
        crc \<leftarrow> get_le32 (hdr_buf s) 0;
        (if xz_crc32 body 0 \<noteq> crc then Some XZ_DATA_ERROR
         else do {
           backward \<leftarrow> get_le32 (hdr_buf s) 4;
           (if drop_bit 2 (ix_size (dec_index_info s)) \<noteq> ucast backward then Some XZ_DATA_ERROR
            else if body ! 4 \<noteq> 0 \<or> ucast (body ! 5) \<noteq> check_type s then Some XZ_DATA_ERROR
            else Some XZ_STREAM_END) }) }) }"

text \<open>An optional size of the block header.\<close>

definition header_size_field :: "bool \<Rightarrow> xz_dec \<Rightarrow> (vli_type option \<times> xz_dec) option" where
  "header_size_field present s =
     (if present
      then do {
        (ret, s, p) \<leftarrow> dec_vli (hdr_buf s) (hdr_size s) s (hdr_pos s);
        let s = s\<lparr>hdr_pos := p\<rparr>;
        (if ret \<noteq> XZ_STREAM_END then Some (None, s) else Some (Some (vli s), s)) }
      else Some (Some VLI_UNKNOWN, s))"

function header_padding :: "xz_dec \<Rightarrow> (xz_ret option \<times> xz_dec) option" where
  "header_padding s =
     (if hdr_pos s < hdr_size s
      then do {
        v \<leftarrow> read_at (hdr_buf s) (hdr_pos s);
        let s' = s\<lparr>hdr_pos := hdr_pos s + 1\<rparr>;
        (if v \<noteq> 0 then Some (Some XZ_OPTIONS_ERROR, s') else header_padding s') }
      else Some (None, s))"
  by pat_completeness auto
termination by (relation "measure (\<lambda>s. hdr_size s - hdr_pos s)") auto

declare header_padding.simps [simp del]

text \<open>
  The filter chain must be LZMA2 alone.  \<open>alloc\<close> gives the outcome of each allocation of a dictionary.  A
  difference of sizes that is negative wraps around to a huge number.
\<close>

definition header_filter :: "(nat \<Rightarrow> u32 \<Rightarrow> bool) \<Rightarrow> xz_dec \<Rightarrow> (xz_ret \<times> xz_dec) option" where
  "header_filter alloc s =
     (if hdr_pos s \<le> hdr_size s \<and> hdr_size s - hdr_pos s < 2 then Some (XZ_DATA_ERROR, s)
      else do {
        v \<leftarrow> read_at (hdr_buf s) (hdr_pos s);
        let s = s\<lparr>hdr_pos := hdr_pos s + 1\<rparr>;
        (if v \<noteq> 0x21 then Some (XZ_OPTIONS_ERROR, s)
         else do {
           v \<leftarrow> read_at (hdr_buf s) (hdr_pos s);
           let s = s\<lparr>hdr_pos := hdr_pos s + 1\<rparr>;
           (if v \<noteq> 1 then Some (XZ_OPTIONS_ERROR, s)
            else if hdr_pos s \<le> hdr_size s \<and> hdr_size s - hdr_pos s < 1 then Some (XZ_DATA_ERROR, s)
            else do {
              v \<leftarrow> read_at (hdr_buf s) (hdr_pos s);
              let s = s\<lparr>hdr_pos := hdr_pos s + 1\<rparr>;
              (case xz_dec_lzma2_reset (alloc (vmallocs s)) (dec_lzma2 s) v of (ret, l) \<Rightarrow>
                 Some (ret, s\<lparr>dec_lzma2 := l, vmallocs := vmallocs s + 1\<rparr>)) }) }) })"

definition dec_block_header :: "(nat \<Rightarrow> u32 \<Rightarrow> bool) \<Rightarrow> xz_dec \<Rightarrow> (xz_ret \<times> xz_dec) option" where
  "dec_block_header alloc s = do {
     s \<leftarrow> (if hdr_size s < 4 then None else Some (s\<lparr>hdr_size := hdr_size s - 4\<rparr>));
     data \<leftarrow> slice (hdr_buf s) 0 (hdr_size s);
     crc \<leftarrow> get_le32 (hdr_buf s) (hdr_size s);
     (if xz_crc32 data 0 \<noteq> crc then Some (XZ_DATA_ERROR, s)
      else do {
        let s = s\<lparr>hdr_pos := 2\<rparr>;
        flags \<leftarrow> read_at (hdr_buf s) 1;
        (if flags AND 0x3F \<noteq> 0 then Some (XZ_OPTIONS_ERROR, s)
         else do {
           (v, s) \<leftarrow> header_size_field (flags AND 0x40 \<noteq> 0) s;
           (case v of
              None \<Rightarrow> Some (XZ_DATA_ERROR, s)
            | Some n \<Rightarrow> do {
                let s = map_header (\<lambda>h. h\<lparr>bh_compressed := n\<rparr>) s;
                (v, s) \<leftarrow> header_size_field (flags AND 0x80 \<noteq> 0) s;
                (case v of
                   None \<Rightarrow> Some (XZ_DATA_ERROR, s)
                 | Some n \<Rightarrow> do {
                     let s = map_header (\<lambda>h. h\<lparr>bh_uncompressed := n\<rparr>) s;
                     (ret, s) \<leftarrow> header_filter alloc s;
                     (if ret \<noteq> XZ_OK then Some (ret, s)
                      else do {
                        (bad, s) \<leftarrow> header_padding s;
                        (case bad of
                           Some ret \<Rightarrow> Some (ret, s)
                         | None \<Rightarrow> Some (XZ_OK, map_block (\<lambda>k. k\<lparr>blk_compressed := 0, blk_uncompressed := 0\<rparr>) (s\<lparr>hdr_pos := 0\<rparr>))) })
                     }) }) }) }) }"

section \<open>The positions of the decoder\<close>

text \<open>
  One definition per \<open>case\<close> of the switch, which calls the next one where the code falls through.  The first
  component of a result is the value returned, or \<open>None\<close> at a \<open>break\<close>.
\<close>

type_synonym main_result = "(xz_ret option \<times> xz_dec \<times> xz_buf) option"

definition main_stream_footer :: "xz_dec \<Rightarrow> xz_buf \<Rightarrow> main_result" where
  "main_stream_footer s b = do {
     (ok, s, b) \<leftarrow> fill_temp s b;
     (if \<not> ok then Some (Some XZ_OK, s, b)
      else do { ret \<leftarrow> dec_stream_footer s; Some (Some ret, s, b) }) }"

definition main_index_crc32 :: "xz_dec \<Rightarrow> xz_buf \<Rightarrow> main_result" where
  "main_index_crc32 s b = do {
     (ret, s, b) \<leftarrow> crc32_validate s b;
     (if ret \<noteq> XZ_STREAM_END then Some (Some ret, s, b)
      else main_stream_footer (s\<lparr>hdr_size := STREAM_HEADER_SIZE, sequence := SEQ_STREAM_FOOTER\<rparr>) b) }"

text \<open>The bytes that pad the index: true at the end, false when the input ran out; \<open>Inl\<close> for a byte that is not zero.\<close>

function index_padding :: "xz_dec \<Rightarrow> xz_buf \<Rightarrow> ((xz_ret + bool) \<times> xz_buf) option" where
  "index_padding s b =
     (if (ix_size (dec_index_info s) + (of_nat (in_pos b) - of_nat (in_start s))) AND 3 = 0 then Some (Inr True, b)
      else if in_pos b = in_size b then Some (Inr False, b)
      else do {
        v \<leftarrow> read_at (b_in b) (in_pos b);
        let b' = b\<lparr>in_pos := in_pos b + 1\<rparr>;
        (if v \<noteq> 0 then Some (Inl XZ_DATA_ERROR, b')
         else index_padding s b') })"
  by pat_completeness auto
termination by (relation "measure (\<lambda>(_, b). in_size b - in_pos b)") (auto simp: read_at_def split: if_splits)

declare index_padding.simps [simp del]

definition main_index_padding :: "xz_dec \<Rightarrow> xz_buf \<Rightarrow> main_result" where
  "main_index_padding s b = do {
     (r, b) \<leftarrow> index_padding s b;
     (case r of
        Inl ret \<Rightarrow> Some (Some ret, s, b)
      | Inr False \<Rightarrow> do { s \<leftarrow> index_update s b; Some (Some XZ_OK, s, b) }
      | Inr True \<Rightarrow> do {
          s \<leftarrow> index_update s b;
          (if hash_bytes (blk_hash (dec_block_info s)) \<noteq> hash_bytes (ix_hash (dec_index_info s)) then Some (Some XZ_DATA_ERROR, s, b)
           else main_index_crc32 (s\<lparr>sequence := SEQ_INDEX_CRC32\<rparr>) b) }) }"

definition main_index :: "xz_dec \<Rightarrow> xz_buf \<Rightarrow> main_result" where
  "main_index s b = do {
     (ret, s, b) \<leftarrow> dec_index s b;
     (if ret \<noteq> XZ_STREAM_END then Some (Some ret, s, b)
      else main_index_padding (s\<lparr>sequence := SEQ_INDEX_PADDING\<rparr>) b) }"

definition main_block_check :: "xz_dec \<Rightarrow> xz_buf \<Rightarrow> main_result" where
  "main_block_check s b =
     (if check_type s = XZ_CHECK_CRC32
      then do {
        (ret, s, b) \<leftarrow> crc32_validate s b;
        (if ret \<noteq> XZ_STREAM_END then Some (Some ret, s, b) else Some (None, s\<lparr>sequence := SEQ_BLOCK_START\<rparr>, b)) }
      else do {
        (ok, s, b) \<leftarrow> check_skip s b;
        (if \<not> ok then Some (Some XZ_OK, s, b) else Some (None, s\<lparr>sequence := SEQ_BLOCK_START\<rparr>, b)) })"

function block_padding :: "xz_dec \<Rightarrow> xz_buf \<Rightarrow> main_result" where
  "block_padding s b =
     (if blk_compressed (dec_block_info s) AND 3 = 0 then Some (None, s, b)
      else if in_pos b = in_size b then Some (Some XZ_OK, s, b)
      else do {
        v \<leftarrow> read_at (b_in b) (in_pos b);
        let b' = b\<lparr>in_pos := in_pos b + 1\<rparr>;
        (if v \<noteq> 0 then Some (Some XZ_DATA_ERROR, s, b')
         else block_padding (map_block (\<lambda>k. k\<lparr>blk_compressed := blk_compressed k + 1\<rparr>) s) b') })"
  by pat_completeness auto
termination by (relation "measure (\<lambda>(_, b). in_size b - in_pos b)") (auto simp: read_at_def split: if_splits)

declare block_padding.simps [simp del]

definition main_block_padding :: "xz_dec \<Rightarrow> xz_buf \<Rightarrow> main_result" where
  "main_block_padding s b = do {
     (ret, s, b) \<leftarrow> block_padding s b;
     (case ret of
        Some r \<Rightarrow> Some (Some r, s, b)
      | None \<Rightarrow> main_block_check (s\<lparr>sequence := SEQ_BLOCK_CHECK\<rparr>) b) }"

definition main_block_uncompress :: "xz_dec \<Rightarrow> xz_buf \<Rightarrow> main_result" where
  "main_block_uncompress s b = do {
     (ret, s, b) \<leftarrow> dec_block s b;
     (if ret \<noteq> XZ_STREAM_END then Some (Some ret, s, b)
      else main_block_padding (s\<lparr>sequence := SEQ_BLOCK_PADDING\<rparr>) b) }"

definition main_block_header :: "(nat \<Rightarrow> u32 \<Rightarrow> bool) \<Rightarrow> xz_dec \<Rightarrow> xz_buf \<Rightarrow> main_result" where
  "main_block_header alloc s b = do {
     (ok, s, b) \<leftarrow> fill_temp s b;
     (if \<not> ok then Some (Some XZ_OK, s, b)
      else do {
        (ret, s) \<leftarrow> dec_block_header alloc s;
        (if ret \<noteq> XZ_OK then Some (Some ret, s, b)
         else main_block_uncompress (s\<lparr>sequence := SEQ_BLOCK_UNCOMPRESS\<rparr>) b) }) }"

definition main_block_start :: "(nat \<Rightarrow> u32 \<Rightarrow> bool) \<Rightarrow> xz_dec \<Rightarrow> xz_buf \<Rightarrow> main_result" where
  "main_block_start alloc s b =
     (if in_pos b = in_size b then Some (Some XZ_OK, s, b)
      else do {
        v \<leftarrow> read_at (b_in b) (in_pos b);
        (if v = 0 then Some (None, s\<lparr>in_start := in_pos b, sequence := SEQ_INDEX\<rparr>, b\<lparr>in_pos := in_pos b + 1\<rparr>)
         else let n = (ucast v + 1) * 4 in
           main_block_header alloc
             (map_header (\<lambda>h. h\<lparr>bh_size := n\<rparr>) (s\<lparr>hdr_size := unat n, hdr_pos := 0, sequence := SEQ_BLOCK_HEADER\<rparr>)) b) })"

definition main_stream_header :: "(nat \<Rightarrow> u32 \<Rightarrow> bool) \<Rightarrow> xz_dec \<Rightarrow> xz_buf \<Rightarrow> main_result" where
  "main_stream_header alloc s b = do {
     (ok, s, b) \<leftarrow> fill_temp s b;
     (if \<not> ok then Some (Some XZ_OK, s, b)
      else do {
        (ret, s) \<leftarrow> dec_stream_header (s\<lparr>sequence := SEQ_BLOCK_START\<rparr>);
        (if ret \<noteq> XZ_OK then Some (Some ret, s, b) else main_block_start alloc s b) }) }"

definition main_turn :: "(nat \<Rightarrow> u32 \<Rightarrow> bool) \<Rightarrow> xz_dec \<Rightarrow> xz_buf \<Rightarrow> main_result" where
  "main_turn alloc s b =
     (case sequence s of
        SEQ_STREAM_HEADER \<Rightarrow> main_stream_header alloc s b
      | SEQ_BLOCK_START \<Rightarrow> main_block_start alloc s b
      | SEQ_BLOCK_HEADER \<Rightarrow> main_block_header alloc s b
      | SEQ_BLOCK_UNCOMPRESS \<Rightarrow> main_block_uncompress s b
      | SEQ_BLOCK_PADDING \<Rightarrow> main_block_padding s b
      | SEQ_BLOCK_CHECK \<Rightarrow> main_block_check s b
      | SEQ_INDEX \<Rightarrow> main_index s b
      | SEQ_INDEX_PADDING \<Rightarrow> main_index_padding s b
      | SEQ_INDEX_CRC32 \<Rightarrow> main_index_crc32 s b
      | SEQ_STREAM_FOOTER \<Rightarrow> main_stream_footer s b)"

partial_function (option) main_loop :: "(nat \<Rightarrow> u32 \<Rightarrow> bool) \<Rightarrow> xz_dec \<Rightarrow> xz_buf \<Rightarrow> (xz_ret \<times> xz_dec \<times> xz_buf) option" where
  "main_loop alloc s b = do {
     (ret, s, b) \<leftarrow> main_turn alloc s b;
     (case ret of Some r \<Rightarrow> Some (r, s, b) | None \<Rightarrow> main_loop alloc s b) }"

declare main_loop.simps [code]

definition dec_main :: "(nat \<Rightarrow> u32 \<Rightarrow> bool) \<Rightarrow> xz_dec \<Rightarrow> xz_buf \<Rightarrow> (xz_ret \<times> xz_dec \<times> xz_buf) option" where
  "dec_main alloc s b = main_loop alloc (s\<lparr>in_start := in_pos b\<rparr>) b"

section \<open>The public functions\<close>

definition xz_dec_run :: "(nat \<Rightarrow> u32 \<Rightarrow> bool) \<Rightarrow> xz_dec \<Rightarrow> xz_buf \<Rightarrow> (xz_ret \<times> xz_dec \<times> xz_buf) option" where
  "xz_dec_run alloc s b = do {
     (ret, s', b') \<leftarrow> dec_main alloc s b;
     Some (if ret = XZ_OK \<and> in_pos b = in_pos b' \<and> out_pos b = out_pos b'
           then (if allow_buf_error s' then XZ_BUF_ERROR else ret, s'\<lparr>allow_buf_error := True\<rparr>, b')
           else (ret, s'\<lparr>allow_buf_error := False\<rparr>, b')) }"

definition zero_hash :: xz_dec_hash where
  "zero_hash = \<lparr>h_unpadded = 0, h_uncompressed = 0, h_crc32 = 0\<rparr>"

definition xz_dec_reset :: "xz_dec \<Rightarrow> xz_dec" where
  "xz_dec_reset s = s\<lparr>sequence := SEQ_STREAM_HEADER, allow_buf_error := False, vpos := 0, dec_crc32 := 0,
     dec_block_info := \<lparr>blk_compressed = 0, blk_uncompressed = 0, blk_count = 0, blk_hash = zero_hash\<rparr>,
     dec_index_info := \<lparr>ix_sequence = SEQ_INDEX_COUNT, ix_size = 0, ix_count = 0, ix_hash = zero_hash\<rparr>,
     hdr_pos := 0, hdr_size := STREAM_HEADER_SIZE\<rparr>"

text \<open>The two flags are the outcomes of the two allocations; a new structure holds arbitrary values.\<close>

definition xz_dec_init :: "bool \<Rightarrow> bool \<Rightarrow> xz_dec \<Rightarrow> xz_mode \<Rightarrow> u32 \<Rightarrow> xz_dec option" where
  "xz_dec_init ok lzma2_ok junk mode dict_max =
     (if \<not> ok then None
      else do {
        l \<leftarrow> xz_dec_lzma2_create lzma2_ok (dec_lzma2 junk) mode dict_max;
        Some (xz_dec_reset (junk\<lparr>dec_mode := mode, dec_lzma2 := l\<rparr>)) })"

section \<open>Unpacking a section\<close>

definition kMaxGnuDebugDataSize :: nat where "kMaxGnuDebugDataSize = 32 * 1024 * 1024"

text \<open>\<open>std::vector::resize\<close>: new elements are zero.\<close>

definition vec_resize :: "nat \<Rightarrow> byte list \<Rightarrow> byte list" where
  "vec_resize n xs = take n xs @ replicate (n - length xs) 0"

partial_function (option) decompress_loop :: "(nat \<Rightarrow> u32 \<Rightarrow> bool) \<Rightarrow> xz_dec \<Rightarrow> xz_buf \<Rightarrow> byte list option option" where
  "decompress_loop alloc s b = do {
     (ret, s, b) \<leftarrow> xz_dec_run alloc s b;
     (if ret = XZ_STREAM_END then Some (Some (vec_resize (out_pos b) (b_out b)))
      else if ret = XZ_UNSUPPORTED_CHECK then decompress_loop alloc s b
      else if ret \<noteq> XZ_OK then Some None
      else if out_pos b = out_size b
      then if out_size b \<ge> kMaxGnuDebugDataSize then Some None
           else decompress_loop alloc s (b\<lparr>b_out := vec_resize (min (out_size b * 2) kMaxGnuDebugDataSize) (b_out b)\<rparr>)
      else if in_pos b = in_size b then Some None
      else decompress_loop alloc s b) }"

declare decompress_loop.simps [code]

text \<open>The section is \<open>None\<close> for a null pointer; the result is the contents, or \<open>None\<close> where the function returns false.\<close>

definition decompress_xz :: "bool \<Rightarrow> bool \<Rightarrow> (nat \<Rightarrow> u32 \<Rightarrow> bool) \<Rightarrow> xz_dec \<Rightarrow> byte list option \<Rightarrow> byte list option option" where
  "decompress_xz ok lzma2_ok alloc junk section =
     (case section of
        None \<Rightarrow> Some None
      | Some data \<Rightarrow>
          if length data < 6 \<or> take 6 data \<noteq> [0xfd, 0x37, 0x7a, 0x58, 0x5a, 0x00] then Some None
          else case xz_dec_init ok lzma2_ok junk XZ_DYNALLOC (of_nat kMaxGnuDebugDataSize) of
              None \<Rightarrow> Some None
            | Some s \<Rightarrow> decompress_loop alloc s \<lparr>b_in = data, in_pos = 0, b_out = vec_resize (64 * 1024) [], out_pos = 0\<rparr>)"

end
