(* ===== verification/Xz_Total.thy ===== *)
theory Xz_Total
  imports Xz_Safety Xz_Stream
begin

text \<open>
  The container on arbitrary input: every loop of \<open>dec_main\<close> ends, no access leaves its buffer, and
  \<open>decompress_xz\<close> always returns.
\<close>

section \<open>Fields\<close>

text \<open>What the loops over single fields leave alone.\<close>

definition meta :: "xz_dec \<Rightarrow> byte list \<times> nat \<times> nat \<times> xz_dec_lzma2 \<times> u32 \<times> nat \<times> dec_seq" where
  "meta s = (hdr_buf s, hdr_pos s, hdr_size s, dec_lzma2 s, check_type s, in_start s, sequence s)"

lemma meta_update [simp]:
  "meta (s\<lparr>vli := a\<rparr>) = meta s" "meta (s\<lparr>vpos := c\<rparr>) = meta s" "meta (s\<lparr>dec_crc32 := c\<rparr>) = meta s"
  "meta (s\<lparr>dec_index_info := i\<rparr>) = meta s" "meta (s\<lparr>dec_block_info := k\<rparr>) = meta s" "meta (s\<lparr>block_header := h\<rparr>) = meta s"
  by (simp_all add: meta_def)

definition hdr_ok :: "xz_dec \<Rightarrow> bool" where
  "hdr_ok s \<longleftrightarrow> length (hdr_buf s) = 1024 \<and> hdr_pos s \<le> hdr_size s \<and> hdr_size s \<le> 1024"

lemma get_le32_safe: "i + 4 \<le> length xs \<Longrightarrow> returns (get_le32 xs i) (\<lambda>_. True)"
  by (simp add: get_le32_def slice_def)

lemma span_safe: "i \<le> j \<Longrightarrow> j \<le> length xs \<Longrightarrow> span xs i j = Some (take (j - i) (drop i xs))"
  by (simp add: span_def slice_def)

lemma fill_temp_safe:
  assumes "hdr_ok s" "buf_ok b"
  shows "returns (fill_temp s b) (\<lambda>(ok, s', b'). ate b b' \<and> hdr_ok s' \<and> vpos s' = vpos s \<and> meta s' = meta (s\<lparr>hdr_buf := hdr_buf s', hdr_pos := hdr_pos s'\<rparr>) \<and>
    (ok \<longrightarrow> in_pos b' = in_pos b + (hdr_size s - hdr_pos s) \<and> hdr_pos s' = 0) \<and> (\<not> ok \<longrightarrow> in_pos b' = in_size b \<and> hdr_pos s' < hdr_size s'))"
proof -
  define n where "n = min (in_size b - in_pos b) (hdr_size s - hdr_pos s)"
  define data where "data = take n (drop (in_pos b) (b_in b))"
  have n: "in_pos b + n \<le> in_size b" "hdr_pos s + n \<le> hdr_size s"
      "hdr_pos s + n = hdr_size s \<or> in_pos b + n = in_size b"
    using assms by (auto simp: n_def hdr_ok_def buf_ok_def)
  have d: "slice (b_in b) (in_pos b) n = Some data" "length data = n" using n(1) by (auto simp: data_def slice_def)
  have "hdr_pos s + length data \<le> length (hdr_buf s)" using n(2) d(2) assms(1) by (simp add: hdr_ok_def)
  then obtain buf where buf: "blit (hdr_buf s) (hdr_pos s) data = Some buf" "length buf = 1024"
    using assms(1) by (elim returnsE [OF blit_safe]) (simp add: hdr_ok_def)
  have e: "fill_temp s b = Some (if hdr_pos s + n = hdr_size s
      then (True, s\<lparr>hdr_buf := buf, hdr_pos := 0\<rparr>, b\<lparr>in_pos := in_pos b + n\<rparr>)
      else (False, s\<lparr>hdr_buf := buf, hdr_pos := hdr_pos s + n\<rparr>, b\<lparr>in_pos := in_pos b + n\<rparr>))"
    using assms d buf by (simp add: fill_temp_def Let_def n_def [symmetric] hdr_ok_def buf_ok_def)
  have "ate b (b\<lparr>in_pos := in_pos b + n\<rparr>)" using n(1) by (auto intro: ateI)
  thus ?thesis using n assms(1) buf(2) unfolding e by (auto simp: hdr_ok_def)
qed

text \<open>The bit position inside a variable-length integer and inside a CRC32.\<close>

definition vli_pos :: "xz_dec \<Rightarrow> bool" where "vli_pos s \<longleftrightarrow> (\<exists>k < 9. vpos s = of_nat (7 * k))"
definition crc_pos :: "xz_dec \<Rightarrow> bool" where "crc_pos s \<longleftrightarrow> (\<exists>k < 4. vpos s = of_nat (8 * k))"

lemma vli_pos_0 [simp]: "vpos s = 0 \<Longrightarrow> vli_pos s" unfolding vli_pos_def by (rule exI [of _ 0]) simp
lemma crc_pos_0 [simp]: "vpos s = 0 \<Longrightarrow> crc_pos s" unfolding crc_pos_def by (rule exI [of _ 0]) simp

lemma vli_loop_safe:
  assumes "n \<le> length buf" "p \<le> n" "vli_pos s"
  shows "returns (vli_loop buf n s p) (\<lambda>(ret, s', p'). p \<le> p' \<and> p' \<le> n \<and> meta s' = meta s \<and>
    ret \<in> {XZ_OK, XZ_STREAM_END, XZ_DATA_ERROR} \<and> (ret = XZ_OK \<longrightarrow> p' = n \<and> vli_pos s') \<and> (ret = XZ_STREAM_END \<longrightarrow> p < p' \<and> vpos s' = 0))"
  using assms
proof (induction buf n s p rule: vli_loop.induct)
  case (1 buf n s p)
  show ?case
  proof (cases "p < n")
    case False
    thus ?thesis using "1.prems" by (subst vli_loop.simps) simp
  next
    case True
    obtain k where k: "k < 9" "vpos s = of_nat (7 * k)" using "1.prems"(3) by (auto simp: vli_pos_def)
    have u: "unat (vpos s) = 7 * k" using k by (simp only: k(2)) (subst unat_of_nat, simp)
    define v where "v = buf ! p"
    define s1 where "s1 = s\<lparr>vli := vli s OR push_bit (unat (vpos s)) (ucast (v AND 0x7F))\<rparr>"
    define s2 where "s2 = s1\<lparr>vpos := vpos s1 + 7\<rparr>"
    have r: "read_at buf p = Some v" using True "1.prems"(1) by (simp add: read_at_def v_def)
    have s: "\<not> 64 \<le> unat (vpos s)" using u k by simp
    have eq: "vli_loop buf n s p = (if v AND 0x80 = 0
        then if v = 0 \<and> vpos s1 \<noteq> 0 then Some (XZ_DATA_ERROR, s1, p + 1) else Some (XZ_STREAM_END, s1\<lparr>vpos := 0\<rparr>, p + 1)
        else if vpos s2 = of_nat (7 * VLI_BYTES_MAX) then Some (XZ_DATA_ERROR, s2, p + 1) else vli_loop buf n s2 (p + 1))"
      using True s by (simp only: vli_loop.simps [of buf n s p] r bind.bind_lunit if_True if_False Let_def s1_def [symmetric] s2_def [symmetric])
    have s2: "vpos s2 = of_nat (7 * Suc k)" by (simp add: s2_def s1_def k(2))
    have "vli_pos s2" if "vpos s2 \<noteq> of_nat (7 * VLI_BYTES_MAX)"
    proof -
      have "Suc k \<noteq> 9" using that s2 by (auto simp: VLI_BYTES_MAX_def)
      thus ?thesis using k(1) s2 unfolding vli_pos_def by (intro exI [of _ "Suc k"]) auto
    qed
    hence IH: "returns (vli_loop buf n s2 (p + 1)) (\<lambda>(ret, s', p'). p + 1 \<le> p' \<and> p' \<le> n \<and> meta s' = meta s2 \<and>
        ret \<in> {XZ_OK, XZ_STREAM_END, XZ_DATA_ERROR} \<and> (ret = XZ_OK \<longrightarrow> p' = n \<and> vli_pos s') \<and>
        (ret = XZ_STREAM_END \<longrightarrow> p + 1 < p' \<and> vpos s' = 0))" if "v AND 0x80 \<noteq> 0" "vpos s2 \<noteq> of_nat (7 * VLI_BYTES_MAX)"
      using that True s "1.prems" "1.IH" [OF True r s s1_def _ s2_def] by (simp add: s1_def s2_def)
    have s': "meta s2 = meta s" by (simp add: s2_def s1_def)
    show ?thesis
    proof (cases "v AND 0x80 = 0 \<or> vpos s2 = of_nat (7 * VLI_BYTES_MAX)")
      case stop: True
      thus ?thesis unfolding eq using True by (auto simp: s1_def s2_def)
    next
      case False
      thus ?thesis unfolding eq using IH s' by (auto elim!: returns_mono)
    qed
  qed
qed

lemma dec_vli_safe:
  assumes "n \<le> length buf" "p \<le> n" "vli_pos s"
  shows "returns (dec_vli buf n s p) (\<lambda>(ret, s', p'). p \<le> p' \<and> p' \<le> n \<and> meta s' = meta s \<and>
    ret \<in> {XZ_OK, XZ_STREAM_END, XZ_DATA_ERROR} \<and> (ret = XZ_OK \<longrightarrow> p' = n \<and> vli_pos s') \<and> (ret = XZ_STREAM_END \<longrightarrow> p < p' \<and> vpos s' = 0))"
  using vli_loop_safe [OF assms] vli_loop_safe [OF assms(1,2), of "s\<lparr>vli := 0\<rparr>"] assms(3)
  by (auto simp: dec_vli_def)

lemma crc32_validate_safe:
  assumes "buf_ok b" "crc_pos s"
  shows "returns (crc32_validate s b) (\<lambda>(ret, s', b'). ate b b' \<and> meta s' = meta s \<and>
    ret \<in> {XZ_OK, XZ_STREAM_END, XZ_DATA_ERROR} \<and> (ret = XZ_OK \<longrightarrow> in_pos b' = in_size b \<and> crc_pos s') \<and>
    (ret = XZ_STREAM_END \<longrightarrow> in_pos b < in_pos b' \<and> vpos s' = 0))"
  using assms
proof (induction s b rule: crc32_validate.induct)
  case (1 s b)
  show ?case
  proof (cases "in_pos b = in_size b")
    case True
    thus ?thesis using "1.prems" by (subst crc32_validate.simps) (simp add: ate_refl)
  next
    case False
    hence lt: "in_pos b < in_size b" using "1.prems" by (simp add: buf_ok_def)
    obtain k where k: "k < 4" "vpos s = of_nat (8 * k)" using "1.prems"(2) by (auto simp: crc_pos_def)
    have u: "unat (vpos s) = 8 * k" using k by (simp only: k(2)) (subst unat_of_nat, simp)
    define v where "v = b_in b ! in_pos b"
    define b' where "b' = b\<lparr>in_pos := in_pos b + 1\<rparr>"
    define t where "t = s\<lparr>vpos := vpos s + 8\<rparr>"
    have r: "read_at (b_in b) (in_pos b) = Some v" using lt by (simp add: read_at_def v_def)
    have s: "\<not> 32 \<le> unat (vpos s)" using u k by simp
    have bb: "ate b b'" "buf_ok b'" using lt "1.prems"(1) by (auto simp: b'_def buf_ok_def intro: ateI)
    have eq: "crc32_validate s b = (if drop_bit (unat (vpos s)) (dec_crc32 s) AND 0xFF \<noteq> ucast v then Some (XZ_DATA_ERROR, s, b')
        else if vpos t < 32 then crc32_validate t b' else Some (XZ_STREAM_END, t\<lparr>dec_crc32 := 0, vpos := 0\<rparr>, b'))"
      using False s by (simp only: crc32_validate.simps [of s b] r bind.bind_lunit if_False Let_def b'_def [symmetric] t_def [symmetric])
    have t: "vpos t = of_nat (8 * Suc k)" by (simp add: t_def k(2))
    have "crc_pos t" if "vpos t < 32"
    proof -
      have "Suc k \<noteq> 4" using that t by auto
      thus ?thesis using k(1) t unfolding crc_pos_def by (intro exI [of _ "Suc k"]) auto
    qed
    hence IH: "returns (crc32_validate t b') (\<lambda>(ret, s', b''). ate b' b'' \<and> meta s' = meta t \<and>
        ret \<in> {XZ_OK, XZ_STREAM_END, XZ_DATA_ERROR} \<and> (ret = XZ_OK \<longrightarrow> in_pos b'' = in_size b' \<and> crc_pos s') \<and>
        (ret = XZ_STREAM_END \<longrightarrow> in_pos b' < in_pos b'' \<and> vpos s' = 0))"
      if "\<not> drop_bit (unat (vpos s)) (dec_crc32 s) AND 0xFF \<noteq> ucast v" "vpos t < 32"
      using that bb(2) "1.IH" [OF False r b'_def s _ t_def] by simp
    have s': "meta t = meta s" by (simp add: t_def)
    show ?thesis
    proof (cases "drop_bit (unat (vpos s)) (dec_crc32 s) AND 0xFF \<noteq> ucast v \<or> \<not> vpos t < 32")
      case True
      thus ?thesis unfolding eq using bb by (auto simp: t_def b'_def)
    next
      case False
      have "in_pos b < in_pos b'" "in_size b' = in_size b" by (auto simp: b'_def)
      thus ?thesis unfolding eq using False IH s' ate_trans [OF bb(1)] by (auto elim!: returns_mono)
    qed
  qed
qed

lemma skip_loop_safe:
  assumes "buf_ok b"
  shows "case skip_loop n s b of (ok, s', b') \<Rightarrow> ate b b' \<and> meta s' = meta s \<and> (ok \<longrightarrow> vpos s' = 0) \<and> (\<not> ok \<longrightarrow> in_pos b' = in_size b)"
  using assms
proof (induction n s b rule: skip_loop.induct)
  case (1 n s b)
  show ?case
  proof (cases "unat (vpos s) < unat n \<and> in_pos b \<noteq> in_size b")
    case True
    hence b: "ate b (b\<lparr>in_pos := in_pos b + 1\<rparr>)" "buf_ok (b\<lparr>in_pos := in_pos b + 1\<rparr>)"
      using "1.prems" by (auto simp: buf_ok_def intro: ateI)
    have "skip_loop n s b = skip_loop n (s\<lparr>vpos := vpos s + 1\<rparr>) (b\<lparr>in_pos := in_pos b + 1\<rparr>)"
      using True by (simp add: skip_loop.simps [of n s b])
    thus ?thesis using "1.IH" [OF _ _ b(2)] True ate_trans [OF b(1)] by (auto simp: split_beta)
  next
    case False
    thus ?thesis using "1.prems" ate_refl [of b] by (auto simp: skip_loop.simps [of n s b] buf_ok_def)
  qed
qed

lemma check_size_safe: "unat t < 16 \<Longrightarrow> returns (check_size t) (\<lambda>_. True)"
  by (simp add: check_size_def check_sizes_def)

lemma index_update_safe:
  assumes "in_start s \<le> in_pos b" "buf_ok b"
  shows "returns (index_update s b) (\<lambda>s'. meta s' = meta s \<and> vpos s' = vpos s)"
  using assms by (simp add: index_update_def span_safe buf_ok_def)

lemma index_field_frame: "index_field s = (r, s') \<Longrightarrow> meta s' = meta s \<and> vpos s' = vpos s \<and> (r = None \<or> r = Some XZ_DATA_ERROR)"
  by (auto simp: index_field_def Let_def split: index_seq.splits if_splits)

lemma dec_index_safe:
  assumes "buf_ok b" "vli_pos s" "in_start s \<le> in_pos b"
  shows "returns (dec_index s b) (\<lambda>(ret, s', b'). ate b b' \<and>
    meta s' = meta s \<and>
    ret \<in> {XZ_OK, XZ_STREAM_END, XZ_DATA_ERROR} \<and> (ret = XZ_OK \<longrightarrow> in_pos b' = in_size b \<and> vli_pos s') \<and> (ret = XZ_STREAM_END \<longrightarrow> vpos s' = 0))"
  using assms
proof (induction "in_size b - in_pos b" arbitrary: s b rule: less_induct)
  case less
  have "returns (dec_vli (b_in b) (in_size b) s (in_pos b)) (\<lambda>(ret, s', p'). in_pos b \<le> p' \<and> p' \<le> in_size b \<and> meta s' = meta s \<and>
    ret \<in> {XZ_OK, XZ_STREAM_END, XZ_DATA_ERROR} \<and> (ret = XZ_OK \<longrightarrow> p' = in_size b \<and> vli_pos s') \<and>
    (ret = XZ_STREAM_END \<longrightarrow> in_pos b < p' \<and> vpos s' = 0))"
    by (rule dec_vli_safe) (use less.prems in \<open>auto simp: buf_ok_def\<close>)
  then obtain ret t p where v: "dec_vli (b_in b) (in_size b) s (in_pos b) = Some (ret, t, p)" "in_pos b \<le> p" "p \<le> in_size b"
      "meta t = meta s" "ret \<in> {XZ_OK, XZ_STREAM_END, XZ_DATA_ERROR}" "ret = XZ_OK \<longrightarrow> p = in_size b \<and> vli_pos t"
      "ret = XZ_STREAM_END \<longrightarrow> in_pos b < p \<and> vpos t = 0"
    by (rule returnsE3) blast
  define c where "c = b\<lparr>in_pos := p\<rparr>"
  have c: "ate b c" "buf_ok c" "in_size c = in_size b" "in_pos c = p" using v(2,3) less.prems(1) by (auto simp: c_def buf_ok_def intro: ateI)
  have st: "in_start t \<le> in_pos c" using less.prems(3) v(2,4) c(4) by (simp add: meta_def)
  note eq = dec_index.simps [of s b]
  show ?case
  proof (cases "ret = XZ_STREAM_END")
    case False
    obtain u where u: "index_update t c = Some u" "meta u = meta t" "vpos u = vpos t"
      using index_update_safe [OF st c(2)] by (auto elim!: returnsE)
    have "dec_index s b = Some (ret, u, c)" using v(1) u(1) False by (simp add: eq c_def)
    moreover have "vli_pos u = vli_pos t" using u(3) by (simp add: vli_pos_def)
    ultimately show ?thesis using False c v u by simp
  next
    case True
    obtain r u where u: "index_field t = (r, u)" by fastforce
    note fu = index_field_frame [OF u]
    have e: "dec_index s b = (case r of Some ret \<Rightarrow> Some (ret, u, c)
        | None \<Rightarrow> if ix_count (dec_index_info u) > 0 then dec_index u c else Some (XZ_STREAM_END, u, c))"
      using v(1) u True by (simp add: eq c_def split: option.split)
    have "returns (dec_index u c) (\<lambda>(ret, s', b'). ate c b' \<and> meta s' = meta u \<and>
      ret \<in> {XZ_OK, XZ_STREAM_END, XZ_DATA_ERROR} \<and> (ret = XZ_OK \<longrightarrow> in_pos b' = in_size c \<and> vli_pos s') \<and> (ret = XZ_STREAM_END \<longrightarrow> vpos s' = 0))"
      by (rule less.hyps) (use True v c fu st in \<open>auto simp: meta_def\<close>)
    thus ?thesis using e fu v c True ate_trans [OF c(1)] by (auto elim!: returns_mono split: option.split)
  qed
qed

section \<open>Headers\<close>

definition lz_static :: "xz_dec_lzma2 \<Rightarrow> bool" where
  "lz_static l \<longleftrightarrow> dict_mode (dict l) = XZ_DYNALLOC \<and> dict_allocated (dict l) = 0 \<and> length (temp_buf l) = 63"

lemma lz_static_inv: "lzma2_inv l \<Longrightarrow> lz_static l"
  using lzma2_inv_static by (simp add: lz_static_def)

lemma dec_stream_header_safe:
  assumes "hdr_ok s"
  shows "returns (dec_stream_header s) (\<lambda>(ret, s'). meta s' = meta (s\<lparr>check_type := check_type s'\<rparr>) \<and> vpos s' = vpos s \<and>
    (ret = XZ_OK \<or> ret = XZ_UNSUPPORTED_CHECK \<longrightarrow> unat (check_type s') < 16))"
proof -
  obtain crc where "get_le32 (hdr_buf s) (HEADER_MAGIC_SIZE + 2) = Some crc"
    using get_le32_safe [of "HEADER_MAGIC_SIZE + 2" "hdr_buf s"] assms by (auto simp: hdr_ok_def HEADER_MAGIC_SIZE_def elim!: returnsE)
  moreover have "unat w < 16" if "\<not> XZ_CHECK_MAX < w" for w :: u32
    using that by (simp add: XZ_CHECK_MAX_def word_less_nat_alt)
  ultimately show ?thesis using assms by (simp add: dec_stream_header_def hdr_ok_def slice_def HEADER_MAGIC_SIZE_def Let_def meta_def)
qed

lemma dec_stream_footer_safe:
  "hdr_ok s \<Longrightarrow> returns (dec_stream_footer s) (\<lambda>ret. ret \<noteq> XZ_OK \<and> ret \<noteq> XZ_UNSUPPORTED_CHECK)"
  by (simp add: dec_stream_footer_def hdr_ok_def slice_def get_le32_def FOOTER_MAGIC_SIZE_def)

lemma header_size_field_safe:
  assumes "hdr_ok s" "vpos s = 0"
  shows "returns (header_size_field present s) (\<lambda>(v, s'). hdr_ok s' \<and> meta s' = meta (s\<lparr>hdr_pos := hdr_pos s'\<rparr>) \<and> (v \<noteq> None \<longrightarrow> vpos s' = 0))"
proof -
  have "returns (dec_vli (hdr_buf s) (hdr_size s) s (hdr_pos s)) (\<lambda>(ret, s', p'). hdr_pos s \<le> p' \<and> p' \<le> hdr_size s \<and> meta s' = meta s \<and>
    ret \<in> {XZ_OK, XZ_STREAM_END, XZ_DATA_ERROR} \<and> (ret = XZ_OK \<longrightarrow> p' = hdr_size s \<and> vli_pos s') \<and>
    (ret = XZ_STREAM_END \<longrightarrow> hdr_pos s < p' \<and> vpos s' = 0))"
    by (rule dec_vli_safe) (use assms in \<open>auto simp: hdr_ok_def\<close>)
  thus ?thesis using assms by (auto simp: header_size_field_def Let_def hdr_ok_def meta_def elim!: returns_mono)
qed

lemma header_padding_safe:
  assumes "hdr_ok s"
  shows "returns (header_padding s) (\<lambda>(r, s'). meta s' = meta (s\<lparr>hdr_pos := hdr_pos s'\<rparr>) \<and> vpos s' = vpos s \<and> (r = None \<or> r = Some XZ_OPTIONS_ERROR))"
  using assms
proof (induction s rule: header_padding.induct)
  case (1 s)
  show ?case
  proof (cases "hdr_pos s < hdr_size s")
    case True
    define v where "v = hdr_buf s ! hdr_pos s"
    define t where "t = s\<lparr>hdr_pos := hdr_pos s + 1\<rparr>"
    have r: "read_at (hdr_buf s) (hdr_pos s) = Some v" using True "1.prems" by (simp add: read_at_def v_def hdr_ok_def)
    have eq: "header_padding s = (if v \<noteq> 0 then Some (Some XZ_OPTIONS_ERROR, t) else header_padding t)"
      using True r by (simp add: header_padding.simps [of s] t_def)
    have "hdr_ok t" using True "1.prems" by (simp add: hdr_ok_def t_def)
    moreover have "meta (t\<lparr>hdr_pos := p\<rparr>) = meta (s\<lparr>hdr_pos := p\<rparr>)" "vpos t = vpos s" for p by (simp_all add: t_def meta_def)
    moreover have "meta t = meta (s\<lparr>hdr_pos := hdr_pos t\<rparr>)" by (simp add: t_def)
    ultimately show ?thesis unfolding eq using "1.IH" [OF True r t_def] by (auto elim!: returns_mono)
  next
    case False
    thus ?thesis by (subst header_padding.simps) simp
  qed
qed

lemma reset_ret: "xz_dec_lzma2_reset alloc l v = (ret, l') \<Longrightarrow> ret \<noteq> XZ_UNSUPPORTED_CHECK"
  by (auto simp: xz_dec_lzma2_reset_def Let_def split: if_splits)

lemma header_filter_safe:
  assumes "hdr_ok s" "lz_static (dec_lzma2 s)"
  shows "returns (header_filter alloc s) (\<lambda>(ret, s'). ret \<noteq> XZ_UNSUPPORTED_CHECK \<and>
    (ret = XZ_OK \<longrightarrow> hdr_ok s' \<and> lzma2_inv (dec_lzma2 s') \<and> vpos s' = vpos s \<and>
       meta s' = meta (s\<lparr>hdr_pos := hdr_pos s', dec_lzma2 := dec_lzma2 s'\<rparr>)))"
proof -
  have "lzma2_inv l'" if "xz_dec_lzma2_reset (alloc (vmallocs s)) (dec_lzma2 s) v = (XZ_OK, l')" for v l'
    using xz_dec_lzma2_reset_inv [OF that] assms(2) by (auto simp: lz_static_def)
  thus ?thesis using assms(1)
    by (auto simp: header_filter_def read_at_def hdr_ok_def Let_def meta_def not_less dest: reset_ret split: prod.split)
qed

text \<open>The block header from some field on.\<close>

definition header_post :: "xz_dec \<Rightarrow> xz_ret \<times> xz_dec \<Rightarrow> bool" where
  "header_post s x = (case x of (ret, s') \<Rightarrow> ret \<noteq> XZ_UNSUPPORTED_CHECK \<and>
     (ret = XZ_OK \<longrightarrow> hdr_ok s' \<and> hdr_pos s' = 0 \<and> lzma2_inv (dec_lzma2 s') \<and> vpos s' = 0 \<and>
        check_type s' = check_type s \<and> in_start s' = in_start s \<and> sequence s' = sequence s))"

lemma header_post_cong: "check_type t = check_type s \<Longrightarrow> in_start t = in_start s \<Longrightarrow> sequence t = sequence s \<Longrightarrow> header_post t = header_post s"
  by (simp add: header_post_def fun_eq_iff)

lemma header_chain_safe:
  assumes "hdr_ok s" "lz_static (dec_lzma2 s)" "vpos s = 0"
  shows "returns (do {
     (ret, s) \<leftarrow> header_filter alloc s;
     (if ret \<noteq> XZ_OK then Some (ret, s)
      else do {
        (bad, s) \<leftarrow> header_padding s;
        (case bad of
           Some ret \<Rightarrow> Some (ret, s)
         | None \<Rightarrow> Some (XZ_OK, map_block (\<lambda>k. k\<lparr>blk_compressed := 0, blk_uncompressed := 0\<rparr>) (s\<lparr>hdr_pos := 0\<rparr>))) }) }) (header_post s)"
proof -
  obtain ret t where t: "header_filter alloc s = Some (ret, t)" "ret \<noteq> XZ_UNSUPPORTED_CHECK"
      "ret = XZ_OK \<longrightarrow> hdr_ok t \<and> lzma2_inv (dec_lzma2 t) \<and> vpos t = vpos s \<and> meta t = meta (s\<lparr>hdr_pos := hdr_pos t, dec_lzma2 := dec_lzma2 t\<rparr>)"
    using header_filter_safe [OF assms(1,2)] by (rule returnsE2) blast
  show ?thesis
  proof (cases "ret = XZ_OK")
    case True
    hence ht: "hdr_ok t" using t(3) by simp
    show ?thesis using t True assms(3) header_padding_safe [OF ht]
      by (auto simp: header_post_def hdr_ok_def meta_def elim!: returns_mono split: option.split)
  qed (use t in \<open>simp add: header_post_def\<close>)
qed

lemma header_field_safe:
  assumes "hdr_ok s" "lz_static (dec_lzma2 s)" "vpos s = 0"
    and "\<And>t n. hdr_ok t \<Longrightarrow> lz_static (dec_lzma2 t) \<Longrightarrow> vpos t = 0 \<Longrightarrow> header_post t = header_post s \<Longrightarrow> returns (f n t) (header_post s)"
  shows "returns (do {
     (v, s) \<leftarrow> header_size_field present s;
     (case v of None \<Rightarrow> Some (XZ_DATA_ERROR, s) | Some n \<Rightarrow> f n s) }) (header_post s)"
proof -
  obtain v t where t: "header_size_field present s = Some (v, t)" "hdr_ok t" "meta t = meta (s\<lparr>hdr_pos := hdr_pos t\<rparr>)" "v \<noteq> None \<longrightarrow> vpos t = 0"
    using header_size_field_safe [OF assms(1,3)] by (rule returnsE2) blast
  have "header_post t = header_post s" by (rule header_post_cong) (use t(3) in \<open>simp_all add: meta_def\<close>)
  moreover have "lz_static (dec_lzma2 t)" using t(3) assms(2) by (simp add: meta_def)
  ultimately show ?thesis using t assms(4) by (simp add: header_post_def split: option.split)
qed

lemma dec_block_header_safe:
  assumes "hdr_ok s" "8 \<le> hdr_size s" "vpos s = 0" "lz_static (dec_lzma2 s)"
  shows "returns (dec_block_header alloc s) (header_post s)"
proof -
  define t where "t = s\<lparr>hdr_size := hdr_size s - 4\<rparr>"
  define u where "u = t\<lparr>hdr_pos := 2\<rparr>"
  define data where "data = take (hdr_size t) (hdr_buf t)"
  have d: "slice (hdr_buf t) 0 (hdr_size t) = Some data" using assms(1) by (auto simp: data_def slice_def t_def hdr_ok_def)
  obtain crc where c: "get_le32 (hdr_buf t) (hdr_size t) = Some crc"
    using get_le32_safe [of "hdr_size t" "hdr_buf t"] assms by (auto simp: t_def hdr_ok_def elim!: returnsE)
  have g: "(hdr_size s < 4) = False" using assms(2) by simp
  obtain flags where f: "read_at (hdr_buf u) 1 = Some flags" using assms(1) by (simp add: read_at_def u_def t_def hdr_ok_def)
  have u: "hdr_ok u" "lz_static (dec_lzma2 u)" "vpos u = 0" "header_post u = header_post s"
    using assms by (auto simp: u_def t_def hdr_ok_def header_post_def fun_eq_iff)
  have "returns (do {
       (v, s) \<leftarrow> header_size_field (flags AND 0x40 \<noteq> 0) u;
       (case v of
          None \<Rightarrow> Some (XZ_DATA_ERROR, s)
        | Some n \<Rightarrow> do {
            let s = map_header (\<lambda>h. h\<lparr>bh_compressed := n\<rparr>) s;
            (v, s) \<leftarrow> header_size_field (flags AND 0x80 \<noteq> 0) s;
            (case v of
               None \<Rightarrow> Some (XZ_DATA_ERROR, s)
             | Some n \<Rightarrow> do {
                 let s = map_header (\<lambda>h. h\<lparr>bh_uncompressed := n\<rparr>) s;
                 (ret, s) \<leftarrow> header_filter alloc s;
                 (if ret \<noteq> XZ_OK then Some (ret, s)
                  else do {
                    (bad, s) \<leftarrow> header_padding s;
                    (case bad of
                       Some ret \<Rightarrow> Some (ret, s)
                     | None \<Rightarrow> Some (XZ_OK, map_block (\<lambda>k. k\<lparr>blk_compressed := 0, blk_uncompressed := 0\<rparr>) (s\<lparr>hdr_pos := 0\<rparr>))) }) }) }) })
      (header_post u)" (is "returns ?rest _")
    unfolding Let_def
  proof (rule header_field_safe [OF u(1-3)], goal_cases)
    case (1 t n)
    define t' where "t' = map_header (\<lambda>h. h\<lparr>bh_compressed := n\<rparr>) t"
    have t': "hdr_ok t'" "lz_static (dec_lzma2 t')" "vpos t' = 0" "header_post u = header_post t'"
      using 1 by (auto simp: t'_def hdr_ok_def header_post_def fun_eq_iff)
    show ?case unfolding t'_def [symmetric] t'(4)
    proof (rule header_field_safe [OF t'(1-3)], goal_cases)
      case (1 w m)
      have w: "header_post t' = header_post (map_header (\<lambda>h. h\<lparr>bh_uncompressed := m\<rparr>) w)"
        using 1(4) by (simp add: header_post_def fun_eq_iff)
      show ?case unfolding w by (rule header_chain_safe) (use 1 in \<open>auto simp: hdr_ok_def\<close>)
    qed
  qed
  moreover have "dec_block_header alloc s = (if xz_crc32 data 0 \<noteq> crc then Some (XZ_DATA_ERROR, t)
      else if flags AND 0x3F \<noteq> 0 then Some (XZ_OPTIONS_ERROR, u) else ?rest)"
    by (simp only: dec_block_header_def g if_False bind.bind_lunit t_def [symmetric] d c Let_def u_def [symmetric] f)
  ultimately show ?thesis using u(4) by (simp add: header_post_def)
qed

section \<open>Blocks\<close>

lemma block_done_safe:
  assumes "unat (check_type s) < 16"
  shows "returns (block_done s ret) (\<lambda>(ret', s'). meta s' = meta s \<and> vpos s' = vpos s \<and> (ret' = ret \<or> ret' = XZ_DATA_ERROR))"
  using check_size_safe [OF assms] by (auto simp: block_done_def Let_def elim!: returnsE)

lemma dec_block_safe:
  assumes "lzma2_inv (dec_lzma2 s)" "buf_ok b" "unat (check_type s) < 16"
  shows "returns (dec_block s b) (\<lambda>(ret, s', b'). buf_step b b' \<and> ret \<noteq> XZ_UNSUPPORTED_CHECK \<and>
    meta s' = meta (s\<lparr>dec_lzma2 := dec_lzma2 s', in_start := in_pos b\<rparr>) \<and> vpos s' = vpos s \<and>
    (ret = XZ_STREAM_END \<longrightarrow> lzma2_inv (dec_lzma2 s')) \<and>
    (ret = XZ_OK \<longrightarrow> lzma2_inv (dec_lzma2 s') \<and> (in_pos b' = in_size b \<or> out_pos b' = out_size b)))"
proof -
  obtain ret l c where l: "xz_dec_lzma2_run (dec_lzma2 s) b = Some (ret, l, c)" "buf_step b c" "ret \<noteq> XZ_UNSUPPORTED_CHECK"
      "ret = XZ_STREAM_END \<longrightarrow> lzma2_inv l" "ret = XZ_OK \<longrightarrow> lzma2_inv l \<and> (in_pos c = in_size b \<or> out_pos c = out_size b)"
    using xz_dec_lzma2_run_safe [OF assms(1,2)] by (rule returnsE3) blast
  define t where "t = map_block (\<lambda>k. k\<lparr>blk_compressed := blk_compressed k + (of_nat (in_pos c) - of_nat (in_pos b)),
    blk_uncompressed := blk_uncompressed k + (of_nat (out_pos c) - of_nat (out_pos b))\<rparr>) (s\<lparr>in_start := in_pos b, out_start := out_pos b, dec_lzma2 := l\<rparr>)"
  have sp: "span (b_out c) (out_pos b) (out_pos c) = Some (take (out_pos c - out_pos b) (drop (out_pos b) (b_out c)))"
    using l(2) by (intro span_safe) (auto simp: buf_step_def)
  define u where "u = (if check_type s = XZ_CHECK_CRC32
    then t\<lparr>dec_crc32 := xz_crc32 (take (out_pos c - out_pos b) (drop (out_pos b) (b_out c))) (dec_crc32 t)\<rparr> else t)"
  have u: "meta u = meta (s\<lparr>dec_lzma2 := l, in_start := in_pos b\<rparr>)" "vpos u = vpos s" "check_type u = check_type s"
    by (auto simp: u_def t_def meta_def)
  obtain ret' w where w: "block_done u ret = Some (ret', w)" "meta w = meta u" "vpos w = vpos u" "ret' = ret \<or> ret' = XZ_DATA_ERROR"
    using block_done_safe [of u ret] assms(3) u(3) by (auto elim!: returnsE)
  have eq: "dec_block s b = Some (if blk_compressed (dec_block_info t) > bh_compressed (block_header t)
        \<or> blk_uncompressed (dec_block_info t) > bh_uncompressed (block_header t) then (XZ_DATA_ERROR, t, c) else (ret', w, c))"
    using l(1) sp w(1) unfolding u_def t_def by (simp add: dec_block_def Let_def cong: if_cong)
  have "meta t = meta (s\<lparr>dec_lzma2 := l, in_start := in_pos b\<rparr>)" "vpos t = vpos s" "dec_lzma2 t = l" by (simp_all add: t_def meta_def)
  moreover have "dec_lzma2 w = l" "meta w = meta (s\<lparr>dec_lzma2 := l, in_start := in_pos b\<rparr>)" using w(2) u(1) by (simp_all add: meta_def)
  ultimately show ?thesis using l w u unfolding eq by auto
qed

section \<open>The positions of the decoder\<close>

definition dec_inv :: "xz_dec \<Rightarrow> bool" where
  "dec_inv s \<longleftrightarrow> hdr_ok s \<and> lz_static (dec_lzma2 s) \<and> (sequence s \<noteq> SEQ_STREAM_HEADER \<longrightarrow> unat (check_type s) < 16) \<and>
     (case sequence s of
        SEQ_STREAM_HEADER \<Rightarrow> hdr_pos s < hdr_size s \<and> vpos s = 0
      | SEQ_BLOCK_HEADER \<Rightarrow> 8 \<le> hdr_size s \<and> vpos s = 0
      | SEQ_BLOCK_UNCOMPRESS \<Rightarrow> hdr_pos s = 0 \<and> vpos s = 0 \<and> lzma2_inv (dec_lzma2 s)
      | SEQ_BLOCK_CHECK \<Rightarrow> hdr_pos s = 0 \<and> (check_type s = XZ_CHECK_CRC32 \<longrightarrow> crc_pos s)
      | SEQ_INDEX \<Rightarrow> hdr_pos s = 0 \<and> vli_pos s
      | SEQ_INDEX_CRC32 \<Rightarrow> hdr_pos s = 0 \<and> crc_pos s
      | SEQ_STREAM_FOOTER \<Rightarrow> True
      | _ \<Rightarrow> hdr_pos s = 0 \<and> vpos s = 0)"

lemma dec_inv_hdr: "dec_inv s \<Longrightarrow> hdr_ok s" by (simp add: dec_inv_def)

definition mu :: "xz_dec \<Rightarrow> xz_buf \<Rightarrow> nat" where
  "mu s b = 2 * (in_size b - in_pos b) + (if sequence s = SEQ_BLOCK_START then 0 else 1)"

definition main_post :: "nat \<Rightarrow> xz_buf \<Rightarrow> xz_ret option \<times> xz_dec \<times> xz_buf \<Rightarrow> bool" where
  "main_post k b x = (case x of (ret, s', b') \<Rightarrow> buf_step b b' \<and>
     (ret = None \<longrightarrow> dec_inv s' \<and> in_start s' \<le> in_pos b' \<and> mu s' b' < k) \<and>
     (ret = Some XZ_UNSUPPORTED_CHECK \<longrightarrow> dec_inv s' \<and> in_pos b < in_pos b') \<and>
     (ret = Some XZ_OK \<longrightarrow> dec_inv s' \<and> (in_pos b' = in_size b \<or> out_pos b' = out_size b)))"

lemma main_post_trans: "buf_step b c \<Longrightarrow> returns m (main_post k c) \<Longrightarrow> returns m (main_post k b)"
  by (erule returns_mono) (auto simp: main_post_def intro: buf_step_trans dest: buf_step_pos buf_step_size)

lemma main_stream_footer_safe:
  assumes "dec_inv s" "sequence s = SEQ_STREAM_FOOTER" "buf_ok b"
  shows "returns (main_stream_footer s b) (main_post k b)"
proof -
  obtain ok t c where t: "fill_temp s b = Some (ok, t, c)" "ate b c" "hdr_ok t" "vpos t = vpos s"
      "meta t = meta (s\<lparr>hdr_buf := hdr_buf t, hdr_pos := hdr_pos t\<rparr>)" "\<not> ok \<longrightarrow> in_pos c = in_size b"
    using fill_temp_safe [OF dec_inv_hdr [OF assms(1)] assms(3)] by (rule returnsE3) blast
  have "dec_inv t" using assms(1,2) t(3,5) by (simp add: dec_inv_def meta_def)
  thus ?thesis using t ate_step [OF assms(3) t(2)] dec_stream_footer_safe [OF t(3)]
    by (auto simp: main_stream_footer_def main_post_def elim!: returns_mono)
qed

lemma main_index_crc32_safe:
  assumes "dec_inv s" "sequence s = SEQ_INDEX_CRC32" "buf_ok b"
  shows "returns (main_index_crc32 s b) (main_post k b)"
proof -
  have cp: "crc_pos s" using assms by (simp add: dec_inv_def)
  obtain ret t c where t: "crc32_validate s b = Some (ret, t, c)" "ate b c" "meta t = meta s"
      "ret \<in> {XZ_OK, XZ_STREAM_END, XZ_DATA_ERROR}" "ret = XZ_OK \<longrightarrow> in_pos c = in_size b \<and> crc_pos t"
    using crc32_validate_safe [OF assms(3) cp] by (rule returnsE3) blast
  define u where "u = t\<lparr>hdr_size := STREAM_HEADER_SIZE, sequence := SEQ_STREAM_FOOTER\<rparr>"
  have "dec_inv u" "sequence u = SEQ_STREAM_FOOTER" using assms t(3) by (auto simp: u_def dec_inv_def meta_def hdr_ok_def STREAM_HEADER_SIZE_def)
  hence "returns (main_stream_footer u c) (main_post k b)"
    using main_post_trans ate_step [OF assms(3) t(2)] main_stream_footer_safe ate_ok [OF assms(3) t(2)] by blast
  moreover have "dec_inv t" if "crc_pos t" using assms that t(3) by (simp add: dec_inv_def meta_def hdr_ok_def)
  ultimately show ?thesis using t ate_step [OF assms(3) t(2)] by (auto simp: main_index_crc32_def u_def [symmetric] main_post_def)
qed

lemma index_padding_safe:
  assumes "buf_ok b"
  shows "returns (index_padding s b) (\<lambda>(r, b'). ate b b' \<and> (r = Inl XZ_DATA_ERROR \<or> r = Inr True \<or> r = Inr False \<and> in_pos b' = in_size b))"
  using assms
proof (induction s b rule: index_padding.induct)
  case (1 s b)
  show ?case
  proof (cases "(ix_size (dec_index_info s) + (of_nat (in_pos b) - of_nat (in_start s))) AND 3 = 0 \<or> in_pos b = in_size b")
    case True
    thus ?thesis using "1.prems" ate_refl [of b] by (subst index_padding.simps) (auto simp: buf_ok_def)
  next
    case False
    hence lt: "in_pos b < in_size b" using "1.prems" by (simp add: buf_ok_def)
    define v where "v = b_in b ! in_pos b"
    define c where "c = b\<lparr>in_pos := in_pos b + 1\<rparr>"
    have r: "read_at (b_in b) (in_pos b) = Some v" using lt by (simp add: read_at_def v_def)
    have c: "ate b c" "buf_ok c" "in_size c = in_size b" using lt "1.prems" by (auto simp: c_def buf_ok_def intro: ateI)
    have eq: "index_padding s b = (if v \<noteq> 0 then Some (Inl XZ_DATA_ERROR, c) else index_padding s c)"
      using False r by (simp add: index_padding.simps [of s b] c_def)
    show ?thesis unfolding eq using "1.IH" [OF _ _ r c_def _ c(2)] False c ate_trans [OF c(1)] by (auto elim!: returns_mono)
  qed
qed

lemma main_index_padding_safe:
  assumes "dec_inv s" "sequence s = SEQ_INDEX_PADDING" "buf_ok b" "in_start s \<le> in_pos b"
  shows "returns (main_index_padding s b) (main_post k b)"
proof -
  obtain r c where r: "index_padding s b = Some (r, c)" "ate b c" "r = Inl XZ_DATA_ERROR \<or> r = Inr True \<or> r = Inr False \<and> in_pos c = in_size b"
    using index_padding_safe [OF assms(3)] by (rule returnsE2) blast
  have c: "buf_ok c" "buf_step b c" using ate_ok [OF assms(3) r(2)] ate_step [OF assms(3) r(2)] by auto
  have "in_start s \<le> in_pos c" using assms(4) ateD [OF r(2)] by simp
  then obtain t where t: "index_update s c = Some t" "meta t = meta s" "vpos t = vpos s"
    using index_update_safe [OF _ c(1)] by (auto elim!: returnsE)
  define u where "u = t\<lparr>sequence := SEQ_INDEX_CRC32\<rparr>"
  have "dec_inv u" "sequence u = SEQ_INDEX_CRC32" using assms(1,2) t by (auto simp: u_def dec_inv_def meta_def hdr_ok_def)
  hence "returns (main_index_crc32 u c) (main_post k b)" using main_index_crc32_safe [OF _ _ c(1)] main_post_trans [OF c(2)] by blast
  moreover have "dec_inv t" using assms(1,2) t by (auto simp: dec_inv_def meta_def hdr_ok_def)
  ultimately show ?thesis using r t c by (auto simp: main_index_padding_def u_def [symmetric] main_post_def)
qed

lemma main_index_safe:
  assumes "dec_inv s" "sequence s = SEQ_INDEX" "buf_ok b" "in_start s \<le> in_pos b"
  shows "returns (main_index s b) (main_post k b)"
proof -
  have vp: "vli_pos s" using assms(1,2) by (simp add: dec_inv_def)
  obtain ret t c where t: "dec_index s b = Some (ret, t, c)" "ate b c" "meta t = meta s" "ret \<in> {XZ_OK, XZ_STREAM_END, XZ_DATA_ERROR}"
      "ret = XZ_OK \<longrightarrow> in_pos c = in_size b \<and> vli_pos t" "ret = XZ_STREAM_END \<longrightarrow> vpos t = 0"
    using dec_index_safe [OF assms(3) vp assms(4)] by (rule returnsE3) blast
  have c: "buf_ok c" "buf_step b c" using ate_ok [OF assms(3) t(2)] ate_step [OF assms(3) t(2)] by auto
  define u where "u = t\<lparr>sequence := SEQ_INDEX_PADDING\<rparr>"
  have "in_start u \<le> in_pos c" using assms(4) ateD [OF t(2)] t(3) by (simp add: u_def meta_def)
  moreover have "dec_inv u" "sequence u = SEQ_INDEX_PADDING" if "vpos t = 0"
    using assms(1,2) t(3) that by (auto simp: u_def dec_inv_def meta_def hdr_ok_def)
  ultimately have "returns (main_index_padding u c) (main_post k b)" if "vpos t = 0"
    using that main_index_padding_safe [OF _ _ c(1)] main_post_trans [OF c(2)] by blast
  moreover have "dec_inv t" if "vli_pos t" using assms(1,2) t(3) that by (auto simp: dec_inv_def meta_def hdr_ok_def)
  ultimately show ?thesis using t c by (auto simp: main_index_def u_def [symmetric] main_post_def)
qed

lemma main_block_check_safe:
  assumes "dec_inv s" "sequence s = SEQ_BLOCK_CHECK" "buf_ok b" "2 * (in_size b - in_pos b) < k" "in_start s \<le> in_pos b"
  shows "returns (main_block_check s b) (main_post k b)"
proof -
  have next_inv: "dec_inv (t\<lparr>sequence := SEQ_BLOCK_START\<rparr>)" if "meta t = meta s" "vpos t = 0" for t
    using assms(1,2) that by (auto simp: dec_inv_def meta_def hdr_ok_def)
  have next_mu: "mu (t\<lparr>sequence := SEQ_BLOCK_START\<rparr>) c < k" "in_start t \<le> in_pos c" if "ate b c" "meta t = meta s" for t c
    using assms(4,5) ateD [OF that(1)] that(2) by (auto simp: mu_def meta_def)
  show ?thesis
  proof (cases "check_type s = XZ_CHECK_CRC32")
    case True
    hence cp: "crc_pos s" using assms(1,2) by (simp add: dec_inv_def)
    obtain ret t c where t: "crc32_validate s b = Some (ret, t, c)" "ate b c" "meta t = meta s"
        "ret \<in> {XZ_OK, XZ_STREAM_END, XZ_DATA_ERROR}" "ret = XZ_OK \<longrightarrow> in_pos c = in_size b \<and> crc_pos t" "ret = XZ_STREAM_END \<longrightarrow> vpos t = 0"
      using crc32_validate_safe [OF assms(3) cp] by (rule returnsE3) blast
    have "dec_inv t" if "crc_pos t" using assms(1,2) t(3) that by (auto simp: dec_inv_def meta_def hdr_ok_def)
    thus ?thesis using True t next_inv [OF t(3)] next_mu [OF t(2,3)] ate_step [OF assms(3) t(2)] by (auto simp: main_block_check_def main_post_def)
  next
    case False
    obtain n where n: "check_size (check_type s) = Some n"
      using check_size_safe [of "check_type s"] assms(1,2) by (auto simp: dec_inv_def elim!: returnsE)
    obtain ok t c where t: "skip_loop n s b = (ok, t, c)" "ate b c" "meta t = meta s" "ok \<longrightarrow> vpos t = 0" "\<not> ok \<longrightarrow> in_pos c = in_size b"
      using skip_loop_safe [OF assms(3), where n = n and s = s] by (cases "skip_loop n s b") auto
    have "dec_inv t" using assms(1,2) t(3) False by (auto simp: dec_inv_def meta_def hdr_ok_def)
    thus ?thesis using False n t next_inv [OF t(3)] next_mu [OF t(2,3)] ate_step [OF assms(3) t(2)]
      by (auto simp: main_block_check_def check_skip_def main_post_def)
  qed
qed

lemma block_padding_safe:
  assumes "buf_ok b"
  shows "returns (block_padding s b) (\<lambda>(r, s', b'). ate b b' \<and> meta s' = meta s \<and> vpos s' = vpos s \<and>
    (r = None \<or> r = Some XZ_DATA_ERROR \<or> r = Some XZ_OK \<and> in_pos b' = in_size b))"
  using assms
proof (induction s b rule: block_padding.induct)
  case (1 s b)
  show ?case
  proof (cases "blk_compressed (dec_block_info s) AND 3 = 0 \<or> in_pos b = in_size b")
    case True
    thus ?thesis using "1.prems" ate_refl [of b] by (subst block_padding.simps) (auto simp: buf_ok_def)
  next
    case False
    hence lt: "in_pos b < in_size b" using "1.prems" by (simp add: buf_ok_def)
    define v where "v = b_in b ! in_pos b"
    define c where "c = b\<lparr>in_pos := in_pos b + 1\<rparr>"
    define t where "t = map_block (\<lambda>k. k\<lparr>blk_compressed := blk_compressed k + 1\<rparr>) s"
    have r: "read_at (b_in b) (in_pos b) = Some v" using lt by (simp add: read_at_def v_def)
    have c: "ate b c" "buf_ok c" "in_size c = in_size b" using lt "1.prems" by (auto simp: c_def buf_ok_def intro: ateI)
    have t: "meta t = meta s" "vpos t = vpos s" by (simp_all add: t_def)
    have eq: "block_padding s b = (if v \<noteq> 0 then Some (Some XZ_DATA_ERROR, s, c) else block_padding t c)"
      using False r by (simp add: block_padding.simps [of s b] c_def t_def)
    show ?thesis unfolding eq using "1.IH" [OF _ _ r c_def _ c(2)] False c t ate_trans [OF c(1)]
      by (auto simp: t_def [symmetric] elim!: returns_mono)
  qed
qed

lemma main_block_padding_safe:
  assumes "dec_inv s" "sequence s = SEQ_BLOCK_PADDING" "buf_ok b" "2 * (in_size b - in_pos b) < k" "in_start s \<le> in_pos b"
  shows "returns (main_block_padding s b) (main_post k b)"
proof -
  obtain r t c where t: "block_padding s b = Some (r, t, c)" "ate b c" "meta t = meta s" "vpos t = vpos s"
      "r = None \<or> r = Some XZ_DATA_ERROR \<or> r = Some XZ_OK \<and> in_pos c = in_size b"
    using block_padding_safe [OF assms(3)] by (rule returnsE3) blast
  have c: "buf_ok c" "buf_step b c" using ate_ok [OF assms(3) t(2)] ate_step [OF assms(3) t(2)] by auto
  define u where "u = t\<lparr>sequence := SEQ_BLOCK_CHECK\<rparr>"
  have "dec_inv u" "sequence u = SEQ_BLOCK_CHECK" "in_start u \<le> in_pos c" "2 * (in_size c - in_pos c) < k"
    using assms t(3,4) ateD [OF t(2)] by (auto simp: u_def dec_inv_def meta_def hdr_ok_def)
  hence "returns (main_block_check u c) (main_post k b)" using main_block_check_safe [OF _ _ c(1)] main_post_trans [OF c(2)] by blast
  moreover have "dec_inv t" using assms(1,2) t(3,4) by (auto simp: dec_inv_def meta_def hdr_ok_def)
  ultimately show ?thesis using t c by (auto simp: main_block_padding_def u_def [symmetric] main_post_def)
qed

lemma main_block_uncompress_safe:
  assumes "dec_inv s" "sequence s = SEQ_BLOCK_UNCOMPRESS" "buf_ok b" "2 * (in_size b - in_pos b) < k"
  shows "returns (main_block_uncompress s b) (main_post k b)"
proof -
  have pre: "lzma2_inv (dec_lzma2 s)" "unat (check_type s) < 16" using assms(1,2) by (auto simp: dec_inv_def)
  obtain ret t c where t: "dec_block s b = Some (ret, t, c)" "buf_step b c" "ret \<noteq> XZ_UNSUPPORTED_CHECK"
      "meta t = meta (s\<lparr>dec_lzma2 := dec_lzma2 t, in_start := in_pos b\<rparr>)" "vpos t = vpos s" "ret = XZ_STREAM_END \<longrightarrow> lzma2_inv (dec_lzma2 t)"
      "ret = XZ_OK \<longrightarrow> lzma2_inv (dec_lzma2 t) \<and> (in_pos c = in_size b \<or> out_pos c = out_size b)"
    using dec_block_safe [OF pre(1) assms(3) pre(2)] by (rule returnsE3) blast
  have c: "buf_ok c" using buf_step_ok [OF t(2)] .
  define u where "u = t\<lparr>sequence := SEQ_BLOCK_PADDING\<rparr>"
  have "dec_inv u" "sequence u = SEQ_BLOCK_PADDING" "in_start u \<le> in_pos c" "2 * (in_size c - in_pos c) < k" if "lzma2_inv (dec_lzma2 t)"
    using assms t(2,4,5) lz_static_inv [OF that] by (auto simp: u_def dec_inv_def meta_def hdr_ok_def buf_step_def)
  hence "returns (main_block_padding u c) (main_post k b)" if "lzma2_inv (dec_lzma2 t)"
    using that main_block_padding_safe [OF _ _ c] main_post_trans [OF t(2)] by blast
  moreover have "dec_inv t" if "lzma2_inv (dec_lzma2 t)"
    using assms(1,2) t(4,5) that lz_static_inv [OF that] by (auto simp: dec_inv_def meta_def hdr_ok_def)
  ultimately show ?thesis using t by (auto simp: main_block_uncompress_def u_def [symmetric] main_post_def)
qed

lemma main_block_header_safe:
  assumes "dec_inv s" "sequence s = SEQ_BLOCK_HEADER" "buf_ok b" "2 * (in_size b - in_pos b) \<le> k"
    "hdr_pos s = hdr_size s \<longrightarrow> 2 * (in_size b - in_pos b) < k"
  shows "returns (main_block_header alloc s b) (main_post k b)"
proof -
  obtain ok t c where t: "fill_temp s b = Some (ok, t, c)" "ate b c" "hdr_ok t" "vpos t = vpos s"
      "meta t = meta (s\<lparr>hdr_buf := hdr_buf t, hdr_pos := hdr_pos t\<rparr>)" "ok \<longrightarrow> in_pos c = in_pos b + (hdr_size s - hdr_pos s)"
      "\<not> ok \<longrightarrow> in_pos c = in_size b"
    using fill_temp_safe [OF dec_inv_hdr [OF assms(1)] assms(3)] by (rule returnsE3) blast
  have c: "buf_ok c" "buf_step b c" using ate_ok [OF assms(3) t(2)] ate_step [OF assms(3) t(2)] by auto
  have it: "dec_inv t" using assms(1,2) t(3-5) by (simp add: dec_inv_def meta_def)
  have "8 \<le> hdr_size t" "vpos t = 0" "lz_static (dec_lzma2 t)" using assms(1,2) t(4,5) by (auto simp: dec_inv_def meta_def)
  then obtain ret u where u: "dec_block_header alloc t = Some (ret, u)" "header_post t (ret, u)"
    using dec_block_header_safe [OF t(3), of alloc] by (auto elim!: returnsE)
  define w where "w = u\<lparr>sequence := SEQ_BLOCK_UNCOMPRESS\<rparr>"
  have "dec_inv w" "sequence w = SEQ_BLOCK_UNCOMPRESS" if "ret = XZ_OK"
    using that u(2) assms(1,2) t(5) lz_static_inv by (auto simp: header_post_def w_def dec_inv_def meta_def hdr_ok_def)
  moreover have "2 * (in_size c - in_pos c) < k" if ok
    using that t(6) assms(3-5) ateD [OF t(2)] dec_inv_hdr [OF assms(1)] by (auto simp: hdr_ok_def buf_ok_def)
  ultimately have "returns (main_block_uncompress w c) (main_post k b)" if "ret = XZ_OK" ok
    using that main_block_uncompress_safe [OF _ _ c(1)] main_post_trans [OF c(2)] by blast
  thus ?thesis using t u c it by (auto simp: main_block_header_def w_def [symmetric] main_post_def header_post_def)
qed

lemma block_header_bytes: "v \<noteq> 0 \<Longrightarrow> 8 \<le> unat ((ucast v + 1) * 4 :: u32) \<and> unat ((ucast v + 1) * 4 :: u32) \<le> 1024" for v :: byte
proof -
  assume "v \<noteq> 0"
  hence v: "0 < unat v" "unat v \<le> 255" using unat_byte_less [of v] by (auto simp: unat_gt_0 simp del: unat_byte_less)
  have u: "unat (ucast v :: u32) = unat v" using v by (simp add: unsigned_ucast_eq take_bit_nat_eq_self)
  have w: "unat (ucast v + 1 :: u32) = unat v + 1" using v by (simp only: unat_word_ariths u) simp
  have "unat ((ucast v + 1) * 4 :: u32) = (unat v + 1) * 4" using v by (subst unat_word_ariths) (simp add: w)
  thus ?thesis using v by simp
qed

lemma main_block_start_safe:
  assumes "dec_inv s" "sequence s = SEQ_BLOCK_START" "buf_ok b" "2 * (in_size b - in_pos b) \<le> k"
  shows "returns (main_block_start alloc s b) (main_post k b)"
proof (cases "in_pos b = in_size b")
  case True
  thus ?thesis using assms by (simp add: main_block_start_def main_post_def buf_step_refl)
next
  case False
  hence lt: "in_pos b < in_size b" using assms(3) by (simp add: buf_ok_def)
  define v where "v = b_in b ! in_pos b"
  have r: "read_at (b_in b) (in_pos b) = Some v" using lt by (simp add: read_at_def v_def)
  show ?thesis
  proof (cases "v = 0")
    case True
    have "ate b (b\<lparr>in_pos := in_pos b + 1\<rparr>)" using lt by (auto intro: ateI)
    moreover have "dec_inv (s\<lparr>in_start := in_pos b, sequence := SEQ_INDEX\<rparr>)" using assms(1,2) by (auto simp: dec_inv_def hdr_ok_def)
    ultimately show ?thesis using False True r lt assms(3,4) ate_step by (auto simp: main_block_start_def main_post_def mu_def)
  next
    case nz: False
    define n :: u32 where "n = (ucast v + 1) * 4"
    define t where "t = map_header (\<lambda>h. h\<lparr>bh_size := n\<rparr>) (s\<lparr>hdr_size := unat n, hdr_pos := 0, sequence := SEQ_BLOCK_HEADER\<rparr>)"
    have "8 \<le> unat n" "unat n \<le> 1024" using block_header_bytes [OF nz] by (auto simp: n_def)
    hence "dec_inv t" "sequence t = SEQ_BLOCK_HEADER" "hdr_pos t \<noteq> hdr_size t" using assms(1,2) by (auto simp: t_def dec_inv_def hdr_ok_def)
    hence "returns (main_block_header alloc t b) (main_post k b)" using main_block_header_safe [OF _ _ assms(3,4)] by blast
    thus ?thesis using False r nz by (simp add: main_block_start_def Let_def t_def n_def)
  qed
qed

lemma main_stream_header_safe:
  assumes "dec_inv s" "sequence s = SEQ_STREAM_HEADER" "buf_ok b" "2 * (in_size b - in_pos b) \<le> k"
  shows "returns (main_stream_header alloc s b) (main_post k b)"
proof -
  obtain ok t c where t: "fill_temp s b = Some (ok, t, c)" "ate b c" "hdr_ok t" "vpos t = vpos s"
      "meta t = meta (s\<lparr>hdr_buf := hdr_buf t, hdr_pos := hdr_pos t\<rparr>)"
      "ok \<longrightarrow> in_pos c = in_pos b + (hdr_size s - hdr_pos s) \<and> hdr_pos t = 0" "\<not> ok \<longrightarrow> in_pos c = in_size b \<and> hdr_pos t < hdr_size t"
    using fill_temp_safe [OF dec_inv_hdr [OF assms(1)] assms(3)] by (rule returnsE3) blast
  have c: "buf_ok c" "buf_step b c" using ate_ok [OF assms(3) t(2)] ate_step [OF assms(3) t(2)] by auto
  have ate: "in_pos b < in_pos c" if ok using that t(6) assms(1,2) by (auto simp: dec_inv_def)
  have it: "dec_inv t" if "\<not> ok" using that assms(1,2) t(3-5,7) by (simp add: dec_inv_def meta_def)
  define u where "u = t\<lparr>sequence := SEQ_BLOCK_START\<rparr>"
  have "hdr_ok u" using t(3) by (simp add: u_def hdr_ok_def)
  from dec_stream_header_safe [OF this] obtain ret w where w: "dec_stream_header u = Some (ret, w)" "meta w = meta (u\<lparr>check_type := check_type w\<rparr>)" "vpos w = vpos u"
      "ret = XZ_OK \<or> ret = XZ_UNSUPPORTED_CHECK \<longrightarrow> unat (check_type w) < 16"
    by (rule returnsE2) blast
  have iw: "dec_inv w" "sequence w = SEQ_BLOCK_START" if "ret = XZ_OK \<or> ret = XZ_UNSUPPORTED_CHECK" ok
    using that w(2-4) assms(1,2) t(3-6) by (auto simp: u_def dec_inv_def meta_def hdr_ok_def)
  have "2 * (in_size c - in_pos c) \<le> k" using assms(4) ateD [OF t(2)] by auto
  hence "returns (main_block_start alloc w c) (main_post k b)" if "ret = XZ_OK" ok
    using that iw main_block_start_safe [OF _ _ c(1)] main_post_trans [OF c(2)] by blast
  thus ?thesis using t w c it iw ate by (auto simp: main_stream_header_def u_def [symmetric] main_post_def)
qed

lemma main_turn_safe:
  assumes "dec_inv s" "buf_ok b" "in_start s \<le> in_pos b"
  shows "returns (main_turn alloc s b) (main_post (mu s b) b)"
proof (cases "sequence s")
  case SEQ_STREAM_HEADER
  thus ?thesis using main_stream_header_safe [OF assms(1) _ assms(2)] by (simp add: main_turn_def mu_def)
next
  case SEQ_BLOCK_START
  thus ?thesis using main_block_start_safe [OF assms(1) _ assms(2)] by (simp add: main_turn_def mu_def)
next
  case SEQ_BLOCK_HEADER
  thus ?thesis using main_block_header_safe [OF assms(1) _ assms(2)] by (simp add: main_turn_def mu_def)
next
  case SEQ_BLOCK_UNCOMPRESS
  thus ?thesis using main_block_uncompress_safe [OF assms(1) _ assms(2)] by (simp add: main_turn_def mu_def)
next
  case SEQ_BLOCK_PADDING
  thus ?thesis using main_block_padding_safe [OF assms(1) _ assms(2) _ assms(3)] by (simp add: main_turn_def mu_def)
next
  case SEQ_BLOCK_CHECK
  thus ?thesis using main_block_check_safe [OF assms(1) _ assms(2) _ assms(3)] by (simp add: main_turn_def mu_def)
qed (use main_index_safe [OF assms(1) _ assms(2,3)] main_index_padding_safe [OF assms(1) _ assms(2,3)]
    main_index_crc32_safe [OF assms(1) _ assms(2)] main_stream_footer_safe [OF assms(1) _ assms(2)] in \<open>simp_all add: main_turn_def\<close>)

section \<open>The public functions\<close>

definition run_post :: "xz_buf \<Rightarrow> xz_ret \<times> xz_dec \<times> xz_buf \<Rightarrow> bool" where
  "run_post b x = (case x of (ret, s', b') \<Rightarrow> buf_step b b' \<and>
     (ret = XZ_UNSUPPORTED_CHECK \<longrightarrow> dec_inv s' \<and> in_pos b < in_pos b') \<and>
     (ret = XZ_OK \<longrightarrow> dec_inv s' \<and> (in_pos b' = in_size b \<or> out_pos b' = out_size b)))"

lemma run_post_trans: "buf_step b c \<Longrightarrow> returns m (run_post c) \<Longrightarrow> returns m (run_post b)"
  by (erule returns_mono) (auto simp: run_post_def intro: buf_step_trans dest: buf_step_pos buf_step_size)

lemma main_loop_safe:
  assumes "dec_inv s" "buf_ok b" "in_start s \<le> in_pos b"
  shows "returns (main_loop alloc s b) (run_post b)"
  using assms
proof (induction "mu s b" arbitrary: s b rule: less_induct)
  case less
  obtain ret t c where t: "main_turn alloc s b = Some (ret, t, c)" "main_post (mu s b) b (ret, t, c)"
    using main_turn_safe [OF less.prems, of alloc] by (auto elim!: returnsE)
  have eq: "main_loop alloc s b = (case ret of Some r \<Rightarrow> Some (r, t, c) | None \<Rightarrow> main_loop alloc t c)"
    by (simp add: main_loop.simps [of alloc s b] t(1))
  show ?case
  proof (cases ret)
    case None
    hence c: "mu t c < mu s b" "dec_inv t" "in_start t \<le> in_pos c" "buf_step b c" using t(2) by (auto simp: main_post_def)
    show ?thesis using run_post_trans [OF c(4) less.hyps [OF c(1,2) buf_step_ok [OF c(4)] c(3)]] None eq by simp
  next
    case (Some r)
    thus ?thesis using t(2) eq by (auto simp: main_post_def run_post_def)
  qed
qed

lemma dec_main_safe:
  assumes "dec_inv s" "buf_ok b"
  shows "returns (dec_main alloc s b) (run_post b)"
proof -
  have "dec_inv (s\<lparr>in_start := in_pos b\<rparr>)" using assms(1) by (auto simp: dec_inv_def hdr_ok_def vli_pos_def crc_pos_def split: dec_seq.splits)
  thus ?thesis using main_loop_safe assms(2) by (simp add: dec_main_def)
qed

lemma xz_dec_run_safe:
  assumes "dec_inv s" "buf_ok b"
  shows "returns (xz_dec_run alloc s b) (run_post b)"
proof -
  have k: "dec_inv (t\<lparr>allow_buf_error := x\<rparr>) = dec_inv t" for t x
    by (simp add: dec_inv_def hdr_ok_def vli_pos_def crc_pos_def split: dec_seq.splits)
  show ?thesis using dec_main_safe [OF assms, of alloc]
    by (auto simp: xz_dec_run_def run_post_def k elim!: returns_mono)
qed

lemma xz_dec_init_inv:
  assumes "xz_dec_init ok lzma2_ok junk XZ_DYNALLOC n = Some s" "length (hdr_buf junk) = 1024" "length (temp_buf (dec_lzma2 junk)) = 63"
  shows "dec_inv s"
proof -
  obtain l where "xz_dec_lzma2_create lzma2_ok (dec_lzma2 junk) XZ_DYNALLOC n = Some l"
      "s = xz_dec_reset (junk\<lparr>dec_mode := XZ_DYNALLOC, dec_lzma2 := l\<rparr>)"
    using assms(1) by (auto simp: xz_dec_init_def bind_eq_Some_conv split: if_splits)
  thus ?thesis using create_static assms(2,3) by (auto simp: dec_inv_def xz_dec_reset_def hdr_ok_def lz_static_def STREAM_HEADER_SIZE_def)
qed

lemma length_vec_resize [simp]: "length (vec_resize n xs) = n"
  by (simp add: vec_resize_def)

lemma decompress_loop_safe:
  assumes "dec_inv s" "buf_ok b" "0 < out_size b" "out_size b \<le> kMaxGnuDebugDataSize"
  shows "returns (decompress_loop alloc s b) (\<lambda>r. \<forall>xs. r = Some xs \<longrightarrow> length xs \<le> kMaxGnuDebugDataSize)"
  using assms
proof (induction "(in_size b - in_pos b) + (kMaxGnuDebugDataSize - out_size b)" arbitrary: s b rule: less_induct)
  case less
  obtain ret t c where t: "xz_dec_run alloc s b = Some (ret, t, c)" "run_post b (ret, t, c)"
    using xz_dec_run_safe [OF less.prems(1,2), of alloc] by (auto elim!: returnsE)
  have bc: "buf_step b c" using t(2) by (simp add: run_post_def)
  note c = buf_step_ok [OF bc] buf_step_size [OF bc] buf_step_pos [OF bc]
  define d where "d = c\<lparr>b_out := vec_resize (min (out_size c * 2) kMaxGnuDebugDataSize) (b_out c)\<rparr>"
  have eq: "decompress_loop alloc s b = (if ret = XZ_STREAM_END then Some (Some (vec_resize (out_pos c) (b_out c)))
      else if ret = XZ_UNSUPPORTED_CHECK then decompress_loop alloc t c
      else if ret \<noteq> XZ_OK then Some None
      else if out_pos c = out_size c then if out_size c \<ge> kMaxGnuDebugDataSize then Some None else decompress_loop alloc t d
      else if in_pos c = in_size c then Some None else decompress_loop alloc t c)"
    by (simp only: decompress_loop.simps [of alloc s b] t(1) bind.bind_lunit prod.case d_def [symmetric])
  have "returns (decompress_loop alloc t c) (\<lambda>r. \<forall>xs. r = Some xs \<longrightarrow> length xs \<le> kMaxGnuDebugDataSize)" if "ret = XZ_UNSUPPORTED_CHECK"
    by (rule less.hyps) (use that t(2) c bc less.prems in \<open>auto simp: run_post_def buf_step_def\<close>)
  moreover have "returns (decompress_loop alloc t d) (\<lambda>r. \<forall>xs. r = Some xs \<longrightarrow> length xs \<le> kMaxGnuDebugDataSize)"
    if "ret = XZ_OK" "\<not> out_size c \<ge> kMaxGnuDebugDataSize"
  proof (rule less.hyps)
    have d: "out_size d = min (out_size c * 2) kMaxGnuDebugDataSize" "in_pos d = in_pos c" "out_pos d = out_pos c" "in_size d = in_size c"
      by (auto simp: d_def)
    have "out_size c < out_size d" "out_size d \<le> kMaxGnuDebugDataSize" using that(2) c less.prems(3) unfolding d by auto
    moreover have "in_pos b \<le> in_pos d" "in_pos d \<le> in_size b" "in_size d = in_size b" "out_size c = out_size b" using c d by (auto simp: buf_ok_def)
    ultimately show "(in_size d - in_pos d) + (kMaxGnuDebugDataSize - out_size d) < (in_size b - in_pos b) + (kMaxGnuDebugDataSize - out_size b)"
        "out_size d \<le> kMaxGnuDebugDataSize" "0 < out_size d" by linarith+
    show "dec_inv t" using that(1) t(2) by (simp add: run_post_def)
    show "buf_ok d" using c(1) d \<open>out_size c < out_size d\<close> by (simp add: buf_ok_def)
  qed
  moreover have "out_pos c = out_size c \<or> in_pos c = in_size c" if "ret = XZ_OK" using that t(2) c by (auto simp: run_post_def)
  moreover have "out_pos c \<le> kMaxGnuDebugDataSize" using c less.prems(4) by (simp add: buf_ok_def)
  ultimately show ?case unfolding eq by auto
qed

text \<open>The memory of a new structure (for examples).\<close>

definition new_dec :: xz_dec where
  "new_dec = \<lparr>sequence = SEQ_STREAM_HEADER, vpos = 0, vli = 0, in_start = 0, out_start = 0, dec_crc32 = 0, check_type = 0, dec_mode = XZ_SINGLE,
     allow_buf_error = False, block_header = \<lparr>bh_compressed = 0, bh_uncompressed = 0, bh_size = 0\<rparr>,
     dec_block_info = \<lparr>blk_compressed = 0, blk_uncompressed = 0, blk_count = 0, blk_hash = zero_hash\<rparr>,
     dec_index_info = \<lparr>ix_sequence = SEQ_INDEX_COUNT, ix_size = 0, ix_count = 0, ix_hash = zero_hash\<rparr>,
     hdr_pos = 0, hdr_size = 0, hdr_buf = replicate 1024 0, dec_lzma2 = new_lzma2, vmallocs = 0\<rparr>"

text \<open>
  C7: \<open>decompress_xz\<close> on the contents of a \<open>.gnu_debugdata\<close> section, which may be any bytes at all, and
  whichever allocations fail.  It always returns: no loop of the container, of the index, of the LZMA2 chunks or
  of the growing output runs forever, no read or write leaves its buffer, and a result it delivers has at most 32 MiB.
\<close>

theorem decompress_xz_total:
  assumes "length (hdr_buf junk) = 1024" "length (temp_buf (dec_lzma2 junk)) = 63"
  shows "\<exists>r. decompress_xz ok lzma2_ok alloc junk section = Some r \<and> (\<forall>xs. r = Some xs \<longrightarrow> length xs \<le> 33554432)"
proof -
  have k: "kMaxGnuDebugDataSize = 33554432" by (simp add: kMaxGnuDebugDataSize_def)
  define b where "b data = \<lparr>b_in = data, in_pos = 0, b_out = vec_resize (64 * 1024) [], out_pos = 0\<rparr>" for data
  have "returns (decompress_loop alloc s (b data)) (\<lambda>r. \<forall>xs. r = Some xs \<longrightarrow> length xs \<le> 33554432)"
    if "xz_dec_init ok lzma2_ok junk XZ_DYNALLOC (of_nat kMaxGnuDebugDataSize) = Some s" for s data
    unfolding k [symmetric] by (rule decompress_loop_safe) (use xz_dec_init_inv [OF that assms] in \<open>auto simp: b_def buf_ok_def k\<close>)
  hence "returns (decompress_xz ok lzma2_ok alloc junk section) (\<lambda>r. \<forall>xs. r = Some xs \<longrightarrow> length xs \<le> 33554432)"
    unfolding decompress_xz_def b_def [symmetric] by (auto split: option.split)
  thus ?thesis by (auto elim!: returnsE)
qed

theorem decompress_xz_total_witness:
  "decompress_xz True True (\<lambda>_ _. True) new_dec (Some [0xfd, 0x37, 0x7a, 0x58, 0x5a, 0x00, 0, 4]) \<noteq> None"
proof -
  have "length (hdr_buf new_dec) = 1024" "length (temp_buf (dec_lzma2 new_dec)) = 63" by (simp_all add: new_dec_def new_lzma2_def)
  thus ?thesis using decompress_xz_total [of new_dec True True "\<lambda>_ _. True" "Some [0xfd, 0x37, 0x7a, 0x58, 0x5a, 0x00, 0, 4]"] by auto
qed

end
