(* ===== verification/Tracer_Pid.thy ===== *)
theory Tracer_Pid
  imports C_Text Transition
begin

text \<open>
  The TracerPid filter: \<open>injector/tracer_pid.cpp\<close> and the hooks of \<open>injector/hook.cpp\<close> that call it.  The text of
  \<open>/proc/self/status\<close> that a process reads through a tracked descriptor gets \<open>0\<close> for the pid of its tracer.
  Descriptors are the C type \<open>int\<close>; a C string is its text before the terminator.
\<close>

section \<open>The pool of descriptors\<close>

definition kMaxTrackedFds :: nat where "kMaxTrackedFds = 16"

definition g_tracked_fds :: "int list" where "g_tracked_fds = replicate kMaxTrackedFds (- 1)"

text \<open>The loops over the slots: the first slot that holds the expected value is exchanged.\<close>

primrec exchange_first :: "int \<Rightarrow> int \<Rightarrow> int list \<Rightarrow> int list" where
  "exchange_first expected desired [] = []"
| "exchange_first expected desired (slot # slots) =
     (if slot = expected then desired # slots else slot # exchange_first expected desired slots)"

definition track_fd :: "int \<Rightarrow> int list \<Rightarrow> int list" where
  "track_fd fd pool = (if fd < 0 then pool else exchange_first (- 1) fd pool)"

definition untrack_fd :: "int \<Rightarrow> int list \<Rightarrow> int list" where
  "untrack_fd fd pool = (if fd < 0 then pool else exchange_first fd (- 1) pool)"

definition is_tracked_fd :: "int \<Rightarrow> int list \<Rightarrow> bool" where
  "is_tracked_fd fd pool \<longleftrightarrow> 0 \<le> fd \<and> fd \<in> set pool"

section \<open>The paths\<close>

definition is_digit :: "byte \<Rightarrow> bool" where "is_digit b \<longleftrightarrow> 48 \<le> b \<and> b \<le> 57"

text \<open>\<open>strtol\<close> of a text that starts with a digit; a value beyond \<open>LONG_MAX\<close> sets \<open>errno\<close>.\<close>

definition is_status_path :: "int \<Rightarrow> int \<Rightarrow> cstr option \<Rightarrow> bool" where
  "is_status_path pid tid path =
     (case path of
        None \<Rightarrow> False
      | Some p \<Rightarrow>
          if \<not> starts_with (cstring ''/proc/'') p then False
          else let sub = drop 6 p in
            if sub = cstring ''self/status'' \<or> sub = cstring ''thread-self/status'' then True
            else if sub \<noteq> [] \<and> is_digit (hd sub)
            then (case digits dec_digit 10 0 sub of (target_id, endptr) \<Rightarrow>
                    target_id < 2 ^ 63 \<and> endptr = cstring ''/status'' \<and> (int target_id = pid \<or> int target_id = tid))
            else False)"

section \<open>The text\<close>

definition kKey :: cstr where "kKey = cstring ''TracerPid:''"

function scan_while :: "(byte \<Rightarrow> bool) \<Rightarrow> byte list \<Rightarrow> nat \<Rightarrow> nat" where
  "scan_while f buf p = (if p < length buf \<and> f (buf ! p) then scan_while f buf (p + 1) else p)"
  by pat_completeness auto
termination by (relation "measure (\<lambda>(_, buf, p). length buf - p)") auto

declare scan_while.simps [simp del]

text \<open>The tests on one position: the start and the length of the number, or \<open>None\<close> at a \<open>continue\<close>.\<close>

definition tracer_field :: "byte list \<Rightarrow> nat \<Rightarrow> (nat \<times> nat) option" where
  "tracer_field buf i =
     (if i > 0 \<and> buf ! (i - 1) \<noteq> 10 then None
      else if take (length kKey) (drop i buf) \<noteq> kKey then None
      else let p = i + length kKey in
        if p \<ge> length buf \<or> buf ! p \<noteq> 9 \<and> buf ! p \<noteq> 32 then None
        else let num_start = scan_while (\<lambda>c. c = 9 \<or> c = 32) buf p in
          if num_start \<ge> length buf \<or> \<not> is_digit (buf ! num_start) then None
          else let e = scan_while is_digit buf num_start in
            if e < length buf \<and> buf ! e \<noteq> 10 \<and> buf ! e \<noteq> 13 \<and> buf ! e \<noteq> 32 \<and> buf ! e \<noteq> 9 then None
            else Some (num_start, e - num_start))"

definition blank_number :: "byte list \<Rightarrow> nat \<Rightarrow> nat \<Rightarrow> byte list" where
  "blank_number buf num_start num_len = fold (\<lambda>k b. b[num_start + k := 32]) [1..<num_len] (buf[num_start := 48])"

function sanitize_loop :: "byte list \<Rightarrow> nat \<Rightarrow> byte list" where
  "sanitize_loop buf i =
     (if i + length kKey \<le> length buf
      then (case tracer_field buf i of
              None \<Rightarrow> sanitize_loop buf (i + 1)
            | Some (num_start, num_len) \<Rightarrow>
                if num_len = 1 \<and> buf ! num_start = 48 then buf else blank_number buf num_start num_len)
      else buf)"
  by pat_completeness auto
termination by (relation "measure (\<lambda>(buf, i). length buf + 1 - i)") (auto simp: kKey_def cstring_def)

declare sanitize_loop.simps [simp del]

text \<open>The buffer is \<open>None\<close> for a null pointer; the list holds the first \<open>nbytes\<close> bytes.\<close>

definition sanitize_tracer_pid :: "byte list option \<Rightarrow> byte list option" where
  "sanitize_tracer_pid buf =
     (case buf of None \<Rightarrow> None | Some b \<Rightarrow> if length b < length kKey then Some b else Some (sanitize_loop b 0))"

section \<open>The hooks\<close>

text \<open>The flags have their values of AArch64.\<close>

abbreviation O_CREAT :: u32 where "O_CREAT \<equiv> 0x40"
abbreviation O_TMPFILE :: u32 where "O_TMPFILE \<equiv> 0x404000"

text \<open>The third argument is read only when the flags say that there is one.\<close>

definition open_mode :: "u32 \<Rightarrow> u32 \<Rightarrow> u32" where
  "open_mode flags arg = (if flags AND O_CREAT \<noteq> 0 \<or> flags AND O_TMPFILE = O_TMPFILE then arg else 0)"

text \<open>The system calls behind the hooks are arguments; \<open>new_openat\<close> is the same with a directory passed through.\<close>

definition new_open :: "(cstr option \<Rightarrow> u32 \<Rightarrow> u32 \<Rightarrow> int) \<Rightarrow> int \<Rightarrow> int \<Rightarrow> cstr option \<Rightarrow> u32 \<Rightarrow> u32 \<Rightarrow> int list \<Rightarrow> int \<times> int list" where
  "new_open old pid tid pathname flags arg pool =
     (let fd = old pathname flags (open_mode flags arg)
      in (fd, if fd \<ge> 0 \<and> is_status_path pid tid pathname then track_fd fd pool else pool))"

definition new_openat :: "(int \<Rightarrow> cstr option \<Rightarrow> u32 \<Rightarrow> u32 \<Rightarrow> int) \<Rightarrow> int \<Rightarrow> int \<Rightarrow> int \<Rightarrow> cstr option \<Rightarrow> u32 \<Rightarrow> u32 \<Rightarrow> int list \<Rightarrow> int \<times> int list" where
  "new_openat old pid tid dirfd pathname flags arg pool =
     (let fd = old dirfd pathname flags (open_mode flags arg)
      in (fd, if fd \<ge> 0 \<and> is_status_path pid tid pathname then track_fd fd pool else pool))"

definition new_close :: "(int \<Rightarrow> int) \<Rightarrow> int \<Rightarrow> int list \<Rightarrow> int \<times> int list" where
  "new_close old fd pool = (let pool' = (if fd \<ge> 0 then untrack_fd fd pool else pool) in (old fd, pool'))"

text \<open>The result of \<open>read\<close> and the bytes it stored; on success there are as many bytes as the result says.\<close>

definition new_read :: "(int \<Rightarrow> int \<times> byte list option) \<Rightarrow> int \<Rightarrow> int list \<Rightarrow> int \<times> byte list option" where
  "new_read old fd pool = (case old fd of (ret, buf) \<Rightarrow>
     (ret, if ret > 0 \<and> buf \<noteq> None \<and> is_tracked_fd fd pool then sanitize_tracer_pid buf else buf))"

section \<open>Lemmas\<close>

lemma length_exchange_first [simp]: "length (exchange_first a b xs) = length xs"
  by (induction xs) auto

lemma scan_while_append:
  assumes "length xs = p" "list_all f ys" "zs = [] \<or> \<not> f (hd zs)"
  shows "scan_while f (xs @ ys @ zs) p = p + length ys"
  using assms
proof (induction ys arbitrary: xs p)
  case Nil
  thus ?case by (subst scan_while.simps) (auto simp: nth_append hd_conv_nth)
next
  case (Cons y ys)
  have "scan_while f (xs @ (y # ys) @ zs) p = scan_while f ((xs @ [y]) @ ys @ zs) (p + 1)"
    using Cons.prems by (subst scan_while.simps) (simp add: nth_append)
  thus ?case using Cons.IH [of "xs @ [y]" "p + 1"] Cons.prems by simp
qed

lemma length_kKey [simp]: "length kKey = 10"
  by (simp add: kKey_def cstring_def)

lemma fold_blank:
  "length xs = p \<Longrightarrow> length ds = n \<Longrightarrow> fold (\<lambda>k b. b[p + k := 32]) [j..<j + n] (xs @ es @ ds @ rest) = xs @ es @ replicate n 32 @ rest"
  if "length es = j" for xs es ds rest :: "byte list" and p n j
  using that
proof (induction n arbitrary: ds es j)
  case (Suc n)
  obtain d ds' where ds: "ds = d # ds'" "length ds' = n" using Suc.prems by (cases ds) auto
  have "[j..<j + Suc n] = j # [Suc j..<Suc j + n]" by (simp add: upt_rec)
  moreover have "(xs @ es @ ds @ rest)[p + j := 32] = xs @ (es @ [32]) @ ds' @ rest"
    using Suc.prems ds by (simp add: list_update_append)
  ultimately show ?case using Suc.IH [of ds' "es @ [32]" "Suc j"] Suc.prems ds by simp
qed simp

lemma blank_number_append:
  assumes "length xs = p" "ds \<noteq> []"
  shows "blank_number (xs @ ds @ rest) p (length ds) = xs @ 48 # replicate (length ds - 1) 32 @ rest"
proof -
  obtain d ds' where ds: "ds = d # ds'" using assms(2) by (cases ds) auto
  have "(xs @ ds @ rest)[p := 48] = xs @ [48] @ ds' @ rest" using assms(1) ds by (simp add: list_update_append)
  thus ?thesis using fold_blank [of "[48]" 1 xs p ds' "length ds'" rest] assms(1) ds
    by (simp add: blank_number_def)
qed

lemma sanitize_skip:
  "i \<le> k \<Longrightarrow> (\<And>j. i \<le> j \<Longrightarrow> j < k \<Longrightarrow> tracer_field buf j = None) \<Longrightarrow> sanitize_loop buf i = sanitize_loop buf k"
proof (induction "k - i" arbitrary: i)
  case (Suc n)
  hence "sanitize_loop buf (i + 1) = sanitize_loop buf k" by (intro Suc.hyps) auto
  moreover have "sanitize_loop buf k = buf" if "\<not> i + 10 \<le> length buf" using that Suc.prems(1) by (subst sanitize_loop.simps) auto
  ultimately show ?case using Suc by (subst sanitize_loop.simps) auto
qed simp

definition other_line :: "cstr \<Rightarrow> bool" where
  "other_line l \<longleftrightarrow> 10 \<notin> set l \<and> \<not> starts_with kKey l"

lemma not_key_before_newline:
  assumes "other_line l"
  shows "take 10 (l @ 10 # rest) \<noteq> kKey"
proof
  assume k: "take 10 (l @ 10 # rest) = kKey"
  show False
  proof (cases "10 \<le> length l")
    case True
    thus False using k assms by (simp add: other_line_def starts_with_def)
  next
    case False
    hence "take 10 (l @ 10 # rest) ! length l = 10" by (simp add: nth_append)
    hence "kKey ! length l = 10" using k by simp
    hence "10 \<in> set kKey" using False nth_mem [of "length l" kKey] by (simp add: not_le)
    thus False by (simp add: kKey_def cstring_def)
  qed
qed

lemma other_line_field:
  assumes "other_line l" "j \<le> length l" "xs = [] \<or> last xs = 10"
  shows "tracer_field (xs @ l @ 10 # rest) (length xs + j) = None"
proof (cases j)
  case 0
  thus ?thesis using not_key_before_newline [OF assms(1)] by (simp add: tracer_field_def)
next
  case (Suc n)
  hence "(xs @ l @ 10 # rest) ! (length xs + j - 1) = l ! n" "n < length l" using assms(2) by (auto simp: nth_append)
  hence "(xs @ l @ 10 # rest) ! (length xs + j - 1) \<noteq> 10" using assms(1) nth_mem by (fastforce simp: other_line_def)
  thus ?thesis using Suc by (simp add: tracer_field_def)
qed

lemma sanitize_lines:
  assumes "list_all other_line ls" "xs = [] \<or> last xs = 10"
  shows "sanitize_loop (xs @ concat (map (\<lambda>l. l @ [10]) ls) @ rest) (length xs) =
    sanitize_loop (xs @ concat (map (\<lambda>l. l @ [10]) ls) @ rest) (length xs + length (concat (map (\<lambda>l. l @ [10]) ls)))"
  using assms
proof (induction ls arbitrary: xs)
  case (Cons l ls)
  define tl' where "tl' = concat (map (\<lambda>l. l @ [10]) ls) @ rest"
  have "sanitize_loop (xs @ l @ 10 # tl') (length xs) = sanitize_loop (xs @ l @ 10 # tl') (length (xs @ l @ [10]))"
  proof (rule sanitize_skip)
    fix j assume "length xs \<le> j" "j < length (xs @ l @ [10])"
    thus "tracer_field (xs @ l @ 10 # tl') j = None"
      using other_line_field [of l "j - length xs" xs tl'] Cons.prems by simp
  qed simp
  moreover have "sanitize_loop ((xs @ l @ [10]) @ concat (map (\<lambda>l. l @ [10]) ls) @ rest) (length (xs @ l @ [10])) =
    sanitize_loop ((xs @ l @ [10]) @ concat (map (\<lambda>l. l @ [10]) ls) @ rest) (length (xs @ l @ [10]) + length (concat (map (\<lambda>l. l @ [10]) ls)))"
    by (rule Cons.IH) (use Cons.prems in auto)
  ultimately show ?case by (simp add: tl'_def add.assoc)
qed simp

lemma tracer_field_here:
  assumes "xs = [] \<or> last xs = 10" "ws \<noteq> []" "list_all (\<lambda>c. c = 9 \<or> c = 32) ws" "ds \<noteq> []" "list_all is_digit ds"
    "rest = [] \<or> hd rest \<in> {10, 13, 32, 9}"
  shows "tracer_field (xs @ kKey @ ws @ ds @ rest) (length xs) = Some (length xs + 10 + length ws, length ds)"
proof -
  define buf where "buf = xs @ kKey @ ws @ ds @ rest"
  have nd: "\<not> is_digit b" if "b \<in> {10, 13, 32, 9}" for b using that by (auto simp: is_digit_def)
  have dw: "\<not> (c = 9 \<or> c = 32)" if "is_digit c" for c :: byte using that by (auto simp: is_digit_def)
  have hd_ds: "is_digit (hd ds)" using assms(4,5) by (cases ds) auto
  have e1: "scan_while (\<lambda>c. c = 9 \<or> c = 32) buf (length xs + 10) = length xs + 10 + length ws"
    using scan_while_append [of "xs @ kKey" "length xs + 10" "\<lambda>c. c = 9 \<or> c = 32" ws "ds @ rest"] assms(3,4) dw [OF hd_ds] by (simp add: buf_def)
  have e2: "scan_while is_digit buf (length xs + 10 + length ws) = length xs + 10 + length ws + length ds"
    using scan_while_append [of "xs @ kKey @ ws" "length xs + 10 + length ws" is_digit ds rest] assms(5,6) nd by (auto simp: buf_def)
  have p: "buf ! (length xs + 10) = hd ws" using assms(2) by (simp add: buf_def nth_append hd_conv_nth)
  have w: "hd ws = 9 \<or> hd ws = 32" using assms(2,3) by (cases ws) auto
  have n: "buf ! (length xs + 10 + length ws) = hd ds" using assms(4) by (simp add: buf_def nth_append hd_conv_nth)
  have l: "length buf = length xs + 10 + length ws + length ds + length rest" by (simp add: buf_def)
  have r: "buf ! (length xs + 10 + length ws + length ds) = hd rest" if "rest \<noteq> []" using that by (simp add: buf_def nth_append hd_conv_nth)
  have s: "\<not> (length xs > 0 \<and> buf ! (length xs - 1) \<noteq> 10)" using assms(1) by (cases xs rule: rev_cases) (auto simp: buf_def nth_append)
  have k: "take (length kKey) (drop (length xs) buf) = kKey" by (simp add: buf_def)
  have "ws \<noteq> []" "ds \<noteq> []" by fact+
  hence g: "\<not> (length xs + length kKey \<ge> length buf \<or> buf ! (length xs + length kKey) \<noteq> 9 \<and> buf ! (length xs + length kKey) \<noteq> 32)"
      "\<not> (length xs + 10 + length ws \<ge> length buf \<or> \<not> is_digit (buf ! (length xs + 10 + length ws)))"
    using p w n hd_ds l by auto
  have f: "\<not> (length xs + 10 + length ws + length ds < length buf \<and> buf ! (length xs + 10 + length ws + length ds) \<noteq> 10 \<and>
      buf ! (length xs + 10 + length ws + length ds) \<noteq> 13 \<and> buf ! (length xs + 10 + length ws + length ds) \<noteq> 32 \<and>
      buf ! (length xs + 10 + length ws + length ds) \<noteq> 9)"
    using r l assms(6) by (cases "rest = []") auto
  show ?thesis unfolding buf_def [symmetric] tracer_field_def Let_def
    using s k g f by (simp add: e1 e2 del: not_less)
qed

lemma sanitize_status:
  assumes "list_all other_line ls" "ws \<noteq> []" "list_all (\<lambda>c. c = 9 \<or> c = 32) ws" "ds \<noteq> []" "list_all is_digit ds"
    "rest = [] \<or> hd rest \<in> {10, 13, 32, 9}"
  shows "sanitize_tracer_pid (Some (concat (map (\<lambda>l. l @ [10]) ls) @ kKey @ ws @ ds @ rest)) =
    Some (concat (map (\<lambda>l. l @ [10]) ls) @ kKey @ ws @ 48 # replicate (length ds - 1) 32 @ rest)"
proof -
  define pre where "pre = concat (map (\<lambda>l. l @ [10 :: byte]) ls)"
  define buf where "buf = pre @ kKey @ ws @ ds @ rest"
  have lp: "pre = [] \<or> last pre = 10" unfolding pre_def by (cases ls rule: rev_cases) auto
  have lb: "length buf = length pre + 10 + length ws + length ds + length rest" by (simp add: buf_def)
  have b: "blank_number buf (length pre + 10 + length ws) (length ds) = pre @ kKey @ ws @ 48 # replicate (length ds - 1) 32 @ rest"
    using blank_number_append [of "pre @ kKey @ ws" "length pre + 10 + length ws" ds rest] assms(4) by (simp add: buf_def)
  have d: "buf ! (length pre + 10 + length ws) = hd ds" using assms(4) by (simp add: buf_def nth_append hd_conv_nth)
  have z: "buf = pre @ kKey @ ws @ 48 # replicate (length ds - 1) 32 @ rest" if "length ds = 1" "hd ds = 48"
    using that assms(4) by (cases ds) (auto simp: buf_def)
  have "sanitize_loop buf 0 = sanitize_loop buf (length pre)"
    using sanitize_lines [OF assms(1), of "[]" "kKey @ ws @ ds @ rest"] by (simp add: buf_def pre_def)
  also have "\<dots> = pre @ kKey @ ws @ 48 # replicate (length ds - 1) 32 @ rest"
    using tracer_field_here [OF lp assms(2-6)] b d z by (subst sanitize_loop.simps) (auto simp: buf_def [symmetric] lb)
  finally show ?thesis unfolding pre_def [symmetric] buf_def [symmetric] by (simp add: sanitize_tracer_pid_def buf_def)
qed

text \<open>
  Steps of the hooks, with the status descriptors that were opened and not closed since.  The pool has sixteen slots:
  \<open>S\<close> are the descriptors that found a free one, \<open>U\<close> those opened while sixteen others were covered.  The kernel hands out
  a number that is not in use.
\<close>

definition note_open :: "bool \<Rightarrow> int \<Rightarrow> int set \<times> int set \<Rightarrow> int set \<times> int set" where
  "note_open status fd x = (case x of (S, U) \<Rightarrow>
     if fd < 0 \<or> \<not> status then (S, U) else if card S < 16 then (insert fd S, U) else (S, insert fd U))"

inductive hook_step :: "int \<Rightarrow> int \<Rightarrow> int list \<times> int set \<times> int set \<Rightarrow> int list \<times> int set \<times> int set \<Rightarrow> bool" for pid tid where
  opened: "new_open old pid tid path flags arg pool = (fd, pool') \<Longrightarrow> fd \<notin> S \<union> U \<Longrightarrow>
    hook_step pid tid (pool, S, U) (pool', note_open (is_status_path pid tid path) fd (S, U))"
| opened_at: "new_openat old' pid tid dirfd path flags arg pool = (fd, pool') \<Longrightarrow> fd \<notin> S \<union> U \<Longrightarrow>
    hook_step pid tid (pool, S, U) (pool', note_open (is_status_path pid tid path) fd (S, U))"
| closed: "new_close old'' fd pool = (r, pool') \<Longrightarrow> hook_step pid tid (pool, S, U) (pool', S - {fd}, U - {fd})"

definition pool_holds :: "int list \<Rightarrow> int set \<Rightarrow> bool" where
  "pool_holds pool S \<longleftrightarrow> length pool = 16 \<and> (\<forall>v \<in> set pool. v = - 1 \<or> 0 \<le> v) \<and>
     distinct (filter (\<lambda>v. 0 \<le> v) pool) \<and> set (filter (\<lambda>v. 0 \<le> v) pool) = S"

definition pool_inv :: "int list \<times> int set \<times> int set \<Rightarrow> bool" where
  "pool_inv x = (case x of (pool, S, U) \<Rightarrow> pool_holds pool S \<and> S \<inter> U = {})"

lemma pool_room:
  assumes "pool_holds pool S"
  shows "- 1 \<in> set pool \<longleftrightarrow> card S < 16"
proof -
  define f where "f = filter (\<lambda>v. 0 \<le> v) pool"
  have d: "distinct f" "set f = S" "length pool = 16" "\<forall>v \<in> set pool. v = - 1 \<or> 0 \<le> v"
    using assms unfolding pool_holds_def f_def by blast+
  have "card S = length f" using distinct_card [OF d(1)] d(2) by simp
  moreover have "length f < length pool" if "- 1 \<in> set pool" unfolding f_def by (rule length_filter_less [OF that]) simp
  moreover have "f = pool" if "- 1 \<notin> set pool" unfolding f_def by (rule filter_True) (use d(4) that in auto)
  ultimately show ?thesis using d(3) by (cases "- 1 \<in> set pool") simp_all
qed

lemma exchange_in:
  assumes "- 1 \<in> set pool" "0 \<le> fd" "\<forall>v \<in> set pool. v = - 1 \<or> 0 \<le> v" "distinct (filter (\<lambda>v. 0 \<le> v) pool)" "fd \<notin> set pool"
  shows "(\<forall>v \<in> set (exchange_first (- 1) fd pool). v = - 1 \<or> 0 \<le> v) \<and> distinct (filter (\<lambda>v. 0 \<le> v) (exchange_first (- 1) fd pool)) \<and>
    set (filter (\<lambda>v. 0 \<le> v) (exchange_first (- 1) fd pool)) = insert fd (set (filter (\<lambda>v. 0 \<le> v) pool))"
  using assms by (induction pool) auto

lemma exchange_out:
  assumes "0 \<le> fd" "\<forall>v \<in> set pool. v = - 1 \<or> 0 \<le> v" "distinct (filter (\<lambda>v. 0 \<le> v) pool)"
  shows "(\<forall>v \<in> set (exchange_first fd (- 1) pool). v = - 1 \<or> 0 \<le> v) \<and> distinct (filter (\<lambda>v. 0 \<le> v) (exchange_first fd (- 1) pool)) \<and>
    set (filter (\<lambda>v. 0 \<le> v) (exchange_first fd (- 1) pool)) = set (filter (\<lambda>v. 0 \<le> v) pool) - {fd}"
  using assms by (induction pool) auto

lemma exchange_absent: "a \<notin> set xs \<Longrightarrow> exchange_first a b xs = xs"
  by (induction xs) auto

lemma track_holds:
  assumes "pool_holds pool S" "fd \<notin> S" "0 \<le> fd"
  shows "pool_holds (track_fd fd pool) (if card S < 16 then insert fd S else S)"
proof (cases "card S < 16")
  case True
  have "fd \<notin> set pool" using assms by (auto simp: pool_holds_def)
  thus ?thesis using exchange_in [of pool fd] pool_room [OF assms(1)] True assms(1,3)
    by (auto simp: pool_holds_def track_fd_def)
next
  case False
  thus ?thesis using pool_room [OF assms(1)] assms by (simp add: track_fd_def exchange_absent)
qed

lemma opened_inv:
  assumes "pool_inv (pool, S, U)" "fd \<notin> S \<union> U"
  shows "pool_inv (if fd \<ge> 0 \<and> st then track_fd fd pool else pool, note_open st fd (S, U))"
  using assms track_holds [of pool S fd] by (auto simp: pool_inv_def note_open_def)

lemma untrack_holds: "pool_holds pool S \<Longrightarrow> pool_holds (if fd \<ge> 0 then untrack_fd fd pool else pool) (S - {fd})"
  using exchange_out [of fd pool] by (auto simp: pool_holds_def untrack_fd_def)

interpretation tracked: invariant_system "\<lambda>x. x = (g_tracked_fds, {}, {})" "hook_step pid tid" pool_inv for pid tid
proof
  fix x :: "int list \<times> int set \<times> int set" assume "x = (g_tracked_fds, {}, {})"
  thus "pool_inv x" by (simp add: pool_inv_def pool_holds_def g_tracked_fds_def kMaxTrackedFds_def)
next
  fix x y assume inv: "pool_inv x" and st: "hook_step pid tid x y"
  from st show "pool_inv y"
  proof (cases rule: hook_step.cases)
    case (opened old path flags arg pool fd pool' S U)
    thus ?thesis using inv opened_inv [of pool S U fd "is_status_path pid tid path"] by (auto simp: new_open_def Let_def)
  next
    case (opened_at old' dirfd path flags arg pool fd pool' S U)
    thus ?thesis using inv opened_inv [of pool S U fd "is_status_path pid tid path"] by (auto simp: new_openat_def Let_def)
  next
    case (closed old'' fd pool r pool' S U)
    thus ?thesis using inv untrack_holds [of pool S fd] by (auto simp: new_close_def Let_def pool_inv_def)
  qed
qed

section \<open>Properties\<close>



text \<open>
  C39: A text that arrives in two reads with the cut inside the number is not hidden.  The second piece begins with
  the remaining digits and has no TracerPid line of its own, so it is delivered as it is.
\<close>

theorem split_number_leaks:
  assumes "is_tracked_fd fd pool" "ds \<noteq> []" "list_all is_digit ds" "list_all other_line ls"
    and "old fd = (int (length text), Some text)" "text = concat (map (\<lambda>l. l @ [10]) (ds # ls))"
  shows "new_read old fd pool = (int (length text), Some text)"
proof -
  have "10 \<notin> set ds" using assms(3) by (auto simp: list_all_iff is_digit_def)
  moreover have "\<not> starts_with kKey ds"
  proof
    assume "starts_with kKey ds"
    hence "hd ds = hd kKey" using assms(2) by (cases ds) (auto simp: starts_with_def kKey_def cstring_def)
    thus False using assms(2,3) by (cases ds) (auto simp: kKey_def cstring_def is_digit_def)
  qed
  ultimately have "list_all other_line (ds # ls)" using assms(4) by (simp add: other_line_def)
  from sanitize_lines [OF this, of "[]" "[]"] have "sanitize_loop text 0 = sanitize_loop text (length text)"
    unfolding assms(6) by simp
  also have "\<dots> = text" by (subst sanitize_loop.simps) simp
  finally show ?thesis using assms(1,5) by (simp add: new_read_def sanitize_tracer_pid_def)
qed

theorem split_number_leaks_witness:
  "new_read (\<lambda>_. (3, Some (cstring ''45'' @ [10]))) 5 (track_fd 5 g_tracked_fds) = (3, Some (cstring ''45'' @ [10]))"
proof -
  have "replicate 16 (- 1 :: int) = - 1 # replicate 15 (- 1)" by (simp add: numeral_eq_Suc)
  hence "is_tracked_fd 5 (track_fd 5 g_tracked_fds)" by (simp add: is_tracked_fd_def track_fd_def g_tracked_fds_def kMaxTrackedFds_def)
  thus ?thesis
    using split_number_leaks [of 5 "track_fd 5 g_tracked_fds" "cstring ''45''" "[]" "\<lambda>_. (3, Some (cstring ''45'' @ [10]))" "cstring ''45'' @ [10]"]
    by (simp add: cstring_def is_digit_def)
qed

end
