(* ===== verification/Seccomp.thy ===== *)
theory Seccomp
  imports Proc_Files
begin

text \<open>
  The event that overwrites the ptrace message: \<open>injector/seccomp.cpp\<close>.  The filter is a program of the
  classic BPF language, of which it uses loads of a word, comparisons with a constant and returns.
\<close>

section \<open>The filter language\<close>

text \<open>A system call as the filter sees it, and the 64 bytes of \<open>struct seccomp_data\<close> that describe it.\<close>

record seccomp_data =
  sd_nr :: u32
  sd_arch :: u32
  sd_ip :: addr
  sd_args :: "addr list"

definition seccomp_bytes :: "seccomp_data \<Rightarrow> byte list" where
  "seccomp_bytes d = le_enc 4 (unat (sd_nr d)) @ le_enc 4 (unat (sd_arch d)) @ le_enc 8 (unat (sd_ip d)) @
     concat (map (\<lambda>a. le_enc 8 (unat a)) (sd_args d))"

datatype sock_filter = BPF_LD_W_ABS nat | BPF_JEQ_K u32 nat nat | BPF_RET_K u32

text \<open>\<open>None\<close> is a program that runs off its end or loads outside the data.  Jumps only go forward.\<close>

function bpf_run :: "sock_filter list \<Rightarrow> byte list \<Rightarrow> u32 \<Rightarrow> u32 option" where
  "bpf_run [] data acc = None"
| "bpf_run (BPF_LD_W_ABS k # p) data acc =
     (if k + 4 \<le> length data then bpf_run p data (of_nat (le_val (take 4 (drop k data)))) else None)"
| "bpf_run (BPF_JEQ_K v jt jf # p) data acc = bpf_run (drop (if acc = v then jt else jf) p) data acc"
| "bpf_run (BPF_RET_K v # p) data acc = Some v"
  by pat_completeness auto
termination by (relation "measure (\<lambda>(p, _, _). length p)") auto

abbreviation SECCOMP_RET_TRACE :: u32 where "SECCOMP_RET_TRACE \<equiv> 0x7ff00000"
abbreviation SECCOMP_RET_ALLOW :: u32 where "SECCOMP_RET_ALLOW \<equiv> 0x7fff0000"

section \<open>The function\<close>

text \<open>The offsets of the members: \<open>nr\<close> is at 0 and \<open>args[i]\<close> at \<open>16 + 8 * i\<close>.\<close>

definition signature_filter :: "u32 \<Rightarrow> u32 list \<Rightarrow> sock_filter list" where
  "signature_filter exit_group args =
     [BPF_LD_W_ABS 0, BPF_JEQ_K exit_group 0 9,
      BPF_LD_W_ABS 16, BPF_JEQ_K (args ! 0) 0 7,
      BPF_LD_W_ABS 24, BPF_JEQ_K (args ! 1) 0 5,
      BPF_LD_W_ABS 32, BPF_JEQ_K (args ! 2) 0 3,
      BPF_LD_W_ABS 40, BPF_JEQ_K (args ! 3) 0 1,
      BPF_RET_K SECCOMP_RET_TRACE,
      BPF_RET_K SECCOMP_RET_ALLOW]"

datatype seccomp_action = SetFilter "sock_filter list" | Syscall u32 "addr list"

text \<open>
  What the function asks of the kernel.  \<open>release\<close> is the kernel's release string, \<open>random\<close> what \<open>read\<close> of
  \<open>/dev/urandom\<close> delivered (\<open>None\<close> when it could not be opened), \<open>prctl_ok\<close> whether the filter was accepted.
\<close>

definition send_seccomp_event_if_needed :: "cstr option \<Rightarrow> byte list option \<Rightarrow> bool \<Rightarrow> u32 \<Rightarrow> seccomp_action list" where
  "send_seccomp_event_if_needed release random prctl_ok exit_group =
     (if \<not> kernel_keeps_ptrace_message release then []
      else case random of
          None \<Rightarrow> []
        | Some bytes \<Rightarrow>
            if length bytes \<noteq> 16 then []
            else let args = map (\<lambda>i. of_nat (le_val (take 4 (drop (4 * i) bytes)))) [0..<4];
                     args = args[0 := args ! 0 OR 0x10000];
                     f = signature_filter exit_group args
                 in if prctl_ok then [SetFilter f, Syscall exit_group (map ucast args)] else [SetFilter f])"

section \<open>Lemmas\<close>

text \<open>A filter applied to a system call; the accumulator starts at zero.\<close>

definition verdict :: "sock_filter list \<Rightarrow> seccomp_data \<Rightarrow> u32 option" where
  "verdict f d = bpf_run f (seccomp_bytes d) 0"

lemma take_le_enc: "n \<le> m \<Longrightarrow> take n (le_enc m v) = le_enc n v"
proof (induction n arbitrary: m v)
  case (Suc n)
  then obtain k where "m = Suc k" by (cases m) auto
  thus ?case using Suc by simp
qed simp

lemma le_val_low_word: "of_nat (le_val (take 4 (le_enc 8 (unat a)))) = (ucast a :: u32)" for a :: addr
proof -
  have "le_val (take 4 (le_enc 8 (unat a))) = unat a mod 2 ^ 32" by (simp add: take_le_enc le_val_le_enc)
  hence "of_nat (le_val (take 4 (le_enc 8 (unat a)))) = (of_nat (unat a mod 2 ^ 32) :: u32)" by simp
  also have "\<dots> = ucast a" by (intro word_unat_eq_iff [THEN iffD2]) (simp add: unat_of_nat unsigned_ucast_eq take_bit_eq_mod)
  finally show ?thesis .
qed

lemma length6: "length xs = 6 \<Longrightarrow> \<exists>a b c d e f. xs = [a, b, c, d, e, f]"
  by (auto simp: length_Suc_conv numeral_eq_Suc)

lemma seccomp_words:
  assumes "sd_args d = [a0, a1, a2, a3, a4, a5]"
  shows "length (seccomp_bytes d) = 64" "of_nat (le_val (take 4 (seccomp_bytes d))) = sd_nr d"
    "of_nat (le_val (take 4 (drop 16 (seccomp_bytes d)))) = (ucast a0 :: u32)"
    "of_nat (le_val (take 4 (drop 24 (seccomp_bytes d)))) = (ucast a1 :: u32)"
    "of_nat (le_val (take 4 (drop 32 (seccomp_bytes d)))) = (ucast a2 :: u32)"
    "of_nat (le_val (take 4 (drop 40 (seccomp_bytes d)))) = (ucast a3 :: u32)"
proof -
  have n: "unat (sd_nr d) < 256 ^ 4" using unsigned_less [of "sd_nr d", where ?'a = nat] by simp
  show "of_nat (le_val (take 4 (seccomp_bytes d))) = sd_nr d"
    using n by (simp add: seccomp_bytes_def take_le_enc le_val_le_enc)
qed (use assms in \<open>simp_all add: seccomp_bytes_def le_val_low_word\<close>)

lemma signature_filter_exact:
  assumes "length (sd_args d) = 6"
  shows "verdict (signature_filter e args) d =
    Some (if sd_nr d = e \<and> (\<forall>i < 4. ucast (sd_args d ! i) = args ! i) then SECCOMP_RET_TRACE else SECCOMP_RET_ALLOW)"
proof -
  obtain a0 a1 a2 a3 a4 a5 where a: "sd_args d = [a0, a1, a2, a3, a4, a5]" using length6 [OF assms] by blast
  have all4: "(\<forall>i < 4. P i) \<longleftrightarrow> P 0 \<and> P 1 \<and> P 2 \<and> P 3" for P :: "nat \<Rightarrow> bool"
    by (auto simp: numeral_eq_Suc less_Suc_eq)
  show ?thesis unfolding verdict_def signature_filter_def all4
    using seccomp_words [OF a] by (simp add: a)
qed

section \<open>Properties\<close>

text \<open>
  C37: When the function installs its filter and makes its call, the filter answers every system call of the
  process, and only with \<open>TRACE\<close> or \<open>ALLOW\<close>.  The call the function makes is traced; every other system call
  number is allowed, and so is \<open>exit_group\<close> with a status below 65536.
\<close>

theorem seccomp_event_exact:
  assumes "send_seccomp_event_if_needed release random prctl_ok e = [SetFilter f, Syscall nr args]" "length (sd_args d) = 6"
  shows "nr = e \<and> verdict f d \<in> {Some SECCOMP_RET_TRACE, Some SECCOMP_RET_ALLOW} \<and>
    (sd_nr d = nr \<and> take 4 (sd_args d) = args \<longrightarrow> verdict f d = Some SECCOMP_RET_TRACE) \<and>
    (sd_nr d \<noteq> e \<or> unat (ucast (sd_args d ! 0) :: u32) < 65536 \<longrightarrow> verdict f d = Some SECCOMP_RET_ALLOW)"
proof -
  define ws :: "byte list \<Rightarrow> u32 list" where "ws bytes = map (\<lambda>i. of_nat (le_val (take 4 (drop (4 * i) bytes)))) [0..<4]" for bytes
  obtain bytes where r: "random = Some bytes"
    using assms(1) by (cases random) (simp_all add: send_seccomp_event_if_needed_def split: if_splits)
  have b: "f = signature_filter e ((ws bytes)[0 := ws bytes ! 0 OR 0x10000])" "nr = e"
      "args = map ucast ((ws bytes)[0 := ws bytes ! 0 OR 0x10000])"
    using assms(1) unfolding send_seccomp_event_if_needed_def ws_def [symmetric] Let_def r option.case by (simp_all split: if_splits) blast
  define sig where "sig = (ws bytes)[0 := ws bytes ! 0 OR 0x10000]"
  have l: "length sig = 4" by (simp add: sig_def ws_def)
  note v = signature_filter_exact [OF assms(2), of e sig]
  have "ucast (sd_args d ! i) = sig ! i" if "take 4 (sd_args d) = args" "i < 4" for i
  proof -
    have "sd_args d ! i = args ! i" using that by (metis nth_take)
    moreover have "ucast (ucast w :: addr) = w" for w :: u32 by (intro bit_word_eqI) (simp add: bit_simps)
    ultimately show ?thesis using that l b(3) by (simp add: sig_def [symmetric])
  qed
  moreover have "\<not> unat (sig ! 0) < 65536"
  proof -
    have "0x10000 \<le> ws bytes ! 0 OR 0x10000" by (simp only: le_word_or1)
    hence "unat (0x10000 :: u32) \<le> unat (ws bytes ! 0 OR 0x10000)" by (simp only: word_le_nat_alt)
    moreover have "sig ! 0 = ws bytes ! 0 OR 0x10000" by (simp add: sig_def ws_def)
    ultimately show ?thesis by simp
  qed
  ultimately show ?thesis using v b(1,2) by (auto simp: sig_def [symmetric])
qed

theorem seccomp_event_exact_witness:
  "verdict (signature_filter 94 [0x10000, 0, 0, 0]) \<lparr>sd_nr = 94, sd_arch = 0, sd_ip = 0, sd_args = [0x10000, 0, 0, 0, 7, 7]\<rparr> = Some SECCOMP_RET_TRACE \<and>
   verdict (signature_filter 94 [0x10000, 0, 0, 0]) \<lparr>sd_nr = 94, sd_arch = 0, sd_ip = 0, sd_args = [1, 0, 0, 0, 7, 7]\<rparr> = Some SECCOMP_RET_ALLOW"
proof -
  have "send_seccomp_event_if_needed (Some (cstring ''4.14.1'')) (Some (replicate 16 0)) True 94 =
      [SetFilter (signature_filter 94 [0x10000, 0, 0, 0]), Syscall 94 [0x10000, 0, 0, 0]]"
    by code_simp
  note run = this
  from seccomp_event_exact [OF run, of "\<lparr>sd_nr = 94, sd_arch = 0, sd_ip = 0, sd_args = [0x10000, 0, 0, 0, 7, 7]\<rparr>"]
    seccomp_event_exact [OF run, of "\<lparr>sd_nr = 94, sd_arch = 0, sd_ip = 0, sd_args = [1, 0, 0, 0, 7, 7]\<rparr>"]
  show ?thesis by simp
qed

end
