(* ===== verification/Mount_Traces.thy ===== *)
theory Mount_Traces
  imports Proc_Files
begin

text \<open>
  The traces of root in the mount table: \<open>injector/unmount.cpp\<close>.  A file is its bytes; a number that overflows
  the C type \<open>int\<close> is \<open>None\<close>.
\<close>

record mount_info =
  mt_id :: u32
  mt_parent :: u32
  mt_device :: addr
  mt_root :: cstr
  mt_target :: cstr
  mt_vfs_options :: cstr
  mt_type :: cstr
  mt_source :: cstr
  mt_fs_options :: cstr
  mt_raw_info :: cstr

section \<open>Parsing\<close>

fun atoi_loop :: "nat \<Rightarrow> cstr \<Rightarrow> nat option" where
  "atoi_loop val [] = Some val"
| "atoi_loop val (c # s) =
     (case dec_digit c of
        None \<Rightarrow> Some val
      | Some d \<Rightarrow> if val * 10 + d < 2 ^ 31 then atoi_loop (val * 10 + d) s else None)"

definition fast_atoi :: "cstr \<Rightarrow> nat option" where "fast_atoi s = atoi_loop 0 s"

fun unsigned_loop :: "u32 \<Rightarrow> cstr \<Rightarrow> u32 \<times> cstr" where
  "unsigned_loop val [] = (val, [])"
| "unsigned_loop val (c # s) =
     (case dec_digit c of None \<Rightarrow> (val, c # s) | Some d \<Rightarrow> unsigned_loop (val * 10 + of_nat d) s)"

definition parse_device :: "cstr \<Rightarrow> (u32 \<times> u32) option" where
  "parse_device s = (case unsigned_loop 0 s of (maj, rest) \<Rightarrow>
     case rest of [] \<Rightarrow> None | c # rest \<Rightarrow> if c \<noteq> 58 then None else Some (maj, fst (unsigned_loop 0 rest)))"

definition get_next_token :: "cstr \<Rightarrow> cstr \<times> cstr" where
  "get_next_token s = (takeWhile (\<lambda>c. c \<noteq> 32) s, dropWhile (\<lambda>c. c = 32) (dropWhile (\<lambda>c. c \<noteq> 32) s))"

fun find_separator :: "cstr \<Rightarrow> nat option" where
  "find_separator [] = None"
| "find_separator (c # s) = (if starts_with [32, 45, 32] (c # s) then Some 0 else map_option Suc (find_separator s))"

text \<open>
  One line without its newline: \<open>Some None\<close> for a line that is skipped.  The views of the first part are followed
  by a space, where the number parsers stop, or are empty; the second part is a C string.
\<close>

definition mount_line :: "cstr \<Rightarrow> mount_info option option" where
  "mount_line line =
     (case find_separator line of
        None \<Rightarrow> Some None
      | Some p \<Rightarrow> do {
          let (id_sv, part1) = get_next_token (take p line);
          let (parent_sv, part1) = get_next_token part1;
          let (device_sv, part1) = get_next_token part1;
          let (root, part1) = get_next_token part1;
          let (target, part1) = get_next_token part1;
          id \<leftarrow> fast_atoi id_sv;
          parent \<leftarrow> fast_atoi parent_sv;
          (case parse_device device_sv of
             None \<Rightarrow> Some None
           | Some (maj, mnr) \<Rightarrow>
               let (type, part2) = get_next_token (c_str (drop (p + 3) line));
                   (source, part2) = get_next_token part2
               in Some (Some \<lparr>mt_id = of_nat id, mt_parent = of_nat parent, mt_device = makedev maj mnr, mt_root = root, mt_target = target,
                    mt_vfs_options = part1, mt_type = type, mt_source = source, mt_fs_options = part2, mt_raw_info = line\<rparr>)) })"

definition chop_newline :: "cstr \<Rightarrow> cstr" where
  "chop_newline l = (if l \<noteq> [] \<and> last l = 10 then butlast l else l)"

primrec mount_lines :: "cstr list \<Rightarrow> mount_info list option" where
  "mount_lines [] = Some []"
| "mount_lines (l # ls) = do {
     info \<leftarrow> mount_line (chop_newline l);
     infos \<leftarrow> mount_lines ls;
     Some (case info of None \<Rightarrow> infos | Some i \<Rightarrow> i # infos) }"

text \<open>The file is \<open>None\<close> when it cannot be opened.\<close>

definition parse_mount_info :: "cstr option \<Rightarrow> mount_info list option" where
  "parse_mount_info file = (case file of None \<Rightarrow> Some [] | Some text \<Rightarrow> mount_lines (getlines text))"

section \<open>The traces\<close>

abbreviation ROOT_IS_APATCH :: u32 where "ROOT_IS_APATCH \<equiv> 0x10000000"
abbreviation ROOT_IS_KSU :: u32 where "ROOT_IS_KSU \<equiv> 0x20000000"
abbreviation ROOT_IS_MAGISK :: u32 where "ROOT_IS_MAGISK \<equiv> 0x40000000"

definition mount_source_name :: "u32 \<Rightarrow> cstr option" where
  "mount_source_name info_flags =
     (if info_flags AND ROOT_IS_APATCH \<noteq> 0 then Some (cstring ''APatch'')
      else if info_flags AND ROOT_IS_KSU \<noteq> 0 then Some (cstring ''KSU'')
      else if info_flags AND ROOT_IS_MAGISK \<noteq> 0 then Some (cstring ''magisk'')
      else None)"

definition is_kernelsu :: "u32 \<Rightarrow> bool" where
  "is_kernelsu info_flags \<longleftrightarrow> info_flags AND ROOT_IS_APATCH = 0 \<and> info_flags AND ROOT_IS_KSU \<noteq> 0"

definition kernel_su_module_source :: "u32 \<Rightarrow> mount_info list \<Rightarrow> cstr" where
  "kernel_su_module_source info_flags infos =
     (if is_kernelsu info_flags
      then (case find (\<lambda>i. mt_target i = cstring ''/data/adb/modules'' \<and> starts_with (cstring ''/dev/block/loop'') (mt_source i)) infos of
              Some i \<Rightarrow> mt_source i
            | None \<Rightarrow> [])
      else [])"

definition should_unmount_trace :: "cstr \<Rightarrow> cstr \<Rightarrow> mount_info \<Rightarrow> bool" where
  "should_unmount_trace name ksu info \<longleftrightarrow>
     starts_with (cstring ''/adb/modules'') (mt_root info) \<or> starts_with (cstring ''/data/adb/modules'') (mt_target info)
     \<or> mt_source info = name \<or> ksu \<noteq> [] \<and> mt_source info = ksu"

text \<open>\<open>std::sort\<close> leaves the order of mounts with the same id open; the kernel gives every mount its own.\<close>

definition check_zygote_traces :: "u32 \<Rightarrow> cstr option \<Rightarrow> mount_info list option" where
  "check_zygote_traces info_flags file = do {
     infos \<leftarrow> parse_mount_info file;
     (if infos = [] then Some []
      else case mount_source_name info_flags of
          None \<Rightarrow> Some []
        | Some name \<Rightarrow>
            Some (sort_key (\<lambda>i. - int (unat (mt_id i)))
                    (filter (should_unmount_trace name (kernel_su_module_source info_flags infos)) infos))) }"

section \<open>Lemmas\<close>

lemma dec_value_mono: "v \<le> dec_value v s"
proof (induction s arbitrary: v)
  case (Cons c s)
  show ?case using Cons [of "v * 10 + the (dec_digit c)"] by simp
qed simp

lemma atoi_dec: "dec_text s \<Longrightarrow> dec_value v s < 2 ^ 31 \<Longrightarrow> atoi_loop v s = Some (dec_value v s)"
proof (induction s arbitrary: v)
  case (Cons c s)
  obtain d where d: "dec_digit c = Some d" using Cons.prems by (auto simp: dec_text_def)
  have "v * 10 + d < 2 ^ 31" using Cons.prems(2) dec_value_mono [of "v * 10 + d" s] d by simp
  thus ?case using Cons d by (simp add: dec_text_def)
qed simp

lemma unsigned_dec:
  "dec_text s \<Longrightarrow> r = [] \<or> dec_digit (hd r) = None \<Longrightarrow> unsigned_loop (of_nat v) (s @ r) = (of_nat (dec_value v s), r)"
proof (induction s arbitrary: v)
  case Nil
  thus ?case by (cases r) auto
next
  case (Cons c s)
  obtain d where d: "dec_digit c = Some d" using Cons.prems by (auto simp: dec_text_def)
  have "(of_nat v * 10 + of_nat d :: u32) = of_nat (v * 10 + d)" by simp
  thus ?case using Cons.IH [of "v * 10 + d"] Cons.prems d by (simp add: dec_text_def del: of_nat_add of_nat_mult)
qed

lemma fast_atoi_nat_dec: "n < 2 ^ 31 \<Longrightarrow> fast_atoi (nat_dec n) = Some n"
  using atoi_dec [of "nat_dec n" 0] nat_dec_text [of n] by (simp add: fast_atoi_def)

lemma parse_device_text: "parse_device (nat_dec (unat a) @ 58 # nat_dec (unat b)) = Some (a, b)"
proof -
  have "dec_digit 58 = None" by (simp add: dec_digit_def)
  hence "unsigned_loop 0 (nat_dec (unat a) @ 58 # nat_dec (unat b)) = (a, 58 # nat_dec (unat b))"
    using unsigned_dec [of "nat_dec (unat a)" "58 # nat_dec (unat b)" 0] nat_dec_text [of "unat a"] by simp
  moreover have "unsigned_loop 0 (nat_dec (unat b)) = (b, [])"
    using unsigned_dec [of "nat_dec (unat b)" "[]" 0] nat_dec_text [of "unat b"] by simp
  ultimately show ?thesis by (simp add: parse_device_def)
qed

lemma next_token:
  assumes "32 \<notin> set w" "r = [] \<or> hd r \<noteq> 32"
  shows "get_next_token (w @ 32 # r) = (w, r)"
proof -
  have t: "\<forall>x \<in> set w. x \<noteq> 32" using assms(1) by auto
  have "dropWhile (\<lambda>c. c = 32) r = r" using assms(2) by (cases r) auto
  thus ?thesis using t by (simp add: get_next_token_def takeWhile_append2 dropWhile_append2)
qed

lemma dec_text_no_space: "dec_text s \<Longrightarrow> 32 \<notin> set s \<and> 10 \<notin> set s"
  by (auto simp: dec_text_def dec_digit_def)

lemma find_separator_append:
  "find_separator (s @ [32, 45]) = None \<Longrightarrow> find_separator (s @ [32, 45, 32] @ r) = Some (length s)"
proof (induction s)
  case Nil
  thus ?case by (simp add: starts_with_def)
next
  case (Cons c s)
  have "\<not> starts_with [32, 45, 32] (c # s @ [32, 45])" using Cons.prems by (auto split: if_splits)
  hence "\<not> starts_with [32, 45, 32] (c # s @ [32, 45, 32] @ r)"
  proof (cases s)
    case (Cons d t)
    thus ?thesis using \<open>\<not> starts_with _ _\<close> by (cases t) (auto simp: starts_with_def)
  qed (simp add: starts_with_def)
  thus ?case using Cons by (simp split: if_splits)
qed

section \<open>The format\<close>

text \<open>The line the kernel writes for a mount of the device with the numbers \<open>a\<close> and \<open>b\<close>.\<close>

definition mount_head :: "u32 \<Rightarrow> u32 \<Rightarrow> mount_info \<Rightarrow> cstr" where
  "mount_head a b i = nat_dec (unat (mt_id i)) @ 32 # nat_dec (unat (mt_parent i)) @ 32 # (nat_dec (unat a) @ 58 # nat_dec (unat b)) @ 32 #
     mt_root i @ 32 # mt_target i @ 32 # mt_vfs_options i"

definition mount_text :: "u32 \<Rightarrow> u32 \<Rightarrow> mount_info \<Rightarrow> cstr" where
  "mount_text a b i = mount_head a b i @ [32, 45, 32] @ mt_type i @ 32 # mt_source i @ 32 # mt_fs_options i"

definition word_ok :: "cstr \<Rightarrow> bool" where
  "word_ok w \<longleftrightarrow> w \<noteq> [] \<and> 32 \<notin> set w \<and> 10 \<notin> set w \<and> 0 \<notin> set w"

definition tail_ok :: "cstr \<Rightarrow> bool" where
  "tail_ok w \<longleftrightarrow> (w = [] \<or> hd w \<noteq> 32) \<and> 10 \<notin> set w \<and> 0 \<notin> set w"

definition mount_ok :: "u32 \<times> u32 \<times> mount_info \<Rightarrow> bool" where
  "mount_ok x = (case x of (a, b, i) \<Rightarrow> unat (mt_id i) < 2 ^ 31 \<and> unat (mt_parent i) < 2 ^ 31 \<and> mt_device i = makedev a b \<and>
     word_ok (mt_root i) \<and> word_ok (mt_target i) \<and> tail_ok (mt_vfs_options i) \<and> word_ok (mt_type i) \<and> word_ok (mt_source i) \<and>
     tail_ok (mt_fs_options i) \<and> find_separator (mount_head a b i @ [32, 45]) = None \<and> mt_raw_info i = mount_text a b i)"

lemma mount_line_text:
  assumes "mount_ok (a, b, i)"
  shows "mount_line (mount_text a b i) = Some (Some i)"
proof -
  have ok: "unat (mt_id i) < 2 ^ 31" "unat (mt_parent i) < 2 ^ 31" "mt_device i = makedev a b" "word_ok (mt_root i)" "word_ok (mt_target i)"
      "tail_ok (mt_vfs_options i)" "word_ok (mt_type i)" "word_ok (mt_source i)" "tail_ok (mt_fs_options i)"
      "find_separator (mount_head a b i @ [32, 45]) = None" "mt_raw_info i = mount_text a b i"
    using assms by (simp_all add: mount_ok_def)
  have sep: "find_separator (mount_text a b i) = Some (length (mount_head a b i))"
    using find_separator_append [OF ok(10)] by (simp add: mount_text_def)
  define n1 where "n1 = nat_dec (unat (mt_id i))"
  define n2 where "n2 = nat_dec (unat (mt_parent i))"
  define dv where "dv = nat_dec (unat a) @ 58 # nat_dec (unat b)"
  have sp: "32 \<notin> set n1" "32 \<notin> set n2" "32 \<notin> set dv"
    using nat_dec_text dec_text_no_space by (auto simp: n1_def n2_def dv_def)
  have h: "n2 \<noteq> []" "hd n2 \<noteq> 32" "dv \<noteq> []" "hd dv \<noteq> 32"
    using sp nat_dec_text [of "unat (mt_parent i)"] nat_dec_text [of "unat a"] by (auto simp: n2_def dv_def dest!: list.set_sel(1))
  have w: "mt_root i \<noteq> []" "hd (mt_root i) \<noteq> 32" "mt_target i \<noteq> []" "hd (mt_target i) \<noteq> 32" "mt_source i \<noteq> []" "hd (mt_source i) \<noteq> 32"
    using ok(4,5,8) list.set_sel(1) by (fastforce simp: word_ok_def)+
  define r5 where "r5 = mt_vfs_options i"
  define r4 where "r4 = mt_target i @ 32 # r5"
  define r3 where "r3 = mt_root i @ 32 # r4"
  define r2 where "r2 = dv @ 32 # r3"
  define r1 where "r1 = n2 @ 32 # r2"
  have head: "mount_head a b i = n1 @ 32 # r1"
    by (simp add: mount_head_def n1_def n2_def dv_def r1_def r2_def r3_def r4_def r5_def)
  have t1: "get_next_token (mount_head a b i) = (n1, r1)" unfolding head using sp h by (intro next_token) (auto simp: r1_def)
  have t2: "get_next_token r1 = (n2, r2)" unfolding r1_def using sp h by (intro next_token) (auto simp: r2_def)
  have t3: "get_next_token r2 = (dv, r3)" unfolding r2_def using sp w by (intro next_token) (auto simp: r3_def)
  have t4: "get_next_token r3 = (mt_root i, r4)" unfolding r3_def using ok(4) w by (intro next_token) (auto simp: r4_def word_ok_def)
  have t5: "get_next_token r4 = (mt_target i, r5)" unfolding r4_def using ok(5,6) by (intro next_token) (auto simp: r5_def word_ok_def tail_ok_def)
  define p1 where "p1 = mt_source i @ 32 # mt_fs_options i"
  define p0 where "p0 = mt_type i @ 32 # p1"
  have "\<forall>c \<in> set p0. c \<noteq> 0" using ok(7,8,9) by (auto simp: p0_def p1_def word_ok_def tail_ok_def)
  hence c: "c_str p0 = p0" by (simp add: c_str_def takeWhile_eq_all_conv)
  have t6: "get_next_token p0 = (mt_type i, p1)" unfolding p0_def using ok(7) w by (intro next_token) (auto simp: p1_def word_ok_def)
  have t7: "get_next_token p1 = (mt_source i, mt_fs_options i)" unfolding p1_def using ok(8,9) by (intro next_token) (auto simp: word_ok_def tail_ok_def)
  have cut: "take (length (mount_head a b i)) (mount_text a b i) = mount_head a b i" "drop (length (mount_head a b i) + 3) (mount_text a b i) = p0"
    by (simp_all add: mount_text_def p0_def p1_def)
  have nums: "fast_atoi n1 = Some (unat (mt_id i))" "fast_atoi n2 = Some (unat (mt_parent i))" "parse_device dv = Some (a, b)"
    using ok(1,2) fast_atoi_nat_dec parse_device_text by (simp_all add: n1_def n2_def dv_def)
  show ?thesis
    unfolding mount_line_def sep option.case Let_def cut c
    by (simp add: t1 t2 t3 t4 t5 t6 t7 nums r5_def ok(3,11) [symmetric])
qed

lemma mount_text_lines: "mount_ok (a, b, i) \<Longrightarrow> 10 \<notin> set (mount_text a b i)"
  using nat_dec_text dec_text_no_space by (auto simp: mount_ok_def mount_text_def mount_head_def word_ok_def tail_ok_def)

lemma mount_lines_text:
  "\<forall>x \<in> set xs. mount_ok x \<Longrightarrow> mount_lines (map (\<lambda>(a, b, i). mount_text a b i @ [10]) xs) = Some (map (\<lambda>(a, b, i). i) xs)"
proof (induction xs)
  case (Cons x xs)
  obtain a b i where x: "x = (a, b, i)" by (cases x)
  have "mount_line (chop_newline (mount_text a b i @ [10])) = Some (Some i)"
    using Cons.prems x mount_line_text [of a b i] by (simp add: chop_newline_def)
  thus ?case using Cons x by simp
qed simp

lemma parse_mount_text:
  assumes "\<forall>x \<in> set xs. mount_ok x"
  shows "parse_mount_info (Some (concat (map (\<lambda>(a, b, i). mount_text a b i @ [10]) xs))) = Some (map (\<lambda>(a, b, i). i) xs)"
proof -
  define ls where "ls = map (\<lambda>(a, b, i). mount_text a b i) xs"
  have m: "map (\<lambda>(a, b, i). mount_text a b i @ [10]) xs = map (\<lambda>l. l @ [10]) ls" by (auto simp: ls_def)
  have "10 \<notin> set l" if "l \<in> set ls" for l using that assms mount_text_lines by (fastforce simp: ls_def)
  hence "getlines (concat (map (\<lambda>l. l @ [10]) ls)) = map (\<lambda>l. l @ [10]) ls" by (rule getlines_lines)
  thus ?thesis using mount_lines_text [OF assms] m by (simp add: parse_mount_info_def)
qed

lemma sorted_distinct_descending:
  assumes "distinct (map mt_id xs)" "sorted (map (\<lambda>i. - int (unat (mt_id i))) xs)"
  shows "sorted_wrt (\<lambda>i j. mt_id j < mt_id i) xs"
  unfolding sorted_wrt_iff_nth_less
proof (intro allI impI)
  fix i j assume ij: "i < j" "j < length xs"
  have "map (\<lambda>i. - int (unat (mt_id i))) xs ! i \<le> map (\<lambda>i. - int (unat (mt_id i))) xs ! j"
    using assms(2) ij by (intro sorted_nth_mono) auto
  hence "mt_id (xs ! j) \<le> mt_id (xs ! i)" using ij by (simp add: word_le_def)
  moreover have "mt_id (xs ! j) \<noteq> mt_id (xs ! i)"
    using assms(1) ij nth_eq_iff_index_eq [of "map mt_id xs" i j] by simp
  ultimately show "mt_id (xs ! j) < mt_id (xs ! i)" by simp
qed

section \<open>Properties\<close>

text \<open>
  What a mount of the root implementation is, said without the code: it shows a directory of the modules, or is mounted
  below the module directory, or carries the name of the implementation that bits 28 to 30 of the flags select, or,
  under KernelSU, comes from the device of the first loop mount on the module directory.
\<close>

definition loop_on_modules :: "mount_info \<Rightarrow> bool" where
  "loop_on_modules i \<longleftrightarrow> mt_target i = cstring ''/data/adb/modules'' \<and> (\<exists>r. mt_source i = cstring ''/dev/block/loop'' @ r)"

definition root_mount :: "u32 \<Rightarrow> mount_info list \<Rightarrow> mount_info \<Rightarrow> bool" where
  "root_mount flags infos i \<longleftrightarrow> (bit flags 28 \<or> bit flags 29 \<or> bit flags 30) \<and>
     ((\<exists>r. mt_root i = cstring ''/adb/modules'' @ r) \<or>
      (\<exists>r. mt_target i = cstring ''/data/adb/modules'' @ r) \<or>
      bit flags 28 \<and> mt_source i = cstring ''APatch'' \<or>
      \<not> bit flags 28 \<and> bit flags 29 \<and> mt_source i = cstring ''KSU'' \<or>
      \<not> bit flags 28 \<and> \<not> bit flags 29 \<and> mt_source i = cstring ''magisk'' \<or>
      \<not> bit flags 28 \<and> bit flags 29 \<and> (\<exists>n < length infos. loop_on_modules (infos ! n) \<and>
        (\<forall>m < n. \<not> loop_on_modules (infos ! m)) \<and> mt_source i = mt_source (infos ! n)))"

lemma flag_bit: "(flags :: u32) AND 0x10000000 \<noteq> 0 \<longleftrightarrow> bit flags 28" "flags AND 0x20000000 \<noteq> 0 \<longleftrightarrow> bit flags 29"
  "flags AND 0x40000000 \<noteq> 0 \<longleftrightarrow> bit flags 30"
  using and_exp_eq_0_iff_not_bit [of flags 28] and_exp_eq_0_iff_not_bit [of flags 29] and_exp_eq_0_iff_not_bit [of flags 30] by simp_all

lemma starts_with_prefix: "starts_with p s \<longleftrightarrow> (\<exists>r. s = p @ r)"
  unfolding starts_with_def by (metis append_eq_conv_conj append_take_drop_id)

lemma loop_source:
  assumes "\<not> bit flags 28" "bit flags 29"
  shows "kernel_su_module_source flags infos \<noteq> [] \<and> mt_source i = kernel_su_module_source flags infos \<longleftrightarrow>
    (\<exists>n < length infos. loop_on_modules (infos ! n) \<and> (\<forall>m < n. \<not> loop_on_modules (infos ! m)) \<and> mt_source i = mt_source (infos ! n))"
proof -
  have k: "kernel_su_module_source flags infos = (case find loop_on_modules infos of Some i \<Rightarrow> mt_source i | None \<Rightarrow> [])"
    using assms flag_bit [of flags]
    by (simp add: kernel_su_module_source_def is_kernelsu_def loop_on_modules_def [abs_def] starts_with_prefix)
  show ?thesis
  proof (cases "find loop_on_modules infos")
    case None
    have "\<not> loop_on_modules (infos ! n)" if "n < length infos" for n using None that by (auto simp: find_None_iff)
    hence "\<not> (\<exists>n < length infos. loop_on_modules (infos ! n) \<and> (\<forall>m < n. \<not> loop_on_modules (infos ! m)) \<and> mt_source i = mt_source (infos ! n))" by blast
    thus ?thesis unfolding k None by simp
  next
    case (Some j)
    then obtain n where n: "n < length infos" "loop_on_modules (infos ! n)" "j = infos ! n" "\<forall>m < n. \<not> loop_on_modules (infos ! m)"
      by (auto simp: find_Some_iff)
    have ne: "mt_source j \<noteq> []" using n(2,3) by (auto simp: loop_on_modules_def cstring_def)
    have u: "n' = n" if "n' < length infos" "loop_on_modules (infos ! n')" "\<forall>m < n'. \<not> loop_on_modules (infos ! m)" for n'
      using that n(2,4) by (meson linorder_neqE_nat)
    have "(\<exists>n < length infos. loop_on_modules (infos ! n) \<and> (\<forall>m < n. \<not> loop_on_modules (infos ! m)) \<and> mt_source i = mt_source (infos ! n))
        \<longleftrightarrow> mt_source i = mt_source j"
      using n u by blast
    thus ?thesis unfolding k Some using ne by simp
  qed
qed

lemma root_mount_code:
  assumes "mount_source_name flags = Some name"
  shows "should_unmount_trace name (kernel_su_module_source flags infos) i \<longleftrightarrow> root_mount flags infos i"
proof -
  have none: "kernel_su_module_source flags infos = []" if "bit flags 28 \<or> \<not> bit flags 29"
    using that flag_bit [of flags] by (auto simp: kernel_su_module_source_def is_kernelsu_def)
  have "name = (if bit flags 28 then cstring ''APatch'' else if bit flags 29 then cstring ''KSU'' else cstring ''magisk'')"
    "bit flags 28 \<or> bit flags 29 \<or> bit flags 30"
    using assms unfolding mount_source_name_def flag_bit by (auto split: if_splits)
  thus ?thesis
    using none loop_source [of flags infos i] unfolding should_unmount_trace_def root_mount_def starts_with_prefix
    by (cases "bit flags 28"; cases "bit flags 29") auto
qed

text \<open>
  C18: The traces are found exactly.  On a mount table as the kernel prints it, with every mount id used once, the
  result lists each mount of the root implementation and no other, by descending id, so that a mount comes before those
  it was stacked on.
\<close>

theorem zygote_traces_exact:
  assumes "\<forall>x \<in> set xs. mount_ok x" "distinct (map (\<lambda>(a, b, i). mt_id i) xs)"
  shows "\<exists>traces. check_zygote_traces flags (Some (concat (map (\<lambda>(a, b, i). mount_text a b i @ [10]) xs))) = Some traces \<and>
    (\<forall>i. i \<in> set traces \<longleftrightarrow> i \<in> (\<lambda>(a, b, i). i) ` set xs \<and> root_mount flags (map (\<lambda>(a, b, i). i) xs) i) \<and>
    sorted_wrt (\<lambda>i j. mt_id j < mt_id i) traces"
proof (cases "mount_source_name flags")
  case None
  hence "\<not> bit flags 28 \<and> \<not> bit flags 29 \<and> \<not> bit flags 30" unfolding mount_source_name_def flag_bit by (auto split: if_splits)
  thus ?thesis using parse_mount_text [OF assms(1)] None by (auto simp: check_zygote_traces_def root_mount_def)
next
  case (Some name)
  define infos where "infos = map (\<lambda>(a, b, i :: mount_info). i) xs"
  define sel where "sel = filter (should_unmount_trace name (kernel_su_module_source flags infos)) infos"
  define traces where "traces = sort_key (\<lambda>i. - int (unat (mt_id i))) sel"
  have "check_zygote_traces flags (Some (concat (map (\<lambda>(a, b, i). mount_text a b i @ [10]) xs))) = Some traces"
    using parse_mount_text [OF assms(1)] Some
    by (auto simp: check_zygote_traces_def infos_def [symmetric] traces_def sel_def)
  moreover have "set traces = set sel" by (simp add: traces_def)
  moreover have "sorted_wrt (\<lambda>i j. mt_id j < mt_id i) traces"
  proof -
    have "distinct (map mt_id infos)" using assms(2) by (simp add: infos_def comp_def case_prod_beta')
    hence "distinct (map mt_id traces)" by (auto simp: traces_def sel_def distinct_map intro: inj_on_subset)
    moreover have "sorted (map (\<lambda>i. - int (unat (mt_id i))) traces)" by (simp add: traces_def)
    ultimately show ?thesis by (rule sorted_distinct_descending)
  qed
  ultimately show ?thesis using root_mount_code [OF Some, of infos] by (auto simp: sel_def infos_def)
qed

text \<open>A mount as the kernel prints it (for examples).\<close>

definition sample_mount :: "u32 \<Rightarrow> string \<Rightarrow> string \<Rightarrow> string \<Rightarrow> mount_info" where
  "sample_mount n root target source =
     (let i = \<lparr>mt_id = n, mt_parent = 35, mt_device = makedev 7 40, mt_root = cstring root, mt_target = cstring target,
        mt_vfs_options = cstring ''ro'', mt_type = cstring ''ext4'', mt_source = cstring source, mt_fs_options = cstring ''rw'',
        mt_raw_info = []\<rparr>
      in i\<lparr>mt_raw_info := mount_text 7 40 i\<rparr>)"

definition sample_table :: "mount_info list" where
  "sample_table = [sample_mount 3 ''/'' ''/data/adb/modules'' ''/dev/block/loop3'', sample_mount 4 ''/'' ''/system/a'' ''/dev/block/loop3'',
     sample_mount 5 ''/adb/modules/m'' ''/system/b'' ''/dev/x'', sample_mount 6 ''/'' ''/system/c'' ''KSU'', sample_mount 7 ''/'' ''/apex'' ''/dev/block/loop4'']"

lemma sample_mount_fields [simp]:
  "mt_id (sample_mount n r t s) = n" "mt_root (sample_mount n r t s) = cstring r" "mt_target (sample_mount n r t s) = cstring t"
  "mt_source (sample_mount n r t s) = cstring s"
  by (simp_all add: sample_mount_def Let_def)

lemma sample_mount_ok:
  assumes "unat n < 2 ^ 31" "word_ok (cstring r)" "word_ok (cstring t)" "word_ok (cstring s)"
    "find_separator (nat_dec (unat n) @ cstring '' 35 7:40 '' @ cstring r @ 32 # cstring t @ cstring '' ro -'') = None"
  shows "mount_ok (7, 40, sample_mount n r t s)"
proof -
  have "nat_dec 35 = cstring ''35''" "nat_dec 7 = cstring ''7''" "nat_dec 40 = cstring ''40''" by (simp_all add: nat_dec.simps cstring_def)
  thus ?thesis using assms by (simp add: mount_ok_def sample_mount_def mount_text_def mount_head_def tail_ok_def word_ok_def cstring_def Let_def)
qed

lemma sample_table_ok: "list_all (\<lambda>i. mount_ok (7, 40, i)) sample_table"
proof -
  have "nat_dec 3 = cstring ''3''" "nat_dec 4 = cstring ''4''" "nat_dec 5 = cstring ''5''" "nat_dec 6 = cstring ''6''" "nat_dec 7 = cstring ''7''"
    by (simp_all add: nat_dec.simps cstring_def)
  thus ?thesis unfolding sample_table_def list.pred_inject
    by (intro conjI sample_mount_ok TrueI) (simp_all add: word_ok_def cstring_def starts_with_def)
qed

lemma sample_mount_distinct: "n \<noteq> k \<Longrightarrow> sample_mount n r t s \<noteq> sample_mount k r' t' s'"
  by (metis sample_mount_fields(1))

lemma sample_table_loop: "loop_on_modules (sample_table ! n) \<longleftrightarrow> n = 0" if "n < 5" for n
proof -
  from that have "n \<in> {0, 1, 2, 3, 4}" by auto
  thus ?thesis by (auto simp: sample_table_def loop_on_modules_def cstring_def)
qed

theorem zygote_traces_exact_witness:
  "\<exists>traces. check_zygote_traces ROOT_IS_KSU (Some (concat (map (\<lambda>i. mount_text 7 40 i @ [10]) sample_table))) = Some traces \<and>
     set traces = set (take 4 sample_table)"
proof -
  let ?xs = "map (\<lambda>i. (7, 40, i)) sample_table"
  have ok: "\<forall>x \<in> set ?xs. mount_ok x" using sample_table_ok by (auto simp: list_all_iff)
  have "distinct (map (\<lambda>(a, b, i). mt_id i) ?xs)" by (simp add: sample_table_def)
  from zygote_traces_exact [OF ok this, of ROOT_IS_KSU] obtain traces where
    t: "check_zygote_traces ROOT_IS_KSU (Some (concat (map (\<lambda>i. mount_text 7 40 i @ [10]) sample_table))) = Some traces"
    "\<forall>i. i \<in> set traces \<longleftrightarrow> i \<in> set sample_table \<and> root_mount ROOT_IS_KSU sample_table i"
    by (auto simp: comp_def image_image)
  have bits: "\<not> bit ROOT_IS_KSU 28" "bit ROOT_IS_KSU 29" unfolding flag_bit [symmetric] by simp_all
  have len: "length sample_table = 5" by (simp add: sample_table_def)
  have loop: "(\<exists>n < length sample_table. loop_on_modules (sample_table ! n) \<and> (\<forall>m < n. \<not> loop_on_modules (sample_table ! m)) \<and> mt_source i = mt_source (sample_table ! n))
      \<longleftrightarrow> mt_source i = cstring ''/dev/block/loop3''" for i
  proof -
    have "mt_source (sample_table ! 0) = cstring ''/dev/block/loop3''" by (simp add: sample_table_def)
    moreover have "n = 0" if "n < 5" "loop_on_modules (sample_table ! n)" for n using sample_table_loop that by blast
    moreover have "loop_on_modules (sample_table ! 0)" using sample_table_loop [of 0] by simp
    ultimately show ?thesis unfolding len by (metis not_less_zero zero_less_numeral)
  qed
  have "root_mount ROOT_IS_KSU sample_table i \<longleftrightarrow> i \<in> set (take 4 sample_table)" if "i \<in> set sample_table" for i
  proof -
    from that obtain n where n: "n < 5" "i = sample_table ! n" unfolding in_set_conv_nth len by metis
    hence "n \<in> {0, 1, 2, 3, 4}" "i = sample_table ! n" by auto
    thus ?thesis unfolding root_mount_def loop
      by (elim insertE) (simp_all add: bits sample_table_def sample_mount_distinct cstring_def)
  qed
  with t show ?thesis by (auto dest: in_set_takeD)
qed

end
