(* ===== verification/Specialize.thy ===== *)
theory Specialize
  imports Mount_Traces Transition
begin

text \<open>
  The life of a forked process: \<open>injector/module.cpp\<close>, with the hooks of \<open>injector/hook.cpp\<close> that read its
  context.  The state is that of the process which goes on after the fork: its context and hook context, its open
  descriptors, whether SIGCHLD is blocked, and a log of what modules and the system were asked to do.  What the
  kernel, the Java virtual machine, the daemon and the loader answer is a record of parameters, and a module is its
  API version with the calls it makes in each of its callbacks.  \<open>None\<close> is a crash.
\<close>

section \<open>Data\<close>

abbreviation GRANTED_ROOT :: u32 where "GRANTED_ROOT \<equiv> 1"
abbreviation UNMOUNT_MASK :: u32 where "UNMOUNT_MASK \<equiv> 2"
abbreviation EXCLUDED :: u32 where "EXCLUDED \<equiv> 0x4000000"
abbreviation IS_MANAGER :: u32 where "IS_MANAGER \<equiv> 0x8000000"
abbreviation PRIVATE_MASK :: u32 where "PRIVATE_MASK \<equiv> 0x7C000000"

abbreviation POST_SPECIALIZE :: u32 where "POST_SPECIALIZE \<equiv> 1"
abbreviation APP_FORK_AND_SPECIALIZE :: u32 where "APP_FORK_AND_SPECIALIZE \<equiv> 2"
abbreviation APP_SPECIALIZE :: u32 where "APP_SPECIALIZE \<equiv> 4"
abbreviation SERVER_FORK_AND_SPECIALIZE :: u32 where "SERVER_FORK_AND_SPECIALIZE \<equiv> 8"
abbreviation DO_REVERT_UNMOUNT :: u32 where "DO_REVERT_UNMOUNT \<equiv> 16"
abbreviation SKIP_CLOSE_LOG_PIPE :: u32 where "SKIP_CLOSE_LOG_PIPE \<equiv> 32"

datatype zygisk_option = FORCE_DENYLIST_UNMOUNT | DLCLOSE_MODULE_LIBRARY

datatype callback = OnLoad | PreApp | PostApp | PreServer | PostServer

datatype module_call =
    SetOption zygisk_option
  | GetFlags
  | ExemptFd int
  | PltHookRegister "cstr option" "cstr option" addr addr
  | PltHookExclude "cstr option" "cstr option"
  | PltHookCommit
  | PltHookRegister_v4 addr addr "cstr option" addr addr
  | OpenFd int
  | CloseFd int

record module_code =
  mc_version :: int
  mc_calls :: "callback \<Rightarrow> module_call list"

record zygisk_module =
  zm_id :: nat
  zm_system :: bool
  zm_code :: module_code
  zm_unload :: bool
  zm_api :: int
  zm_version :: "int option"

text \<open>A compiled pattern is the set of paths that \<open>regexec\<close> matches.\<close>

record register_info =
  ri_regex :: "cstr \<Rightarrow> bool"
  ri_symbol :: cstr
  ri_callback :: addr
  ri_backup :: addr

record ignore_info =
  ii_regex :: "cstr \<Rightarrow> bool"
  ii_symbol :: cstr

record lsplt_map =
  lm_start :: addr
  lm_end :: addr
  lm_perms :: u32
  lm_private :: bool
  lm_offset :: addr
  lm_dev :: addr
  lm_inode :: addr
  lm_path :: cstr

record zygisk_context =
  z_pid :: int
  z_flags :: u32
  z_info_flags :: u32
  z_allowed_fds :: "bool list"
  z_exempted_fds :: "int list"
  z_modules :: "zygisk_module list"
  z_process :: "cstr option"
  z_register_info :: "register_info list"
  z_ignore_info :: "ignore_info list"
  z_fds_to_ignore :: "int list option option"

record hook_context =
  h_should_spoof_maps :: bool
  h_anonymous_memory_enabled :: bool
  h_should_unmap :: bool
  h_zygote_unmounted_times :: nat
  h_cached_map_infos :: "lsplt_map list"
  h_zygote_traces :: "mount_info list"

datatype mount_namespace = CleanNs | RootNs

datatype event =
    Called callback nat
  | Told nat u32
  | Unloaded nat
  | Umounted cstr
  | SetNs mount_namespace
  | RegisterHook addr addr cstr addr addr
  | CommitHook
  | SpoofFossil addr addr
  | CleanLibc
  | CleanLinker nat nat
  | UnmapShared
  | ServerStarted
  | CacheNamespace
  | RestoreZygoteHook

record world =
  g_ctx :: "zygisk_context option"
  g_hook :: "hook_context option"
  w_fds :: "int list"
  w_sigchld_blocked :: bool
  w_zygisk_enabled :: bool
  w_log :: "event list"

text \<open>
  \<open>s_images\<close> are the modules \<open>ReadModules\<close> gives, each with what \<open>Dlopen\<close> and \<open>Dlsym\<close> make of it: whether the
  system linker loaded it, and its code.
\<close>

record system =
  s_fork :: int
  s_dir_pre :: bool
  s_dir_post :: bool
  s_new_array :: bool
  s_uid :: u32
  s_data_owner :: "u32 option"
  s_nice_name :: "cstr option"
  s_anonymous :: bool
  s_connect :: bool
  s_process_flags :: "u32 \<Rightarrow> u32"
  s_images :: "(bool \<times> module_code) option list"
  s_dlclose :: "nat \<Rightarrow> bool"
  s_mountinfo :: "cstr option"
  s_umount :: "mount_info \<Rightarrow> bool"
  s_regcomp :: "cstr \<Rightarrow> (cstr \<Rightarrow> bool) option"
  s_namespace :: "mount_namespace \<Rightarrow> bool"
  s_setns :: "mount_namespace \<Rightarrow> bool"

definition with_ctx :: "(zygisk_context \<Rightarrow> zygisk_context) \<Rightarrow> world \<Rightarrow> world" where
  "with_ctx f w = w\<lparr>g_ctx := map_option f (g_ctx w)\<rparr>"

definition log_event :: "event \<Rightarrow> world \<Rightarrow> world" where
  "log_event e w = w\<lparr>w_log := w_log w @ [e]\<rparr>"

definition raise_flags :: "u32 \<Rightarrow> world \<Rightarrow> world" where
  "raise_flags m = with_ctx (\<lambda>c. c\<lparr>z_flags := z_flags c OR m\<rparr>)"

definition is_child :: "zygisk_context \<Rightarrow> bool" where "is_child c \<longleftrightarrow> z_pid c \<le> 0"

section \<open>The interface of a module\<close>

definition RegisterModuleImpl :: "int \<Rightarrow> zygisk_module \<Rightarrow> bool \<times> zygisk_module" where
  "RegisterModuleImpl api_version m =
     (if api_version > 5 then (False, m) else (True, m\<lparr>zm_version := Some api_version, zm_api := api_version\<rparr>))"

definition can_exempt_fd :: "zygisk_context \<Rightarrow> bool" where
  "can_exempt_fd c \<longleftrightarrow> z_flags c AND APP_FORK_AND_SPECIALIZE \<noteq> 0 \<and> z_fds_to_ignore c \<noteq> None"

definition exempt_fd :: "int \<Rightarrow> zygisk_context \<Rightarrow> bool \<times> zygisk_context" where
  "exempt_fd fd c =
     (if z_flags c AND POST_SPECIALIZE \<noteq> 0 \<or> z_flags c AND SKIP_CLOSE_LOG_PIPE \<noteq> 0 then (True, c)
      else if \<not> can_exempt_fd c then (False, c)
      else (True, c\<lparr>z_exempted_fds := z_exempted_fds c @ [fd]\<rparr>))"

definition getFlags :: "world \<Rightarrow> u32" where
  "getFlags w = (case g_ctx w of None \<Rightarrow> 0 | Some c \<Rightarrow> z_info_flags c AND NOT PRIVATE_MASK)"

definition setOption :: "zygisk_option \<Rightarrow> zygisk_module \<Rightarrow> world \<Rightarrow> zygisk_module \<times> world" where
  "setOption opt m w =
     (if g_ctx w = None then (m, w)
      else case opt of
          FORCE_DENYLIST_UNMOUNT \<Rightarrow> (m, raise_flags DO_REVERT_UNMOUNT w)
        | DLCLOSE_MODULE_LIBRARY \<Rightarrow> (m\<lparr>zm_unload := True\<rparr>, w))"

definition plt_hook_register :: "system \<Rightarrow> cstr option \<Rightarrow> cstr option \<Rightarrow> addr \<Rightarrow> addr \<Rightarrow> zygisk_context \<Rightarrow> zygisk_context" where
  "plt_hook_register sys regex symbol fn backup c =
     (case (regex, symbol) of
        (Some regex, Some symbol) \<Rightarrow>
          if fn = 0 then c
          else (case s_regcomp sys regex of
                  None \<Rightarrow> c
                | Some re \<Rightarrow> c\<lparr>z_register_info := z_register_info c @
                    [\<lparr>ri_regex = re, ri_symbol = symbol, ri_callback = fn, ri_backup = backup\<rparr>]\<rparr>)
      | _ \<Rightarrow> c)"

definition plt_hook_exclude :: "system \<Rightarrow> cstr option \<Rightarrow> cstr option \<Rightarrow> zygisk_context \<Rightarrow> zygisk_context" where
  "plt_hook_exclude sys regex symbol c =
     (case regex of
        None \<Rightarrow> c
      | Some regex \<Rightarrow>
          (case s_regcomp sys regex of
             None \<Rightarrow> c
           | Some re \<Rightarrow> c\<lparr>z_ignore_info := z_ignore_info c @
               [\<lparr>ii_regex = re, ii_symbol = (case symbol of None \<Rightarrow> [] | Some s \<Rightarrow> s)\<rparr>]\<rparr>))"

definition ignored :: "ignore_info list \<Rightarrow> cstr \<Rightarrow> register_info \<Rightarrow> bool" where
  "ignored igns path reg = list_ex (\<lambda>ign. (ii_symbol ign = [] \<or> ii_symbol ign = ri_symbol reg) \<and> ii_regex ign path) igns"

definition plt_hook_process_regex :: "lsplt_map list \<Rightarrow> zygisk_context \<Rightarrow> event list" where
  "plt_hook_process_regex maps c =
     (if z_register_info c = [] then []
      else concat (map (\<lambda>m.
        if lm_offset m \<noteq> 0 \<or> \<not> lm_private m \<or> lm_perms m AND PROT_READ = 0 then []
        else concat (map (\<lambda>reg.
          if \<not> ri_regex reg (lm_path m) then []
          else if ignored (z_ignore_info c) (lm_path m) reg then []
          else [RegisterHook (lm_dev m) (lm_inode m) (ri_symbol reg) (ri_callback reg) (ri_backup reg)])
          (z_register_info c))) maps))"

definition plt_hook_commit :: "world \<Rightarrow> world option" where
  "plt_hook_commit w = do {
     c \<leftarrow> g_ctx w;
     h \<leftarrow> g_hook w;
     Some (w\<lparr>w_log := w_log w @ plt_hook_process_regex (h_cached_map_infos h) c @ [CommitHook],
             g_ctx := Some (c\<lparr>z_register_info := [], z_ignore_info := []\<rparr>)\<rparr>) }"

text \<open>A call through an entry that the table of the module's version does not have crashes.\<close>

fun api_call :: "system \<Rightarrow> module_call \<Rightarrow> zygisk_module \<Rightarrow> world \<Rightarrow> (zygisk_module \<times> world) option" where
  "api_call sys (SetOption opt) m w = (if zm_api m < 1 then None else Some (setOption opt m w))"
| "api_call sys GetFlags m w = (if zm_api m < 2 then None else Some (m, log_event (Told (zm_id m) (getFlags w)) w))"
| "api_call sys (ExemptFd fd) m w = (if zm_api m < 4 then None else Some (m, with_ctx (\<lambda>c. snd (exempt_fd fd c)) w))"
| "api_call sys (PltHookRegister regex symbol fn backup) m w =
     (if zm_api m < 1 \<or> 4 \<le> zm_api m then None else Some (m, with_ctx (plt_hook_register sys regex symbol fn backup) w))"
| "api_call sys (PltHookExclude regex symbol) m w =
     (if zm_api m < 1 \<or> 4 \<le> zm_api m then None else Some (m, with_ctx (plt_hook_exclude sys regex symbol) w))"
| "api_call sys PltHookCommit m w =
     (if zm_api m < 1 then None
      else if zm_api m < 4 then (if g_ctx w = None then Some (m, w) else map_option (Pair m) (plt_hook_commit w))
      else if g_hook w = None then None
      else Some (m, log_event CommitHook w))"
| "api_call sys (PltHookRegister_v4 dev inode symbol fn backup) m w =
     (if zm_api m < 4 then None
      else Some (m, case symbol of
          None \<Rightarrow> w
        | Some s \<Rightarrow> if dev = 0 \<or> inode = 0 \<or> fn = 0 then w else log_event (RegisterHook dev inode s fn backup) w))"
| "api_call sys (OpenFd fd) m w = Some (m, w\<lparr>w_fds := List.insert fd (w_fds w)\<rparr>)"
| "api_call sys (CloseFd fd) m w = Some (m, w\<lparr>w_fds := removeAll fd (w_fds w)\<rparr>)"

primrec api_calls :: "system \<Rightarrow> module_call list \<Rightarrow> zygisk_module \<Rightarrow> world \<Rightarrow> (zygisk_module \<times> world) option" where
  "api_calls sys [] m w = Some (m, w)"
| "api_calls sys (x # xs) m w = do { (m, w) \<leftarrow> api_call sys x m w; api_calls sys xs m w }"

definition run_callback :: "system \<Rightarrow> callback \<Rightarrow> zygisk_module \<Rightarrow> world \<Rightarrow> (zygisk_module \<times> world) option" where
  "run_callback sys cb m w = api_calls sys (mc_calls (zm_code m) cb) m (log_event (Called cb (zm_id m)) w)"

definition onLoad :: "system \<Rightarrow> zygisk_module \<Rightarrow> world \<Rightarrow> (zygisk_module \<times> world) option" where
  "onLoad sys m w =
     (case RegisterModuleImpl (mc_version (zm_code m)) m of
        (registered, m) \<Rightarrow> if registered then run_callback sys OnLoad m w else Some (m, w))"

definition call_app :: "system \<Rightarrow> callback \<Rightarrow> zygisk_module \<Rightarrow> world \<Rightarrow> (zygisk_module \<times> world) option" where
  "call_app sys cb m w =
     (case zm_version m of
        None \<Rightarrow> None
      | Some v \<Rightarrow> if 1 \<le> v \<and> v \<le> 5 then run_callback sys cb m w else Some (m, w))"

definition call_server :: "system \<Rightarrow> callback \<Rightarrow> zygisk_module \<Rightarrow> world \<Rightarrow> (zygisk_module \<times> world) option" where
  "call_server sys cb m w = (case zm_version m of None \<Rightarrow> None | Some v \<Rightarrow> run_callback sys cb m w)"

definition tryUnload :: "system \<Rightarrow> zygisk_module \<Rightarrow> bool" where
  "tryUnload sys m \<longleftrightarrow> zm_unload m \<and> s_dlclose sys (zm_id m)"

section \<open>Descriptors across the fork\<close>

text \<open>
  The kernel gives an opened file the lowest free number.  The names in \<open>/proc/self/fd\<close> are the decimal numbers of
  the open descriptors, which \<open>fast_atoi\<close> reads back (\<open>fast_atoi_nat_dec\<close>), so the listing is a list of numbers.
\<close>

definition lowest_free :: "int list \<Rightarrow> int" where
  "lowest_free fds = int (hd (filter (\<lambda>n. int n \<notin> set fds) [0..<Suc (length fds)]))"

definition in_table :: "bool list \<Rightarrow> int \<Rightarrow> bool" where
  "in_table allowed fd \<longleftrightarrow> 0 \<le> fd \<and> nat fd < length allowed"

definition allow_fd :: "int \<Rightarrow> bool list \<Rightarrow> bool list" where
  "allow_fd fd allowed = (if in_table allowed fd then allowed[nat fd := True] else allowed)"

definition record_fd :: "int \<Rightarrow> int \<Rightarrow> bool list \<times> int list \<Rightarrow> bool list \<times> int list" where
  "record_fd fd_dir fd s = (case s of (allowed, fds) \<Rightarrow>
     if in_table allowed fd then (allowed[nat fd := True], fds)
     else if fd \<noteq> fd_dir then (allowed, removeAll fd fds)
     else (allowed, fds))"

definition fork_pre :: "system \<Rightarrow> world \<Rightarrow> world option" where
  "fork_pre sys w =
     (let w = with_ctx (\<lambda>c. c\<lparr>z_pid := s_fork sys\<rparr>) (w\<lparr>w_sigchld_blocked := True\<rparr>) in do {
      c \<leftarrow> g_ctx w;
      if \<not> is_child c \<or> \<not> s_dir_pre sys then Some w
      else let fd_dir = lowest_free (w_fds w); listed = w_fds w @ [fd_dir];
               (allowed, fds) = fold (record_fd fd_dir) listed (z_allowed_fds c, listed)
           in if in_table allowed fd_dir
              then Some (w\<lparr>g_ctx := Some (c\<lparr>z_allowed_fds := allowed[nat fd_dir := False]\<rparr>), w_fds := removeAll fd_dir fds\<rparr>)
              else None })"

definition fork_post :: "world \<Rightarrow> world" where "fork_post w = w\<lparr>w_sigchld_blocked := False\<rparr>"

definition update_fd_array :: "system \<Rightarrow> int list \<Rightarrow> zygisk_context \<Rightarrow> zygisk_context" where
  "update_fd_array sys old c =
     (if s_new_array sys
      then c\<lparr>z_allowed_fds := fold allow_fd (z_exempted_fds c) (z_allowed_fds c),
             z_fds_to_ignore := Some (Some (old @ z_exempted_fds c))\<rparr>
      else c)"

definition apply_exemptions :: "system \<Rightarrow> zygisk_context \<Rightarrow> zygisk_context" where
  "apply_exemptions sys c =
     (if can_exempt_fd c \<and> z_exempted_fds c \<noteq> []
      then case z_fds_to_ignore c of
             Some (Some arr) \<Rightarrow> update_fd_array sys arr (c\<lparr>z_allowed_fds := fold allow_fd arr (z_allowed_fds c)\<rparr>)
           | _ \<Rightarrow> update_fd_array sys [] c
      else c)"

definition forbidden_fd :: "zygisk_context \<Rightarrow> int \<Rightarrow> bool" where
  "forbidden_fd c fd \<longleftrightarrow> \<not> in_table (z_allowed_fds c) fd \<or> \<not> z_allowed_fds c ! nat fd"

definition sanitize_fds :: "system \<Rightarrow> world \<Rightarrow> world option" where
  "sanitize_fds sys w = do {
     c \<leftarrow> g_ctx w;
     if \<not> is_child c then Some w
     else let c = apply_exemptions sys c; w = w\<lparr>g_ctx := Some c\<rparr>; fd_dir = lowest_free (w_fds w) in
       Some (if s_dir_post sys
             then w\<lparr>w_fds := removeAll fd_dir (filter (\<lambda>fd. \<not> (forbidden_fd c fd \<and> fd \<noteq> fd_dir)) (w_fds w @ [fd_dir]))\<rparr>
             else w) }"

section \<open>Running the modules\<close>

primrec open_modules :: "nat \<Rightarrow> (bool \<times> module_code) option list \<Rightarrow> zygisk_module list" where
  "open_modules i [] = []"
| "open_modules i (x # xs) =
     (case x of
        None \<Rightarrow> []
      | Some (by_system, code) \<Rightarrow>
          [\<lparr>zm_id = i, zm_system = by_system, zm_code = code, zm_unload = False, zm_api = 0, zm_version = None\<rparr>])
     @ open_modules (Suc i) xs"

primrec each_module ::
    "(zygisk_module \<Rightarrow> world \<Rightarrow> (zygisk_module \<times> world) option) \<Rightarrow> zygisk_module list \<Rightarrow> world
      \<Rightarrow> (zygisk_module list \<times> world) option" where
  "each_module f [] w = Some ([], w)"
| "each_module f (m # ms) w = do { (m, w) \<leftarrow> f m w; (ms, w) \<leftarrow> each_module f ms w; Some (m # ms, w) }"

definition specialize_callback :: "system \<Rightarrow> callback \<Rightarrow> callback \<Rightarrow> zygisk_module \<Rightarrow> world \<Rightarrow> (zygisk_module \<times> world) option" where
  "specialize_callback sys app server m w = do {
     c \<leftarrow> g_ctx w;
     if z_flags c AND APP_SPECIALIZE \<noteq> 0 then call_app sys app m w
     else if z_flags c AND SERVER_FORK_AND_SPECIALIZE \<noteq> 0 then call_server sys server m w
     else Some (m, w) }"

definition module_pre :: "system \<Rightarrow> zygisk_module \<Rightarrow> world \<Rightarrow> (zygisk_module \<times> world) option" where
  "module_pre sys m w = do { (m, w) \<leftarrow> onLoad sys m w; specialize_callback sys PreApp PreServer m w }"

definition run_modules_pre :: "system \<Rightarrow> world \<Rightarrow> world option" where
  "run_modules_pre sys w = do {
     c \<leftarrow> g_ctx w;
     (ms, w) \<leftarrow> each_module (module_pre sys) (z_modules c @ open_modules 0 (s_images sys)) w;
     Some (with_ctx (\<lambda>c. c\<lparr>z_modules := ms\<rparr>) w) }"

definition clean_traces :: "zygisk_module list \<Rightarrow> zygisk_module list \<Rightarrow> world \<Rightarrow> world" where
  "clean_traces ms gone w =
     (let system_loaded = length (filter zm_system ms);
          w = (if length ms = length gone then log_event CleanLibc w else w);
          w = (if system_loaded > 0 then log_event (CleanLinker system_loaded (length (filter zm_system gone))) w else w)
      in w\<lparr>g_hook := map_option (\<lambda>h. h\<lparr>h_should_spoof_maps :=
            (case g_ctx w of None \<Rightarrow> False | Some c \<Rightarrow> z_flags c AND APP_SPECIALIZE \<noteq> 0) \<and> length ms > length gone\<rparr>) (g_hook w)\<rparr>)"

definition run_modules_post :: "system \<Rightarrow> world \<Rightarrow> world option" where
  "run_modules_post sys w = (let w = raise_flags POST_SPECIALIZE w in do {
     c \<leftarrow> g_ctx w;
     (ms, w) \<leftarrow> each_module (specialize_callback sys PostApp PostServer) (z_modules c) w;
     let w = with_ctx (\<lambda>c. c\<lparr>z_modules := ms\<rparr>) w;
     let gone = filter (tryUnload sys) (rev ms);
     let w = fold (\<lambda>m. log_event (Unloaded (zm_id m))) gone w;
     Some (if ms \<noteq> [] \<and> g_hook w \<noteq> None then clean_traces ms gone w else w) })"

section \<open>Specialization\<close>

definition is_isolated_aid :: "u32 \<Rightarrow> bool" where
  "is_isolated_aid uid \<longleftrightarrow> 90000 \<le> uid \<and> uid \<le> 99999"

definition app_specialize_pre :: "system \<Rightarrow> world \<Rightarrow> world option" where
  "app_specialize_pre sys w = do {
     c \<leftarrow> g_ctx w;
     let isolated = is_isolated_aid (s_uid sys);
     let uid = (if isolated then (case s_data_owner sys of None \<Rightarrow> s_uid sys | Some owner \<Rightarrow> owner) else s_uid sys);
     let skip_zygiskd = (isolated \<and> \<not> s_connect sys);
     let info = (if \<not> skip_zygiskd \<and> z_info_flags c = 0 then s_process_flags sys uid else z_info_flags c);
     let w = w\<lparr>g_ctx := Some (c\<lparr>z_info_flags := info\<rparr>)\<rparr>;
     let w = (if info AND UNMOUNT_MASK = UNMOUNT_MASK then raise_flags DO_REVERT_UNMOUNT w else w);
     let w = (if z_process c = Some (cstring ''webview_zygote'') then raise_flags DO_REVERT_UNMOUNT w else w);
     let w = raise_flags APP_SPECIALIZE w;
     if \<not> skip_zygiskd \<and> info AND EXCLUDED \<noteq> EXCLUDED then run_modules_pre sys w else Some w }"

definition app_specialize_post :: "system \<Rightarrow> world \<Rightarrow> world option" where
  "app_specialize_post sys w = do {
     w \<leftarrow> run_modules_post sys w;
     c \<leftarrow> g_ctx w;
     Some (if z_info_flags c AND IS_MANAGER = IS_MANAGER then w\<lparr>w_zygisk_enabled := True\<rparr> else w) }"

definition server_specialize_pre :: "system \<Rightarrow> world \<Rightarrow> world option" where
  "server_specialize_pre sys w = do { w \<leftarrow> run_modules_pre sys w; Some (log_event ServerStarted w) }"

definition set_anonymous :: "system \<Rightarrow> world \<Rightarrow> world option" where
  "set_anonymous sys w = do { h \<leftarrow> g_hook w; Some (w\<lparr>g_hook := Some (h\<lparr>h_anonymous_memory_enabled := s_anonymous sys\<rparr>)\<rparr>) }"

definition nativeSpecializeAppProcess_pre :: "system \<Rightarrow> world \<Rightarrow> world option" where
  "nativeSpecializeAppProcess_pre sys w = do {
     w \<leftarrow> set_anonymous sys (with_ctx (\<lambda>c. c\<lparr>z_process := s_nice_name sys\<rparr>) w);
     app_specialize_pre sys (raise_flags SKIP_CLOSE_LOG_PIPE w) }"

definition nativeSpecializeAppProcess_post :: "system \<Rightarrow> world \<Rightarrow> world option" where
  "nativeSpecializeAppProcess_post sys w = app_specialize_post sys (log_event UnmapShared w)"

definition stack_map :: "lsplt_map list \<Rightarrow> lsplt_map option" where
  "stack_map = find (\<lambda>m. lm_dev m = 0 \<and> lm_inode m = 0 \<and> lm_offset m = 0 \<and> lm_private m
     \<and> lm_path m = cstring ''[anon:stack_and_tls:main]'' \<and> lm_perms m AND PROT_READ \<noteq> 0)"

definition nativeForkSystemServer_pre :: "system \<Rightarrow> world \<Rightarrow> world option" where
  "nativeForkSystemServer_pre sys w = do {
     h \<leftarrow> g_hook w;
     let w = raise_flags SERVER_FORK_AND_SPECIALIZE w;
     let w = (case stack_map (h_cached_map_infos h) of None \<Rightarrow> w | Some m \<Rightarrow> log_event (SpoofFossil (lm_start m) (lm_end m)) w);
     w \<leftarrow> fork_pre sys w;
     c \<leftarrow> g_ctx w;
     w \<leftarrow> (if is_child c then map_option (log_event CacheNamespace) (server_specialize_pre sys w) else Some w);
     sanitize_fds sys w }"

definition nativeForkSystemServer_post :: "system \<Rightarrow> world \<Rightarrow> world option" where
  "nativeForkSystemServer_post sys w = do {
     c \<leftarrow> g_ctx w;
     w \<leftarrow> (if is_child c then run_modules_post sys (log_event UnmapShared w) else Some w);
     Some (fork_post w) }"

definition product_overlay :: "bool \<Rightarrow> mount_info \<Rightarrow> bool" where
  "product_overlay is_magisk trace \<longleftrightarrow>
     (if \<not> starts_with (cstring ''/product'') (mt_target trace) then False
      else if starts_with (cstring ''/product/bin'') (mt_target trace) then False
      else if \<not> is_magisk \<and> mt_target trace \<noteq> cstring ''/product'' then False
      else True)"

definition abort_zygote_unmount :: "mount_info list \<Rightarrow> u32 \<Rightarrow> bool" where
  "abort_zygote_unmount traces info_flags =
     (if traces = [] then True
      else if list_ex (\<lambda>t. strstr (mt_target t) (cstring ''/font'')) traces then True
      else list_ex (product_overlay (info_flags AND ROOT_IS_MAGISK \<noteq> 0)) traces)"

definition unmount_zygote :: "system \<Rightarrow> world \<Rightarrow> world option" where
  "unmount_zygote sys w = do {
     h \<leftarrow> g_hook w;
     if h_zygote_unmounted_times h < 5 \<and> h_zygote_traces h = [] then do {
       let info = s_process_flags sys (s_uid sys);
       traces \<leftarrow> check_zygote_traces info (s_mountinfo sys);
       let w = with_ctx (\<lambda>c. c\<lparr>z_info_flags := info\<rparr>) (w\<lparr>g_hook := Some (h\<lparr>h_zygote_traces := traces\<rparr>)\<rparr>);
       Some (if abort_zygote_unmount traces info then w
             else w\<lparr>g_hook := Some (h\<lparr>h_zygote_traces := filter (\<lambda>t. \<not> s_umount sys t) traces,
                                      h_zygote_unmounted_times := h_zygote_unmounted_times h + 1\<rparr>),
                    w_log := w_log w @ map (\<lambda>t. Umounted (mt_target t)) (filter (\<lambda>t. s_umount sys t) traces)\<rparr>) }
     else Some w }"

definition nativeForkAndSpecialize_pre :: "system \<Rightarrow> world \<Rightarrow> world option" where
  "nativeForkAndSpecialize_pre sys w = do {
     w \<leftarrow> set_anonymous sys (with_ctx (\<lambda>c. c\<lparr>z_process := s_nice_name sys\<rparr>) w);
     w \<leftarrow> unmount_zygote sys (raise_flags APP_FORK_AND_SPECIALIZE w);
     w \<leftarrow> fork_pre sys w;
     c \<leftarrow> g_ctx w;
     w \<leftarrow> (if is_child c then app_specialize_pre sys w else Some w);
     sanitize_fds sys w }"

definition nativeForkAndSpecialize_post :: "system \<Rightarrow> world \<Rightarrow> world option" where
  "nativeForkAndSpecialize_post sys w = do {
     c \<leftarrow> g_ctx w;
     w \<leftarrow> (if is_child c then app_specialize_post sys (log_event UnmapShared w) else Some w);
     Some (fork_post w) }"

section \<open>The hooks\<close>

definition update_mount_namespace :: "system \<Rightarrow> mount_namespace \<Rightarrow> world \<Rightarrow> bool \<times> world" where
  "update_mount_namespace sys ns w =
     (if \<not> s_namespace sys ns then (False, w)
      else if \<not> s_setns sys ns then (False, w)
      else (True, log_event (SetNs ns) w))"

definition new_fork :: "int \<Rightarrow> world \<Rightarrow> int" where
  "new_fork old_fork w = (case g_ctx w of Some c \<Rightarrow> if z_pid c \<ge> 0 then z_pid c else old_fork | None \<Rightarrow> old_fork)"

abbreviation CLONE_NEWNS :: u32 where "CLONE_NEWNS \<equiv> 0x20000"

definition should_revert :: "zygisk_context \<Rightarrow> bool" where
  "should_revert c \<longleftrightarrow> z_info_flags c AND (IS_MANAGER OR GRANTED_ROOT) = 0 \<and> z_flags c AND DO_REVERT_UNMOUNT \<noteq> 0"

definition new_unshare :: "system \<Rightarrow> u32 \<Rightarrow> world \<Rightarrow> world option" where
  "new_unshare sys flags w =
     (case g_ctx w of
        None \<Rightarrow> Some w
      | Some c \<Rightarrow>
          if flags AND CLONE_NEWNS \<noteq> 0 \<and> z_flags c AND SERVER_FORK_AND_SPECIALIZE = 0 then do {
            h \<leftarrow> g_hook w;
            let w = (if \<not> should_revert c \<and> h_zygote_unmounted_times h > 0
                     then snd (update_mount_namespace sys RootNs w) else w);
            let is_zygote_clean = (h_zygote_unmounted_times h > 0 \<and> h_zygote_traces h = []);
            Some (if should_revert c \<and> \<not> is_zygote_clean
                  then snd (update_mount_namespace sys CleanNs w) else w) }
          else Some w)"

definition new_context :: "nat \<Rightarrow> int list option option \<Rightarrow> zygisk_context" where
  "new_context fd_max ignore = \<lparr>z_pid = -1, z_flags = 0, z_info_flags = 0, z_allowed_fds = replicate fd_max False,
     z_exempted_fds = [], z_modules = [], z_process = None,
     z_register_info = [], z_ignore_info = [], z_fds_to_ignore = ignore\<rparr>"

definition end_context :: "world \<Rightarrow> world option" where
  "end_context w = do {
     c \<leftarrow> g_ctx w;
     let w = w\<lparr>g_ctx := None\<rparr>;
     Some (if \<not> is_child c then w
           else case g_hook w of
               None \<Rightarrow> w
             | Some h \<Rightarrow> log_event RestoreZygoteHook (w\<lparr>g_hook := Some (h\<lparr>h_should_unmap := True\<rparr>)\<rparr>)) }"

text \<open>The entries of the table of JNI hooks share one shape; \<open>original\<close> is the replaced method.\<close>

definition hooked ::
    "(world \<Rightarrow> world option) \<Rightarrow> (world \<Rightarrow> world option) \<Rightarrow> (world \<Rightarrow> world option) \<Rightarrow> zygisk_context \<Rightarrow> world
      \<Rightarrow> (int \<times> world) option" where
  "hooked pre original post ctx w = do {
     w \<leftarrow> pre (w\<lparr>g_ctx := Some ctx\<rparr>);
     w \<leftarrow> original w;
     w \<leftarrow> post w;
     c \<leftarrow> g_ctx w;
     w \<leftarrow> end_context w;
     Some (z_pid c, w) }"

definition hooked_forkAndSpecialize ::
    "system \<Rightarrow> (world \<Rightarrow> world option) \<Rightarrow> nat \<Rightarrow> int list option option \<Rightarrow> world \<Rightarrow> (int \<times> world) option" where
  "hooked_forkAndSpecialize sys original fd_max ignore =
     hooked (nativeForkAndSpecialize_pre sys) original (nativeForkAndSpecialize_post sys) (new_context fd_max ignore)"

definition hooked_specializeAppProcess ::
    "system \<Rightarrow> (world \<Rightarrow> world option) \<Rightarrow> nat \<Rightarrow> world \<Rightarrow> world option" where
  "hooked_specializeAppProcess sys original fd_max w =
     map_option snd (hooked (nativeSpecializeAppProcess_pre sys) original (nativeSpecializeAppProcess_post sys) (new_context fd_max None) w)"

definition hooked_forkSystemServer ::
    "system \<Rightarrow> (world \<Rightarrow> world option) \<Rightarrow> nat \<Rightarrow> world \<Rightarrow> (int \<times> world) option" where
  "hooked_forkSystemServer sys original fd_max =
     hooked (nativeForkSystemServer_pre sys) original (nativeForkSystemServer_post sys) (new_context fd_max None)"

end
