(* ===== verification/Specialize_Safety.thy ===== *)
theory Specialize_Safety
  imports Specialize
begin

text \<open>
  What a specialized process gets: its descriptors, its modules and its view of the mounts, whatever its modules do.
\<close>

section \<open>What a module cannot change\<close>

definition frame_of :: "zygisk_context \<Rightarrow> int \<times> bool list \<times> int list option option \<times> u32 \<times> cstr option \<times> u32" where
  "frame_of c = (z_pid c, z_allowed_fds c, z_fds_to_ignore c, z_info_flags c, z_process c, z_flags c OR DO_REVERT_UNMOUNT)"

text \<open>The flag \<open>DO_REVERT_UNMOUNT\<close>, which a module may only raise, and the changes of namespace, which it does not make.\<close>

definition reverting :: "world \<Rightarrow> bool" where
  "reverting w \<longleftrightarrow> (case g_ctx w of None \<Rightarrow> False | Some c \<Rightarrow> z_flags c AND DO_REVERT_UNMOUNT \<noteq> 0)"

primrec is_setns :: "event \<Rightarrow> bool" where
  "is_setns (Called cb i) = False" | "is_setns (Told i f) = False" | "is_setns (Unloaded i) = False" | "is_setns (Umounted t) = False"
| "is_setns (SetNs n) = True" | "is_setns (RegisterHook d i s f b) = False" | "is_setns CommitHook = False" | "is_setns (SpoofFossil a b) = False"
| "is_setns CleanLibc = False" | "is_setns (CleanLinker a b) = False" | "is_setns UnmapShared = False" | "is_setns ServerStarted = False"
| "is_setns CacheNamespace = False" | "is_setns RestoreZygoteHook = False"

abbreviation ns_log :: "world \<Rightarrow> event list" where "ns_log w \<equiv> filter is_setns (w_log w)"

definition undisturbed :: "world \<Rightarrow> world \<Rightarrow> bool" where
  "undisturbed w w' \<longleftrightarrow> map_option frame_of (g_ctx w') = map_option frame_of (g_ctx w) \<and> g_hook w' = g_hook w
     \<and> ns_log w' = ns_log w \<and> (reverting w \<longrightarrow> reverting w')"

lemma undisturbed_refl [simp]: "undisturbed w w" by (simp add: undisturbed_def)

lemma undisturbed_trans [trans]: "undisturbed u v \<Longrightarrow> undisturbed v w \<Longrightarrow> undisturbed u w" by (simp add: undisturbed_def)

lemma with_ctx_simps [simp]:
  "g_ctx (with_ctx f w) = map_option f (g_ctx w)" "g_hook (with_ctx f w) = g_hook w" "w_fds (with_ctx f w) = w_fds w"
  "w_log (with_ctx f w) = w_log w"
  by (simp_all add: with_ctx_def)

lemma log_event_simps [simp]:
  "g_ctx (log_event e w) = g_ctx w" "g_hook (log_event e w) = g_hook w" "w_fds (log_event e w) = w_fds w"
  "w_log (log_event e w) = w_log w @ [e]"
  by (simp_all add: log_event_def)

lemma undisturbed_log [simp]: "\<not> is_setns e \<Longrightarrow> undisturbed w (log_event e w)" "\<not> is_setns e \<Longrightarrow> undisturbed (log_event e w) w' = undisturbed w w'"
  by (simp_all add: undisturbed_def reverting_def)

lemma undisturbed_with_ctx:
  "(\<And>c. frame_of (f c) = frame_of c \<and> (z_flags c AND DO_REVERT_UNMOUNT \<noteq> 0 \<longrightarrow> z_flags (f c) AND DO_REVERT_UNMOUNT \<noteq> 0))
    \<Longrightarrow> undisturbed w (with_ctx f w)"
  by (auto simp: undisturbed_def option.map_comp comp_def reverting_def split: option.splits)

lemma undisturbed_fds [simp]: "undisturbed w (w\<lparr>w_fds := fds\<rparr>)" by (simp add: undisturbed_def reverting_def)

lemma raised: "(x OR m) AND m = (m :: u32)"
  by (auto intro!: bit_eqI simp: bit_simps)

lemma frame_of_updates [simp]:
  "frame_of (c\<lparr>z_exempted_fds := a\<rparr>) = frame_of c" "frame_of (c\<lparr>z_register_info := b\<rparr>) = frame_of c"
  "frame_of (c\<lparr>z_ignore_info := d\<rparr>) = frame_of c" "frame_of (c\<lparr>z_modules := e\<rparr>) = frame_of c"
  "frame_of (c\<lparr>z_flags := z_flags c OR DO_REVERT_UNMOUNT\<rparr>) = frame_of c"
  by (simp_all add: frame_of_def or.assoc)

lemma frame_of_calls [simp]:
  "frame_of (snd (exempt_fd fd c)) = frame_of c" "frame_of (plt_hook_register sys r s f b c) = frame_of c"
  "frame_of (plt_hook_exclude sys r s c) = frame_of c"
  by (simp_all add: exempt_fd_def plt_hook_register_def plt_hook_exclude_def split: option.splits)

lemma flags_of_calls [simp]:
  "z_flags (snd (exempt_fd fd c)) = z_flags c" "z_flags (plt_hook_register sys r s f b c) = z_flags c"
  "z_flags (plt_hook_exclude sys r s c) = z_flags c"
  by (simp_all add: exempt_fd_def plt_hook_register_def plt_hook_exclude_def split: option.splits)

lemma process_regex_no_setns [simp]: "filter is_setns (plt_hook_process_regex maps c) = []"
  by (auto simp: plt_hook_process_regex_def filter_empty_conv split: if_splits)

lemma undisturbed_setOption: "setOption opt m w = (m', w') \<Longrightarrow> undisturbed w w'"
  by (auto simp: setOption_def raise_flags_def raised intro!: undisturbed_with_ctx split: zygisk_option.splits if_splits)

lemma undisturbed_commit: "plt_hook_commit w = Some w' \<Longrightarrow> undisturbed w w'"
  by (auto simp: plt_hook_commit_def undisturbed_def reverting_def bind_eq_Some_conv)

lemma api_call_undisturbed: "api_call sys x m w = Some (m', w') \<Longrightarrow> undisturbed w w'"
  by (cases x) (auto simp: undisturbed_with_ctx undisturbed_commit undisturbed_setOption split: if_splits option.splits)

lemma api_call_fds: "api_call sys x m w = Some (m', w') \<Longrightarrow> x \<noteq> CloseFd fd \<Longrightarrow> fd \<in> set (w_fds w) \<Longrightarrow> fd \<in> set (w_fds w')"
  by (cases x) (auto simp: setOption_def raise_flags_def plt_hook_commit_def bind_eq_Some_conv
      split: if_splits option.splits zygisk_option.splits)

definition spares :: "int \<Rightarrow> module_code \<Rightarrow> bool" where
  "spares fd code \<longleftrightarrow> (\<forall>cb. CloseFd fd \<notin> set (mc_calls code cb))"

definition keeps :: "int \<Rightarrow> world \<Rightarrow> world \<Rightarrow> bool" where
  "keeps fd w w' \<longleftrightarrow> (fd \<in> set (w_fds w) \<longrightarrow> fd \<in> set (w_fds w'))"

lemma api_calls_frame: "api_calls sys xs m w = Some (m', w') \<Longrightarrow> undisturbed w w' \<and> (CloseFd fd \<notin> set xs \<longrightarrow> keeps fd w w') \<and> zm_code m' = zm_code m"
proof (induction xs arbitrary: m w)
  case (Cons x xs)
  then obtain m1 w1 where s: "api_call sys x m w = Some (m1, w1)" "api_calls sys xs m1 w1 = Some (m', w')"
    by (auto simp: bind_eq_Some_conv)
  have "zm_code m1 = zm_code m" using s(1)
    by (cases x) (auto simp: setOption_def split: if_splits option.splits zygisk_option.splits)
  thus ?case using Cons.IH [OF s(2)] api_call_undisturbed [OF s(1)] api_call_fds [OF s(1), of fd]
    by (auto simp: keeps_def intro: undisturbed_trans)
qed (simp add: keeps_def)

lemma run_callback_frame:
  "run_callback sys cb m w = Some (m', w') \<Longrightarrow> undisturbed w w' \<and> (spares fd (zm_code m) \<longrightarrow> keeps fd w w') \<and> zm_code m' = zm_code m"
  unfolding run_callback_def by (drule api_calls_frame [of _ _ _ _ _ _ fd]) (auto simp: spares_def keeps_def)

lemma specialize_callback_frame:
  "specialize_callback sys a b m w = Some (m', w') \<Longrightarrow> undisturbed w w' \<and> (spares fd (zm_code m) \<longrightarrow> keeps fd w w') \<and> zm_code m' = zm_code m"
  by (auto simp: specialize_callback_def call_app_def call_server_def bind_eq_Some_conv keeps_def
      split: if_splits option.splits dest: run_callback_frame [of _ _ _ _ _ _ fd])

lemma module_pre_frame:
  assumes "module_pre sys m w = Some (m', w')"
  shows "undisturbed w w' \<and> (spares fd (zm_code m) \<longrightarrow> keeps fd w w')"
proof -
  obtain m1 w1 where s: "onLoad sys m w = Some (m1, w1)" "specialize_callback sys PreApp PreServer m1 w1 = Some (m', w')"
    using assms by (auto simp: module_pre_def bind_eq_Some_conv)
  have "undisturbed w w1 \<and> (spares fd (zm_code m) \<longrightarrow> keeps fd w w1) \<and> zm_code m1 = zm_code m" using s(1)
    by (auto simp: onLoad_def RegisterModuleImpl_def keeps_def split: if_splits prod.splits dest: run_callback_frame [of _ _ _ _ _ _ fd])
  thus ?thesis using specialize_callback_frame [OF s(2), of fd] by (auto simp: keeps_def intro: undisturbed_trans)
qed

lemma each_module_frame:
  assumes "each_module f ms w = Some (ms', w')"
    and "\<And>m w m' w'. m \<in> set ms \<Longrightarrow> f m w = Some (m', w') \<Longrightarrow> undisturbed w w' \<and> (spares fd (zm_code m) \<longrightarrow> keeps fd w w')"
  shows "undisturbed w w' \<and> ((\<forall>m \<in> set ms. spares fd (zm_code m)) \<longrightarrow> keeps fd w w')"
  using assms
proof (induction ms arbitrary: w ms')
  case (Cons m ms)
  then obtain m1 w1 ms1 where s: "f m w = Some (m1, w1)" "each_module f ms w1 = Some (ms1, w')"
    by (auto simp: bind_eq_Some_conv)
  have "undisturbed w1 w' \<and> ((\<forall>m \<in> set ms. spares fd (zm_code m)) \<longrightarrow> keeps fd w1 w')"
    by (rule Cons.IH [OF s(2)]) (rule Cons.prems(2), simp_all)
  thus ?case using Cons.prems(2) [OF _ s(1)] by (auto simp: keeps_def intro: undisturbed_trans)
qed (simp add: keeps_def)

definition loaded :: "system \<Rightarrow> module_code set" where
  "loaded sys = {code. \<exists>b. Some (b, code) \<in> set (s_images sys)}"

lemma opened_code: "m \<in> set (open_modules i xs) \<Longrightarrow> \<exists>b. Some (b, zm_code m) \<in> set xs"
  by (induction xs arbitrary: i) (auto split: option.splits)

lemma run_modules_pre_frame:
  assumes "run_modules_pre sys w = Some w'" "g_ctx w = Some c" "z_modules c = []"
  shows "undisturbed w w' \<and> ((\<forall>code \<in> loaded sys. spares fd code) \<longrightarrow> keeps fd w w')"
proof -
  obtain ms w1 where s: "each_module (module_pre sys) (open_modules 0 (s_images sys)) w = Some (ms, w1)"
    "w' = with_ctx (\<lambda>c. c\<lparr>z_modules := ms\<rparr>) w1"
    using assms by (auto simp: run_modules_pre_def bind_eq_Some_conv)
  have "undisturbed w1 w'" unfolding s(2) by (rule undisturbed_with_ctx) simp
  moreover have "undisturbed w w1 \<and> ((\<forall>m \<in> set (open_modules 0 (s_images sys)). spares fd (zm_code m)) \<longrightarrow> keeps fd w w1)"
    by (rule each_module_frame [OF s(1)]) (rule module_pre_frame)
  ultimately show ?thesis using opened_code [of _ 0 "s_images sys"] s(2)
    by (auto simp: keeps_def loaded_def intro: undisturbed_trans)
qed

section \<open>The descriptors of the child\<close>

lemma in_table_update [simp]: "in_table (a[i := b]) fd = in_table a fd" by (simp add: in_table_def)

lemma in_table_allow [simp]: "in_table (allow_fd fd a) fd' = in_table a fd'" by (simp add: allow_fd_def)

lemma in_table_fold_allow [simp]: "in_table (fold allow_fd fds a) fd = in_table a fd"
  by (induction fds arbitrary: a) auto

definition marked :: "bool list \<Rightarrow> int \<Rightarrow> bool" where "marked a fd \<longleftrightarrow> in_table a fd \<and> a ! nat fd"

lemma marked_allow: "marked (allow_fd x a) fd \<longleftrightarrow> marked a fd \<or> fd = x \<and> in_table a fd"
  by (auto simp: marked_def allow_fd_def in_table_def nth_list_update)

lemma marked_fold_allow: "marked (fold allow_fd xs a) fd \<longleftrightarrow> marked a fd \<or> fd \<in> set xs \<and> in_table a fd"
  by (induction xs arbitrary: a) (auto simp: marked_allow)

lemma record_fds:
  "(\<forall>fd \<in> set xs. in_table a fd) \<Longrightarrow> fold (record_fd d) xs (a, fds) = (fold allow_fd xs a, fds)"
  by (induction xs arbitrary: a) (auto simp: record_fd_def allow_fd_def)

lemma lowest_free: "0 \<le> lowest_free fds" "lowest_free fds \<notin> set fds"
proof -
  let ?l = "filter (\<lambda>n. int n \<notin> set fds) [0..<Suc (length fds)]"
  have "card (int ` {0..<Suc (length fds)}) = Suc (length fds)" by (subst card_image) simp_all
  hence "\<not> int ` {0..<Suc (length fds)} \<subseteq> set fds"
    using card_mono [of "set fds" "int ` {0..<Suc (length fds)}"] card_length [of fds] by auto
  hence "?l \<noteq> []" unfolding filter_empty_conv set_upt by blast
  from hd_in_set [OF this] show "0 \<le> lowest_free fds" "lowest_free fds \<notin> set fds"
    unfolding lowest_free_def by auto
qed

lemma fork_pre_child:
  assumes "g_ctx w = Some c" "s_fork sys \<le> 0" "s_dir_pre sys" "\<forall>fd \<in> set (w_fds w). in_table (z_allowed_fds c) fd"
    "fork_pre sys w = Some w'"
  shows "\<exists>a. g_ctx w' = Some (c\<lparr>z_pid := s_fork sys, z_allowed_fds := a\<rparr>) \<and> w_fds w' = w_fds w
     \<and> g_hook w' = g_hook w \<and> w_log w' = w_log w
     \<and> (\<forall>fd. marked a fd \<longleftrightarrow> (marked (z_allowed_fds c) fd \<or> fd \<in> set (w_fds w)) \<and> fd \<noteq> lowest_free (w_fds w))"
proof -
  let ?d = "lowest_free (w_fds w)" and ?a = "z_allowed_fds c"
  have d: "in_table ?a ?d"
  proof (rule ccontr)
    assume "\<not> in_table ?a ?d"
    hence "\<not> in_table (fst (fold (record_fd ?d) (w_fds w @ [?d]) (?a, w_fds w @ [?d]))) ?d"
      using assms(4) by (simp add: record_fds record_fd_def)
    thus False using assms by (auto simp: fork_pre_def is_child_def with_ctx_def Let_def split: prod.splits if_splits)
  qed
  hence "\<forall>fd \<in> set (w_fds w @ [?d]). in_table ?a fd" using assms(4) by auto
  note r = record_fds [OF this, of ?d]
  let ?b = "(fold allow_fd (w_fds w @ [?d]) ?a)[nat ?d := False]"
  have "g_ctx w' = Some (c\<lparr>z_pid := s_fork sys, z_allowed_fds := ?b\<rparr>) \<and> w_fds w' = w_fds w \<and> g_hook w' = g_hook w \<and> w_log w' = w_log w"
    using assms(5) r d lowest_free(2) [of "w_fds w"]
    by (auto simp: fork_pre_def is_child_def with_ctx_def Let_def assms(1-3) removeAll_id split: if_splits)
  moreover have "marked ?b fd \<longleftrightarrow> (marked ?a fd \<or> fd \<in> set (w_fds w)) \<and> fd \<noteq> ?d" for fd
    using marked_fold_allow [of "w_fds w @ [?d]" ?a fd] assms(4) d
    by (auto simp: marked_def in_table_def nth_list_update eq_nat_nat_iff simp del: fold_append)
  ultimately show ?thesis by auto
qed

text \<open>The flags and the right to modules that \<open>app_specialize_pre\<close> settles on.\<close>

definition daemon_skipped :: "system \<Rightarrow> bool" where
  "daemon_skipped sys \<longleftrightarrow> is_isolated_aid (s_uid sys) \<and> \<not> s_connect sys"

definition asked_uid :: "system \<Rightarrow> u32" where
  "asked_uid sys = (if is_isolated_aid (s_uid sys) then (case s_data_owner sys of None \<Rightarrow> s_uid sys | Some owner \<Rightarrow> owner) else s_uid sys)"

definition settled_info :: "system \<Rightarrow> zygisk_context \<Rightarrow> u32" where
  "settled_info sys c = (if \<not> daemon_skipped sys \<and> z_info_flags c = 0 then s_process_flags sys (asked_uid sys) else z_info_flags c)"

definition settled_flags :: "system \<Rightarrow> zygisk_context \<Rightarrow> u32" where
  "settled_flags sys c =
     (if settled_info sys c AND UNMOUNT_MASK = UNMOUNT_MASK \<or> z_process c = Some (cstring ''webview_zygote'')
      then z_flags c OR DO_REVERT_UNMOUNT else z_flags c) OR APP_SPECIALIZE"

lemma app_specialize_pre_eq:
  assumes "g_ctx w = Some c"
  shows "app_specialize_pre sys w =
    (let w1 = w\<lparr>g_ctx := Some (c\<lparr>z_info_flags := settled_info sys c, z_flags := settled_flags sys c\<rparr>)\<rparr> in
     if daemon_skipped sys \<or> settled_info sys c AND EXCLUDED = EXCLUDED then Some w1 else run_modules_pre sys w1)"
proof -
  have i: "(if \<not> daemon_skipped sys \<and> z_info_flags c = 0
      then s_process_flags sys (if is_isolated_aid (s_uid sys) then (case s_data_owner sys of None \<Rightarrow> s_uid sys | Some owner \<Rightarrow> owner) else s_uid sys)
      else z_info_flags c) = settled_info sys c"
    by (simp add: settled_info_def asked_uid_def)
  show ?thesis
    unfolding app_specialize_pre_def assms bind.bind_lunit Let_def daemon_skipped_def [symmetric] i
    by (simp add: raise_flags_def with_ctx_def settled_flags_def)
qed

lemma app_specialize_pre_frame:
  assumes "app_specialize_pre sys w = Some w'" "g_ctx w = Some c" "z_modules c = []"
  shows "\<exists>c'. g_ctx w' = Some c' \<and> z_pid c' = z_pid c \<and> z_allowed_fds c' = z_allowed_fds c \<and> z_fds_to_ignore c' = z_fds_to_ignore c
    \<and> z_info_flags c' = settled_info sys c \<and> z_flags c' OR DO_REVERT_UNMOUNT = settled_flags sys c OR DO_REVERT_UNMOUNT
    \<and> (settled_info sys c AND UNMOUNT_MASK = UNMOUNT_MASK \<longrightarrow> z_flags c' AND DO_REVERT_UNMOUNT \<noteq> 0)
    \<and> g_hook w' = g_hook w \<and> ns_log w' = ns_log w \<and> ((\<forall>code \<in> loaded sys. spares fd code) \<longrightarrow> keeps fd w w')"
proof -
  define w1 where "w1 = w\<lparr>g_ctx := Some (c\<lparr>z_info_flags := settled_info sys c, z_flags := settled_flags sys c\<rparr>)\<rparr>"
  have "undisturbed w1 w' \<and> ((\<forall>code \<in> loaded sys. spares fd code) \<longrightarrow> keeps fd w1 w')"
  proof (cases "run_modules_pre sys w1 = Some w'")
    case True
    have "g_ctx w1 = Some (c\<lparr>z_info_flags := settled_info sys c, z_flags := settled_flags sys c\<rparr>)" by (simp add: w1_def)
    from run_modules_pre_frame [OF True this] show ?thesis using assms(3) by simp
  next
    case False
    hence "w' = w1" using assms(1) by (auto simp: app_specialize_pre_eq [OF assms(2)] Let_def w1_def split: if_splits)
    thus ?thesis by (simp add: keeps_def)
  qed
  moreover have "settled_info sys c AND UNMOUNT_MASK = UNMOUNT_MASK \<longrightarrow> reverting w1"
    by (simp add: reverting_def w1_def settled_flags_def bit.conj_disj_distrib2 raised)
  ultimately show ?thesis
    by (auto simp: w1_def undisturbed_def frame_of_def keeps_def reverting_def split: option.splits)
qed

section \<open>The descriptors of a forked process\<close>

lemma update_fd_array_marked:
  "marked (z_allowed_fds (update_fd_array sys old c)) fd \<Longrightarrow>
    marked (z_allowed_fds c) fd \<or> z_fds_to_ignore (update_fd_array sys old c) = Some (Some (old @ z_exempted_fds c)) \<and> fd \<in> set (z_exempted_fds c)"
  by (auto simp: update_fd_array_def marked_fold_allow split: if_splits)

lemma update_fd_array_keeps: "marked (z_allowed_fds c) fd \<Longrightarrow> marked (z_allowed_fds (update_fd_array sys old c)) fd"
  by (auto simp: update_fd_array_def marked_fold_allow)

lemma apply_exemptions_marked:
  assumes "marked (z_allowed_fds (apply_exemptions sys c)) fd"
  shows "marked (z_allowed_fds c) fd \<or> (\<exists>arr. z_fds_to_ignore (apply_exemptions sys c) = Some (Some arr) \<and> fd \<in> set arr)"
  using assms
  by (auto simp: apply_exemptions_def update_fd_array_def marked_fold_allow split: if_splits option.splits)

lemma apply_exemptions_keeps: "marked (z_allowed_fds c) fd \<Longrightarrow> marked (z_allowed_fds (apply_exemptions sys c)) fd"
  by (auto simp: apply_exemptions_def update_fd_array_def marked_fold_allow split: option.splits)

lemma sanitize_fds_child:
  assumes "sanitize_fds sys w = Some w'" "g_ctx w = Some c" "z_pid c \<le> 0" "s_dir_post sys"
  shows "g_ctx w' = Some (apply_exemptions sys c) \<and> g_hook w' = g_hook w \<and> w_log w' = w_log w
    \<and> set (w_fds w') = {fd \<in> set (w_fds w). marked (z_allowed_fds (apply_exemptions sys c)) fd}"
proof -
  have w: "w' = w\<lparr>g_ctx := Some (apply_exemptions sys c), w_fds := removeAll (lowest_free (w_fds w))
     (filter (\<lambda>fd. \<not> (forbidden_fd (apply_exemptions sys c) fd \<and> fd \<noteq> lowest_free (w_fds w))) (w_fds w @ [lowest_free (w_fds w)]))\<rparr>"
    using assms by (simp add: sanitize_fds_def is_child_def Let_def)
  show ?thesis unfolding w using lowest_free(2) [of "w_fds w"] by (auto simp: forbidden_fd_def marked_def)
qed

lemma sanitize_fds_returns: "g_ctx w = Some c \<Longrightarrow> \<exists>w'. sanitize_fds sys w = Some w'"
  by (auto simp: sanitize_fds_def Let_def)

section \<open>Modules that keep to the interface\<close>

fun offered :: "int \<Rightarrow> module_call \<Rightarrow> bool" where
  "offered v GetFlags = (2 \<le> v)"
| "offered v (ExemptFd fd) = (4 \<le> v)"
| "offered v (PltHookRegister r s f b) = (v < 4)"
| "offered v (PltHookExclude r s) = (v < 4)"
| "offered v (PltHookRegister_v4 d i s f b) = (4 \<le> v)"
| "offered v x = True"

definition well_behaved :: "module_code \<Rightarrow> bool" where
  "well_behaved code \<longleftrightarrow> 1 \<le> mc_version code \<and> mc_version code \<le> 5 \<and> (\<forall>cb. \<forall>x \<in> set (mc_calls code cb). offered (mc_version code) x)"

definition registered :: "zygisk_module \<Rightarrow> bool" where
  "registered m \<longleftrightarrow> well_behaved (zm_code m) \<and> zm_api m = mc_version (zm_code m) \<and> zm_version m = Some (mc_version (zm_code m))"

lemma api_call_returns:
  assumes "offered (zm_api m) x" "1 \<le> zm_api m" "g_hook w \<noteq> None"
  shows "\<exists>m' w'. api_call sys x m w = Some (m', w') \<and> zm_code m' = zm_code m \<and> zm_api m' = zm_api m \<and> zm_version m' = zm_version m"
  using assms by (cases x) (auto simp: setOption_def plt_hook_commit_def split: option.splits zygisk_option.splits)

lemma undisturbed_hook: "undisturbed w w' \<Longrightarrow> g_hook w' = g_hook w" by (simp add: undisturbed_def)

lemma api_calls_return:
  assumes "\<forall>x \<in> set xs. offered (zm_api m) x" "1 \<le> zm_api m" "g_hook w \<noteq> None"
  shows "\<exists>m' w'. api_calls sys xs m w = Some (m', w') \<and> zm_code m' = zm_code m \<and> zm_api m' = zm_api m \<and> zm_version m' = zm_version m"
  using assms
proof (induction xs arbitrary: m w)
  case (Cons x xs)
  then obtain m1 w1 where s: "api_call sys x m w = Some (m1, w1)" "zm_code m1 = zm_code m" "zm_api m1 = zm_api m" "zm_version m1 = zm_version m"
    using api_call_returns [of m x w sys] by auto
  show ?case using Cons.IH [of m1 w1] Cons.prems s undisturbed_hook [OF api_call_undisturbed [OF s(1)]] by auto
qed simp

lemma run_callback_returns:
  assumes "registered m" "g_hook w \<noteq> None"
  shows "\<exists>m' w'. run_callback sys cb m w = Some (m', w') \<and> registered m'"
  using api_calls_return [of "mc_calls (zm_code m) cb" m "log_event (Called cb (zm_id m)) w" sys] assms
  by (auto simp: run_callback_def registered_def well_behaved_def)

lemma specialize_callback_returns:
  assumes "registered m" "g_hook w \<noteq> None" "g_ctx w \<noteq> None"
  shows "\<exists>m' w'. specialize_callback sys a b m w = Some (m', w') \<and> registered m'"
  using run_callback_returns [OF assms(1,2)] assms
  by (auto simp: specialize_callback_def call_app_def call_server_def registered_def well_behaved_def)

lemma undisturbed_ctx: "undisturbed w w' \<Longrightarrow> g_ctx w' = None \<longleftrightarrow> g_ctx w = None" by (auto simp: undisturbed_def)

lemma module_pre_returns:
  assumes "well_behaved (zm_code m)" "g_hook w \<noteq> None" "g_ctx w \<noteq> None"
  shows "\<exists>m' w'. module_pre sys m w = Some (m', w') \<and> registered m'"
proof -
  let ?m = "m\<lparr>zm_version := Some (mc_version (zm_code m)), zm_api := mc_version (zm_code m)\<rparr>"
  have "registered ?m" using assms(1) by (simp add: registered_def)
  then obtain m1 w1 where s: "run_callback sys OnLoad ?m w = Some (m1, w1)" "registered m1"
    using run_callback_returns [of ?m w sys OnLoad] assms(2) by blast
  have "onLoad sys m w = Some (m1, w1)" using s(1) assms(1) by (simp add: onLoad_def RegisterModuleImpl_def well_behaved_def)
  moreover have "undisturbed w w1" using run_callback_frame [OF s(1)] by blast
  ultimately show ?thesis using specialize_callback_returns [OF s(2), of w1 sys PreApp PreServer] assms(2,3)
    by (simp add: module_pre_def undisturbed_hook undisturbed_ctx)
qed

lemma each_module_returns:
  assumes "\<And>m w. m \<in> set ms \<Longrightarrow> g_hook w \<noteq> None \<Longrightarrow> g_ctx w \<noteq> None \<Longrightarrow> \<exists>m' w'. f m w = Some (m', w') \<and> registered m' \<and> undisturbed w w'"
    and "g_hook w \<noteq> None" "g_ctx w \<noteq> None"
  shows "\<exists>ms' w'. each_module f ms w = Some (ms', w') \<and> (\<forall>m \<in> set ms'. registered m)"
  using assms
proof (induction ms arbitrary: w)
  case (Cons m ms)
  obtain m1 w1 where s: "f m w = Some (m1, w1)" "registered m1" "undisturbed w w1"
    using Cons.prems(1) [of m w] Cons.prems(2,3) by auto
  have "\<exists>ms' w'. each_module f ms w1 = Some (ms', w') \<and> (\<forall>m \<in> set ms'. registered m)"
    by (rule Cons.IH) (use Cons.prems s(3) in \<open>auto simp: undisturbed_hook undisturbed_ctx\<close>)
  thus ?case using s by auto
qed simp

lemma run_modules_pre_returns:
  assumes "g_ctx w = Some c" "z_modules c = []" "g_hook w \<noteq> None" "\<forall>code \<in> loaded sys. well_behaved code"
  shows "\<exists>w'. run_modules_pre sys w = Some w'"
proof -
  have "\<exists>ms w'. each_module (module_pre sys) (open_modules 0 (s_images sys)) w = Some (ms, w') \<and> (\<forall>m \<in> set ms. registered m)"
  proof (rule each_module_returns)
    fix m and v :: world assume "m \<in> set (open_modules 0 (s_images sys))" "g_hook v \<noteq> None" "g_ctx v \<noteq> None"
    moreover from this have "well_behaved (zm_code m)" using opened_code assms(4) by (fastforce simp: loaded_def)
    ultimately show "\<exists>m' w'. module_pre sys m v = Some (m', w') \<and> registered m' \<and> undisturbed v w'"
      using module_pre_returns [of m v sys] module_pre_frame by blast
  qed (use assms in auto)
  thus ?thesis using assms by (auto simp: run_modules_pre_def)
qed

lemma app_specialize_pre_returns:
  assumes "g_ctx w = Some c" "z_modules c = []" "g_hook w \<noteq> None" "\<forall>code \<in> loaded sys. well_behaved code"
  shows "\<exists>w'. app_specialize_pre sys w = Some w'"
  using run_modules_pre_returns [of "w\<lparr>g_ctx := Some (c\<lparr>z_info_flags := settled_info sys c, z_flags := settled_flags sys c\<rparr>)\<rparr>" _ sys] assms
  by (simp add: app_specialize_pre_eq Let_def)

section \<open>The zygote before the fork\<close>

definition zygote_ready :: "system \<Rightarrow> world \<Rightarrow> bool" where
  "zygote_ready sys w \<longleftrightarrow> g_hook w \<noteq> None \<and> check_zygote_traces (s_process_flags sys (s_uid sys)) (s_mountinfo sys) \<noteq> None"

definition umounts_only :: "world \<Rightarrow> world \<Rightarrow> bool" where
  "umounts_only w w' \<longleftrightarrow> (\<exists>ts. w_log w' = w_log w @ map Umounted ts)"

lemma before_fork:
  assumes "zygote_ready sys w"
  shows "\<exists>w1 i. set_anonymous sys (with_ctx (\<lambda>c. c\<lparr>z_process := s_nice_name sys\<rparr>) (w\<lparr>g_ctx := Some (new_context n ignore)\<rparr>))
        \<bind> (\<lambda>w. unmount_zygote sys (raise_flags APP_FORK_AND_SPECIALIZE w)) = Some w1
    \<and> g_ctx w1 = Some ((new_context n ignore)\<lparr>z_process := s_nice_name sys, z_flags := APP_FORK_AND_SPECIALIZE, z_info_flags := i\<rparr>)
    \<and> (i = 0 \<or> i = s_process_flags sys (s_uid sys)) \<and> w_fds w1 = w_fds w \<and> g_hook w1 \<noteq> None
    \<and> umounts_only w w1"
proof -
  obtain h traces where h: "g_hook w = Some h" "check_zygote_traces (s_process_flags sys (s_uid sys)) (s_mountinfo sys) = Some traces"
    using assms by (auto simp: zygote_ready_def)
  have "\<exists>us. map (\<lambda>t. Umounted (mt_target t)) ts = map Umounted us" for ts
    by (rule exI [of _ "map mt_target ts"]) simp
  thus ?thesis using h
    by (auto simp: umounts_only_def set_anonymous_def unmount_zygote_def raise_flags_def with_ctx_def new_context_def Let_def)
qed

definition forked_as_child :: "system \<Rightarrow> nat \<Rightarrow> world \<Rightarrow> bool" where
  "forked_as_child sys n w \<longleftrightarrow> s_fork sys \<le> 0 \<and> s_dir_pre sys \<and> s_dir_post sys \<and> length (w_fds w) < n
     \<and> list_all (\<lambda>fd. 0 \<le> fd \<and> fd < int n) (w_fds w)"

lemma lowest_free_le: "lowest_free fds \<le> int (length fds)"
proof -
  let ?l = "filter (\<lambda>n. int n \<notin> set fds) [0..<Suc (length fds)]"
  have "?l \<noteq> []"
  proof
    assume "?l = []"
    hence "\<forall>k < Suc (length fds). int k \<in> set fds" by (simp add: filter_empty_conv del: upt_Suc)
    hence "int ` {0..<Suc (length fds)} \<subseteq> set fds" by auto
    from card_mono [OF _ this] show False using card_length [of fds] by (simp add: card_image)
  qed
  from hd_in_set [OF this] show ?thesis unfolding lowest_free_def by auto
qed

lemma new_context_marks [simp]: "\<not> marked (z_allowed_fds (new_context n ignore)) fd"
  by (auto simp: marked_def in_table_def new_context_def)

lemma fork_pre_returns:
  assumes "g_ctx w = Some c" "forked_as_child sys (length (z_allowed_fds c)) w"
  shows "\<exists>w'. fork_pre sys w = Some w'"
proof -
  let ?d = "lowest_free (w_fds w)" and ?a = "z_allowed_fds c"
  have "\<forall>fd \<in> set (w_fds w @ [?d]). in_table ?a fd"
    using assms(2) lowest_free(1) [of "w_fds w"] lowest_free_le [of "w_fds w"]
    by (auto simp: forked_as_child_def in_table_def list_all_iff)
  thus ?thesis using record_fds [of "w_fds w @ [?d]" ?a ?d] assms
    by (auto simp: fork_pre_def forked_as_child_def with_ctx_def Let_def simp del: fold_append)
qed

lemma child_start:
  assumes "zygote_ready sys w" "forked_as_child sys n w"
  shows "\<exists>w1 c. nativeForkAndSpecialize_pre sys (w\<lparr>g_ctx := Some (new_context n ignore)\<rparr>) = app_specialize_pre sys w1 \<bind> sanitize_fds sys
    \<and> g_ctx w1 = Some c \<and> z_modules c = [] \<and> z_pid c = s_fork sys \<and> z_flags c = APP_FORK_AND_SPECIALIZE
    \<and> z_process c = s_nice_name sys \<and> (z_info_flags c = 0 \<or> z_info_flags c = s_process_flags sys (s_uid sys))
    \<and> w_fds w1 = w_fds w \<and> g_hook w1 \<noteq> None \<and> umounts_only w w1
    \<and> (\<forall>fd. marked (z_allowed_fds c) fd \<longleftrightarrow> fd \<in> set (w_fds w))"
proof -
  obtain w1 i where a: "set_anonymous sys (with_ctx (\<lambda>c. c\<lparr>z_process := s_nice_name sys\<rparr>) (w\<lparr>g_ctx := Some (new_context n ignore)\<rparr>))
        \<bind> (\<lambda>w. unmount_zygote sys (raise_flags APP_FORK_AND_SPECIALIZE w)) = Some w1"
    and c1: "g_ctx w1 = Some ((new_context n ignore)\<lparr>z_process := s_nice_name sys, z_flags := APP_FORK_AND_SPECIALIZE, z_info_flags := i\<rparr>)" (is "_ = Some ?c")
    and i: "i = 0 \<or> i = s_process_flags sys (s_uid sys)" "w_fds w1 = w_fds w" "g_hook w1 \<noteq> None" "umounts_only w w1"
    using before_fork [OF assms(1), of n ignore] by (elim exE conjE)
  have n: "z_allowed_fds ?c = replicate n False" by (simp add: new_context_def)
  have f: "forked_as_child sys (length (z_allowed_fds ?c)) w1" using assms(2) i(2) by (simp add: forked_as_child_def n)
  obtain w2 where w2: "fork_pre sys w1 = Some w2" using fork_pre_returns [OF c1 f] by blast
  have t: "\<forall>fd \<in> set (w_fds w1). in_table (z_allowed_fds ?c) fd"
    using assms(2) i(2) by (auto simp: n in_table_def forked_as_child_def list_all_iff)
  have d: "s_fork sys \<le> 0" "s_dir_pre sys" using assms(2) by (simp_all add: forked_as_child_def)
  obtain b where b: "g_ctx w2 = Some (?c\<lparr>z_pid := s_fork sys, z_allowed_fds := b\<rparr>)" "w_fds w2 = w_fds w1" "g_hook w2 = g_hook w1" "w_log w2 = w_log w1"
    "\<forall>fd. marked b fd \<longleftrightarrow> (marked (z_allowed_fds ?c) fd \<or> fd \<in> set (w_fds w1)) \<and> fd \<noteq> lowest_free (w_fds w1)"
    using fork_pre_child [OF c1 d t w2] by (elim exE conjE)
  have z: "z_modules (?c\<lparr>z_pid := s_fork sys, z_allowed_fds := b\<rparr>) = []" by (simp add: new_context_def)
  have m: "marked b fd \<longleftrightarrow> fd \<in> set (w_fds w)" for fd
  proof -
    have "\<not> marked (z_allowed_fds ?c) fd" unfolding n marked_def in_table_def by auto
    moreover have "fd \<in> set (w_fds w) \<Longrightarrow> fd \<noteq> lowest_free (w_fds w1)" using lowest_free(2) [of "w_fds w"] i(2) by auto
    ultimately show ?thesis using b(5) unfolding i(2) by blast
  qed
  obtain w0 where w0: "set_anonymous sys (with_ctx (\<lambda>c. c\<lparr>z_process := s_nice_name sys\<rparr>) (w\<lparr>g_ctx := Some (new_context n ignore)\<rparr>)) = Some w0"
    "unmount_zygote sys (raise_flags APP_FORK_AND_SPECIALIZE w0) = Some w1"
    using a unfolding bind_eq_Some_conv by (elim exE conjE)
  have "nativeForkAndSpecialize_pre sys (w\<lparr>g_ctx := Some (new_context n ignore)\<rparr>) = app_specialize_pre sys w2 \<bind> sanitize_fds sys"
    unfolding nativeForkAndSpecialize_pre_def using w0 w2 b(1) d(1) by (simp add: is_child_def)
  thus ?thesis
    by (intro exI [of _ w2] exI [of _ "?c\<lparr>z_pid := s_fork sys, z_allowed_fds := b\<rparr>"])
      (use b(1-4) i m in \<open>simp add: new_context_def umounts_only_def\<close>)
qed

lemma umounts_log: "umounts_only w w1 \<Longrightarrow> ns_log w1 = ns_log w"
  by (auto simp: umounts_only_def filter_empty_conv)

lemma fork_and_specialize_child:
  assumes "zygote_ready sys w" "forked_as_child sys n w" "\<forall>code \<in> loaded sys. well_behaved code"
  shows "\<exists>w' w1 c. nativeForkAndSpecialize_pre sys (w\<lparr>g_ctx := Some (new_context n ignore)\<rparr>) = Some w'
    \<and> app_specialize_pre sys w1 \<bind> sanitize_fds sys = Some w'
    \<and> g_ctx w1 = Some c \<and> z_modules c = [] \<and> z_pid c = s_fork sys \<and> z_flags c = APP_FORK_AND_SPECIALIZE
    \<and> (z_info_flags c = 0 \<or> z_info_flags c = s_process_flags sys (s_uid sys))
    \<and> w_fds w1 = w_fds w \<and> g_hook w1 \<noteq> None \<and> ns_log w1 = ns_log w
    \<and> (\<forall>fd. marked (z_allowed_fds c) fd \<longleftrightarrow> fd \<in> set (w_fds w))"
proof -
  obtain w1 c where s: "nativeForkAndSpecialize_pre sys (w\<lparr>g_ctx := Some (new_context n ignore)\<rparr>) = app_specialize_pre sys w1 \<bind> sanitize_fds sys"
    "g_ctx w1 = Some c" "z_modules c = []" "z_pid c = s_fork sys" "z_flags c = APP_FORK_AND_SPECIALIZE"
    "w_fds w1 = w_fds w" "g_hook w1 \<noteq> None" "umounts_only w w1" "z_info_flags c = 0 \<or> z_info_flags c = s_process_flags sys (s_uid sys)"
    "\<forall>fd. marked (z_allowed_fds c) fd \<longleftrightarrow> fd \<in> set (w_fds w)"
    using child_start [OF assms(1,2), of ignore] by (elim exE conjE)
  obtain w3 where w3: "app_specialize_pre sys w1 = Some w3" using app_specialize_pre_returns [OF s(2,3,7) assms(3)] by blast
  obtain c3 where "g_ctx w3 = Some c3" using app_specialize_pre_frame [OF w3 s(2,3)] by blast
  then obtain w4 where "sanitize_fds sys w3 = Some w4" using sanitize_fds_returns by blast
  thus ?thesis using s(1-7,9,10) w3 umounts_log [OF s(8)] by (intro exI [of _ w4] exI [of _ w1] exI [of _ c]) simp
qed

section \<open>Properties of a specialized application\<close>

text \<open>C8: A forked application, with modules that keep to their interface, ends its preparation without a crash.  It has no
  descriptor open but those the zygote had and those on the list that the zygote will be told to ignore, whatever
  descriptors its modules opened; and it keeps every descriptor of the zygote that no module closes.\<close>

theorem child_descriptors:
  assumes "zygote_ready sys w" "forked_as_child sys n w" "\<forall>code \<in> loaded sys. well_behaved code"
  shows "\<exists>w' c. nativeForkAndSpecialize_pre sys (w\<lparr>g_ctx := Some (new_context n ignore)\<rparr>) = Some w' \<and> g_ctx w' = Some c
    \<and> (\<forall>fd \<in> set (w_fds w'). fd \<in> set (w_fds w) \<or> (\<exists>arr. z_fds_to_ignore c = Some (Some arr) \<and> fd \<in> set arr))
    \<and> (\<forall>fd \<in> set (w_fds w). (\<forall>code \<in> loaded sys. spares fd code) \<longrightarrow> fd \<in> set (w_fds w'))"
proof -
  obtain w' w1 c where a: "nativeForkAndSpecialize_pre sys (w\<lparr>g_ctx := Some (new_context n ignore)\<rparr>) = Some w'"
    "app_specialize_pre sys w1 \<bind> sanitize_fds sys = Some w'" "g_ctx w1 = Some c" "z_modules c = []" "z_pid c = s_fork sys"
    "w_fds w1 = w_fds w" "\<forall>fd. marked (z_allowed_fds c) fd \<longleftrightarrow> fd \<in> set (w_fds w)"
    using fork_and_specialize_child [OF assms, of ignore] by blast
  obtain w2 where w2: "app_specialize_pre sys w1 = Some w2" "sanitize_fds sys w2 = Some w'"
    using a(2) unfolding bind_eq_Some_conv by blast
  obtain c2 where c2: "g_ctx w2 = Some c2" "z_pid c2 = z_pid c" "z_allowed_fds c2 = z_allowed_fds c"
    using app_specialize_pre_frame [OF w2(1) a(3,4)] by blast
  have k: "\<forall>code \<in> loaded sys. spares fd code \<Longrightarrow> keeps fd w1 w2" for fd
    using app_specialize_pre_frame [OF w2(1) a(3,4), of fd] by blast
  have "z_pid c2 \<le> 0" "s_dir_post sys" using assms(2) c2(2) a(5) by (simp_all add: forked_as_child_def)
  note s = sanitize_fds_child [OF w2(2) c2(1) this]
  have "fd \<in> set (w_fds w) \<or> (\<exists>arr. z_fds_to_ignore (apply_exemptions sys c2) = Some (Some arr) \<and> fd \<in> set arr)" if "fd \<in> set (w_fds w')" for fd
    using that s apply_exemptions_marked [of sys c2 fd] a(7) c2(3) by auto
  moreover have "fd \<in> set (w_fds w')" if "fd \<in> set (w_fds w)" "\<forall>code \<in> loaded sys. spares fd code" for fd
  proof -
    have "fd \<in> set (w_fds w2)" using k [OF that(2)] that(1) a(6) by (simp add: keeps_def)
    moreover have "marked (z_allowed_fds (apply_exemptions sys c2)) fd"
      by (rule apply_exemptions_keeps) (use that(1) a(7) c2(3) in simp)
    ultimately show ?thesis using s by simp
  qed
  ultimately show ?thesis using a(1) s by blast
qed

text \<open>C9: An application on the denylist that is neither the manager nor granted root is never moved to the namespace with the
  mounts of root.  It is moved to the clean one exactly when the zygote was not cleaned itself, the daemon serves the clean
  namespace and \<open>setns\<close> succeeds; when one of these two fails it is left where the zygote was.  The manager and an application
  with root are never moved to the clean one.  The flags are those the daemon gives for the uid of the application, unless
  that is one of an isolated process.  Modules cannot change this.\<close>

theorem denylisted_mount_view:
  assumes "zygote_ready sys w" "forked_as_child sys n w" "\<forall>code \<in> loaded sys. well_behaved code" "ns_log w = []"
    "flags AND CLONE_NEWNS \<noteq> 0"
  shows "\<exists>w1 c h w2. nativeForkAndSpecialize_pre sys (w\<lparr>g_ctx := Some (new_context n ignore)\<rparr>) = Some w1
    \<and> g_ctx w1 = Some c \<and> g_hook w1 = Some h \<and> new_unshare sys flags w1 = Some w2
    \<and> (\<not> is_isolated_aid (s_uid sys) \<longrightarrow> z_info_flags c = s_process_flags sys (s_uid sys))
    \<and> (z_info_flags c AND (IS_MANAGER OR GRANTED_ROOT) = 0 \<and> z_info_flags c AND UNMOUNT_MASK = UNMOUNT_MASK \<longrightarrow>
         ns_log w2 = (if \<not> (h_zygote_unmounted_times h > 0 \<and> h_zygote_traces h = []) \<and> s_namespace sys CleanNs \<and> s_setns sys CleanNs
           then [SetNs CleanNs] else []))
    \<and> (z_info_flags c AND (IS_MANAGER OR GRANTED_ROOT) \<noteq> 0 \<longrightarrow> SetNs CleanNs \<notin> set (w_log w2))"
proof -
  obtain w' w1 c where a: "nativeForkAndSpecialize_pre sys (w\<lparr>g_ctx := Some (new_context n ignore)\<rparr>) = Some w'"
    "app_specialize_pre sys w1 \<bind> sanitize_fds sys = Some w'" "g_ctx w1 = Some c" "z_modules c = []" "z_pid c = s_fork sys"
    "z_flags c = APP_FORK_AND_SPECIALIZE" "g_hook w1 \<noteq> None" "ns_log w1 = ns_log w" "z_info_flags c = 0 \<or> z_info_flags c = s_process_flags sys (s_uid sys)"
    using fork_and_specialize_child [OF assms(1-3), of ignore] by blast
  obtain w2 where w2: "app_specialize_pre sys w1 = Some w2" "sanitize_fds sys w2 = Some w'"
    using a(2) unfolding bind_eq_Some_conv by blast
  obtain c2 where c2: "g_ctx w2 = Some c2" "z_pid c2 = z_pid c" "z_info_flags c2 = settled_info sys c"
    "z_flags c2 OR DO_REVERT_UNMOUNT = settled_flags sys c OR DO_REVERT_UNMOUNT" "g_hook w2 = g_hook w1" "ns_log w2 = ns_log w1"
    "settled_info sys c AND UNMOUNT_MASK = UNMOUNT_MASK \<longrightarrow> z_flags c2 AND DO_REVERT_UNMOUNT \<noteq> 0"
    using app_specialize_pre_frame [OF w2(1) a(3,4)] by blast
  have "z_pid c2 \<le> 0" "s_dir_post sys" using assms(2) c2(2) a(5) by (simp_all add: forked_as_child_def)
  note s = sanitize_fds_child [OF w2(2) c2(1) this]
  have e: "z_flags (apply_exemptions sys c2) = z_flags c2" "z_info_flags (apply_exemptions sys c2) = z_info_flags c2"
    by (simp_all add: apply_exemptions_def update_fd_array_def split: option.splits)
  have "z_flags c2 AND SERVER_FORK_AND_SPECIALIZE = (z_flags c2 OR DO_REVERT_UNMOUNT) AND SERVER_FORK_AND_SPECIALIZE"
    by (simp add: bit.conj_disj_distrib2)
  also have "\<dots> = 0" unfolding c2(4) settled_flags_def a(6) by (simp add: bit.conj_disj_distrib2)
  finally have f: "z_flags c2 AND SERVER_FORK_AND_SPECIALIZE = 0" .
  obtain h where h: "g_hook w' = Some h" using s c2(5) a(7) by auto
  have l: "ns_log w' = []" using s c2(6) a(8) assms(4) by simp
  have u: "g_ctx w' = Some (apply_exemptions sys c2)" using s by blast
  have n: "SetNs CleanNs \<notin> set (w_log w')" using l by (auto simp: filter_empty_conv)
  let ?c = "apply_exemptions sys c2"
  let ?r = "if \<not> should_revert ?c \<and> h_zygote_unmounted_times h > 0 then snd (update_mount_namespace sys RootNs w') else w'"
  have "new_unshare sys flags w' = Some (if should_revert ?c \<and> \<not> (h_zygote_unmounted_times h > 0 \<and> h_zygote_traces h = [])
      then snd (update_mount_namespace sys CleanNs ?r) else ?r)" (is "_ = Some ?w")
    unfolding new_unshare_def u option.case e(1) using assms(5) f h by (simp add: Let_def)
  moreover have "ns_log ?w = (if \<not> (h_zygote_unmounted_times h > 0 \<and> h_zygote_traces h = []) \<and> s_namespace sys CleanNs \<and> s_setns sys CleanNs
      then [SetNs CleanNs] else [])"
    if "z_info_flags ?c AND (IS_MANAGER OR GRANTED_ROOT) = 0" "z_info_flags ?c AND UNMOUNT_MASK = UNMOUNT_MASK"
  proof -
    have "should_revert ?c" using that c2(3,7) unfolding should_revert_def e by simp
    thus ?thesis using l by (simp add: update_mount_namespace_def)
  qed
  moreover have "SetNs CleanNs \<notin> set (w_log ?w)" if "z_info_flags ?c AND (IS_MANAGER OR GRANTED_ROOT) \<noteq> 0"
  proof -
    have "\<not> should_revert ?c" using that unfolding should_revert_def by simp
    thus ?thesis using n by (simp add: update_mount_namespace_def)
  qed
  moreover have "\<not> is_isolated_aid (s_uid sys) \<longrightarrow> z_info_flags ?c = s_process_flags sys (s_uid sys)"
    using a(9) unfolding e c2(3) by (auto simp: settled_info_def daemon_skipped_def asked_uid_def)
  ultimately show ?thesis using a(1) u h by blast
qed

definition is_module_event :: "event \<Rightarrow> bool" where
  "is_module_event e = (case e of Called cb i \<Rightarrow> True | Told i f \<Rightarrow> True | Unloaded i \<Rightarrow> True | _ \<Rightarrow> False)"

lemma new_unshare_frame:
  assumes "g_ctx w = Some c" "g_hook w \<noteq> None"
  shows "\<exists>w'. new_unshare sys flags w = Some w' \<and> g_ctx w' = Some c \<and> g_hook w' = g_hook w \<and> w_fds w' = w_fds w
    \<and> filter is_module_event (w_log w') = filter is_module_event (w_log w)"
  using assms by (auto simp: new_unshare_def update_mount_namespace_def is_module_event_def Let_def)

lemma post_without_modules:
  assumes "g_ctx w = Some c" "z_modules c = []"
  shows "\<exists>w' c'. nativeForkAndSpecialize_post sys w = Some w' \<and> g_ctx w' = Some c' \<and> z_pid c' = z_pid c \<and> g_hook w' = g_hook w
    \<and> w_fds w' = w_fds w \<and> filter is_module_event (w_log w') = filter is_module_event (w_log w)"
  using assms by (auto simp: nativeForkAndSpecialize_post_def app_specialize_post_def run_modules_post_def raise_flags_def
      fork_post_def is_module_event_def Let_def)

lemma end_context_frame:
  assumes "g_ctx w = Some c"
  shows "\<exists>w'. end_context w = Some w' \<and> w_fds w' = w_fds w \<and> filter is_module_event (w_log w') = filter is_module_event (w_log w)"
  using assms by (auto simp: end_context_def is_module_event_def Let_def split: option.splits)

text \<open>C16: In an application on the exclusion list no module runs, is told anything or is unloaded, from the fork to the end
  of the specialization, and the process has exactly the descriptors of the zygote: all of this whatever the modules
  are.\<close>

theorem excluded_app_untouched:
  assumes "zygote_ready sys w" "forked_as_child sys n w" "\<not> is_isolated_aid (s_uid sys)"
    "s_process_flags sys (s_uid sys) AND EXCLUDED = EXCLUDED"
  shows "\<exists>w'. hooked_forkAndSpecialize sys (new_unshare sys flags) n ignore w = Some (s_fork sys, w')
    \<and> filter is_module_event (w_log w') = filter is_module_event (w_log w) \<and> set (w_fds w') = set (w_fds w)"
proof -
  obtain w1 c where s: "nativeForkAndSpecialize_pre sys (w\<lparr>g_ctx := Some (new_context n ignore)\<rparr>) = app_specialize_pre sys w1 \<bind> sanitize_fds sys"
    "g_ctx w1 = Some c" "z_modules c = []" "z_pid c = s_fork sys" "z_info_flags c = 0 \<or> z_info_flags c = s_process_flags sys (s_uid sys)"
    "w_fds w1 = w_fds w" "g_hook w1 \<noteq> None" "umounts_only w w1"
    "\<forall>fd. marked (z_allowed_fds c) fd \<longleftrightarrow> fd \<in> set (w_fds w)"
    using child_start [OF assms(1,2), of ignore] by (elim exE conjE)
  have i: "settled_info sys c = s_process_flags sys (s_uid sys)"
    using s(5) assms(3) by (auto simp: settled_info_def daemon_skipped_def asked_uid_def)
  let ?c2 = "c\<lparr>z_info_flags := settled_info sys c, z_flags := settled_flags sys c\<rparr>"
  define w2 where "w2 = w1\<lparr>g_ctx := Some ?c2\<rparr>"
  have w2: "app_specialize_pre sys w1 = Some w2" using app_specialize_pre_eq [OF s(2), of sys] assms(4) by (simp add: w2_def i)
  have g2: "g_ctx w2 = Some ?c2" by (simp add: w2_def)
  obtain w3 where w3: "sanitize_fds sys w2 = Some w3" using sanitize_fds_returns [OF g2] by blast
  have p: "z_pid ?c2 \<le> 0" "s_dir_post sys" using assms(2) s(4) by (simp_all add: forked_as_child_def)
  let ?c3 = "apply_exemptions sys ?c2"
  have e: "z_modules ?c3 = []" "z_pid ?c3 = s_fork sys" using s(3,4)
    by (simp_all add: apply_exemptions_def update_fd_array_def split: option.splits)
  have g3: "g_ctx w3 = Some ?c3" "g_hook w3 \<noteq> None" "w_log w3 = w_log w1" "set (w_fds w3) = set (w_fds w)"
    using sanitize_fds_child [OF w3 g2 p] s(6,7,9) apply_exemptions_keeps [of ?c2 _ sys] by (auto simp: w2_def)
  obtain w4 where w4: "new_unshare sys flags w3 = Some w4" "g_ctx w4 = Some ?c3" "g_hook w4 = g_hook w3" "w_fds w4 = w_fds w3"
    "filter is_module_event (w_log w4) = filter is_module_event (w_log w3)"
    using new_unshare_frame [OF g3(1,2), of sys flags] by blast
  obtain w5 c5 where w5: "nativeForkAndSpecialize_post sys w4 = Some w5" "g_ctx w5 = Some c5" "z_pid c5 = z_pid ?c3" "g_hook w5 = g_hook w4"
    "w_fds w5 = w_fds w4" "filter is_module_event (w_log w5) = filter is_module_event (w_log w4)"
    using post_without_modules [OF w4(2) e(1), of sys] by blast
  have "filter is_module_event (w_log w1) = filter is_module_event (w_log w)"
    using s(8) by (auto simp: umounts_only_def filter_empty_conv is_module_event_def)
  thus ?thesis
    using end_context_frame [OF w5(2)] s(1) w2 w3 w4 w5 g3(3,4) e(2)
    by (auto simp: hooked_forkAndSpecialize_def hooked_def)
qed

text \<open>C38: A module whose version is above 5 is refused, but stays on the list: the next step calls its callback through the
  pointer that the refusal left null, so the process crashes.  \<open>valid\<close>, which tests the pointer, is not called.\<close>

theorem refused_module_crashes:
  assumes "zygote_ready sys w" "forked_as_child sys n w" "\<not> is_isolated_aid (s_uid sys)"
    "s_process_flags sys (s_uid sys) AND EXCLUDED \<noteq> EXCLUDED" "s_images sys = Some (by_system, code) # images" "mc_version code > 5"
  shows "nativeForkAndSpecialize_pre sys (w\<lparr>g_ctx := Some (new_context n ignore)\<rparr>) = None"
proof -
  obtain w1 c where s: "nativeForkAndSpecialize_pre sys (w\<lparr>g_ctx := Some (new_context n ignore)\<rparr>) = app_specialize_pre sys w1 \<bind> sanitize_fds sys"
    "g_ctx w1 = Some c" "z_modules c = []" "z_info_flags c = 0 \<or> z_info_flags c = s_process_flags sys (s_uid sys)"
    using child_start [OF assms(1,2), of ignore] by (elim exE conjE)
  have i: "settled_info sys c = s_process_flags sys (s_uid sys)" "\<not> daemon_skipped sys"
    using s(4) assms(3) by (auto simp: settled_info_def daemon_skipped_def asked_uid_def)
  let ?m = "\<lparr>zm_id = 0, zm_system = by_system, zm_code = code, zm_unload = False, zm_api = 0, zm_version = None\<rparr>"
  have "settled_flags sys c AND APP_SPECIALIZE \<noteq> 0" unfolding settled_flags_def raised by simp
  hence "module_pre sys ?m (w1\<lparr>g_ctx := Some (c\<lparr>z_info_flags := settled_info sys c, z_flags := settled_flags sys c\<rparr>)\<rparr>) = None"
    using assms(6) by (simp add: module_pre_def onLoad_def RegisterModuleImpl_def specialize_callback_def call_app_def)
  hence "app_specialize_pre sys w1 = None"
    using assms(4,5) i s(3) unfolding app_specialize_pre_eq [OF s(2)] by (simp add: run_modules_pre_def)
  thus ?thesis using s(1) by simp
qed

section \<open>Concrete runs\<close>

definition sample_code :: module_code where
  "sample_code = \<lparr>mc_version = 5, mc_calls = (\<lambda>cb. if cb = PreApp then [OpenFd 7, OpenFd 8, ExemptFd 8, SetOption DLCLOSE_MODULE_LIBRARY] else [])\<rparr>"

definition sample_system :: "u32 \<Rightarrow> module_code \<Rightarrow> system" where
  "sample_system info code = \<lparr>s_fork = 0, s_dir_pre = True, s_dir_post = True, s_new_array = True, s_uid = 10001, s_data_owner = None,
     s_nice_name = Some (cstring ''app''), s_anonymous = False, s_connect = True, s_process_flags = (\<lambda>_. info),
     s_images = [Some (False, code)], s_dlclose = (\<lambda>_. True), s_mountinfo = None, s_umount = (\<lambda>_. True),
     s_regcomp = (\<lambda>_. None), s_namespace = (\<lambda>_. True), s_setns = (\<lambda>_. True)\<rparr>"

definition sample_world :: world where
  "sample_world = \<lparr>g_ctx = None, g_hook = Some \<lparr>h_should_spoof_maps = False, h_anonymous_memory_enabled = False, h_should_unmap = False,
     h_zygote_unmounted_times = 0, h_cached_map_infos = [], h_zygote_traces = []\<rparr>,
     w_fds = [0, 1, 2], w_sigchld_blocked = False, w_zygisk_enabled = False, w_log = []\<rparr>"

lemma sample_ready: "zygote_ready (sample_system info code) sample_world"
  by (simp add: zygote_ready_def sample_world_def sample_system_def check_zygote_traces_def parse_mount_info_def)

lemma sample_forked: "forked_as_child (sample_system info code) 16 sample_world"
  by (simp add: forked_as_child_def sample_world_def sample_system_def)

lemma sample_loaded: "\<forall>code \<in> loaded (sample_system info sample_code). well_behaved code"
  by (simp add: loaded_def sample_system_def well_behaved_def sample_code_def)

theorem child_descriptors_witness:
  "\<exists>w' c. nativeForkAndSpecialize_pre (sample_system 0 sample_code) (sample_world\<lparr>g_ctx := Some (new_context 16 (Some None))\<rparr>) = Some w'
    \<and> g_ctx w' = Some c \<and> {0, 1, 2} \<subseteq> set (w_fds w')"
proof -
  have "spares fd sample_code" for fd by (simp add: spares_def sample_code_def)
  hence "\<forall>code \<in> loaded (sample_system 0 sample_code). spares fd code" for fd by (simp add: loaded_def sample_system_def)
  thus ?thesis using child_descriptors [OF sample_ready sample_forked sample_loaded, of 0 "Some None"]
    by (fastforce simp: sample_world_def)
qed

theorem denylisted_mount_view_witness:
  "\<exists>w1 c h w2. nativeForkAndSpecialize_pre (sample_system 2 sample_code) (sample_world\<lparr>g_ctx := Some (new_context 16 (Some None))\<rparr>) = Some w1
    \<and> g_ctx w1 = Some c \<and> g_hook w1 = Some h \<and> new_unshare (sample_system 2 sample_code) CLONE_NEWNS w1 = Some w2
    \<and> ns_log w2 = (if h_zygote_unmounted_times h > 0 \<and> h_zygote_traces h = [] then [] else [SetNs CleanNs])"
proof -
  let ?s = "sample_system 2 sample_code"
  have i: "\<not> is_isolated_aid (s_uid ?s)" "s_process_flags ?s (s_uid ?s) = 2" "s_namespace ?s CleanNs" "s_setns ?s CleanNs"
    by (simp_all add: is_isolated_aid_def sample_system_def)
  have "ns_log sample_world = []" "CLONE_NEWNS AND CLONE_NEWNS \<noteq> 0" by (simp_all add: sample_world_def)
  with denylisted_mount_view [OF sample_ready sample_forked sample_loaded, of CLONE_NEWNS 2 "Some None"] obtain w1 c h w2
    where r: "nativeForkAndSpecialize_pre ?s (sample_world\<lparr>g_ctx := Some (new_context 16 (Some None))\<rparr>) = Some w1"
      "g_ctx w1 = Some c" "g_hook w1 = Some h" "new_unshare ?s CLONE_NEWNS w1 = Some w2" "z_info_flags c = 2"
      "z_info_flags c AND (IS_MANAGER OR GRANTED_ROOT) = 0 \<and> z_info_flags c AND UNMOUNT_MASK = UNMOUNT_MASK \<longrightarrow>
         ns_log w2 = (if \<not> (h_zygote_unmounted_times h > 0 \<and> h_zygote_traces h = []) \<and> s_namespace ?s CleanNs \<and> s_setns ?s CleanNs
           then [SetNs CleanNs] else [])"
    using i(1,2) by metis
  have "ns_log w2 = (if \<not> (h_zygote_unmounted_times h > 0 \<and> h_zygote_traces h = []) \<and> s_namespace ?s CleanNs \<and> s_setns ?s CleanNs
      then [SetNs CleanNs] else [])"
    by (rule mp [OF r(6)]) (simp add: r(5))
  hence "ns_log w2 = (if h_zygote_unmounted_times h > 0 \<and> h_zygote_traces h = [] then [] else [SetNs CleanNs])"
    using i(3,4) by simp
  thus ?thesis using r(1-4) by blast
qed

theorem excluded_app_untouched_witness:
  "\<exists>w'. hooked_forkAndSpecialize (sample_system EXCLUDED sample_code) (new_unshare (sample_system EXCLUDED sample_code) CLONE_NEWNS) 16 (Some None) sample_world
      = Some (0, w') \<and> filter is_module_event (w_log w') = [] \<and> set (w_fds w') = {0, 1, 2}"
proof -
  have "\<not> is_isolated_aid (s_uid (sample_system EXCLUDED sample_code))" by (simp add: is_isolated_aid_def sample_system_def)
  moreover have "s_process_flags (sample_system EXCLUDED sample_code) (s_uid (sample_system EXCLUDED sample_code)) AND EXCLUDED = EXCLUDED"
    by (simp add: sample_system_def)
  ultimately show ?thesis
    using excluded_app_untouched [OF sample_ready sample_forked, of EXCLUDED sample_code CLONE_NEWNS "Some None"]
    by (simp add: sample_world_def sample_system_def)
qed

theorem refused_module_crashes_witness:
  "nativeForkAndSpecialize_pre (sample_system 0 (sample_code\<lparr>mc_version := 6\<rparr>)) (sample_world\<lparr>g_ctx := Some (new_context 16 None)\<rparr>) = None"
  by (rule refused_module_crashes [OF sample_ready sample_forked, where by_system = False and images = "[]" and code = "sample_code\<lparr>mc_version := 6\<rparr>"])
    (simp_all add: is_isolated_aid_def sample_system_def sample_code_def)

end
